(* ===== verification/Prelude.thy ===== *)
theory Prelude
  imports Main "HOL-Library.Word" "HOL-Library.List_Lexorder" "HOL-Library.Char_ord"
begin

unbundle bit_operations_syntax

text \<open>
  The base of the development: the machine integers of the Rust sources as words, the little-endian
  encoding of the standard library (\<open>to_le_bytes\<close>, \<open>from_le_bytes\<close>), saturating and checked
  arithmetic, byte slices, UTF-8 strings as lists of bytes with the \<open>str\<close> methods the sources call,
  decimal printing and parsing, and a few facts on lists, options and sums that every component uses.

  A Rust \<open>String\<close> is a UTF-8 byte sequence; it is modelled by \<open>string\<close>, one \<open>char\<close> per byte, so that
  \<open>length\<close> is Rust's \<open>len()\<close> and byte indices are Rust's byte indices. A \<open>Vec<u8>\<close> is a \<open>bytes\<close>.
  An \<open>i32\<close> or \<open>i64\<close> is a word read with \<open>sint\<close>, a \<open>usize\<close> is a \<open>nat\<close> whose 64-bit limit is written
  out where the code checks it, and an \<open>f32\<close> is its 32 bits (the sources only copy and compare bits).
\<close>

section \<open>Types\<close>

type_synonym u8 = "8 word"
type_synonym u16 = "16 word"
type_synonym u32 = "32 word"
type_synonym u64 = "64 word"
type_synonym i32 = "32 word"
type_synonym i64 = "64 word"
type_synonym f32 = "32 word"
type_synonym bytes = "u8 list"

named_theorems wire_simps \<open>layout and length facts of the wire encodings\<close>
named_theorems str_simps \<open>equations of the modelled str methods\<close>
named_theorems sat_simps \<open>readings of the saturating operations\<close>

section \<open>Little-endian words\<close>

primrec le_bytes :: "nat \<Rightarrow> 'a::len word \<Rightarrow> bytes" where
  "le_bytes 0 w = []"
| "le_bytes (Suc n) w = ucast w # le_bytes n (drop_bit 8 w)"

primrec le_word :: "bytes \<Rightarrow> 'a::len word" where
  "le_word [] = 0"
| "le_word (b # bs) = ucast b OR push_bit 8 (le_word bs)"

text \<open>The half-open byte range \<open>buf[a..b]\<close> of a slice that is long enough.\<close>

definition slice :: "nat \<Rightarrow> nat \<Rightarrow> 'a list \<Rightarrow> 'a list" where
  "slice a b xs = take (b - a) (drop a xs)"

lemma length_le_bytes [simp]: "length (le_bytes n w) = n"
  by (induction n arbitrary: w) auto

lemma le_word_le_bytes: "le_word (le_bytes n w) = take_bit (8 * n) w"
proof (induction n arbitrary: w)
  case 0
  show ?case by simp
next
  case (Suc n)
  show ?case
    by (rule bit_word_eqI) (auto simp: Suc bit_simps)
qed

lemma le_word_le_bytes_id [simp]:
  "LENGTH('a) \<le> 8 * n \<Longrightarrow> le_word (le_bytes n (w :: 'a::len word)) = w"
  by (simp add: le_word_le_bytes take_bit_word_eq_self)

lemma bit_le_word_bound: "bit (le_word bs :: 'a::len word) k \<Longrightarrow> k < 8 * length bs"
proof (induction bs arbitrary: k)
  case Nil
  then show ?case by simp
next
  case (Cons b bs)
  then consider "bit b k" | "8 \<le> k" "bit (le_word bs :: 'a word) (k - 8)"
    by (auto simp: bit_simps)
  then show ?case
  proof cases
    case 1
    then have "k < 8" by (auto dest: bit_imp_le_length)
    then show ?thesis by simp
  next
    case 2
    from Cons.IH [OF 2(2)] 2(1) show ?thesis by simp
  qed
qed

lemma drop_bit_le_word:
  assumes "8 * length (b # bs) \<le> LENGTH('a)"
  shows "drop_bit 8 (le_word (b # bs) :: 'a::len word) = le_word bs"
proof (rule bit_word_eqI)
  fix n assume "n < LENGTH('a)"
  have "bit (le_word bs :: 'a word) n \<Longrightarrow> n + 8 < LENGTH('a)"
    using bit_le_word_bound [of bs n] assms by fastforce
  then show "bit (drop_bit 8 (le_word (b # bs) :: 'a word)) n = bit (le_word bs :: 'a word) n"
    by (auto simp: bit_simps dest: bit_imp_le_length)
qed

lemma le_bytes_le_word:
  "8 * length bs \<le> LENGTH('a) \<Longrightarrow> le_bytes (length bs) (le_word bs :: 'a::len word) = bs"
proof (induction bs)
  case Nil
  show ?case by simp
next
  case (Cons b bs)
  have "ucast (le_word (b # bs) :: 'a word) = b"
    by (rule bit_word_eqI) (use Cons.prems in \<open>auto simp: bit_simps\<close>)
  with Cons drop_bit_le_word [OF Cons.prems] show ?case
    by (simp del: le_word.simps)
qed

lemma slice_append_left:
  "b \<le> length xs \<Longrightarrow> slice a b (xs @ ys) = slice a b xs"
  by (simp add: slice_def)

lemma slice_all: "n = length xs \<Longrightarrow> slice 0 n xs = xs"
  by (simp add: slice_def)

lemma slice_skip: "length xs = n \<Longrightarrow> n \<le> a \<Longrightarrow> slice a b (xs @ ys) = slice (a - n) (b - n) ys"
  by (simp add: slice_def)

lemma slice_here: "length xs = n \<Longrightarrow> slice 0 n (xs @ ys) = xs"
  by (simp add: slice_def)

lemma length_slice [simp]: "length (slice a b xs) = min (b - a) (length xs - a)"
  by (simp add: slice_def)

lemma slice_split: "a \<le> b \<Longrightarrow> b \<le> c \<Longrightarrow> slice a b xs @ slice b c xs = slice a c xs"
proof -
  assume "a \<le> b" "b \<le> c"
  then have "c - a = (b - a) + (c - b)" "drop b xs = drop (b - a) (drop a xs)" by simp_all
  then show ?thesis by (simp only: slice_def take_add)
qed

section \<open>Saturating and checked arithmetic\<close>

text \<open>\<open>sat_signed\<close> and \<open>sat_unsigned\<close> clamp an exact result into the width, as \<open>saturating_add\<close> and
  \<open>saturating_mul\<close> do; \<open>usize_checked_mul\<close> is \<open>usize::checked_mul\<close> on a 64-bit target.\<close>

definition sat_signed :: "int \<Rightarrow> 'a::len word" where
  "sat_signed i = word_of_int (max (- (2 ^ (LENGTH('a) - 1))) (min (2 ^ (LENGTH('a) - 1) - 1) i))"

definition sat_unsigned :: "nat \<Rightarrow> 'a::len word" where
  "sat_unsigned n = word_of_nat (min (2 ^ LENGTH('a) - 1) n)"

definition sat_add_s :: "'a::len word \<Rightarrow> 'a word \<Rightarrow> 'a word" where
  "sat_add_s a b = sat_signed (sint a + sint b)"

definition sat_mul_s :: "'a::len word \<Rightarrow> 'a word \<Rightarrow> 'a word" where
  "sat_mul_s a b = sat_signed (sint a * sint b)"

definition sat_add_u :: "'a::len word \<Rightarrow> 'a word \<Rightarrow> 'a word" where
  "sat_add_u a b = sat_unsigned (unat a + unat b)"

definition usize_max :: nat where
  "usize_max = 2 ^ 64 - 1"

definition usize_checked_mul :: "nat \<Rightarrow> nat \<Rightarrow> nat option" where
  "usize_checked_mul a b = (if a * b \<le> usize_max then Some (a * b) else None)"

definition usize_saturating_add :: "nat \<Rightarrow> nat \<Rightarrow> nat" where
  "usize_saturating_add a b = min usize_max (a + b)"

definition usize_saturating_mul :: "nat \<Rightarrow> nat \<Rightarrow> nat" where
  "usize_saturating_mul a b = min usize_max (a * b)"

text \<open>\<open>x.max(0) as usize\<close> on a signed word.\<close>

definition nonneg :: "'a::len word \<Rightarrow> nat" where
  "nonneg w = nat (max 0 (sint w))"

lemma sint_sat_signed [sat_simps]:
  "sint (sat_signed i :: 'a::len word) =
     max (- (2 ^ (LENGTH('a) - 1))) (min (2 ^ (LENGTH('a) - 1) - 1) i)"
  unfolding sat_signed_def sint_sbintrunc'
  by (rule signed_take_bit_int_eq_self) (auto simp: min_def max_def)

lemma unat_sat_unsigned [sat_simps]:
  "unat (sat_unsigned n :: 'a::len word) = min (2 ^ LENGTH('a) - 1) n"
  unfolding sat_unsigned_def
  by (simp add: unat_of_nat min_less_iff_disj mod_less)

lemma sint_lower: "- (2 ^ (LENGTH('a) - 1)) \<le> sint (w :: 'a::len word)"
  by (rule sint_ge)

lemma sint_upper: "sint (w :: 'a::len word) < 2 ^ (LENGTH('a) - 1)"
  by (rule sint_lt)

lemma sat_add_s_ge:
  "0 \<le> sint b \<Longrightarrow> sint a \<le> sint (sat_add_s a (b :: 'a::len word))"
  using sint_lower [of a] sint_upper [of a] by (simp add: sat_add_s_def sat_simps)

lemma sat_add_s_exact:
  "sint a + sint b < 2 ^ (LENGTH('a) - 1) \<Longrightarrow> - (2 ^ (LENGTH('a) - 1)) \<le> sint a + sint b \<Longrightarrow>
     sint (sat_add_s a (b :: 'a::len word)) = sint a + sint b"
  by (simp add: sat_add_s_def sat_simps)

lemma unat_sat_add_u [sat_simps]:
  "unat (sat_add_u a (b :: 'a::len word)) = min (2 ^ LENGTH('a) - 1) (unat a + unat b)"
  by (simp add: sat_add_u_def sat_simps)

lemma sat_add_u_ge: "unat a \<le> unat (sat_add_u a (b :: 'a::len word))"
proof -
  have "unat a < 2 ^ LENGTH('a)" by (rule unsigned_less)
  then have "unat a \<le> 2 ^ LENGTH('a) - 1" by linarith
  then show ?thesis by (simp add: sat_simps)
qed

lemma sint_of_nat_small:
  "n < 2 ^ (LENGTH('a) - 1) \<Longrightarrow> sint (word_of_nat n :: 'a::len word) = int n"
proof -
  assume n: "n < 2 ^ (LENGTH('a) - 1)"
  have "(word_of_nat n :: 'a word) = word_of_int (int n)" by simp
  then have "sint (word_of_nat n :: 'a word) = signed_take_bit (LENGTH('a) - 1) (int n)"
    by (simp only: sint_sbintrunc')
  also have "\<dots> = int n"
  proof (rule signed_take_bit_int_eq_self)
    show "- (2 ^ (LENGTH('a) - 1)) \<le> int n" by (rule order_trans [of _ 0]) simp_all
    show "int n < 2 ^ (LENGTH('a) - 1)" using n by (metis of_nat_less_iff of_nat_numeral of_nat_power)
  qed
  finally show ?thesis .
qed

lemma nonneg_of_nat [simp]:
  "n < 2 ^ (LENGTH('a) - 1) \<Longrightarrow> nonneg (word_of_nat n :: 'a::len word) = n"
  by (simp only: nonneg_def sint_of_nat_small max_def) simp

end
