(* ===== verification/Rust_Str.thy ===== *)
theory Rust_Str
  imports Prelude
begin

text \<open>
  The \<open>str\<close> methods of the Rust standard library that the sources call, on UTF-8 byte strings:
  searching, splitting, replacing, trimming by the Unicode White_Space property, ASCII case mapping,
  decimal and hexadecimal formatting, \<open>parse::<u16>\<close> and \<open>parse::<i32>\<close>, UTF-8 validation and lossy
  decoding. The lemmas are the laws the parsers and printers of the other theories rest on.
\<close>

section \<open>Definitions\<close>

definition u8_of_char :: "char \<Rightarrow> u8" where
  "u8_of_char c = word_of_nat (of_char c)"

definition char_of_u8 :: "u8 \<Rightarrow> char" where
  "char_of_u8 w = char_of (unat w)"

definition as_bytes :: "string \<Rightarrow> bytes" where
  "as_bytes s = map u8_of_char s"

definition of_bytes :: "bytes \<Rightarrow> string" where
  "of_bytes bs = map char_of_u8 bs"

subsection \<open>Searching and splitting\<close>

definition starts_with :: "string \<Rightarrow> string \<Rightarrow> bool" where
  "starts_with p s \<longleftrightarrow> take (length p) s = p"

definition ends_with :: "string \<Rightarrow> string \<Rightarrow> bool" where
  "ends_with p s \<longleftrightarrow> length p \<le> length s \<and> drop (length s - length p) s = p"

definition strip_prefix :: "string \<Rightarrow> string \<Rightarrow> string option" where
  "strip_prefix p s = (if starts_with p s then Some (drop (length p) s) else None)"

fun str_find :: "string \<Rightarrow> string \<Rightarrow> nat option" where
  "str_find p [] = (if p = [] then Some 0 else None)"
| "str_find p (c # s) = (if starts_with p (c # s) then Some 0 else map_option Suc (str_find p s))"

definition str_contains :: "string \<Rightarrow> string \<Rightarrow> bool" where
  "str_contains p s \<longleftrightarrow> str_find p s \<noteq> None"

fun char_find :: "char \<Rightarrow> string \<Rightarrow> nat option" where
  "char_find x [] = None"
| "char_find x (c # s) = (if c = x then Some 0 else map_option Suc (char_find x s))"

fun char_rfind :: "char \<Rightarrow> string \<Rightarrow> nat option" where
  "char_rfind x [] = None"
| "char_rfind x (c # s) =
     (case char_rfind x s of
        Some i \<Rightarrow> Some (Suc i)
      | None \<Rightarrow> (if c = x then Some 0 else None))"

definition split_once :: "char \<Rightarrow> string \<Rightarrow> (string \<times> string) option" where
  "split_once x s = map_option (\<lambda>i. (take i s, drop (Suc i) s)) (char_find x s)"

definition rsplit_once :: "char \<Rightarrow> string \<Rightarrow> (string \<times> string) option" where
  "rsplit_once x s = map_option (\<lambda>i. (take i s, drop (Suc i) s)) (char_rfind x s)"

subsection \<open>Replacing\<close>

text \<open>\<open>s.replace(c, r)\<close> for a one-byte pattern, \<open>s.replace([c, ...], "")\<close>, and
  \<open>s.replace("pat", r)\<close> for a string pattern (leftmost, non-overlapping).\<close>

definition replace_char :: "char \<Rightarrow> string \<Rightarrow> string \<Rightarrow> string" where
  "replace_char c r s = concat (map (\<lambda>x. if x = c then r else [x]) s)"

definition remove_chars :: "char list \<Rightarrow> string \<Rightarrow> string" where
  "remove_chars cs s = filter (\<lambda>x. x \<notin> set cs) s"

function replace_str :: "string \<Rightarrow> string \<Rightarrow> string \<Rightarrow> string" where
  "replace_str p r [] = []"
| "replace_str p r (c # s) =
     (if p \<noteq> [] \<and> starts_with p (c # s) then r @ replace_str p r (drop (length p) (c # s))
      else c # replace_str p r s)"
  by pat_completeness auto
termination
  by (relation "measure (\<lambda>(p, r, s). length s)") auto

subsection \<open>Trimming\<close>

text \<open>The UTF-8 encodings of the characters with the Unicode White_Space property, by length.\<close>

definition ws1 :: "char \<Rightarrow> bool" where
  "ws1 c = (let n = (of_char c :: nat) in (9 \<le> n \<and> n \<le> 13) \<or> n = 32)"

definition ws2 :: "char \<Rightarrow> char \<Rightarrow> bool" where
  "ws2 c d = ((of_char c :: nat) = 0xC2 \<and> (of_char d :: nat) \<in> {0x85, 0xA0})"

definition ws3 :: "char \<Rightarrow> char \<Rightarrow> char \<Rightarrow> bool" where
  "ws3 c d e =
     (let l = (of_char c :: nat); m = (of_char d :: nat); n = (of_char e :: nat) in
        (l = 0xE1 \<and> m = 0x9A \<and> n = 0x80) \<or>
        (l = 0xE2 \<and> m = 0x80 \<and> ((0x80 \<le> n \<and> n \<le> 0x8A) \<or> n \<in> {0xA8, 0xA9, 0xAF})) \<or>
        (l = 0xE2 \<and> m = 0x81 \<and> n = 0x9F) \<or>
        (l = 0xE3 \<and> m = 0x80 \<and> n = 0x80))"

text \<open>Length of the whitespace character at the start of \<open>s\<close> (0 if there is none), and of the one at
  the end, read off the reversed string.\<close>

definition ws_start :: "string \<Rightarrow> nat" where
  "ws_start s = (case s of [] \<Rightarrow> 0 | c # s1 \<Rightarrow> if ws1 c then 1 else
     (case s1 of [] \<Rightarrow> 0 | d # s2 \<Rightarrow> if ws2 c d then 2 else
        (case s2 of [] \<Rightarrow> 0 | e # s3 \<Rightarrow> if ws3 c d e then 3 else 0)))"

definition ws_end_rev :: "string \<Rightarrow> nat" where
  "ws_end_rev s = (case s of [] \<Rightarrow> 0 | c # s1 \<Rightarrow> if ws1 c then 1 else
     (case s1 of [] \<Rightarrow> 0 | d # s2 \<Rightarrow> if ws2 d c then 2 else
        (case s2 of [] \<Rightarrow> 0 | e # s3 \<Rightarrow> if ws3 e d c then 3 else 0)))"

function strip_while :: "(string \<Rightarrow> nat) \<Rightarrow> string \<Rightarrow> string" where
  "strip_while f s = (if s = [] \<or> f s = 0 then s else strip_while f (drop (f s) s))"
  by pat_completeness auto
termination
  by (relation "measure (\<lambda>(f, s). length s)") auto

declare strip_while.simps [simp del]

definition trim_start :: "string \<Rightarrow> string" where
  "trim_start s = strip_while ws_start s"

definition trim_end :: "string \<Rightarrow> string" where
  "trim_end s = rev (strip_while ws_end_rev (rev s))"

definition trim :: "string \<Rightarrow> string" where
  "trim s = trim_end (trim_start s)"

definition trim_end_char :: "char \<Rightarrow> string \<Rightarrow> string" where
  "trim_end_char x s = rev (dropWhile (\<lambda>c. c = x) (rev s))"

text \<open>\<open>trim_start_matches('\u{feff}')\<close>: the byte order mark is EF BB BF in UTF-8.\<close>

definition bom :: string where
  "bom = [char_of (0xEF :: nat), char_of (0xBB :: nat), char_of (0xBF :: nat)]"

definition trim_bom :: "string \<Rightarrow> string" where
  "trim_bom s = strip_while (\<lambda>t. if starts_with bom t then 3 else 0) s"

subsection \<open>ASCII case\<close>

definition ascii_lower_char :: "char \<Rightarrow> char" where
  "ascii_lower_char c = (let n = (of_char c :: nat) in if 65 \<le> n \<and> n \<le> 90 then char_of (n + 32) else c)"

definition ascii_upper_char :: "char \<Rightarrow> char" where
  "ascii_upper_char c = (let n = (of_char c :: nat) in if 97 \<le> n \<and> n \<le> 122 then char_of (n - 32) else c)"

definition to_ascii_lowercase :: "string \<Rightarrow> string" where
  "to_ascii_lowercase s = map ascii_lower_char s"

definition to_ascii_uppercase :: "string \<Rightarrow> string" where
  "to_ascii_uppercase s = map ascii_upper_char s"

definition eq_ignore_ascii_case :: "string \<Rightarrow> string \<Rightarrow> bool" where
  "eq_ignore_ascii_case a b \<longleftrightarrow> to_ascii_lowercase a = to_ascii_lowercase b"

definition is_ascii_alphabetic :: "char \<Rightarrow> bool" where
  "is_ascii_alphabetic c = (let n = (of_char c :: nat) in (65 \<le> n \<and> n \<le> 90) \<or> (97 \<le> n \<and> n \<le> 122))"

definition is_ascii_digit :: "char \<Rightarrow> bool" where
  "is_ascii_digit c = (let n = (of_char c :: nat) in 48 \<le> n \<and> n \<le> 57)"

definition is_ascii_alphanumeric :: "char \<Rightarrow> bool" where
  "is_ascii_alphanumeric c \<longleftrightarrow> is_ascii_alphabetic c \<or> is_ascii_digit c"

subsection \<open>Numbers\<close>

definition digit_char :: "nat \<Rightarrow> char" where
  "digit_char d = char_of (48 + d)"

fun show_nat :: "nat \<Rightarrow> string" where
  "show_nat n = (if n < 10 then [digit_char n] else show_nat (n div 10) @ [digit_char (n mod 10)])"

declare show_nat.simps [simp del]

definition show_int :: "int \<Rightarrow> string" where
  "show_int i = (if i < 0 then CHR ''-'' # show_nat (nat (- i)) else show_nat (nat i))"

definition hex_digit_char :: "nat \<Rightarrow> char" where
  "hex_digit_char d = (if d < 10 then char_of (48 + d) else char_of (87 + d))"

fun show_hex_digits :: "nat \<Rightarrow> string" where
  "show_hex_digits n =
     (if n < 16 then [hex_digit_char n] else show_hex_digits (n div 16) @ [hex_digit_char (n mod 16)])"

declare show_hex_digits.simps [simp del]

text \<open>\<open>{:#x}\<close> of a signed integer prints its two's complement bits.\<close>

definition show_hex :: "'a::len word \<Rightarrow> string" where
  "show_hex w = ''0x'' @ show_hex_digits (unat w)"

fun parse_digits :: "nat \<Rightarrow> string \<Rightarrow> nat option" where
  "parse_digits acc [] = Some acc"
| "parse_digits acc (c # s) =
     (if is_ascii_digit c then parse_digits (acc * 10 + (of_char c - 48)) s else None)"

definition parse_decimal :: "string \<Rightarrow> nat option" where
  "parse_decimal s = (if s = [] then None else parse_digits 0 s)"

definition strip_plus :: "string \<Rightarrow> string" where
  "strip_plus s = (case s of [] \<Rightarrow> [] | c # t \<Rightarrow> if c = CHR ''+'' then t else s)"

definition parse_u16 :: "string \<Rightarrow> u16 option" where
  "parse_u16 s = (case parse_decimal (strip_plus s) of
     None \<Rightarrow> None | Some n \<Rightarrow> if n < 2 ^ 16 then Some (word_of_nat n) else None)"

definition parse_i32 :: "string \<Rightarrow> i32 option" where
  "parse_i32 s = (case s of
     [] \<Rightarrow> None
   | c # t \<Rightarrow>
       if c = CHR ''-'' then
         (case parse_decimal t of None \<Rightarrow> None
          | Some n \<Rightarrow> if n \<le> 2 ^ 31 then Some (word_of_int (- int n)) else None)
       else
         (case parse_decimal (strip_plus s) of None \<Rightarrow> None
          | Some n \<Rightarrow> if n < 2 ^ 31 then Some (word_of_nat n) else None))"

subsection \<open>UTF-8\<close>

definition cont :: "u8 \<Rightarrow> bool" where
  "cont b \<longleftrightarrow> 0x80 \<le> b \<and> b \<le> 0xBF"

text \<open>One decoding step at the start of a non-empty input: whether a whole character was read, and how
  many bytes were consumed (for an invalid sequence, the longest prefix that could have begun one).\<close>

definition utf8_tail :: "(u8 \<Rightarrow> bool) \<Rightarrow> nat \<Rightarrow> bytes \<Rightarrow> bool \<times> nat" where
  "utf8_tail ok2 k bs =
     (if bs = [] \<or> \<not> ok2 (hd bs) then (False, 1)
      else let n = length (takeWhile cont (take (k - 1) (tl bs))) in
        if n = k - 1 then (True, k + 1) else (False, n + 2))"

definition utf8_step :: "u8 \<Rightarrow> bytes \<Rightarrow> bool \<times> nat" where
  "utf8_step b bs =
     (if b < 0x80 then (True, 1)
      else if 0xC2 \<le> b \<and> b \<le> 0xDF then utf8_tail cont 1 bs
      else if b = 0xE0 then utf8_tail (\<lambda>c. 0xA0 \<le> c \<and> c \<le> 0xBF) 2 bs
      else if b = 0xED then utf8_tail (\<lambda>c. 0x80 \<le> c \<and> c \<le> 0x9F) 2 bs
      else if 0xE1 \<le> b \<and> b \<le> 0xEF then utf8_tail cont 2 bs
      else if b = 0xF0 then utf8_tail (\<lambda>c. 0x90 \<le> c \<and> c \<le> 0xBF) 3 bs
      else if 0xF1 \<le> b \<and> b \<le> 0xF3 then utf8_tail cont 3 bs
      else if b = 0xF4 then utf8_tail (\<lambda>c. 0x80 \<le> c \<and> c \<le> 0x8F) 3 bs
      else (False, 1))"

function utf8_valid :: "bytes \<Rightarrow> bool" where
  "utf8_valid [] = True"
| "utf8_valid (b # bs) = (fst (utf8_step b bs) \<and> utf8_valid (drop (snd (utf8_step b bs) - 1) bs))"
  by pat_completeness auto
termination
  by (relation "measure length") auto

definition replacement :: bytes where
  "replacement = [0xEF, 0xBF, 0xBD]"

function utf8_lossy :: "bytes \<Rightarrow> bytes" where
  "utf8_lossy [] = []"
| "utf8_lossy (b # bs) =
     (let n = snd (utf8_step b bs) - 1 in
        (if fst (utf8_step b bs) then b # take n bs else replacement) @ utf8_lossy (drop n bs))"
  by pat_completeness auto
termination
  by (relation "measure length") auto

text \<open>\<open>str::is_char_boundary\<close>: slicing a \<open>str\<close> elsewhere panics.\<close>

definition is_char_boundary :: "string \<Rightarrow> nat \<Rightarrow> bool" where
  "is_char_boundary s i \<longleftrightarrow>
     i = 0 \<or> i = length s \<or> (i < length s \<and> \<not> cont (u8_of_char (s ! i)))"

section \<open>Laws\<close>

subsection \<open>Bytes and characters\<close>

lemma char_of_u8_of_char [simp]: "char_of_u8 (u8_of_char c) = c"
proof -
  have "of_char c < (256 :: nat)" by simp
  then show ?thesis by (simp add: char_of_u8_def u8_of_char_def unat_of_nat mod_less)
qed

lemma u8_of_char_of_u8 [simp]: "u8_of_char (char_of_u8 w) = w"
proof -
  have "unat w < 256" using unsigned_less [of w] by simp
  then show ?thesis by (simp add: char_of_u8_def u8_of_char_def)
qed

lemma u8_of_char_inject [simp]: "u8_of_char c = u8_of_char d \<longleftrightarrow> c = d"
  by (metis char_of_u8_of_char)

lemma of_as_bytes [simp]: "of_bytes (as_bytes s) = s"
  by (simp add: of_bytes_def as_bytes_def comp_def)

lemma as_of_bytes [simp]: "as_bytes (of_bytes bs) = bs"
  by (simp add: of_bytes_def as_bytes_def comp_def)

lemma length_as_bytes [simp]: "length (as_bytes s) = length s"
  by (simp add: as_bytes_def)

lemma length_of_bytes [simp]: "length (of_bytes s) = length s"
  by (simp add: of_bytes_def)

lemma as_bytes_append [simp]: "as_bytes (s @ t) = as_bytes s @ as_bytes t"
  by (simp add: as_bytes_def)

subsection \<open>Searching\<close>

lemma starts_with_append [simp]: "starts_with p (p @ s)"
  by (simp add: starts_with_def)

lemma starts_with_iff: "starts_with p s \<longleftrightarrow> (\<exists>t. s = p @ t)"
  unfolding starts_with_def by (metis append_eq_conv_conj append_take_drop_id)

lemma starts_with_Nil [simp]: "starts_with [] s"
  by (simp add: starts_with_def)

lemma starts_with_Cons [simp]: "starts_with (p # ps) (c # s) \<longleftrightarrow> p = c \<and> starts_with ps s"
  by (auto simp: starts_with_def)

lemma starts_with_Cons_Nil [simp]: "\<not> starts_with (p # ps) []"
  by (simp add: starts_with_def)

lemma char_find_None: "char_find x s = None \<longleftrightarrow> x \<notin> set s"
  by (induction s) auto

lemma char_find_Some:
  "char_find x s = Some i \<Longrightarrow> i < length s \<and> s ! i = x \<and> x \<notin> set (take i s)"
  by (induction s arbitrary: i) (auto split: if_splits)

lemma char_find_append: "x \<notin> set s \<Longrightarrow> char_find x (s @ x # t) = Some (length s)"
  by (induction s) auto

lemma char_rfind_None: "char_rfind x s = None \<longleftrightarrow> x \<notin> set s"
  by (induction s) (auto split: option.splits)

lemma char_rfind_append: "x \<notin> set t \<Longrightarrow> char_rfind x (s @ x # t) = Some (length s)"
  by (induction s) (auto simp: char_rfind_None split: option.splits)

lemma char_rfind_Some:
  "char_rfind x s = Some i \<Longrightarrow> i < length s \<and> s ! i = x \<and> x \<notin> set (drop (Suc i) s)"
proof (induction s arbitrary: i)
  case (Cons c s)
  then show ?case
    by (cases "char_rfind x s") (auto simp: char_rfind_None split: if_splits)
qed simp

lemma split_once_append: "x \<notin> set s \<Longrightarrow> split_once x (s @ x # t) = Some (s, t)"
  by (simp add: split_once_def char_find_append)

lemma rsplit_once_append: "x \<notin> set t \<Longrightarrow> rsplit_once x (s @ x # t) = Some (s, t)"
  by (simp add: rsplit_once_def char_rfind_append)

text \<open>A pattern whose first character does not occur before it is found where it stands.\<close>

lemma str_find_append:
  "p \<noteq> [] \<Longrightarrow> hd p \<notin> set s \<Longrightarrow> str_find p (s @ p @ t) = Some (length s)"
proof (induction s)
  case Nil
  then show ?case by (cases p) (auto simp: starts_with_def)
next
  case (Cons c s)
  then show ?case by (cases p) auto
qed

subsection \<open>Trimming\<close>

lemma strip_while_stop: "f s = 0 \<Longrightarrow> strip_while f s = s"
  by (subst strip_while.simps) simp

lemma strip_while_Nil [simp]: "strip_while f [] = []"
  by (subst strip_while.simps) simp

lemma strip_while_done: "strip_while f s = [] \<or> f (strip_while f s) = 0"
proof (induction f s rule: strip_while.induct)
  case (1 f s)
  then show ?case by (cases "s = [] \<or> f s = 0") (auto simp: strip_while.simps [of f s])
qed

lemma strip_while_idem [simp]: "strip_while f (strip_while f s) = strip_while f s"
  using strip_while_done [of f s] by (auto simp: strip_while_stop)

lemma strip_while_suffix: "\<exists>p. s = p @ strip_while f s"
proof (induction f s rule: strip_while.induct)
  case (1 f s)
  show ?case
  proof (cases "s = [] \<or> f s = 0")
    case True
    then show ?thesis by (simp add: strip_while.simps [of f s])
  next
    case False
    with "1.IH" obtain p where "drop (f s) s = p @ strip_while f (drop (f s) s)" by blast
    then have "s = (take (f s) s @ p) @ strip_while f (drop (f s) s)"
      by (metis append_assoc append_take_drop_id)
    moreover have "strip_while f s = strip_while f (drop (f s) s)"
      using False by (simp add: strip_while.simps [of f s])
    ultimately show ?thesis by metis
  qed
qed

lemma trim_start_suffix: "\<exists>p. s = p @ trim_start s"
  by (simp add: trim_start_def strip_while_suffix)

lemma trim_end_prefix: "\<exists>p. s = trim_end s @ p"
proof -
  obtain p where "rev s = p @ strip_while ws_end_rev (rev s)" using strip_while_suffix by blast
  then have "s = rev (strip_while ws_end_rev (rev s)) @ rev p"
    by (metis rev_append rev_rev_ident)
  then show ?thesis unfolding trim_end_def by blast
qed

lemma trim_factor: "\<exists>p q. s = p @ trim s @ q"
  by (metis trim_start_suffix trim_end_prefix trim_def)

lemma set_trim: "set (trim s) \<subseteq> set s"
  using trim_factor [of s] by (metis Un_commute set_append sup.cobounded2 sup_assoc)

lemma length_trim_le: "length (trim s) \<le> length s"
proof -
  obtain p q where "s = p @ trim s @ q" using trim_factor by blast
  then have "length s = length p + (length (trim s) + length q)" by (metis length_append)
  then show ?thesis by simp
qed

text \<open>A prefix of a string that does not start with whitespace does not start with whitespace.\<close>

lemma ws_start_prefix: "ws_start (s @ t) = 0 \<Longrightarrow> ws_start s = 0"
  by (auto simp: ws_start_def split: list.splits if_splits)

lemma ws_end_rev_prefix: "ws_end_rev (s @ t) = 0 \<Longrightarrow> ws_end_rev s = 0"
  by (auto simp: ws_end_rev_def split: list.splits if_splits)

lemma ws_start_trim_start: "ws_start (trim_start s) = 0"
  using strip_while_done [of ws_start s] by (auto simp: trim_start_def ws_start_def)

lemma ws_start_trim: "ws_start (trim s) = 0"
proof -
  obtain p where "trim_start s = trim s @ p" using trim_end_prefix unfolding trim_def by blast
  with ws_start_trim_start [of s] show ?thesis by (metis ws_start_prefix)
qed

lemma ws_end_trim: "ws_end_rev (rev (trim s)) = 0"
  using strip_while_done [of ws_end_rev "rev (trim_start s)"]
  by (auto simp: trim_def trim_end_def ws_end_rev_def)

lemma trim_fixed: "ws_start s = 0 \<Longrightarrow> ws_end_rev (rev s) = 0 \<Longrightarrow> trim s = s"
  by (simp add: trim_def trim_start_def trim_end_def strip_while_stop)

lemma trim_idem [simp]: "trim (trim s) = trim s"
  by (rule trim_fixed) (rule ws_start_trim, rule ws_end_trim)

lemma trim_eq_iff: "trim s = s \<longleftrightarrow> ws_start s = 0 \<and> ws_end_rev (rev s) = 0"
  by (metis trim_fixed ws_start_trim ws_end_trim)

lemma trim_Nil [simp]: "trim [] = []"
  by (simp add: trim_def trim_start_def trim_end_def)

lemma trim_start_ws1: "ws1 c \<Longrightarrow> trim_start (c # s) = trim_start s"
  unfolding trim_start_def by (subst strip_while.simps) (simp add: ws_start_def)

subsection \<open>Numbers\<close>

lemma digit_char_digit: "d < 10 \<Longrightarrow> is_ascii_digit (digit_char d)"
  by (simp add: is_ascii_digit_def digit_char_def)

lemma of_char_digit_char: "d < 10 \<Longrightarrow> of_char (digit_char d) = 48 + d"
  by (simp add: digit_char_def)

lemma parse_digits_append:
  "parse_digits acc (s @ t) = (case parse_digits acc s of None \<Rightarrow> None | Some n \<Rightarrow> parse_digits n t)"
  by (induction s arbitrary: acc) auto

lemma parse_digits_show_nat: "parse_digits 0 (show_nat n) = Some n"
proof (induction n rule: show_nat.induct)
  case (1 n)
  show ?case
  proof (cases "n < 10")
    case True
    then show ?thesis
      by (simp add: show_nat.simps [of n] digit_char_digit of_char_digit_char)
  next
    case False
    with 1 have "parse_digits 0 (show_nat (n div 10)) = Some (n div 10)" by blast
    with False show ?thesis
      by (simp add: show_nat.simps [of n] parse_digits_append digit_char_digit of_char_digit_char)
  qed
qed

lemma show_nat_digits: "c \<in> set (show_nat n) \<Longrightarrow> is_ascii_digit c"
proof (induction n rule: show_nat.induct)
  case (1 n)
  then show ?case
    by (cases "n < 10") (auto simp: show_nat.simps [of n] digit_char_digit)
qed

lemma show_nat_nonempty [simp]: "show_nat n \<noteq> []"
  by (subst show_nat.simps) simp

lemma parse_decimal_show_nat: "parse_decimal (show_nat n) = Some n"
  by (simp add: parse_decimal_def parse_digits_show_nat)

lemma not_digit [simp]:
  "\<not> is_ascii_digit (CHR ''+'')" "\<not> is_ascii_digit (CHR ''-'')" "\<not> is_ascii_digit (CHR '':'')"
  "\<not> is_ascii_digit (CHR ''/'')" "\<not> is_ascii_digit (CHR ''<'')" "\<not> is_ascii_digit (CHR ''&'')"
  by (simp_all add: is_ascii_digit_def)

lemma show_nat_hd: "show_nat n = c # s \<Longrightarrow> is_ascii_digit c"
  by (rule show_nat_digits [of c n]) simp

lemma strip_plus_show_nat: "strip_plus (show_nat n) = show_nat n"
  by (auto simp: strip_plus_def dest: show_nat_hd split: list.splits)

lemma parse_u16_show_nat: "n < 2 ^ 16 \<Longrightarrow> parse_u16 (show_nat n) = Some (word_of_nat n)"
  by (simp add: parse_u16_def strip_plus_show_nat parse_decimal_show_nat)

lemma parse_u16_show [simp]: "parse_u16 (show_nat (unat (p :: u16))) = Some p"
proof -
  have "unat p < 2 ^ LENGTH(16)" by (rule unsigned_less)
  then show ?thesis by (simp add: parse_u16_show_nat)
qed

lemma parse_i32_show [simp]: "parse_i32 (show_int (sint (w :: i32))) = Some w"
proof (cases "sint w < 0")
  case True
  have "- (2 ^ 31) \<le> sint w" using sint_lower [of w] by simp
  then have "nat (- sint w) \<le> 2 ^ 31" by (simp add: nat_le_iff)
  with True show ?thesis
    by (simp add: show_int_def parse_i32_def parse_decimal_show_nat)
next
  case False
  have "sint w < 2 ^ 31" using sint_upper [of w] by simp
  then have "nat (sint w) < 2 ^ 31" by (simp add: nat_less_iff)
  moreover have "(word_of_nat (nat (sint w)) :: i32) = w" using False by simp
  moreover obtain c t where ct: "show_nat (nat (sint w)) = c # t"
    by (cases "show_nat (nat (sint w))") auto
  moreover from show_nat_hd [OF ct] have "c \<noteq> CHR ''-''" by auto
  moreover from ct have "strip_plus (c # t) = c # t" "parse_decimal (c # t) = Some (nat (sint w))"
    using strip_plus_show_nat parse_decimal_show_nat by metis+
  ultimately show ?thesis
    using False by (simp add: show_int_def parse_i32_def)
qed

subsection \<open>UTF-8\<close>

lemma utf8_valid_ascii: "\<forall>b \<in> set bs. b < 0x80 \<Longrightarrow> utf8_valid bs"
  by (induction bs) (auto simp: utf8_step_def)

lemma utf8_lossy_valid: "utf8_valid bs \<Longrightarrow> utf8_lossy bs = bs"
proof (induction bs rule: utf8_valid.induct)
  case 1
  show ?case by simp
next
  case (2 b bs)
  then show ?case by (simp add: Let_def)
qed

end
