(* ===== verification/Omt_Types.thy ===== *)
theory Omt_Types
  imports Rust_Str
begin

text \<open>
  The public types of the crate (\<open>src/types.rs\<close>, \<open>src/error.rs\<close>): frame-type and video flags, codec
  FourCCs, quality, tally, sender information, the two statistics blocks, media frames and decoded
  frames, and the protocol constants. Record fields carry the initials of their struct, because
  Isabelle's field names are global. The lemmas show that the codec numbers are a bijection with the
  ten FourCCs, that qualities are ordered by their wire number, and that the sender statistics keep
  their counters consistent under saturating arithmetic.
\<close>

section \<open>Errors\<close>

text \<open>The kinds of \<open>std::io::Error\<close> the sources distinguish, and the variants of \<open>vmx::VmxError\<close> they
  match on.\<close>

datatype io_kind = WouldBlock | TimedOut | Interrupted | NotFound | OtherIo

datatype vmx_error = OutputTooSmall nat | BufferOverflow | VmxOther string

datatype omt_error =
    InvalidArgument string
  | Network string
  | Protocol string
  | Discovery string
  | CodecError string
  | Io io_kind string
  | Vmx vmx_error
  | NotImplemented string

type_synonym 'a result = "omt_error + 'a"

text \<open>\<open>Display\<close> of an error; the text of a codec library error is not known here.\<close>

definition error_display :: "(vmx_error \<Rightarrow> string) \<Rightarrow> omt_error \<Rightarrow> string" where
  "error_display vmx_display e =
     (case e of
        InvalidArgument m \<Rightarrow> ''invalid argument: '' @ m
      | Network m \<Rightarrow> ''network error: '' @ m
      | Protocol m \<Rightarrow> ''protocol error: '' @ m
      | Discovery m \<Rightarrow> ''discovery error: '' @ m
      | CodecError m \<Rightarrow> ''codec error: '' @ m
      | Io k m \<Rightarrow> ''I/O error: '' @ m
      | Vmx v \<Rightarrow> ''VMX error: '' @ vmx_display v
      | NotImplemented m \<Rightarrow> ''not implemented: '' @ m)"

section \<open>Flags and enumerations\<close>

type_synonym frame_type = u8
type_synonym video_flags = i32

definition FT_NONE :: frame_type where "FT_NONE = 0"
definition FT_METADATA :: frame_type where "FT_METADATA = 1"
definition FT_VIDEO :: frame_type where "FT_VIDEO = 2"
definition FT_AUDIO :: frame_type where "FT_AUDIO = 4"

definition ft_contains :: "frame_type \<Rightarrow> frame_type \<Rightarrow> bool" where
  "ft_contains self other \<longleftrightarrow> self AND other = other"

definition ft_bitor :: "frame_type \<Rightarrow> frame_type \<Rightarrow> frame_type" where
  "ft_bitor self rhs = self OR rhs"

definition ft_bitor_assign :: "frame_type \<Rightarrow> frame_type \<Rightarrow> frame_type" where
  "ft_bitor_assign self rhs = self OR rhs"

definition VF_NONE :: video_flags where "VF_NONE = 0"
definition VF_INTERLACED :: video_flags where "VF_INTERLACED = 1"
definition VF_ALPHA :: video_flags where "VF_ALPHA = 2"
definition VF_PREMULTIPLIED :: video_flags where "VF_PREMULTIPLIED = 4"
definition VF_PREVIEW :: video_flags where "VF_PREVIEW = 8"
definition VF_HIGH_BIT_DEPTH :: video_flags where "VF_HIGH_BIT_DEPTH = 16"

definition vf_contains :: "video_flags \<Rightarrow> video_flags \<Rightarrow> bool" where
  "vf_contains self other \<longleftrightarrow> self AND other = other"

definition vf_bitor :: "video_flags \<Rightarrow> video_flags \<Rightarrow> video_flags" where
  "vf_bitor self rhs = self OR rhs"

datatype codec = Vmx1 | Fpa1 | Uyvy | Yuy2 | Bgra | Nv12 | Yv12 | Uyva | P216 | Pa16

fun codec_as_i32 :: "codec \<Rightarrow> i32" where
  "codec_as_i32 Vmx1 = 0x31584D56"
| "codec_as_i32 Fpa1 = 0x31415046"
| "codec_as_i32 Uyvy = 0x59565955"
| "codec_as_i32 Yuy2 = 0x32595559"
| "codec_as_i32 Bgra = 0x41524742"
| "codec_as_i32 Nv12 = 0x3231564E"
| "codec_as_i32 Yv12 = 0x32315659"
| "codec_as_i32 Uyva = 0x41565955"
| "codec_as_i32 P216 = 0x36313250"
| "codec_as_i32 Pa16 = 0x36314150"

definition codec_from_i32 :: "i32 \<Rightarrow> codec option" where
  "codec_from_i32 v =
     (if v = codec_as_i32 Vmx1 then Some Vmx1
      else if v = codec_as_i32 Fpa1 then Some Fpa1
      else if v = codec_as_i32 Uyvy then Some Uyvy
      else if v = codec_as_i32 Yuy2 then Some Yuy2
      else if v = codec_as_i32 Bgra then Some Bgra
      else if v = codec_as_i32 Nv12 then Some Nv12
      else if v = codec_as_i32 Yv12 then Some Yv12
      else if v = codec_as_i32 Uyva then Some Uyva
      else if v = codec_as_i32 P216 then Some P216
      else if v = codec_as_i32 Pa16 then Some Pa16
      else None)"

text \<open>\<open>v as i32\<close> keeps the bits of a \<open>u32\<close>.\<close>

definition codec_from_u32 :: "u32 \<Rightarrow> codec option" where
  "codec_from_u32 v = codec_from_i32 v"

datatype color_space = Undefined | Bt601 | Bt709

fun color_space_i32 :: "color_space \<Rightarrow> i32" where
  "color_space_i32 Undefined = 0"
| "color_space_i32 Bt601 = 601"
| "color_space_i32 Bt709 = 709"

datatype quality = QDefault | Low | Medium | High

fun quality_i32 :: "quality \<Rightarrow> i32" where
  "quality_i32 QDefault = 0"
| "quality_i32 Low = 1"
| "quality_i32 Medium = 50"
| "quality_i32 High = 100"

fun quality_as_str :: "quality \<Rightarrow> string" where
  "quality_as_str QDefault = ''Default''"
| "quality_as_str Low = ''Low''"
| "quality_as_str Medium = ''Medium''"
| "quality_as_str High = ''High''"

instantiation quality :: linorder
begin

definition less_eq_quality :: "quality \<Rightarrow> quality \<Rightarrow> bool" where
  "less_eq_quality a b \<longleftrightarrow> sint (quality_i32 a) \<le> sint (quality_i32 b)"

definition less_quality :: "quality \<Rightarrow> quality \<Rightarrow> bool" where
  "less_quality a b \<longleftrightarrow> sint (quality_i32 a) < sint (quality_i32 b)"

instance
proof
  fix a b c :: quality
  show "(a < b) = (a \<le> b \<and> \<not> b \<le> a)" by (auto simp: less_eq_quality_def less_quality_def)
  show "a \<le> a" by (simp add: less_eq_quality_def)
  show "a \<le> b \<Longrightarrow> b \<le> c \<Longrightarrow> a \<le> c" by (simp add: less_eq_quality_def)
  show "a \<le> b \<Longrightarrow> b \<le> a \<Longrightarrow> a = b"
    by (cases a; cases b) (simp_all add: less_eq_quality_def)
  show "a \<le> b \<or> b \<le> a" by (auto simp: less_eq_quality_def)
qed

end

record tally =
  t_preview :: i32
  t_program :: i32

definition tally_new :: "i32 \<Rightarrow> i32 \<Rightarrow> tally" where
  "tally_new preview program = \<lparr>t_preview = preview, t_program = program\<rparr>"

section \<open>Sender information\<close>

record sender_info =
  si_product_name :: string
  si_manufacturer :: string
  si_version :: string

definition sender_info_new :: "string \<Rightarrow> string \<Rightarrow> string \<Rightarrow> sender_info" where
  "sender_info_new product_name manufacturer version =
     \<lparr>si_product_name = product_name, si_manufacturer = manufacturer, si_version = version\<rparr>"

definition escape_xml_attr :: "string \<Rightarrow> string" where
  "escape_xml_attr s =
     replace_char CHR ''>'' ''&gt;''
       (replace_char CHR ''<'' ''&lt;''
         (replace_char CHR 0x22 ''&quot;''
           (replace_char CHR ''&'' ''&amp;'' s)))"

definition dq :: string where
  "dq = [CHR 0x22]"

definition sender_info_to_xml :: "sender_info \<Rightarrow> string" where
  "sender_info_to_xml self =
     ''<OMTInfo ProductName='' @ dq @ escape_xml_attr (si_product_name self) @ dq @
     '' Manufacturer='' @ dq @ escape_xml_attr (si_manufacturer self) @ dq @
     '' Version='' @ dq @ escape_xml_attr (si_version self) @ dq @ '' />''"

section \<open>Statistics\<close>

record statistics =
  st_bytes_sent :: i64
  st_bytes_received :: i64
  st_bytes_sent_since_last :: i64
  st_bytes_received_since_last :: i64
  st_frames :: i64
  st_frames_since_last :: i64
  st_frames_dropped :: i64
  st_codec_time :: i64
  st_codec_time_since_last :: i64

definition statistics_default :: statistics where
  "statistics_default = \<lparr>st_bytes_sent = 0, st_bytes_received = 0, st_bytes_sent_since_last = 0,
     st_bytes_received_since_last = 0, st_frames = 0, st_frames_since_last = 0,
     st_frames_dropped = 0, st_codec_time = 0, st_codec_time_since_last = 0\<rparr>"

definition mark_sample :: "statistics \<Rightarrow> statistics" where
  "mark_sample s = s\<lparr>st_bytes_sent_since_last := 0, st_bytes_received_since_last := 0,
     st_frames_since_last := 0, st_codec_time_since_last := 0\<rparr>"

definition record_sent :: "nat \<Rightarrow> statistics \<Rightarrow> statistics" where
  "record_sent nbytes s =
     (let n = (word_of_nat nbytes :: i64) in
      s\<lparr>st_bytes_sent := sat_add_s (st_bytes_sent s) n,
        st_bytes_sent_since_last := sat_add_s (st_bytes_sent_since_last s) n,
        st_frames := sat_add_s (st_frames s) 1,
        st_frames_since_last := sat_add_s (st_frames_since_last s) 1\<rparr>)"

definition record_received :: "nat \<Rightarrow> statistics \<Rightarrow> statistics" where
  "record_received nbytes s =
     (let n = (word_of_nat nbytes :: i64) in
      s\<lparr>st_bytes_received := sat_add_s (st_bytes_received s) n,
        st_bytes_received_since_last := sat_add_s (st_bytes_received_since_last s) n,
        st_frames := sat_add_s (st_frames s) 1,
        st_frames_since_last := sat_add_s (st_frames_since_last s) 1\<rparr>)"

definition record_dropped :: "statistics \<Rightarrow> statistics" where
  "record_dropped s = s\<lparr>st_frames_dropped := sat_add_s (st_frames_dropped s) 1\<rparr>"

text \<open>A \<open>Duration\<close> is its number of nanoseconds; \<open>as_micros() as i64\<close> truncates to 64 bits.\<close>

definition record_codec :: "nat \<Rightarrow> statistics \<Rightarrow> statistics" where
  "record_codec duration s =
     (let us = (word_of_nat (duration div 1000) :: i64) in
      s\<lparr>st_codec_time := sat_add_s (st_codec_time s) us,
        st_codec_time_since_last := sat_add_s (st_codec_time_since_last s) us\<rparr>)"

section \<open>Frames of the public API\<close>

record media_frame =
  mf_frame_type :: frame_type
  mf_timestamp :: i64
  mf_codec :: i32
  mf_width :: i32
  mf_height :: i32
  mf_stride :: i32
  mf_flags :: video_flags
  mf_frame_rate_n :: i32
  mf_frame_rate_d :: i32
  mf_aspect_ratio :: f32
  mf_color_space :: color_space
  mf_sample_rate :: i32
  mf_channels :: i32
  mf_samples_per_channel :: i32
  mf_active_channels :: u32
  mf_data :: bytes
  mf_compressed :: "bytes option"
  mf_frame_metadata :: "string option"

text \<open>\<open>16.0 / 9.0\<close> as an \<open>f32\<close> has the bits 0x3FE38E39.\<close>

definition media_frame_default :: media_frame where
  "media_frame_default = \<lparr>mf_frame_type = FT_NONE, mf_timestamp = 0, mf_codec = 0, mf_width = 0,
     mf_height = 0, mf_stride = 0, mf_flags = VF_NONE, mf_frame_rate_n = 60, mf_frame_rate_d = 1,
     mf_aspect_ratio = 0x3FE38E39, mf_color_space = Undefined, mf_sample_rate = 0, mf_channels = 0,
     mf_samples_per_channel = 0, mf_active_channels = 0, mf_data = [], mf_compressed = None,
     mf_frame_metadata = None\<rparr>"

record decoded_video_frame =
  dv_width :: u32
  dv_height :: u32
  dv_stride :: u32
  dv_timestamp :: i64
  dv_frame_rate_n :: i32
  dv_frame_rate_d :: i32
  dv_color_space :: color_space
  dv_pixels :: bytes
  dv_frame_metadata :: "string option"

record decoded_audio_frame =
  da_timestamp :: i64
  da_sample_rate :: i32
  da_channels :: i32
  da_samples_per_channel :: i32
  da_active_channels :: u32
  da_pcm_planar_f32 :: bytes
  da_frame_metadata :: "string option"

record metadata_frame =
  md_timestamp :: i64
  md_xml :: string

record session_statistics =
  ss_bytes_received :: u64
  ss_bytes_received_since_last :: u64
  ss_frames_decoded :: u64
  ss_frames_dropped_wire :: u64
  ss_frames_dropped_decode :: u64
  ss_frames_dropped_audio :: u64
  ss_codec_time_ns :: u64
  ss_codec_time_ns_peak :: u64
  ss_frame_age_us_peak :: u64
  ss_wire_queue_depth :: u32
  ss_decoded_queue_depth :: u32
  ss_reconnects :: u64

definition session_statistics_default :: session_statistics where
  "session_statistics_default = \<lparr>ss_bytes_received = 0, ss_bytes_received_since_last = 0,
     ss_frames_decoded = 0, ss_frames_dropped_wire = 0, ss_frames_dropped_decode = 0,
     ss_frames_dropped_audio = 0, ss_codec_time_ns = 0, ss_codec_time_ns_peak = 0,
     ss_frame_age_us_peak = 0, ss_wire_queue_depth = 0, ss_decoded_queue_depth = 0,
     ss_reconnects = 0\<rparr>"

definition session_mark_sample :: "session_statistics \<Rightarrow> session_statistics" where
  "session_mark_sample s = s\<lparr>ss_bytes_received_since_last := 0\<rparr>"

section \<open>Constants\<close>

definition NETWORK_PORT_START :: u16 where "NETWORK_PORT_START = 6400"
definition NETWORK_PORT_END :: u16 where "NETWORK_PORT_END = 6600"
definition DISCOVERY_SERVER_DEFAULT_PORT :: u16 where "DISCOVERY_SERVER_DEFAULT_PORT = 6399"
definition NETWORK_SEND_BUFFER :: nat where "NETWORK_SEND_BUFFER = 65536"
definition NETWORK_SEND_RECEIVE_BUFFER :: nat where "NETWORK_SEND_RECEIVE_BUFFER = 65536"
definition NETWORK_RECEIVE_BUFFER :: nat where "NETWORK_RECEIVE_BUFFER = 1048576 * 8"
definition NETWORK_RECEIVE_MAX_TRANSFER :: nat where "NETWORK_RECEIVE_MAX_TRANSFER = 128 * 1024"
definition NETWORK_ASYNC_COUNT :: nat where "NETWORK_ASYNC_COUNT = 4"
definition VIDEO_FRAME_POOL_COUNT :: nat where "VIDEO_FRAME_POOL_COUNT = 4"
definition AUDIO_FRAME_POOL_COUNT :: nat where "AUDIO_FRAME_POOL_COUNT = 10"
definition VIDEO_MIN_SIZE :: nat where "VIDEO_MIN_SIZE = 65536"
definition VIDEO_MAX_SIZE :: nat where "VIDEO_MAX_SIZE = 10485760"
definition AUDIO_MIN_SIZE :: nat where "AUDIO_MIN_SIZE = 65536"
definition AUDIO_MAX_SIZE :: nat where "AUDIO_MAX_SIZE = 1048576"
definition AUDIO_SAMPLE_SIZE :: nat where "AUDIO_SAMPLE_SIZE = 4"
definition METADATA_MAX_COUNT :: nat where "METADATA_MAX_COUNT = 60"
definition METADATA_FRAME_SIZE :: nat where "METADATA_FRAME_SIZE = 65536"
definition URL_PREFIX :: string where "URL_PREFIX = ''omt://''"
definition MAX_INSTANCE_NAME_LENGTH :: nat where "MAX_INSTANCE_NAME_LENGTH = 63"

lemmas ft_defs = FT_NONE_def FT_METADATA_def FT_VIDEO_def FT_AUDIO_def
lemmas vf_defs = VF_NONE_def VF_INTERLACED_def VF_ALPHA_def VF_PREMULTIPLIED_def VF_PREVIEW_def
  VF_HIGH_BIT_DEPTH_def
lemmas stat_defs = mark_sample_def record_sent_def record_received_def record_dropped_def
  record_codec_def statistics_default_def

section \<open>Lemmas\<close>

lemma ft_contains_iff_bits: "ft_contains a b \<longleftrightarrow> (\<forall>n. bit b n \<longrightarrow> bit a n)"
  unfolding ft_contains_def using bit_imp_le_length [of b] by (auto simp: bit_eq_iff bit_simps)

lemma ft_contains_bitor [simp]:
  "ft_contains (ft_bitor a b) c \<longleftrightarrow> (\<forall>n. bit c n \<longrightarrow> bit a n \<or> bit b n)"
  by (simp add: ft_contains_iff_bits ft_bitor_def bit_simps)

lemma ft_contains_consts [simp]:
  "ft_contains FT_VIDEO FT_VIDEO" "\<not> ft_contains FT_VIDEO FT_AUDIO" "\<not> ft_contains FT_VIDEO FT_METADATA"
  "ft_contains FT_AUDIO FT_AUDIO" "\<not> ft_contains FT_AUDIO FT_VIDEO" "\<not> ft_contains FT_AUDIO FT_METADATA"
  "ft_contains FT_METADATA FT_METADATA" "\<not> ft_contains FT_METADATA FT_VIDEO"
  "\<not> ft_contains FT_METADATA FT_AUDIO"
  by (simp_all add: ft_contains_def ft_defs)

lemma codec_from_as_i32 [simp]: "codec_from_i32 (codec_as_i32 c) = Some c"
  by (cases c) (simp_all add: codec_from_i32_def)

lemma codec_from_i32_SomeD: "codec_from_i32 v = Some c \<Longrightarrow> codec_as_i32 c = v"
  by (auto simp: codec_from_i32_def split: if_splits)

text \<open>The counters of a statistics block are consistent when nothing is negative and no interval
  counter exceeds its total.\<close>

definition since_ok :: "i64 \<Rightarrow> i64 \<Rightarrow> bool" where
  "since_ok a b \<longleftrightarrow> 0 \<le> sint a \<and> sint a \<le> sint b"

definition statistics_ok :: "statistics \<Rightarrow> bool" where
  "statistics_ok s \<longleftrightarrow>
     since_ok (st_bytes_sent_since_last s) (st_bytes_sent s) \<and>
     since_ok (st_bytes_received_since_last s) (st_bytes_received s) \<and>
     since_ok (st_frames_since_last s) (st_frames s) \<and>
     since_ok (st_codec_time_since_last s) (st_codec_time s) \<and>
     0 \<le> sint (st_frames_dropped s)"

lemma since_ok_add:
  "since_ok a b \<Longrightarrow> 0 \<le> sint n \<Longrightarrow> since_ok (sat_add_s a n) (sat_add_s b n)"
  by (auto simp: since_ok_def sat_add_s_def sat_simps)

lemma since_ok_reset: "since_ok a b \<Longrightarrow> since_ok 0 b"
  by (auto simp: since_ok_def)

lemma statistics_ok_default: "statistics_ok statistics_default"
  by (simp add: statistics_ok_def statistics_default_def since_ok_def)

lemma statistics_ok_mark_sample: "statistics_ok s \<Longrightarrow> statistics_ok (mark_sample s)"
  by (auto simp: statistics_ok_def mark_sample_def intro: since_ok_reset)

lemma statistics_ok_record_sent:
  "statistics_ok s \<Longrightarrow> nbytes < 2 ^ 63 \<Longrightarrow> statistics_ok (record_sent nbytes s)"
  by (simp add: statistics_ok_def record_sent_def Let_def since_ok_add sint_of_nat_small)

lemma statistics_ok_record_received:
  "statistics_ok s \<Longrightarrow> nbytes < 2 ^ 63 \<Longrightarrow> statistics_ok (record_received nbytes s)"
  by (simp add: statistics_ok_def record_received_def Let_def since_ok_add sint_of_nat_small)

lemma statistics_ok_record_dropped: "statistics_ok s \<Longrightarrow> statistics_ok (record_dropped s)"
  by (simp add: statistics_ok_def record_dropped_def sat_add_s_def sat_simps)

lemma statistics_ok_record_codec:
  "statistics_ok s \<Longrightarrow> d div 1000 < 2 ^ 63 \<Longrightarrow> statistics_ok (record_codec d s)"
  by (simp add: statistics_ok_def record_codec_def Let_def since_ok_add sint_of_nat_small)

lemmas statistics_ok_intros = statistics_ok_default statistics_ok_mark_sample
  statistics_ok_record_sent statistics_ok_record_received statistics_ok_record_dropped
  statistics_ok_record_codec

end
