(* ===== verification/Pool.thy ===== *)
theory Pool
  imports Omt_Types
begin

text \<open>
  The frame buffer pools (\<open>src/transport/pool.rs\<close>). A \<open>Vec<u8>\<close> is its capacity with its contents; the
  capacity an allocation ends up with is the allocator's choice, so it is the parameter \<open>grow\<close>: the
  new capacity when at least \<open>n\<close> bytes are asked for, of which the documentation promises \<open>n \<le> grow n\<close>.
  The lemmas bound the pool, show that only empty buffers leave it, and tell exactly when \<open>take\<close> keeps
  its promise on the capacity.
\<close>

section \<open>Definitions\<close>

record vec =
  vec_cap :: nat
  vec_data :: bytes

definition vec_with_capacity :: "(nat \<Rightarrow> nat) \<Rightarrow> nat \<Rightarrow> vec" where
  "vec_with_capacity grow n = \<lparr>vec_cap = grow n, vec_data = []\<rparr>"

definition vec_clear :: "vec \<Rightarrow> vec" where
  "vec_clear v = v\<lparr>vec_data := []\<rparr>"

text \<open>\<open>Vec::reserve\<close> makes room for \<open>additional\<close> bytes beyond the length, not beyond the capacity.\<close>

definition vec_reserve :: "(nat \<Rightarrow> nat) \<Rightarrow> nat \<Rightarrow> vec \<Rightarrow> vec" where
  "vec_reserve grow additional v =
     (if length (vec_data v) + additional \<le> vec_cap v then v
      else v\<lparr>vec_cap := grow (length (vec_data v) + additional)\<rparr>)"

record buffer_pool =
  bp_free :: "vec list"
  bp_max_retained :: nat

definition pool_with_capacity :: "nat \<Rightarrow> buffer_pool" where
  "pool_with_capacity max_retained = \<lparr>bp_free = [], bp_max_retained = max_retained\<rparr>"

definition pool_new :: buffer_pool where
  "pool_new = pool_with_capacity 8"

definition pool_video :: buffer_pool where
  "pool_video = pool_with_capacity VIDEO_FRAME_POOL_COUNT"

definition pool_audio :: buffer_pool where
  "pool_audio = pool_with_capacity AUDIO_FRAME_POOL_COUNT"

definition pool_metadata :: buffer_pool where
  "pool_metadata = pool_with_capacity 8"

text \<open>The free list is a stack: \<open>pop\<close> and \<open>push\<close> work on its last element.\<close>

definition pool_take :: "(nat \<Rightarrow> nat) \<Rightarrow> nat \<Rightarrow> buffer_pool \<Rightarrow> vec \<times> buffer_pool" where
  "pool_take grow min_capacity pool =
     (if bp_free pool \<noteq> [] then
        let buf = vec_clear (last (bp_free pool));
            buf' = (if vec_cap buf < min_capacity then vec_reserve grow (min_capacity - vec_cap buf) buf
                    else buf) in
        (buf', pool\<lparr>bp_free := butlast (bp_free pool)\<rparr>)
      else (vec_with_capacity grow min_capacity, pool))"

definition take_video :: "(nat \<Rightarrow> nat) \<Rightarrow> buffer_pool \<Rightarrow> vec \<times> buffer_pool" where
  "take_video grow pool = pool_take grow VIDEO_MIN_SIZE pool"

definition take_audio :: "(nat \<Rightarrow> nat) \<Rightarrow> buffer_pool \<Rightarrow> vec \<times> buffer_pool" where
  "take_audio grow pool = pool_take grow AUDIO_MIN_SIZE pool"

definition take_metadata :: "(nat \<Rightarrow> nat) \<Rightarrow> buffer_pool \<Rightarrow> vec \<times> buffer_pool" where
  "take_metadata grow pool = pool_take grow METADATA_FRAME_SIZE pool"

definition pool_give :: "vec \<Rightarrow> buffer_pool \<Rightarrow> buffer_pool" where
  "pool_give buf pool =
     (if length (bp_free pool) < bp_max_retained pool
      then pool\<lparr>bp_free := bp_free pool @ [vec_clear buf]\<rparr> else pool)"

definition pool_len :: "buffer_pool \<Rightarrow> nat" where
  "pool_len pool = length (bp_free pool)"

definition pool_is_empty :: "buffer_pool \<Rightarrow> bool" where
  "pool_is_empty pool \<longleftrightarrow> bp_free pool = []"

section \<open>Invariant\<close>

text \<open>The pool holds at most its retention count, every free buffer is empty and has at least \<open>m\<close> bytes.\<close>

definition pool_ok :: "nat \<Rightarrow> buffer_pool \<Rightarrow> bool" where
  "pool_ok m pool \<longleftrightarrow> length (bp_free pool) \<le> bp_max_retained pool \<and>
     (\<forall>v \<in> set (bp_free pool). vec_data v = [] \<and> m \<le> vec_cap v)"

lemma pool_ok_new: "pool_ok m (pool_with_capacity n)"
  by (simp add: pool_ok_def pool_with_capacity_def)

lemma pool_ok_give: "pool_ok m pool \<Longrightarrow> m \<le> vec_cap buf \<Longrightarrow> pool_ok m (pool_give buf pool)"
  by (auto simp: pool_ok_def pool_give_def vec_clear_def)

lemma pool_ok_take:
  assumes "pool_ok m pool" "pool_take grow n pool = (buf, pool')" "\<And>k. k \<le> grow k"
  shows "pool_ok m pool' \<and> vec_data buf = [] \<and> (n \<le> m \<longrightarrow> n \<le> vec_cap buf)"
proof (cases "bp_free pool = []")
  case True
  with assms show ?thesis by (auto simp: pool_ok_def pool_take_def vec_with_capacity_def)
next
  case False
  then have "last (bp_free pool) \<in> set (bp_free pool)" by simp
  with assms(1) have cap: "n \<le> m \<Longrightarrow> \<not> vec_cap (last (bp_free pool)) < n"
    by (fastforce simp: pool_ok_def)
  from assms(1) have "pool_ok m (pool\<lparr>bp_free := butlast (bp_free pool)\<rparr>)"
    by (auto simp: pool_ok_def dest: in_set_butlastD)
  with False assms(2) cap show ?thesis
    by (auto simp: pool_take_def vec_clear_def vec_reserve_def Let_def split: if_splits)
qed

text \<open>A use of the pool: \<open>Take\<close> asks for a buffer, \<open>Give i\<close> returns the \<open>i\<close>-th buffer out (filled with
  anything meanwhile); a returned buffer has not lost capacity.\<close>

datatype pool_op = Take | Give nat bytes

fun pool_step :: "(nat \<Rightarrow> nat) \<Rightarrow> nat \<Rightarrow> pool_op \<Rightarrow> vec list \<times> buffer_pool \<Rightarrow> vec list \<times> buffer_pool" where
  "pool_step grow m Take (out, pool) = (case pool_take grow m pool of (b, pool') \<Rightarrow> (out @ [b], pool'))"
| "pool_step grow m (Give i d) (out, pool) =
     (if i < length out
      then (take i out @ drop (Suc i) out, pool_give ((out ! i)\<lparr>vec_data := d\<rparr>) pool)
      else (out, pool))"

lemma pool_step_ok:
  assumes grow: "\<And>k. k \<le> grow k" and ok: "pool_ok m pool" "\<forall>v \<in> set out. m \<le> vec_cap v"
    and step: "pool_step grow m opn (out, pool) = (out', pool')"
  shows "pool_ok m pool' \<and> (\<forall>v \<in> set out'. m \<le> vec_cap v) \<and> bp_max_retained pool' = bp_max_retained pool"
proof (cases opn)
  case Take
  obtain b p where t: "pool_take grow m pool = (b, p)" by fastforce
  from t have "bp_max_retained p = bp_max_retained pool" by (auto simp: pool_take_def Let_def split: if_splits)
  with pool_ok_take [OF ok(1) t grow] t step Take ok(2) show ?thesis by auto
next
  case (Give i d)
  show ?thesis
  proof (cases "i < length out")
    case True
    have "pool_ok m (pool_give ((out ! i)\<lparr>vec_data := d\<rparr>) pool)"
      using ok True by (intro pool_ok_give) auto
    moreover have "\<forall>v \<in> set (take i out @ drop (Suc i) out). m \<le> vec_cap v"
      using ok(2) by (auto dest!: in_set_takeD in_set_dropD)
    moreover have "bp_max_retained (pool_give b pool) = bp_max_retained pool" for b
      by (simp add: pool_give_def)
    ultimately show ?thesis using True Give step by auto
  qed (use Give step ok in auto)
qed

text \<open>whatever sequence of takes and returns a user makes, a pool that serves one size never keeps
  more than its retention count of buffers, keeps only empty ones, and every buffer it hands out has
  at least the size asked for.\<close>

theorem pool_capacity_kept:
  assumes "\<And>k. k \<le> grow k"
    and "fold (pool_step grow m) ops ([], pool_with_capacity n) = (out, pool)"
  shows "pool_len pool \<le> n \<and> (\<forall>v \<in> set (bp_free pool). vec_data v = []) \<and> (\<forall>v \<in> set out. m \<le> vec_cap v)"
proof -
  have "pool_ok m pool' \<and> (\<forall>v \<in> set out'. m \<le> vec_cap v) \<and> bp_max_retained pool' = bp_max_retained p0"
    if "fold (pool_step grow m) ops (out0, p0) = (out', pool')" "pool_ok m p0" "\<forall>v \<in> set out0. m \<le> vec_cap v"
    for out0 p0 out' pool'
    using that
  proof (induction ops arbitrary: out0 p0)
    case (Cons opn ops)
    obtain o1 p1 where s: "pool_step grow m opn (out0, p0) = (o1, p1)" by fastforce
    from pool_step_ok [OF assms(1) Cons.prems(2,3) s] Cons.IH [of o1 p1] Cons.prems(1) s show ?case by simp
  qed simp
  from this [OF assms(2)] show ?thesis
    by (simp add: pool_ok_new) (simp add: pool_ok_def pool_len_def pool_with_capacity_def)
qed

theorem pool_capacity_kept_witness:
  "fold (pool_step id 3) [Take, Give 0 [1, 2], Take, Take] ([], pool_with_capacity 2) =
     ([\<lparr>vec_cap = 3, vec_data = []\<rparr>, \<lparr>vec_cap = 3, vec_data = []\<rparr>], pool_with_capacity 2) \<and>
   pool_len (pool_with_capacity 2) \<le> 2"
proof -
  have f: "fold (pool_step id 3) [Take, Give 0 [1, 2], Take, Take] ([], pool_with_capacity 2) =
     ([\<lparr>vec_cap = 3, vec_data = []\<rparr>, \<lparr>vec_cap = 3, vec_data = []\<rparr>], pool_with_capacity 2)"
    by (simp add: pool_take_def pool_give_def pool_with_capacity_def vec_with_capacity_def vec_clear_def Let_def)
  from f pool_capacity_kept [OF _ f] show ?thesis by simp
qed

text \<open>\<open>take\<close> does not always return a buffer of at least \<open>min_capacity\<close> bytes: \<open>reserve\<close> counts from
  the length, which is zero after \<open>clear\<close>, so a recycled buffer whose capacity is at least half of
  \<open>min_capacity\<close> but below it is handed out as it is, whatever the allocator does.\<close>

theorem pool_take_too_small:
  assumes "bp_free pool \<noteq> []" "vec_cap (last (bp_free pool)) < m" "m \<le> 2 * vec_cap (last (bp_free pool))"
  shows "vec_cap (fst (pool_take grow m pool)) < m"
proof -
  have "m - vec_cap (last (bp_free pool)) \<le> vec_cap (last (bp_free pool))" using assms(3) by simp
  with assms(1,2) show ?thesis by (simp add: pool_take_def vec_clear_def vec_reserve_def Let_def)
qed

theorem pool_take_too_small_witness:
  "vec_cap (fst (take_video (\<lambda>n. max n 8)
     (pool_give \<lparr>vec_cap = 40000, vec_data = [1]\<rparr> pool_video))) < VIDEO_MIN_SIZE"
  unfolding take_video_def
  by (rule pool_take_too_small)
     (simp_all add: pool_give_def pool_video_def pool_with_capacity_def vec_clear_def VIDEO_MIN_SIZE_def
       VIDEO_FRAME_POOL_COUNT_def)

end
