(* ===== verification/Color.thy ===== *)
theory Color
  imports Omt_Types
begin

text \<open>
  Packed pixel helpers (\<open>src/color.rs\<close>). The SSSE3 swizzle is modelled with the intrinsics it uses
  (load 16 bytes, \<open>pshufb\<close>, store) and proved equal to the scalar loop on every input; the UYVY
  preview conversion is modelled with its nested loops and early \<open>break\<close>, an index out of range being
  \<open>None\<close>, and proved equal to a pixel-by-pixel description.
\<close>

section \<open>Definitions\<close>

fun bgra_to_rgba_scalar :: "bytes \<Rightarrow> bytes \<Rightarrow> bytes" where
  "bgra_to_rgba_scalar (b # g # r # a # bgra) (d0 # d1 # d2 # d3 # rgba) =
     r # g # b # a # bgra_to_rgba_scalar bgra rgba"
| "bgra_to_rgba_scalar bgra rgba = rgba"

text \<open>\<open>_mm_set_epi8\<close> takes the most significant byte first; \<open>_mm_shuffle_epi8\<close> picks by the low four bits
  of each mask byte, or gives zero when its top bit is set.\<close>

definition mm_set_epi8 :: "u8 list \<Rightarrow> bytes" where
  "mm_set_epi8 es = rev es"

definition mm_shuffle_epi8 :: "bytes \<Rightarrow> bytes \<Rightarrow> bytes" where
  "mm_shuffle_epi8 v m = map (\<lambda>k. if bit k 7 then 0 else v ! unat (k AND 15)) m"

definition swizzle :: bytes where
  "swizzle = mm_set_epi8 [15, 12, 13, 14, 11, 8, 9, 10, 7, 4, 5, 6, 3, 0, 1, 2]"

function ssse3_loop :: "bytes \<Rightarrow> nat \<Rightarrow> nat \<Rightarrow> bytes \<Rightarrow> bytes" where
  "ssse3_loop bgra simd_end i rgba =
     (if i < simd_end
      then ssse3_loop bgra simd_end (i + 16)
             (take i rgba @ mm_shuffle_epi8 (slice i (i + 16) bgra) swizzle @ drop (i + 16) rgba)
      else rgba)"
  by pat_completeness auto
termination
  by (relation "measure (\<lambda>(bgra, simd_end, i, rgba). simd_end - i)") auto

declare ssse3_loop.simps [simp del]

text \<open>\<open>len & !15\<close> rounds down to a multiple of 16; the tail after it is done by the scalar code.\<close>

definition bgra_to_rgba_ssse3 :: "bytes \<Rightarrow> bytes \<Rightarrow> bytes" where
  "bgra_to_rgba_ssse3 bgra rgba =
     (let len = length bgra;
          simd_end = len div 16 * 16;
          rgba' = ssse3_loop bgra simd_end 0 rgba in
      if simd_end < len
      then take simd_end rgba' @ bgra_to_rgba_scalar (drop simd_end bgra) (drop simd_end rgba')
      else rgba')"

text \<open>\<open>has_ssse3\<close> is the result of the run-time feature detection.\<close>

definition bgra_to_rgba_into :: "bool \<Rightarrow> bytes \<Rightarrow> bytes \<Rightarrow> bytes" where
  "bgra_to_rgba_into has_ssse3 bgra rgba =
     (let n = min (length bgra) (length rgba) in
      (if has_ssse3 then bgra_to_rgba_ssse3 (take n bgra) (take n rgba)
       else bgra_to_rgba_scalar (take n bgra) (take n rgba)) @ drop n rgba)"

definition bgra_to_rgba :: "bool \<Rightarrow> bytes \<Rightarrow> bytes" where
  "bgra_to_rgba has_ssse3 bgra = bgra_to_rgba_into has_ssse3 bgra (replicate (length bgra) 0)"

fun bgra_alpha_mask :: "bytes \<Rightarrow> bytes" where
  "bgra_alpha_mask (b # g # r # a # bgra) = a # a # a # 255 # bgra_alpha_mask bgra"
| "bgra_alpha_mask bgra = []"

definition clamp_u8 :: "int \<Rightarrow> u8" where
  "clamp_u8 v = word_of_int (max 0 (min 255 v))"

text \<open>The \<open>i32\<close> arithmetic cannot overflow on byte inputs; \<open>>> 8\<close> on \<open>i32\<close> is division rounding down.\<close>

definition yuv_to_rgb :: "u8 \<Rightarrow> u8 \<Rightarrow> u8 \<Rightarrow> u8 \<times> u8 \<times> u8" where
  "yuv_to_rgb y0 u0 v0 =
     (let y = max (uint y0 - 16) 0;
          u = uint u0 - 128;
          v = uint v0 - 128;
          r = (298 * y + 459 * v + 128) div 256;
          g = (298 * y - 55 * u - 136 * v + 128) div 256;
          b = (298 * y + 541 * u + 128) div 256 in
      (clamp_u8 r, clamp_u8 g, clamp_u8 b))"

text \<open>\<open>rgba[i] = r; ...; rgba[i + 3] = 255\<close>.\<close>

definition put_px :: "nat \<Rightarrow> u8 \<times> u8 \<times> u8 \<Rightarrow> bytes \<Rightarrow> bytes option" where
  "put_px i px rgba =
     (case px of (r, g, b) \<Rightarrow>
        if i + 3 < length rgba then Some (take i rgba @ [r, g, b, 255] @ drop (i + 4) rgba) else None)"

function range_step2 :: "nat \<Rightarrow> nat \<Rightarrow> nat list" where
  "range_step2 a b = (if a < b then a # range_step2 (a + 2) b else [])"
  by pat_completeness auto
termination
  by (relation "measure (\<lambda>(a, b). b - a)") auto

declare range_step2.simps [simp del]

fun uyvy_row :: "bytes \<Rightarrow> nat \<Rightarrow> nat \<Rightarrow> nat list \<Rightarrow> bytes \<Rightarrow> bytes option" where
  "uyvy_row uyvy w y [] rgba = Some rgba"
| "uyvy_row uyvy w y (x # xs) rgba =
     (if y * w * 2 + x * 2 + 3 \<ge> length uyvy then Some rgba
      else
        case put_px ((y * w + x) * 4)
               (yuv_to_rgb (uyvy ! (y * w * 2 + x * 2 + 1)) (uyvy ! (y * w * 2 + x * 2))
                  (uyvy ! (y * w * 2 + x * 2 + 2))) rgba of
          None \<Rightarrow> None
        | Some rgba' \<Rightarrow>
            if x + 1 < w then
              (case put_px ((y * w + x) * 4 + 4)
                      (yuv_to_rgb (uyvy ! (y * w * 2 + x * 2 + 3)) (uyvy ! (y * w * 2 + x * 2))
                         (uyvy ! (y * w * 2 + x * 2 + 2))) rgba' of
                 None \<Rightarrow> None
               | Some rgba'' \<Rightarrow> uyvy_row uyvy w y xs rgba'')
            else uyvy_row uyvy w y xs rgba')"

fun uyvy_rows :: "bytes \<Rightarrow> nat \<Rightarrow> nat list \<Rightarrow> bytes \<Rightarrow> bytes option" where
  "uyvy_rows uyvy w [] rgba = Some rgba"
| "uyvy_rows uyvy w (y # ys) rgba =
     Option.bind (uyvy_row uyvy w y (range_step2 0 w) rgba) (uyvy_rows uyvy w ys)"

definition uyvy_to_rgba :: "bytes \<Rightarrow> u32 \<Rightarrow> u32 \<Rightarrow> bytes option" where
  "uyvy_to_rgba uyvy width height =
     (let w = unat width; h = unat height in
      uyvy_rows uyvy w [0..<h] (replicate (w * h * 4) 0))"

section \<open>The swizzle\<close>

lemma length_scalar [simp]: "length (bgra_to_rgba_scalar bgra rgba) = length rgba"
  by (induction bgra rgba rule: bgra_to_rgba_scalar.induct) simp_all

lemma scalar_Nil [simp]: "bgra_to_rgba_scalar [] rgba = rgba"
  by (cases rgba) simp_all

lemma length_4:
  "length xs = Suc n \<Longrightarrow> \<exists>x ys. xs = x # ys \<and> length ys = n"
  by (cases xs) auto

lemma scalar_append:
  assumes "length xs = 4 * n" "length xs' = 4 * n"
  shows "bgra_to_rgba_scalar (xs @ ys) (xs' @ ys') = bgra_to_rgba_scalar xs xs' @ bgra_to_rgba_scalar ys ys'"
  using assms
proof (induction n arbitrary: xs xs')
  case (Suc n)
  then obtain a b c d r where xs: "xs = a # b # c # d # r" "length r = 4 * n"
    by (auto simp: length_Suc_conv numeral_eq_Suc)
  from Suc.prems obtain a' b' c' d' r' where xs': "xs' = a' # b' # c' # d' # r'" "length r' = 4 * n"
    by (auto simp: length_Suc_conv numeral_eq_Suc)
  from xs xs' Suc.IH [of r r'] show ?case by simp
qed simp

lemma swizzle_scalar:
  assumes "length v = 16" "length d = 16"
  shows "mm_shuffle_epi8 v swizzle = bgra_to_rgba_scalar v d"
proof -
  from assms(1) obtain v0 v1 v2 v3 v4 v5 v6 v7 v8 v9 va vb vc vd ve vf
    where v: "v = [v0, v1, v2, v3, v4, v5, v6, v7, v8, v9, va, vb, vc, vd, ve, vf]"
    by (auto simp: length_Suc_conv numeral_eq_Suc)
  from assms(2) obtain d0 d1 d2 d3 d4 d5 d6 d7 d8 d9 da db dc dd de df
    where d: "d = [d0, d1, d2, d3, d4, d5, d6, d7, d8, d9, da, db, dc, dd, de, df]"
    by (auto simp: length_Suc_conv numeral_eq_Suc)
  show ?thesis
    unfolding v d by (simp add: mm_shuffle_epi8_def swizzle_def mm_set_epi8_def)
qed

lemma ssse3_loop_scalar:
  assumes "length rgba = length bgra" "e = i + 16 * n" "e \<le> length bgra"
  shows "ssse3_loop bgra e i rgba =
     take i rgba @ bgra_to_rgba_scalar (slice i e bgra) (slice i e rgba) @ drop e rgba"
  using assms
proof (induction n arbitrary: i rgba)
  case 0
  then show ?case by (simp add: ssse3_loop.simps slice_def)
next
  case (Suc n)
  let ?s = "bgra_to_rgba_scalar (slice i (i + 16) bgra) (slice i (i + 16) rgba)"
  let ?r = "take i rgba @ ?s @ drop (i + 16) rgba"
  have len: "length (slice i (i + 16) bgra) = 16" "length (slice i (i + 16) rgba) = 16"
    using Suc.prems by simp_all
  have "ssse3_loop bgra e i rgba = ssse3_loop bgra e (i + 16) ?r"
    using Suc.prems(2) by (subst ssse3_loop.simps) (simp add: swizzle_scalar [OF len])
  also have "\<dots> = take (i + 16) ?r @ bgra_to_rgba_scalar (slice (i + 16) e bgra) (slice (i + 16) e ?r) @ drop e ?r"
    using Suc.prems len by (intro Suc.IH) simp_all
  also have "take (i + 16) ?r = take i rgba @ ?s" using Suc.prems len by simp
  also have "slice (i + 16) e ?r = slice (i + 16) e rgba"
    using Suc.prems len by (simp add: slice_def ac_simps)
  also have "drop e ?r = drop e rgba"
    using Suc.prems len by (simp add: ac_simps)
  finally show ?case
    using scalar_append [of "slice i (i + 16) bgra" 4 "slice i (i + 16) rgba" "slice (i + 16) e bgra"
        "slice (i + 16) e rgba"] len slice_split [of i "i + 16" e bgra] slice_split [of i "i + 16" e rgba] Suc.prems
    by simp
qed

section \<open>The UYVY preview\<close>

text \<open>The pixel in column \<open>x\<close> of row \<open>y\<close>: chroma is shared by a pair of columns; a pair that is not
  complete in the input stays transparent black.\<close>

definition uyvy_pixel :: "bytes \<Rightarrow> nat \<Rightarrow> nat \<Rightarrow> nat \<Rightarrow> bytes" where
  "uyvy_pixel uyvy w y x =
     (let p = y * w * 2 + x div 2 * 4 in
      if p + 3 < length uyvy then
        (case yuv_to_rgb (uyvy ! (p + 1 + x mod 2 * 2)) (uyvy ! p) (uyvy ! (p + 2)) of (r, g, b) \<Rightarrow> [r, g, b, 255])
      else [0, 0, 0, 0])"

lemma length_uyvy_pixel [simp]: "length (uyvy_pixel uyvy w y x) = 4"
  by (simp add: uyvy_pixel_def Let_def split: prod.split)

lemma put_px_zeros:
  assumes "length pre = i" "0 < n"
  shows "put_px i (r, g, b) (pre @ replicate (4 * n) 0) = Some ((pre @ [r, g, b, 255]) @ replicate (4 * (n - 1)) 0)"
proof -
  have "replicate (4 * n) (0 :: u8) = replicate 4 0 @ replicate (4 * (n - 1)) 0"
    using assms(2) by (simp flip: replicate_add add: algebra_simps)
  with assms show ?thesis by (simp add: put_px_def)
qed

lemma uyvy_pixel_past:
  assumes "even x" "length uyvy \<le> y * w * 2 + x * 2 + 3" "x \<le> x'"
  shows "uyvy_pixel uyvy w y x' = [0, 0, 0, 0]"
proof -
  have "x \<le> x' div 2 * 2" using assms(1,3) by auto
  with assms(2) have "length uyvy \<le> y * w * 2 + x' div 2 * 4 + 3" by linarith
  then show ?thesis by (simp add: uyvy_pixel_def)
qed

lemma uyvy_pixel_pair:
  assumes "even x" "y * w * 2 + x * 2 + 3 < length uyvy"
  shows "uyvy_pixel uyvy w y x =
      (case yuv_to_rgb (uyvy ! (y * w * 2 + x * 2 + 1)) (uyvy ! (y * w * 2 + x * 2)) (uyvy ! (y * w * 2 + x * 2 + 2))
       of (r, g, b) \<Rightarrow> [r, g, b, 255])"
    and "uyvy_pixel uyvy w y (Suc x) =
      (case yuv_to_rgb (uyvy ! (y * w * 2 + x * 2 + 3)) (uyvy ! (y * w * 2 + x * 2)) (uyvy ! (y * w * 2 + x * 2 + 2))
       of (r, g, b) \<Rightarrow> [r, g, b, 255])"
proof -
  have x: "x div 2 * 4 = x * 2" "Suc x div 2 * 4 = x * 2" "x mod 2 = 0" "Suc x mod 2 = 1" using assms(1) by auto
  show "uyvy_pixel uyvy w y x =
      (case yuv_to_rgb (uyvy ! (y * w * 2 + x * 2 + 1)) (uyvy ! (y * w * 2 + x * 2)) (uyvy ! (y * w * 2 + x * 2 + 2))
       of (r, g, b) \<Rightarrow> [r, g, b, 255])"
    "uyvy_pixel uyvy w y (Suc x) =
      (case yuv_to_rgb (uyvy ! (y * w * 2 + x * 2 + 3)) (uyvy ! (y * w * 2 + x * 2)) (uyvy ! (y * w * 2 + x * 2 + 2))
       of (r, g, b) \<Rightarrow> [r, g, b, 255])"
    using assms(2) unfolding uyvy_pixel_def Let_def x by (simp_all add: numeral_3_eq_3)
qed

lemma uyvy_row_pixels:
  assumes "even x" "x \<le> w" "length pre = (y * w + x) * 4"
  shows "uyvy_row uyvy w y (range_step2 x w) (pre @ replicate (4 * (w - x + m)) 0) =
     Some (pre @ concat (map (uyvy_pixel uyvy w y) [x..<w]) @ replicate (4 * m) 0)"
  using assms
proof (induction x w arbitrary: pre rule: range_step2.induct)
  case (1 x w)
  show ?case
  proof (cases "x < w")
    case False
    with "1.prems" show ?thesis by (simp add: range_step2.simps)
  next
    case True
    then have r: "range_step2 x w = x # range_step2 (x + 2) w" by (simp add: range_step2.simps)
    show ?thesis
    proof (cases "y * w * 2 + x * 2 + 3 < length uyvy")
      case False
      then have z: "map (uyvy_pixel uyvy w y) [x..<w] = map (\<lambda>_. [0, 0, 0, 0]) [x..<w]"
        using uyvy_pixel_past [OF "1.prems"(1)] by auto
      have "concat (map (\<lambda>_. [0, 0, 0, 0 :: u8]) xs) = replicate (4 * length xs) 0" for xs :: "nat list"
        by (induction xs) (simp_all add: numeral_eq_Suc)
      then have "concat (map (\<lambda>_. [0, 0, 0, 0 :: u8]) [x..<w]) = replicate (4 * (w - x)) 0" by simp
      then show ?thesis using False by (simp add: r z distrib_left replicate_add)
    next
      case in_range: True
      obtain r0 g0 b0 where p0: "yuv_to_rgb (uyvy ! (y * w * 2 + x * 2 + 1)) (uyvy ! (y * w * 2 + x * 2))
        (uyvy ! (y * w * 2 + x * 2 + 2)) = (r0, g0, b0)" by (metis prod_cases3)
      obtain r1 g1 b1 where p1: "yuv_to_rgb (uyvy ! (y * w * 2 + x * 2 + 3)) (uyvy ! (y * w * 2 + x * 2))
        (uyvy ! (y * w * 2 + x * 2 + 2)) = (r1, g1, b1)" by (metis prod_cases3)
      have px: "uyvy_pixel uyvy w y x = [r0, g0, b0, 255]" "uyvy_pixel uyvy w y (Suc x) = [r1, g1, b1, 255]"
        using uyvy_pixel_pair [OF "1.prems"(1) in_range] p0 p1 by simp_all
      have put0: "put_px ((y * w + x) * 4) (r0, g0, b0) (pre @ replicate (4 * (w - x + m)) 0) =
          Some ((pre @ [r0, g0, b0, 255]) @ replicate (4 * (w - Suc x + m)) 0)"
        using put_px_zeros [OF "1.prems"(3), of "w - x + m"] True by (simp add: Suc_diff_Suc)
      have lim: "\<not> y * w * 2 + x * 2 + 3 \<ge> length uyvy" using in_range by simp
      show ?thesis
      proof (cases "x + 1 < w")
        case True
        have put1: "put_px ((y * w + x) * 4 + 4) (r1, g1, b1) ((pre @ [r0, g0, b0, 255]) @ replicate (4 * (w - Suc x + m)) 0) =
          Some (((pre @ [r0, g0, b0, 255]) @ [r1, g1, b1, 255]) @ replicate (4 * (w - (x + 2) + m)) 0)"
          using put_px_zeros [of "pre @ [r0, g0, b0, 255]" "(y * w + x) * 4 + 4" "w - Suc x + m"] "1.prems"(3) True
          by (simp add: Suc_diff_Suc)
        have "[x..<w] = x # Suc x # [x + 2..<w]" using True by (simp add: upt_conv_Cons)
        moreover have "uyvy_row uyvy w y (range_step2 x w) (pre @ replicate (4 * (w - x + m)) 0) =
            uyvy_row uyvy w y (range_step2 (x + 2) w)
              (((pre @ [r0, g0, b0, 255]) @ [r1, g1, b1, 255]) @ replicate (4 * (w - (x + 2) + m)) 0)"
          unfolding r uyvy_row.simps p0 p1 put0 using lim True put1 by (simp only: if_False if_True option.case)
        ultimately show ?thesis
          using "1.IH" [of "(pre @ [r0, g0, b0, 255]) @ [r1, g1, b1, 255]"] "1.prems" True \<open>x < w\<close>
          by (simp add: px)
      next
        case False
        with \<open>x < w\<close> have w: "w = Suc x" by simp
        have "uyvy_row uyvy w y (range_step2 x w) (pre @ replicate (4 * (w - x + m)) 0) =
            uyvy_row uyvy w y (range_step2 (x + 2) w) ((pre @ [r0, g0, b0, 255]) @ replicate (4 * (w - Suc x + m)) 0)"
          unfolding r uyvy_row.simps p0 put0 using lim False by (simp only: if_False option.case)
        then show ?thesis using px(1) w by (simp add: range_step2.simps [of "Suc (Suc x)"])
      qed
    qed
  qed
qed

lemma uyvy_rows_pixels:
  assumes "length pre = y * w * 4"
  shows "uyvy_rows uyvy w [y..<y + n] (pre @ replicate (4 * (w * n)) 0) =
     Some (pre @ concat (map (\<lambda>j. concat (map (uyvy_pixel uyvy w j) [0..<w])) [y..<y + n]))"
  using assms
proof (induction n arbitrary: y pre)
  case (Suc n)
  have up: "[y..<y + Suc n] = y # [Suc y..<Suc y + n]" using upt_conv_Cons [of y "y + Suc n"] by simp
  let ?row = "concat (map (uyvy_pixel uyvy w y) [0..<w])"
  have row: "uyvy_row uyvy w y (range_step2 0 w) (pre @ replicate (4 * (w * Suc n)) 0) =
      Some (pre @ ?row @ replicate (4 * (w * n)) 0)"
    using uyvy_row_pixels [of 0 w pre y uyvy "w * n"] Suc.prems by (simp add: mult.assoc)
  have "length ?row = w * 4" by (simp add: length_concat comp_def sum_list_triv)
  with Suc.IH [of "pre @ ?row" "Suc y"] Suc.prems show ?case
    unfolding up uyvy_rows.simps row by (simp add: algebra_simps)
qed simp

section \<open>Properties\<close>

text \<open>the SSSE3 path and the scalar path give the same pixels on every pair of buffers, whatever their
  lengths, so the run-time dispatch is not observable.\<close>

theorem swizzle_dispatch: "bgra_to_rgba_into True bgra rgba = bgra_to_rgba_into False bgra rgba"
proof -
  have "bgra_to_rgba_ssse3 xs ys = bgra_to_rgba_scalar xs ys" if len: "length ys = length xs" for xs ys
  proof -
    let ?e = "length xs div 16 * 16"
    have e: "?e \<le> length xs" by (simp add: div_times_less_eq_dividend)
    have loop: "ssse3_loop xs ?e 0 ys = bgra_to_rgba_scalar (take ?e xs) (take ?e ys) @ drop ?e ys"
      using ssse3_loop_scalar [of ys xs ?e 0 "length xs div 16"] len e by (simp add: slice_def mult.commute)
    have "bgra_to_rgba_scalar (take ?e xs @ drop ?e xs) (take ?e ys @ drop ?e ys) =
        bgra_to_rgba_scalar (take ?e xs) (take ?e ys) @ bgra_to_rgba_scalar (drop ?e xs) (drop ?e ys)"
      using e len by (intro scalar_append [of _ "length xs div 16 * 4"]) simp_all
    then have "bgra_to_rgba_scalar xs ys =
        bgra_to_rgba_scalar (take ?e xs) (take ?e ys) @ bgra_to_rgba_scalar (drop ?e xs) (drop ?e ys)"
      by (simp only: append_take_drop_id)
    moreover have "bgra_to_rgba_ssse3 xs ys =
        bgra_to_rgba_scalar (take ?e xs) (take ?e ys) @ bgra_to_rgba_scalar (drop ?e xs) (drop ?e ys)"
      unfolding bgra_to_rgba_ssse3_def Let_def loop using len e by simp
    ultimately show ?thesis by (simp only:)
  qed
  then show ?thesis by (simp add: bgra_to_rgba_into_def Let_def)
qed

text \<open>the UYVY preview never indexes out of range, whatever the input length, width and height, and its
  output is, row by row, the pixels of the frame; pixels whose pair of columns is missing from the input
  stay zero.\<close>

theorem uyvy_to_rgba_pixels:
  "uyvy_to_rgba uyvy width height =
     Some (concat (map (\<lambda>y. concat (map (uyvy_pixel uyvy (unat width) y) [0..<unat width])) [0..<unat height]))"
  using uyvy_rows_pixels [of "[]" 0 "unat width" uyvy "unat height"]
  by (simp add: uyvy_to_rgba_def Let_def mult.commute mult.left_commute)

end
