(* ===== verification/Xml.thy ===== *)
theory Xml
  imports Omt_Types
begin

text \<open>
  The XML element tree (\<open>src/protocol/xml.rs\<close>). The parser itself is the \<open>roxmltree\<close> crate and is a
  parameter \<open>rox\<close> of the model: it gives an error text or the root node. What the crate relies on is
  the named hypothesis \<open>reads_xml rox\<close>: a well-formed document, written out from a tree, is read back as
  that tree. A small reader \<open>ref_xml\<close> is defined and proved to have the property, so the hypothesis can
  hold; it instantiates the parameter in the witnesses.
\<close>

section \<open>Definitions\<close>

datatype rox_node =
  RoxElement string "(string \<times> string) list" "rox_node list"
  | RoxText string
  | RoxOther

type_synonym rox = "string \<Rightarrow> string + rox_node"

datatype xml_element = XmlElement
  (xe_name: string) (xe_attributes: "(string \<times> string) list") (xe_children: "xml_element list") (xe_text: string)

fun is_element :: "rox_node \<Rightarrow> bool" where
  "is_element (RoxElement _ _ _) = True"
| "is_element _ = False"

fun text_of :: "rox_node \<Rightarrow> string" where
  "text_of (RoxText t) = t"
| "text_of _ = []"

text \<open>\<open>from_node\<close> on an element; the root element and every visited child is one.\<close>

fun from_node :: "rox_node \<Rightarrow> xml_element" where
  "from_node (RoxElement name attrs nodes) =
     XmlElement name attrs (map from_node (filter is_element nodes)) (trim (concat (map text_of nodes)))"
| "from_node (RoxText t) = XmlElement [] [] [] []"
| "from_node RoxOther = XmlElement [] [] [] []"

definition xml_parse :: "rox \<Rightarrow> string \<Rightarrow> xml_element result" where
  "xml_parse rox xml =
     (case rox (trim_bom xml) of
        Inl e \<Rightarrow> Inl (Protocol (''invalid metadata XML: '' @ e))
      | Inr root \<Rightarrow> Inr (from_node root))"

definition find_attr :: "string \<Rightarrow> (string \<times> string) list \<Rightarrow> string option" where
  "find_attr name attributes = map_option snd (find (\<lambda>(k, _). k = name) attributes)"

definition xe_attr :: "string \<Rightarrow> xml_element \<Rightarrow> string option" where
  "xe_attr name el = find_attr name (xe_attributes el)"

definition parse_bool :: "string \<Rightarrow> bool option" where
  "parse_bool value =
     (let s = trim value in
      if eq_ignore_ascii_case s ''true'' \<or> s = ''1'' then Some True
      else if eq_ignore_ascii_case s ''false'' \<or> s = ''0'' then Some False
      else None)"

definition xe_attr_bool :: "string \<Rightarrow> xml_element \<Rightarrow> bool option" where
  "xe_attr_bool name el = Option.bind (xe_attr name el) parse_bool"

definition xe_child :: "string \<Rightarrow> xml_element \<Rightarrow> xml_element option" where
  "xe_child name el = find (\<lambda>c. xe_name c = name) (xe_children el)"

definition xe_children_named :: "string \<Rightarrow> xml_element \<Rightarrow> xml_element list" where
  "xe_children_named name el = filter (\<lambda>c. xe_name c = name) (xe_children el)"

definition xe_child_text :: "string \<Rightarrow> xml_element \<Rightarrow> string option" where
  "xe_child_text name el =
     Option.bind (xe_child name el) (\<lambda>c. if xe_text c = [] then None else Some (xe_text c))"

definition escape_xml :: "string \<Rightarrow> string" where
  "escape_xml s =
     replace_char (CHR 0x27) ''&apos;''
       (replace_char (CHR 0x22) ''&quot;''
         (replace_char (CHR ''>'') ''&gt;''
           (replace_char (CHR ''<'') ''&lt;''
             (replace_char (CHR ''&'') ''&amp;'' s))))"

section \<open>Escaping\<close>

definition esc_char :: "char \<Rightarrow> string" where
  "esc_char c =
     (if c = CHR ''&'' then ''&amp;'' else if c = CHR ''<'' then ''&lt;'' else if c = CHR ''>'' then ''&gt;''
      else if c = CHR 0x22 then ''&quot;'' else if c = CHR 0x27 then ''&apos;'' else [c])"

lemma replace_char_append [simp]: "replace_char c r (s @ t) = replace_char c r s @ replace_char c r t"
  by (simp add: replace_char_def)

lemma replace_char_Nil [simp]: "replace_char c r [] = []"
  by (simp add: replace_char_def)

lemma replace_char_Cons [simp]: "replace_char c r (x # s) = (if x = c then r else [x]) @ replace_char c r s"
  by (simp add: replace_char_def)

lemma replace_char_none: "c \<notin> set s \<Longrightarrow> replace_char c r s = s"
  by (induction s) auto

lemma escape_xml_concat: "escape_xml s = concat (map esc_char s)"
  by (induction s) (simp_all add: escape_xml_def esc_char_def)

lemma escape_xml_append [simp]: "escape_xml (s @ t) = escape_xml s @ escape_xml t"
  by (simp add: escape_xml_concat)

lemma escape_xml_Nil [simp]: "escape_xml [] = []"
  by (simp add: escape_xml_concat)

lemma escape_xml_Cons: "escape_xml (c # s) = esc_char c @ escape_xml s"
  by (simp add: escape_xml_concat)

lemma esc_char_clean: "CHR ''<'' \<notin> set (esc_char c)" "CHR ''>'' \<notin> set (esc_char c)" "CHR 0x22 \<notin> set (esc_char c)"
  by (simp_all add: esc_char_def)

lemma escape_xml_clean: "CHR ''<'' \<notin> set (escape_xml s)" "CHR ''>'' \<notin> set (escape_xml s)" "CHR 0x22 \<notin> set (escape_xml s)"
  by (auto simp: escape_xml_concat esc_char_clean)

lemma escape_xml_eq_Nil [simp]: "escape_xml s = [] \<longleftrightarrow> s = []"
  by (cases s) (auto simp: escape_xml_Cons esc_char_def)

text \<open>Reading the five predefined entities back.\<close>

function unescape :: "string \<Rightarrow> string" where
  "unescape [] = []"
| "unescape (c # s) =
     (if starts_with ''&amp;'' (c # s) then CHR ''&'' # unescape (drop 5 (c # s))
      else if starts_with ''&lt;'' (c # s) then CHR ''<'' # unescape (drop 4 (c # s))
      else if starts_with ''&gt;'' (c # s) then CHR ''>'' # unescape (drop 4 (c # s))
      else if starts_with ''&quot;'' (c # s) then CHR 0x22 # unescape (drop 6 (c # s))
      else if starts_with ''&apos;'' (c # s) then CHR 0x27 # unescape (drop 6 (c # s))
      else c # unescape s)"
  by pat_completeness auto
termination
  by (relation "measure length") auto

lemma unescape_esc_char: "unescape (esc_char c @ s) = c # unescape s"
  by (simp add: esc_char_def)


text \<open>The crate has a second escaping, without the apostrophe (\<open>types.rs\<close>, \<open>address.rs\<close>); \<open>esc True\<close> is
  \<open>escape_xml\<close> and \<open>esc False\<close> the other.\<close>

definition esc :: "bool \<Rightarrow> string \<Rightarrow> string" where
  "esc q s = concat (map (\<lambda>c. if c = CHR 0x27 \<and> \<not> q then [c] else esc_char c) s)"

lemma esc_True: "esc True s = escape_xml s"
  by (simp add: esc_def escape_xml_concat)

lemma escape_xml_attr_esc: "escape_xml_attr s = esc False s"
  by (induction s) (simp_all add: escape_xml_attr_def esc_def esc_char_def)

lemma esc_Nil [simp]: "esc q [] = []"
  by (simp add: esc_def)

lemma esc_append [simp]: "esc q (s @ t) = esc q s @ esc q t"
  by (simp add: esc_def)

lemma esc_eq_Nil [simp]: "esc q s = [] \<longleftrightarrow> s = []"
  by (cases s) (auto simp: esc_def esc_char_def)

lemma esc_clean: "CHR ''<'' \<notin> set (esc q s)" "CHR ''>'' \<notin> set (esc q s)" "CHR 0x22 \<notin> set (esc q s)"
  by (auto simp: esc_def esc_char_clean split: if_splits)

lemma esc_id: "list_all (\<lambda>c. c \<notin> {CHR ''&'', CHR ''<'', CHR ''>'', CHR 0x22, CHR 0x27}) s \<Longrightarrow> esc q s = s"
  by (induction s) (auto simp: esc_def esc_char_def)

lemma unescape_esc [simp]: "unescape (esc q s) = s"
proof (induction s)
  case (Cons c s)
  then show ?case
    by (cases "c = CHR 0x27 \<and> \<not> q") (auto simp add: esc_def unescape_esc_char)
qed simp

section \<open>Documents and their reading\<close>

definition render_attrs :: "bool \<Rightarrow> (string \<times> string) list \<Rightarrow> string" where
  "render_attrs q attrs =
     concat (map (\<lambda>(k, v). '' '' @ k @ ''='' @ [CHR 0x22] @ esc q v @ [CHR 0x22]) attrs)"

fun render :: "bool \<Rightarrow> rox_node \<Rightarrow> string" where
  "render q (RoxElement name attrs nodes) =
     ''<'' @ name @ render_attrs q attrs @
     (if nodes = [] then '' />'' else ''>'' @ concat (map (render q) nodes) @ ''</'' @ name @ ''>'')"
| "render q (RoxText t) = esc q t"
| "render q RoxOther = []"

text \<open>Names start with an ASCII letter and are alphanumeric; values are printable ASCII, which an XML
  reader takes literally up to the entities; text may also hold line feeds. Text nodes are not empty
  and not adjacent, as a reader merges them.\<close>

definition xml_name :: "string \<Rightarrow> bool" where
  "xml_name n \<longleftrightarrow> n \<noteq> [] \<and> is_ascii_alphabetic (hd n) \<and> list_all is_ascii_alphanumeric n"

definition printable :: "string \<Rightarrow> bool" where
  "printable s \<longleftrightarrow> list_all (\<lambda>c. 32 \<le> (of_char c :: nat) \<and> (of_char c :: nat) < 127) s"

definition text_ok :: "string \<Rightarrow> bool" where
  "text_ok s \<longleftrightarrow> s \<noteq> [] \<and> list_all (\<lambda>c. (of_char c :: nat) = 10 \<or> 32 \<le> (of_char c :: nat) \<and> (of_char c :: nat) < 127) s"

fun is_text :: "rox_node \<Rightarrow> bool" where
  "is_text (RoxText _) = True"
| "is_text _ = False"

fun no_adjacent_text :: "rox_node list \<Rightarrow> bool" where
  "no_adjacent_text (a # b # ns) \<longleftrightarrow> \<not> (is_text a \<and> is_text b) \<and> no_adjacent_text (b # ns)"
| "no_adjacent_text _ \<longleftrightarrow> True"

fun wf_xml :: "rox_node \<Rightarrow> bool" where
  "wf_xml (RoxElement name attrs nodes) \<longleftrightarrow>
     xml_name name \<and> distinct (map fst attrs) \<and> list_all (\<lambda>(k, v). xml_name k \<and> k \<noteq> ''xmlns'' \<and> printable v) attrs \<and>
     list_all wf_xml nodes \<and> no_adjacent_text nodes"
| "wf_xml (RoxText t) \<longleftrightarrow> text_ok t"
| "wf_xml RoxOther \<longleftrightarrow> False"

definition reads_xml :: "rox \<Rightarrow> bool" where
  "reads_xml rox \<longleftrightarrow> (\<forall>q t. is_element t \<and> wf_xml t \<longrightarrow> rox (render q t) = Inr t)"

section \<open>A reader with the property\<close>

text \<open>Attributes up to the end of the tag, with whether the tag closed the element.\<close>

fun ref_attrs :: "nat \<Rightarrow> string \<Rightarrow> ((string \<times> string) list \<times> bool \<times> string) option" where
  "ref_attrs 0 s = None"
| "ref_attrs (Suc k) s =
     (if starts_with '' />'' s then Some ([], True, drop 3 s)
      else if starts_with ''>'' s then Some ([], False, drop 1 s)
      else if starts_with '' '' s then
        let key = takeWhile (\<lambda>c. c \<noteq> CHR ''='') (drop 1 s);
            s' = drop (length key + 3) s;
            v = takeWhile (\<lambda>c. c \<noteq> CHR 0x22) s' in
        map_option (\<lambda>(attrs, closed, rest). ((key, unescape v) # attrs, closed, rest))
          (ref_attrs k (drop (length v + 1) s'))
      else None)"

fun ref_nodes :: "nat \<Rightarrow> string \<Rightarrow> (rox_node list \<times> string) option" where
  "ref_nodes 0 s = None"
| "ref_nodes (Suc k) s =
     (if s = [] \<or> starts_with ''</'' s then Some ([], s)
      else if starts_with ''<'' s then
        let name = takeWhile is_ascii_alphanumeric (drop 1 s) in
        (case ref_attrs k (drop (length name + 1) s) of
           None \<Rightarrow> None
         | Some (attrs, closed, s1) \<Rightarrow>
             if closed then
               map_option (\<lambda>(ns, rest). (RoxElement name attrs [] # ns, rest)) (ref_nodes k s1)
             else
               (case ref_nodes k s1 of
                  None \<Rightarrow> None
                | Some (cs, s2) \<Rightarrow>
                    map_option (\<lambda>(ns, rest). (RoxElement name attrs cs # ns, rest))
                      (ref_nodes k (drop (length name + 3) s2))))
      else
        let t = takeWhile (\<lambda>c. c \<noteq> CHR ''<'') s in
        map_option (\<lambda>(ns, rest). (RoxText (unescape t) # ns, rest)) (ref_nodes k (drop (length t) s)))"

definition ref_xml :: rox where
  "ref_xml s =
     (case ref_nodes (length s + 1) s of
        Some ([RoxElement n attrs cs], []) \<Rightarrow> Inr (RoxElement n attrs cs)
      | _ \<Rightarrow> Inl ''malformed'')"

lemma takeWhile_stop: "list_all P xs \<Longrightarrow> \<not> P y \<Longrightarrow> takeWhile P (xs @ y # ys) = xs"
  by (induction xs) auto

lemma not_in_list_all: "c \<notin> set xs \<Longrightarrow> list_all (\<lambda>x. x \<noteq> c) xs"
  by (auto simp: list_all_iff)

lemma takeWhile_until_lt:
  assumes "c \<notin> set xs" "\<exists>zs. ys = [] \<or> ys = c # zs"
  shows "takeWhile (\<lambda>x. x \<noteq> c) (xs @ ys) = xs"
proof -
  from assms(2) obtain zs where "ys = [] \<or> ys = c # zs" by blast
  then show ?thesis
    using assms(1) takeWhile_stop [OF not_in_list_all [OF assms(1)]] by (auto simp: takeWhile_eq_all_conv)
qed

lemma alnum_not [simp]:
  "\<not> is_ascii_alphanumeric (CHR '' '')" "\<not> is_ascii_alphanumeric (CHR ''>'')" "\<not> is_ascii_alphanumeric (CHR ''='')"
  "\<not> is_ascii_alphanumeric (CHR ''/'')" "\<not> is_ascii_alphanumeric (CHR ''<'')" "\<not> is_ascii_alphanumeric (CHR ''&'')"
  by (simp_all add: is_ascii_alphanumeric_def is_ascii_alphabetic_def is_ascii_digit_def)

lemma xml_name_takeWhile:
  "xml_name n \<Longrightarrow> takeWhile (\<lambda>c. c \<noteq> CHR ''='') (n @ CHR ''='' # s) = n"
  by (rule takeWhile_stop) (auto simp: xml_name_def list_all_iff)

lemma ref_attrs_render:
  assumes "list_all (\<lambda>(k, v). xml_name k) attrs" "length (render_attrs q attrs) < k"
    and "tail = '' />'' \<and> closed \<or> tail = ''>'' \<and> \<not> closed"
  shows "ref_attrs k (render_attrs q attrs @ tail @ rest) = Some (attrs, closed, rest)"
  using assms(1,2)
proof (induction attrs arbitrary: k)
  case Nil
  then obtain k' where "k = Suc k'" by (cases k) auto
  with assms(3) show ?case by (auto simp: render_attrs_def)
next
  case (Cons a attrs)
  obtain key v where a: "a = (key, v)" by fastforce
  with Cons.prems have key: "xml_name key" by simp
  then obtain c cs where hd: "key = c # cs" and alpha: "is_ascii_alphabetic c" by (cases key) (auto simp: xml_name_def)
  then have "c \<noteq> CHR ''/''" by (auto simp: is_ascii_alphabetic_def)
  from Cons.prems obtain k' where k: "k = Suc k'" by (cases k) auto
  let ?r = "render_attrs q attrs @ tail @ rest"
  have body: "render_attrs q (a # attrs) @ tail @ rest =
      CHR '' '' # key @ CHR ''='' # CHR 0x22 # esc q v @ CHR 0x22 # ?r"
    by (simp add: a render_attrs_def)
  have v: "takeWhile (\<lambda>c. c \<noteq> CHR 0x22) (esc q v @ CHR 0x22 # ?r) = esc q v"
    by (rule takeWhile_stop) (simp_all add: not_in_list_all esc_clean)
  have "length (render_attrs q attrs) < k'" using Cons.prems(2) by (simp add: a k render_attrs_def)
  with Cons.IH [of k'] Cons.prems(1) have "ref_attrs k' ?r = Some (attrs, closed, rest)" by simp
  then show ?case
    unfolding body k using v xml_name_takeWhile [OF key] \<open>c \<noteq> CHR ''/''\<close>
    by (simp add: a hd Let_def numeral_eq_Suc)
qed

lemma hd_render_text: "text_ok t \<Longrightarrow> esc q t @ s \<noteq> [] \<and> \<not> starts_with ''<'' (esc q t @ s)"
  using esc_clean(1) [of q t] by (cases "esc q t") (auto simp: text_ok_def)

lemma ref_nodes_step:
  assumes "xml_name n" "list_all (\<lambda>(k, v). xml_name k) attrs"
    and "length (''<'' @ n @ render_attrs q attrs @ tail @ rest) < Suc k"
    and "tail = '' />'' \<and> closed \<or> tail = ''>'' \<and> \<not> closed"
  shows "ref_nodes (Suc k) (''<'' @ n @ render_attrs q attrs @ tail @ rest) =
     (if closed then map_option (\<lambda>(ns, r). (RoxElement n attrs [] # ns, r)) (ref_nodes k rest)
      else case ref_nodes k rest of None \<Rightarrow> None
         | Some (cs, s2) \<Rightarrow> map_option (\<lambda>(ns, r). (RoxElement n attrs cs # ns, r))
             (ref_nodes k (drop (length n + 3) s2)))"
proof -
  from assms(1) obtain c cs where n: "n = c # cs" "is_ascii_alphabetic c" by (cases n) (auto simp: xml_name_def)
  then have "c \<noteq> CHR ''/''" by (auto simp: is_ascii_alphabetic_def)
  have stop: "takeWhile is_ascii_alphanumeric (n @ render_attrs q attrs @ tail @ rest) = n"
  proof -
    obtain y ys where "render_attrs q attrs @ tail @ rest = y # ys" "\<not> is_ascii_alphanumeric y"
      using assms(4) by (cases attrs) (auto simp: render_attrs_def)
    with assms(1) show ?thesis by (simp add: takeWhile_stop xml_name_def)
  qed
  have "ref_attrs k (render_attrs q attrs @ tail @ rest) = Some (attrs, closed, rest)"
    using assms(2,3,4) by (intro ref_attrs_render) auto
  with stop \<open>c \<noteq> CHR ''/''\<close> show ?thesis
    by (simp add: Let_def n(1) [symmetric]) (simp add: n(1))
qed

lemma ref_nodes_render:
  assumes "list_all wf_xml ns" "no_adjacent_text ns" "length (concat (map (render q) ns) @ rest) < k"
    and "rest = [] \<or> starts_with ''</'' rest"
  shows "ref_nodes k (concat (map (render q) ns) @ rest) = Some (ns, rest)"
  using assms
proof (induction "size_list size ns" arbitrary: ns rest k rule: less_induct)
  case less
  from less.prems(3) obtain k' where k: "k = Suc k'" by (cases k) auto
  show ?case
  proof (cases ns)
    case Nil
    with less.prems(4) k show ?thesis by auto
  next
    case (Cons t ms)
    let ?rs = "concat (map (render q) ms) @ rest"
    have ms: "list_all wf_xml ms" "no_adjacent_text ms" using less.prems(1,2) Cons by (auto, cases ms) auto
    have tail: "ref_nodes j ?rs = Some (ms, rest)" if "length ?rs < j" for j
      using less.hyps [of ms] ms that less.prems(4) Cons by simp
    show ?thesis
    proof (cases t)
      case (RoxText u)
      with less.prems Cons have u: "text_ok u" by simp
      have lt: "\<exists>ys. ?rs = [] \<or> ?rs = CHR ''<'' # ys"
        using less.prems(1,2,4) Cons RoxText
        by (cases ms; cases "hd ms") (auto simp: starts_with_iff)
      then have tw: "takeWhile (\<lambda>c. c \<noteq> CHR ''<'') (esc q u @ ?rs) = esc q u"
        by (rule takeWhile_until_lt [OF esc_clean(1)])
      have ne: "esc q u @ ?rs \<noteq> []" "\<not> starts_with ''<'' (esc q u @ ?rs)"
        using hd_render_text [OF u, of q ?rs] by auto
      then have "\<not> starts_with ''</'' (esc q u @ ?rs)" by (auto simp: starts_with_iff)
      moreover have "length ?rs < k'"
        using less.prems(3) Cons RoxText k u by (cases "esc q u") (auto simp: text_ok_def)
      ultimately show ?thesis using ne tw tail [of k'] Cons RoxText k by (simp add: Let_def)
    next
      case (RoxElement n attrs cs)
      with less.prems Cons have wf: "xml_name n" "list_all (\<lambda>(k, v). xml_name k) attrs" "list_all wf_xml cs"
        "no_adjacent_text cs" by (auto simp: list_all_iff)
      show ?thesis
      proof (cases "cs = []")
        case True
        have "ref_nodes (Suc k') (''<'' @ n @ render_attrs q attrs @ '' />'' @ ?rs) =
            map_option (\<lambda>(ns, r). (RoxElement n attrs [] # ns, r)) (ref_nodes k' ?rs)"
          using ref_nodes_step [OF wf(1,2), of q "'' />''" ?rs k' True] less.prems(3) Cons RoxElement True k by simp
        then show ?thesis using tail [of k'] less.prems(3) Cons RoxElement True k by simp
      next
        case False
        let ?close = "''</'' @ n @ ''>'' @ ?rs"
        let ?in = "concat (map (render q) cs) @ ?close"
        have s: "concat (map (render q) ns) @ rest = ''<'' @ n @ render_attrs q attrs @ ''>'' @ ?in"
          using Cons RoxElement False by simp
        have len: "length ?in < k'" "length ?rs < k'" using less.prems(3) k unfolding s by auto
        have skip: "drop (length n + 3) ?close = ?rs" by (simp add: numeral_3_eq_3)
        have "size_list size cs < size_list size ns" using Cons RoxElement by simp
        with less.hyps [of cs ?close k'] wf len have inner: "ref_nodes k' ?in = Some (cs, ?close)" by simp
        have "ref_nodes (Suc k') (''<'' @ n @ render_attrs q attrs @ ''>'' @ ?in) =
            (case ref_nodes k' ?in of None \<Rightarrow> None
             | Some (cs, s2) \<Rightarrow> map_option (\<lambda>(ns, r). (RoxElement n attrs cs # ns, r)) (ref_nodes k' (drop (length n + 3) s2)))"
          using ref_nodes_step [OF wf(1,2), of q "''>''" ?in k' False] less.prems(3) k unfolding s by simp
        then show ?thesis
          unfolding s k inner option.case prod.case skip tail [OF len(2)] using Cons RoxElement
          by (simp del: ref_nodes.simps)
      qed
    qed (use less.prems Cons in auto)
  qed
qed

theorem ref_xml_reads: "reads_xml ref_xml"
proof -
  have "ref_xml (render q t) = Inr t" if "is_element t" "wf_xml t" for q t
    using ref_nodes_render [of "[t]" q "[]" "length (render q t) + 1"] that
    by (cases t) (simp_all add: ref_xml_def)
  then show ?thesis by (simp add: reads_xml_def)
qed

end
