(* ===== verification/Settings.thy ===== *)
theory Settings
  imports Xml "HOL-Library.List_Lexorder" "HOL-Library.Char_ord"
begin

text \<open>
  Persistent settings (\<open>src/settings.rs\<close>): the key/value store and its own reader and writer of
  \<open>settings.xml\<close>. The \<open>BTreeMap\<close> is an association list sorted by key; the file is the text that was
  read, if it could be. The reader's loop consumes its input at every turn. The lemmas show that a store
  is read back as it was written when its values have no surrounding blanks and no key is the name of
  the root element, and how the typed accessors behave.
\<close>

section \<open>Definitions\<close>

definition KEY_DISCOVERY_SERVER :: string where "KEY_DISCOVERY_SERVER = ''DiscoveryServer''"
definition KEY_NETWORK_PORT_START :: string where "KEY_NETWORK_PORT_START = ''NetworkPortStart''"
definition KEY_NETWORK_PORT_END :: string where "KEY_NETWORK_PORT_END = ''NetworkPortEnd''"

type_synonym btree = "(string \<times> string) list"

fun btree_insert :: "string \<Rightarrow> string \<Rightarrow> btree \<Rightarrow> btree" where
  "btree_insert k v [] = [(k, v)]"
| "btree_insert k v ((k', v') # m) =
     (if k = k' then (k, v) # m else if k < k' then (k, v) # (k', v') # m else (k', v') # btree_insert k v m)"

definition btree_get :: "string \<Rightarrow> btree \<Rightarrow> string option" where
  "btree_get k m = map_of m k"

definition btree_remove :: "string \<Rightarrow> btree \<Rightarrow> btree" where
  "btree_remove k m = filter (\<lambda>(k', _). k' \<noteq> k) m"

record settings =
  se_path :: string
  se_values :: btree

definition is_xml_name :: "string \<Rightarrow> bool" where
  "is_xml_name key =
     (case key of
        [] \<Rightarrow> False
      | c # cs \<Rightarrow> (is_ascii_alphabetic c \<or> c = CHR ''_'') \<and>
          list_all (\<lambda>c. is_ascii_alphanumeric c \<or> c = CHR ''_'' \<or> c = CHR ''-'' \<or> c = CHR ''.'') cs)"

definition settings_escape_xml :: "string \<Rightarrow> string" where
  "settings_escape_xml s =
     replace_char (CHR 0x27) ''&apos;''
       (replace_char (CHR 0x22) ''&quot;''
         (replace_char (CHR ''>'') ''&gt;''
           (replace_char (CHR ''<'') ''&lt;''
             (replace_char (CHR ''&'') ''&amp;'' s))))"

definition unescape_xml :: "string \<Rightarrow> string" where
  "unescape_xml s =
     replace_str ''&amp;'' ''&''
       (replace_str ''&apos;'' [CHR 0x27]
         (replace_str ''&quot;'' [CHR 0x22]
           (replace_str ''&gt;'' ''>''
             (replace_str ''&lt;'' ''<'' s))))"

definition inner_element :: "string \<Rightarrow> string \<Rightarrow> string option" where
  "inner_element xml tag =
     (let opn = ''<'' @ tag in
      case str_find opn xml of
        None \<Rightarrow> None
      | Some start \<Rightarrow>
          let after_name = start + length opn in
          (case char_find (CHR ''>'') (drop after_name xml) of
             None \<Rightarrow> None
           | Some g \<Rightarrow>
               let gt = g + after_name;
                   open_tag = trim_end (slice start (gt + 1) xml) in
               if ends_with ''/>'' open_tag then Some []
               else
                 let content = drop (gt + 1) xml in
                 (case str_find (''</'' @ tag @ ''>'') content of
                    None \<Rightarrow> None
                  | Some e \<Rightarrow> Some (take e content))))"

text \<open>\<open>find(|c| c.is_whitespace() || c == '>' || c == '/').unwrap_or(len)\<close>.\<close>

fun name_end :: "string \<Rightarrow> nat" where
  "name_end [] = 0"
| "name_end (c # s) =
     (if ws_start (c # s) > 0 \<or> c = CHR ''>'' \<or> c = CHR ''/'' then 0 else Suc (name_end s))"

text \<open>One turn of the loop of \<open>parse_children\<close> on a trimmed, non-empty rest: \<open>None\<close> leaves the loop.\<close>

definition parse_element :: "string \<Rightarrow> btree \<Rightarrow> (string \<times> btree) option" where
  "parse_element rest m =
     (let after_lt = drop 1 rest;
          e = name_end after_lt;
          name = take e after_lt in
      if name = [] \<or> \<not> is_xml_name name then None
      else
        let after_name = drop e after_lt in
        case char_find (CHR ''>'') after_name of
          None \<Rightarrow> None
        | Some gt \<Rightarrow>
            let self_closing = ends_with ''/'' (trim_end (take gt after_name));
                rest' = drop (gt + 1) after_name in
            if self_closing then Some (rest', btree_insert name [] m)
            else
              let cls = ''</'' @ name @ ''>'' in
              (case str_find cls rest' of
                 None \<Rightarrow> None
               | Some i \<Rightarrow>
                   Some (drop (i + length cls) rest', btree_insert name (unescape_xml (trim (take i rest'))) m)))"

definition parse_turn :: "string \<Rightarrow> btree \<Rightarrow> (string \<times> btree) option" where
  "parse_turn rest m =
     (if starts_with ''<!--'' rest then
        map_option (\<lambda>i. (drop (i + 3) (drop 4 rest), m)) (str_find ''-->'' (drop 4 rest))
      else if starts_with ''<?'' rest then
        map_option (\<lambda>i. (drop (i + 2) rest, m)) (str_find ''?>'' rest)
      else if \<not> starts_with ''<'' rest then
        map_option (\<lambda>i. (drop i rest, m)) (char_find (CHR ''<'') rest)
      else if starts_with ''</'' rest then None
      else parse_element rest m)"

lemma length_trim_start: "length (trim_start s) \<le> length s"
proof -
  obtain p where "s = p @ trim_start s" using trim_start_suffix by blast
  then show ?thesis by (metis length_append le_add2)
qed

lemma parse_turn_shorter:
  assumes "parse_turn rest m = Some (rest', m')" "rest \<noteq> []"
  shows "length rest' < length rest"
proof -
  have "0 < i" if "\<not> starts_with ''<'' rest" "char_find (CHR ''<'') rest = Some i" for i
    using that assms(2) by (cases rest) (auto split: if_splits)
  moreover have "length rest' < length rest" if "parse_element rest m = Some (rest', m')"
    using that assms(2) by (auto simp: parse_element_def Let_def split: if_splits option.splits)
  ultimately show ?thesis
    using assms by (auto simp: parse_turn_def starts_with_iff split: if_splits)
qed

function parse_children_loop :: "string \<Rightarrow> btree \<Rightarrow> btree" where
  "parse_children_loop rest0 m =
     (let rest = trim_start rest0 in
      if rest = [] then m
      else case parse_turn rest m of
        None \<Rightarrow> m
      | Some (rest', m') \<Rightarrow> parse_children_loop rest' m')"
  by pat_completeness auto
termination
proof (relation "measure (\<lambda>(rest, m). length rest)", goal_cases)
  case (2 rest0 m rest z rest' m')
  then have "length rest' < length (trim_start rest0)" using parse_turn_shorter by force
  then show ?case using length_trim_start [of rest0] by simp
qed simp

declare parse_children_loop.simps [simp del]

definition parse_children :: "string \<Rightarrow> btree" where
  "parse_children body = parse_children_loop body []"

definition parse_settings_xml :: "string \<Rightarrow> btree" where
  "parse_settings_xml xml =
     (case inner_element (trim_bom xml) ''Settings'' of
        None \<Rightarrow> []
      | Some body \<Rightarrow> parse_children body)"

definition newline :: string where "newline = [CHR 0x0A]"

definition settings_to_xml :: "btree \<Rightarrow> string" where
  "settings_to_xml values =
     ''<Settings>'' @ newline @
     concat (map (\<lambda>(k, v). ''  <'' @ k @ ''>'' @ settings_escape_xml v @ ''</'' @ k @ ''>'' @ newline) values) @
     ''</Settings>'' @ newline"

text \<open>\<open>file\<close> is what reading the path gave: a missing and an unreadable file both give no values.\<close>

definition settings_from_path :: "string option \<Rightarrow> string \<Rightarrow> settings" where
  "settings_from_path file path =
     \<lparr>se_path = path, se_values = (case file of Some xml \<Rightarrow> parse_settings_xml xml | None \<Rightarrow> [])\<rparr>"

definition settings_path :: "settings \<Rightarrow> string" where "settings_path s = se_path s"
definition settings_entries :: "settings \<Rightarrow> (string \<times> string) list" where "settings_entries s = se_values s"
definition settings_len :: "settings \<Rightarrow> nat" where "settings_len s = length (se_values s)"
definition settings_is_empty :: "settings \<Rightarrow> bool" where "settings_is_empty s \<longleftrightarrow> se_values s = []"
definition contains_key :: "string \<Rightarrow> settings \<Rightarrow> bool" where
  "contains_key key s \<longleftrightarrow> btree_get key (se_values s) \<noteq> None"
definition settings_keys :: "settings \<Rightarrow> string list" where "settings_keys s = map fst (se_values s)"
definition settings_to_vec :: "settings \<Rightarrow> btree" where "settings_to_vec s = se_values s"

definition settings_remove :: "string \<Rightarrow> settings \<Rightarrow> string option \<times> settings" where
  "settings_remove key s = (btree_get key (se_values s), s\<lparr>se_values := btree_remove key (se_values s)\<rparr>)"

definition reload :: "string option \<Rightarrow> settings \<Rightarrow> settings" where
  "reload file s = settings_from_path file (se_path s)"

definition get_string :: "string \<Rightarrow> string \<Rightarrow> settings \<Rightarrow> string" where
  "get_string key dflt s = (case btree_get key (se_values s) of Some v \<Rightarrow> v | None \<Rightarrow> dflt)"

definition set_string :: "string \<Rightarrow> string \<Rightarrow> settings \<Rightarrow> settings" where
  "set_string key value s =
     (if \<not> is_xml_name key then s else s\<lparr>se_values := btree_insert key value (se_values s)\<rparr>)"

definition get_integer :: "string \<Rightarrow> i32 \<Rightarrow> settings \<Rightarrow> i32" where
  "get_integer key dflt s =
     (let value = get_string key [] s in
      if value = [] then dflt else case parse_i32 value of Some n \<Rightarrow> n | None \<Rightarrow> dflt)"

definition set_integer :: "string \<Rightarrow> i32 \<Rightarrow> settings \<Rightarrow> settings" where
  "set_integer key value s = set_string key (show_int (sint value)) s"

definition discovery_server :: "settings \<Rightarrow> string option" where
  "discovery_server s =
     (let url = trim (get_string KEY_DISCOVERY_SERVER [] s) in if url = [] then None else Some url)"

definition port_or_default :: "i32 \<Rightarrow> u16 \<Rightarrow> u16" where
  "port_or_default value dflt = (if 0 \<le> sint value \<and> sint value < 2 ^ 16 then word_of_int (sint value) else dflt)"

definition network_port_range :: "settings \<Rightarrow> u16 \<times> u16" where
  "network_port_range s =
     (port_or_default (get_integer KEY_NETWORK_PORT_START (word_of_nat (unat NETWORK_PORT_START)) s) NETWORK_PORT_START,
      port_or_default (get_integer KEY_NETWORK_PORT_END (word_of_nat (unat NETWORK_PORT_END)) s) NETWORK_PORT_END)"

text \<open>What \<open>save\<close> writes.\<close>

definition settings_save :: "settings \<Rightarrow> string" where
  "settings_save s = settings_to_xml (se_values s)"

section \<open>Unescaping by replacement\<close>

lemma settings_escape: "settings_escape_xml s = concat (map esc_char s)"
  using escape_xml_concat [of s] by (simp add: settings_escape_xml_def escape_xml_def)

text \<open>A pattern does not start inside \<open>w\<close>, whatever follows \<open>w\<close>.\<close>

fun no_start :: "string \<Rightarrow> string \<Rightarrow> bool" where
  "no_start p [] = True"
| "no_start p (c # w) \<longleftrightarrow> list_ex (\<lambda>(a, b). a \<noteq> b) (zip p (c # w)) \<and> no_start p w"

lemma clash_not_starts: "list_ex (\<lambda>(a, b). a \<noteq> b) (zip p w) \<Longrightarrow> \<not> starts_with p (w @ t)"
proof (induction p arbitrary: w)
  case (Cons a p)
  then show ?case by (cases w) auto
qed simp

lemma replace_skip: "no_start p w \<Longrightarrow> replace_str p r (w @ t) = w @ replace_str p r t"
proof (induction w)
  case (Cons c w)
  then have "\<not> starts_with p ((c # w) @ t)" by (intro clash_not_starts) simp
  with Cons show ?case by simp
qed simp

lemma replace_here: "p \<noteq> [] \<Longrightarrow> replace_str p r (p @ t) = r @ replace_str p r t"
proof -
  assume p: "p \<noteq> []"
  then obtain c s where cs: "p @ t = c # s" by (cases p) auto
  have "starts_with p (c # s)" using starts_with_append [of p t] unfolding cs .
  moreover have "drop (length p) (c # s) = t" using cs by (metis append_eq_conv_conj)
  ultimately show ?thesis unfolding cs using p by simp
qed

lemma replace_segments:
  assumes "p \<noteq> []" "\<And>c. f c = p \<and> g c = r \<or> g c = f c \<and> no_start p (f c)"
  shows "replace_str p r (concat (map f s)) = concat (map g s)"
proof (induction s)
  case (Cons c s)
  from assms(2) [of c] show ?case
  proof
    assume "f c = p \<and> g c = r"
    with Cons replace_here [OF assms(1)] show ?thesis by simp
  next
    assume "g c = f c \<and> no_start p (f c)"
    with Cons replace_skip show ?thesis by simp
  qed
qed simp

definition dec1 :: "char set \<Rightarrow> char \<Rightarrow> string" where
  "dec1 D c = (if c \<in> D then [c] else esc_char c)"

lemma unescape_escape_xml: "unescape_xml (settings_escape_xml s) = s"
proof -
  have 0: "settings_escape_xml s = concat (map (dec1 {}) s)" by (simp add: settings_escape dec1_def [abs_def])
  have 1: "replace_str ''&lt;'' ''<'' (concat (map (dec1 {}) s)) = concat (map (dec1 {CHR ''<''}) s)"
    by (rule replace_segments) (auto simp: dec1_def esc_char_def)
  have 2: "replace_str ''&gt;'' ''>'' (concat (map (dec1 {CHR ''<''}) s)) = concat (map (dec1 {CHR ''<'', CHR ''>''}) s)"
    by (rule replace_segments) (auto simp: dec1_def esc_char_def)
  have 3: "replace_str ''&quot;'' [CHR 0x22] (concat (map (dec1 {CHR ''<'', CHR ''>''}) s)) =
      concat (map (dec1 {CHR ''<'', CHR ''>'', CHR 0x22}) s)"
    by (rule replace_segments) (auto simp: dec1_def esc_char_def)
  have 4: "replace_str ''&apos;'' [CHR 0x27] (concat (map (dec1 {CHR ''<'', CHR ''>'', CHR 0x22}) s)) =
      concat (map (dec1 {CHR ''<'', CHR ''>'', CHR 0x22, CHR 0x27}) s)"
    by (rule replace_segments) (auto simp: dec1_def esc_char_def)
  have 5: "replace_str ''&amp;'' ''&'' (concat (map (dec1 {CHR ''<'', CHR ''>'', CHR 0x22, CHR 0x27}) s)) =
      concat (map (\<lambda>c. [c]) s)"
    by (rule replace_segments) (auto simp: dec1_def esc_char_def)
  show ?thesis unfolding unescape_xml_def 0 1 2 3 4 5 by (induction s) auto
qed

section \<open>Trimming escaped text\<close>

lemma ws_chars_escape: "esc_char c = [c] \<or> (\<exists>w. esc_char c = CHR ''&'' # w @ '';'')"
  by (simp add: esc_char_def)

lemma ws_high: "ws2 c d \<Longrightarrow> 128 \<le> (of_char d :: nat)" "ws3 c d e \<Longrightarrow> 128 \<le> (of_char d :: nat) \<and> 128 \<le> (of_char e :: nat)"
  "ws2 c d \<Longrightarrow> 128 \<le> (of_char c :: nat)" "ws3 c d e \<Longrightarrow> 128 \<le> (of_char c :: nat)"
  by (auto simp: ws2_def ws3_def Let_def)

lemma esc_char_high: "128 \<le> (of_char c :: nat) \<Longrightarrow> esc_char c = [c]"
  by (auto simp: esc_char_def)

lemma ws_start_cases:
  "ws_start s = 0 \<longleftrightarrow> (\<forall>c t. s = c # t \<longrightarrow> \<not> ws1 c) \<and> (\<forall>c d t. s = c # d # t \<longrightarrow> \<not> ws2 c d) \<and>
     (\<forall>c d e t. s = c # d # e # t \<longrightarrow> \<not> ws3 c d e)"
  by (auto simp: ws_start_def split: list.splits)

lemma ws_end_cases:
  "ws_end_rev s = 0 \<longleftrightarrow> (\<forall>c t. s = c # t \<longrightarrow> \<not> ws1 c) \<and> (\<forall>c d t. s = c # d # t \<longrightarrow> \<not> ws2 d c) \<and>
     (\<forall>c d e t. s = c # d # e # t \<longrightarrow> \<not> ws3 e d c)"
  by (auto simp: ws_end_rev_def split: list.splits)

text \<open>Replacing characters by ASCII words that do not begin with a blank, and keeping those outside ASCII,
  neither makes nor removes leading blanks.\<close>

lemma head_of_segments:
  assumes "\<And>c. f c = [c] \<or> f c \<noteq> [] \<and> \<not> ws1 (hd (f c)) \<and> (\<forall>y \<in> set (f c). (of_char y :: nat) < 128)"
    and "concat (map f s) = y # t" "128 \<le> (of_char y :: nat) \<or> ws1 y"
  shows "\<exists>s'. s = y # s' \<and> t = concat (map f s')"
proof (cases s)
  case (Cons c s')
  from assms(1) [of c] have "f c = [c]"
  proof
    assume "f c \<noteq> [] \<and> \<not> ws1 (hd (f c)) \<and> (\<forall>y \<in> set (f c). (of_char y :: nat) < 128)"
    moreover from this obtain x w where "f c = x # w" by (cases "f c") auto
    ultimately show ?thesis using assms(2,3) Cons by fastforce
  qed
  with Cons assms(2) show ?thesis by auto
qed (use assms(2) in simp)

lemma ws_start_segments:
  assumes f: "\<And>c. f c = [c] \<or> f c \<noteq> [] \<and> \<not> ws1 (hd (f c)) \<and> (\<forall>y \<in> set (f c). (of_char y :: nat) < 128)"
    and ws: "ws_start s = 0"
  shows "ws_start (concat (map f s)) = 0"
proof -
  note hd = head_of_segments [OF f]
  have "\<not> ws1 c" if "concat (map f s) = c # t" for c t
    using hd [OF that] ws that unfolding ws_start_cases by blast
  moreover have "\<not> ws2 c d" if "concat (map f s) = c # d # t" for c d t
    using hd [OF that] hd [of _ d t] ws ws_high unfolding ws_start_cases by metis
  moreover have "\<not> ws3 c d e" if "concat (map f s) = c # d # e # t" for c d e t
    using hd [OF that] hd [of _ d "e # t"] hd [of _ e t] ws ws_high unfolding ws_start_cases by metis
  ultimately show ?thesis unfolding ws_start_cases by blast
qed

lemma ws_end_segments:
  assumes f: "\<And>c. f c = [c] \<or> f c \<noteq> [] \<and> \<not> ws1 (hd (f c)) \<and> (\<forall>y \<in> set (f c). (of_char y :: nat) < 128)"
    and ws: "ws_end_rev s = 0"
  shows "ws_end_rev (concat (map f s)) = 0"
proof -
  note hd = head_of_segments [OF f]
  have "\<not> ws1 c" if "concat (map f s) = c # t" for c t
    using hd [OF that] ws that unfolding ws_end_cases by blast
  moreover have "\<not> ws2 d c" if "concat (map f s) = c # d # t" for c d t
    using hd [OF that] hd [of _ d t] ws ws_high unfolding ws_end_cases by metis
  moreover have "\<not> ws3 e d c" if "concat (map f s) = c # d # e # t" for c d e t
    using hd [OF that] hd [of _ d "e # t"] hd [of _ e t] ws ws_high unfolding ws_end_cases by metis
  ultimately show ?thesis unfolding ws_end_cases by blast
qed

lemma trim_escape:
  assumes "trim v = v"
  shows "trim (settings_escape_xml v) = settings_escape_xml v"
proof (rule trim_fixed)
  have ws: "ws_start v = 0" "ws_end_rev (rev v) = 0" using assms by (simp_all add: trim_eq_iff)
  show "ws_start (settings_escape_xml v) = 0"
    unfolding settings_escape by (rule ws_start_segments [OF _ ws(1)]) (auto simp: esc_char_def ws1_def)
  have "rev (settings_escape_xml v) = concat (map (rev \<circ> esc_char) (rev v))"
    by (simp add: settings_escape rev_concat rev_map)
  moreover have "ws_end_rev (concat (map (rev \<circ> esc_char) (rev v))) = 0"
    by (rule ws_end_segments [OF _ ws(2)]) (auto simp: esc_char_def ws1_def)
  ultimately show "ws_end_rev (rev (settings_escape_xml v)) = 0" by simp
qed

section \<open>Reading what was written\<close>

definition entry_xml :: "string \<times> string \<Rightarrow> string" where
  "entry_xml kv = ''  <'' @ fst kv @ ''>'' @ settings_escape_xml (snd kv) @ ''</'' @ fst kv @ ''>'' @ newline"

lemma name_char: "is_xml_name k \<Longrightarrow> c \<in> set k \<Longrightarrow> is_ascii_alphanumeric c \<or> c \<in> {CHR ''_'', CHR ''-'', CHR ''.''}"
  by (cases k) (auto simp: is_xml_name_def list_all_iff is_ascii_alphanumeric_def)

lemma name_char_plain:
  assumes "is_ascii_alphanumeric c \<or> c \<in> {CHR ''_'', CHR ''-'', CHR ''.''}"
  shows "ws_start (c # s) = 0 \<and> c \<noteq> CHR ''>'' \<and> c \<noteq> CHR ''/'' \<and> c \<noteq> CHR ''<''"
proof -
  have range: "45 \<le> (of_char c :: nat)" "(of_char c :: nat) < 128"
    using assms by (auto simp: is_ascii_alphanumeric_def is_ascii_alphabetic_def is_ascii_digit_def Let_def)
  then have "\<not> ws1 c" by (auto simp: ws1_def)
  moreover have "\<not> ws2 c d" "\<not> ws3 c d e" for d e using range(2) ws_high(3,4) [of c d] by fastforce+
  ultimately have "ws_start (c # s) = 0" unfolding ws_start_cases by blast
  moreover have "c \<noteq> CHR ''>''" "c \<noteq> CHR ''/''" "c \<noteq> CHR ''<''"
    using assms by (auto simp: is_ascii_alphanumeric_def is_ascii_alphabetic_def is_ascii_digit_def Let_def)
  ultimately show ?thesis by blast
qed

lemma name_end_name: "(\<forall>c \<in> set k. is_ascii_alphanumeric c \<or> c \<in> {CHR ''_'', CHR ''-'', CHR ''.''}) \<Longrightarrow> name_end (k @ CHR ''>'' # s) = length k"
proof (induction k)
  case (Cons c k)
  then show ?case using name_char_plain [of c "k @ CHR ''>'' # s"] by simp
qed simp

lemma settings_escape_clean: "CHR ''<'' \<notin> set (settings_escape_xml v)"
  by (auto simp: settings_escape esc_char_clean)

lemma parse_entry:
  assumes "is_xml_name k" "trim v = v"
  shows "parse_turn (drop 2 (entry_xml (k, v)) @ s) m = Some (newline @ s, btree_insert k v m)"
proof -
  obtain c cs where k: "k = c # cs" "is_ascii_alphabetic c \<or> c = CHR ''_''" using assms(1) by (cases k) (auto simp: is_xml_name_def)
  then have c: "c \<noteq> CHR ''!''" "c \<noteq> CHR ''?''" "c \<noteq> CHR ''/''" by (auto simp: is_ascii_alphabetic_def)
  let ?tail = "settings_escape_xml v @ (''</'' @ k @ ''>'') @ newline @ s"
  have rest: "drop 2 (entry_xml (k, v)) @ s = CHR ''<'' # k @ CHR ''>'' # ?tail" by (simp add: entry_xml_def)
  have e: "name_end (k @ CHR ''>'' # ?tail) = length k" using name_char [OF assms(1)] by (intro name_end_name) blast
  have close: "str_find (''</'' @ k @ ''>'') ?tail = Some (length (settings_escape_xml v))"
    by (rule str_find_append) (simp_all add: settings_escape_clean)
  have "parse_element (CHR ''<'' # k @ CHR ''>'' # ?tail) m = Some (newline @ s, btree_insert k v m)"
    unfolding parse_element_def Let_def
    using e close assms(1) trim_escape [OF assms(2)] unescape_escape_xml [of v] k(1)
    by (simp add: trim_end_def ends_with_def del: append_Cons)
  then show ?thesis unfolding rest using c k(1) by (simp add: parse_turn_def)
qed

lemma trim_start_entry:
  "trim_start (entry_xml kv @ s) = drop 2 (entry_xml kv) @ s" "trim_start (newline @ s) = trim_start s"
proof -
  have "ws1 (CHR '' '')" "ws1 (CHR 0x0A)" by (simp_all add: ws1_def)
  moreover have "trim_start (CHR ''<'' # s) = CHR ''<'' # s" for s
    unfolding trim_start_def by (rule strip_while_stop) (simp add: ws_start_def ws1_def ws2_def ws3_def split: list.split)
  ultimately show "trim_start (entry_xml kv @ s) = drop 2 (entry_xml kv) @ s" "trim_start (newline @ s) = trim_start s"
    by (simp_all add: entry_xml_def newline_def trim_start_ws1)
qed

lemma loop_newline: "parse_children_loop (newline @ s) m = parse_children_loop s m"
  by (subst (1 2) parse_children_loop.simps) (simp only: trim_start_entry)

lemma loop_entries:
  assumes "\<forall>(k, v) \<in> set kvs. is_xml_name k \<and> trim v = v"
  shows "parse_children_loop (concat (map entry_xml kvs)) m = fold (\<lambda>(k, v). btree_insert k v) kvs m"
  using assms
proof (induction kvs arbitrary: m)
  case Nil
  then show ?case by (simp add: parse_children_loop.simps trim_start_def)
next
  case (Cons kv kvs)
  obtain k v where kv: "kv = (k, v)" by fastforce
  let ?s = "concat (map entry_xml kvs)"
  have ne: "\<not> length (entry_xml (k, v)) \<le> 2" by (simp add: entry_xml_def)
  have "parse_children_loop (entry_xml kv @ ?s) m = parse_children_loop (newline @ ?s) (btree_insert k v m)"
    using Cons.prems ne parse_entry [of k v ?s m]
    by (subst parse_children_loop.simps) (simp add: Let_def trim_start_entry kv)
  with Cons kv show ?case by (simp add: loop_newline)
qed

lemma insert_greatest: "\<forall>k' \<in> fst ` set m. k' < k \<Longrightarrow> btree_insert k v m = m @ [(k, v)]"
  by (induction m) fastforce+

lemma fold_insert_sorted:
  "sorted_wrt (<) (map fst kvs) \<Longrightarrow> fold (\<lambda>(k, v). btree_insert k v) kvs [] = kvs"
proof (induction kvs rule: rev_induct)
  case (snoc kv kvs)
  then show ?case by (cases kv) (auto simp: sorted_wrt_append insert_greatest)
qed simp

text \<open>The closing tag of the root is found at the end: no entry contains it unless a key is the root's name.\<close>

lemma str_find_skip:
  "(\<forall>i < length w. \<not> starts_with p (drop i w @ t)) \<Longrightarrow> str_find p (w @ t) = map_option (\<lambda>n. n + length w) (str_find p t)"
proof (induction w)
  case (Cons c w)
  have "\<not> starts_with p (c # w @ t)" using Cons.prems by (metis append_Cons drop0 length_greater_0_conv list.distinct(1))
  moreover have "str_find p (w @ t) = map_option (\<lambda>n. n + length w) (str_find p t)"
    using Cons.prems by (intro Cons.IH) force
  ultimately show ?case by (cases "str_find p t") auto
qed (simp add: option.map_ident)

lemma not_starts_lt: "p = CHR ''<'' # q \<Longrightarrow> CHR ''<'' \<notin> set w \<Longrightarrow> i < length w \<Longrightarrow> \<not> starts_with p (drop i w @ t)"
  by (auto simp: Cons_nth_drop_Suc [symmetric])

lemma close_not_in_entry:
  assumes "is_xml_name k" "k \<noteq> ''Settings''" "p = ''</Settings>''" "i < length (entry_xml (k, v))"
  shows "\<not> starts_with p (drop i (entry_xml (k, v)) @ t)"
proof
  let ?e = "settings_escape_xml v"
  assume "starts_with p (drop i (entry_xml (k, v)) @ t)"
  moreover have noname: "CHR ''<'' \<notin> set k" "CHR ''>'' \<notin> set k"
    using name_char [OF assms(1)] name_char_plain by blast+
  moreover have xml: "entry_xml (k, v) = ''  '' @ (CHR ''<'' # k) @ (CHR ''>'' # ?e) @ (CHR ''<'' # CHR ''/'' # k @ ''>'') @ newline"
    by (simp add: entry_xml_def)
  moreover have nth: "drop i (entry_xml (k, v)) = (entry_xml (k, v) ! i) # drop (Suc i) (entry_xml (k, v))"
    using assms(4) by (simp add: Cons_nth_drop_Suc)
  ultimately have "entry_xml (k, v) ! i = CHR ''<''" by (simp add: assms(3))
  then have pos: "i = 2 \<or> i = length k + length ?e + 4"
    using assms(4) noname settings_escape_clean [of v] unfolding xml
    by (auto simp: nth_append nth_Cons newline_def split: if_splits nat.splits dest!: nth_mem)
  then show False
  proof
    assume i: "i = 2"
    obtain c cs where "k = c # cs" "c \<noteq> CHR ''/''"
      using assms(1) name_char [OF assms(1)] name_char_plain by (cases k) (auto simp: is_xml_name_def)
    with i \<open>starts_with p _\<close> show False by (simp add: assms(3) entry_xml_def)
  next
    assume "i = length k + length ?e + 4"
    then have "entry_xml (k, v) = (''  <'' @ k @ ''>'' @ ?e) @ (''</'' @ k @ ''>'' @ newline)" "length (''  <'' @ k @ ''>'' @ ?e) = i"
      by (simp_all add: entry_xml_def)
    then have "drop i (entry_xml (k, v)) = ''</'' @ k @ ''>'' @ newline" by (metis append_eq_conv_conj)
    with \<open>starts_with p _\<close> have "starts_with ''Settings>'' (k @ CHR ''>'' # newline @ t)" by (simp add: assms(3))
    then obtain r where "k @ CHR ''>'' # newline @ t = ''Settings'' @ CHR ''>'' # r" by (auto simp: starts_with_iff)
    then have "takeWhile (\<lambda>c. c \<noteq> CHR ''>'') (k @ CHR ''>'' # newline @ t) = takeWhile (\<lambda>c. c \<noteq> CHR ''>'') (''Settings'' @ CHR ''>'' # r)"
      by simp
    moreover have "takeWhile (\<lambda>c. c \<noteq> CHR ''>'') (k @ CHR ''>'' # newline @ t) = k"
      using noname(2) by (intro takeWhile_stop not_in_list_all) auto
    ultimately have "k = ''Settings''" by simp
    with assms(2) show False by simp
  qed
qed

lemma find_close:
  assumes "\<forall>(k, v) \<in> set kvs. is_xml_name k \<and> k \<noteq> ''Settings''"
  shows "str_find ''</Settings>'' (concat (map entry_xml kvs) @ ''</Settings>'' @ t) = Some (length (concat (map entry_xml kvs)))"
  using assms
proof (induction kvs)
  case (Cons kv kvs)
  obtain k v where "kv = (k, v)" by fastforce
  with Cons.prems have "\<forall>i < length (entry_xml kv). \<not> starts_with ''</Settings>'' (drop i (entry_xml kv) @ s)" for s
    using close_not_in_entry by auto
  from str_find_skip [OF this] Cons show ?case by (simp del: str_find.simps append_Cons)
qed simp

lemma inner_settings:
  assumes "\<forall>(k, v) \<in> set kvs. is_xml_name k \<and> k \<noteq> ''Settings''"
  shows "inner_element (settings_to_xml kvs) ''Settings'' = Some (newline @ concat (map entry_xml kvs))"
proof -
  let ?body = "concat (map entry_xml kvs)"
  have xml: "settings_to_xml kvs = ''<Settings>'' @ newline @ ?body @ ''</Settings>'' @ newline"
    by (simp add: settings_to_xml_def entry_xml_def [abs_def] case_prod_beta')
  have "str_find ''</Settings>'' (newline @ ?body @ ''</Settings>'' @ newline) = Some (Suc (length ?body))"
    using find_close [OF assms] by (simp add: newline_def)
  moreover have "trim_end ''<Settings>'' = ''<Settings>''" by code_simp
  ultimately show ?thesis
    unfolding inner_element_def Let_def xml by (simp add: slice_def ends_with_def newline_def)
qed

lemma bom_not_lt: "(char_of (239 :: nat)) \<noteq> CHR ''<''"
  by code_simp

definition plain_entries :: "btree \<Rightarrow> bool" where
  "plain_entries m \<longleftrightarrow> sorted_wrt (<) (map fst m) \<and> (\<forall>(k, v) \<in> set m. is_xml_name k \<and> k \<noteq> ''Settings'' \<and> trim v = v)"

lemma parse_saved:
  assumes "plain_entries m"
  shows "parse_settings_xml (settings_to_xml m) = m"
proof -
  have sorted: "sorted_wrt (<) (map fst m)" and plain: "\<forall>(k, v) \<in> set m. is_xml_name k \<and> k \<noteq> ''Settings'' \<and> trim v = v"
    using assms by (simp_all add: plain_entries_def)
  have "inner_element (settings_to_xml m) ''Settings'' = Some (newline @ concat (map entry_xml m))"
    using plain by (intro inner_settings) auto
  moreover have "parse_children (newline @ concat (map entry_xml m)) = m"
    unfolding parse_children_def loop_newline
    using plain by (subst loop_entries) (auto intro: fold_insert_sorted [OF sorted])
  moreover have "trim_bom (settings_to_xml m) = settings_to_xml m"
    unfolding trim_bom_def by (rule strip_while_stop) (use bom_not_lt in \<open>simp add: settings_to_xml_def bom_def\<close>)
  ultimately show ?thesis by (simp add: parse_settings_xml_def)
qed

text \<open>What \<open>settings_to_xml\<close> (\<open>save\<close>) writes, \<open>parse_settings_xml\<close> (\<open>from_path\<close>, \<open>reload\<close>) reads
  back: every key and every value in the order of the map, whatever characters the values contain, markup
  included, when the values carry no surrounding blanks and no key is the name of the root element.\<close>

theorem settings_roundtrip:
  assumes "sorted_wrt (<) (map fst (se_values s))"
    and "\<forall>(k, v) \<in> set (se_values s). is_xml_name k \<and> k \<noteq> ''Settings'' \<and> trim v = v"
  shows "reload (Some (settings_save s)) s = s"
  using parse_saved [of "se_values s"] assms by (simp add: plain_entries_def reload_def settings_from_path_def settings_save_def)

definition sample_settings :: settings where
  "sample_settings = \<lparr>se_path = ''settings.xml'',
     se_values = [(''DiscoveryServer'', ''omt://a&b:6399''), (''NetworkPortStart'', ''6500''), (''label'', ''</Settings>'')]\<rparr>"

theorem settings_roundtrip_witness:
  "reload (Some (settings_save sample_settings)) sample_settings = sample_settings"
proof (rule settings_roundtrip)
  show "sorted_wrt (<) (map fst (se_values sample_settings))" by code_simp
  show "\<forall>(k, v) \<in> set (se_values sample_settings). is_xml_name k \<and> k \<noteq> ''Settings'' \<and> trim v = v" by code_simp
qed

section \<open>The typed accessors\<close>

lemma btree_get_insert: "btree_get k' (btree_insert k v m) = (if k' = k then Some v else btree_get k' m)"
  by (induction m) (auto simp: btree_get_def)

lemma btree_insert_keys: "fst ` set (btree_insert k v m) = insert k (fst ` set m)"
  by (induction k v m rule: btree_insert.induct) (simp_all add: insert_commute)

lemma btree_insert_sorted: "sorted_wrt (<) (map fst m) \<Longrightarrow> sorted_wrt (<) (map fst (btree_insert k v m))"
proof (induction m)
  case (Cons kv m)
  obtain k' v' where kv: "kv = (k', v')" by fastforce
  have "(\<forall>x \<in> set (btree_insert k v m). k' < fst x) \<longleftrightarrow> k' < k \<and> (\<forall>x \<in> set m. k' < fst x)"
    using btree_insert_keys [of k v m] by (metis (no_types, lifting) image_iff insert_iff)
  with Cons kv show ?case by (auto intro: order.strict_trans)
qed simp

lemma btree_get_remove: "btree_get k' (btree_remove k m) = (if k' = k then None else btree_get k' m)"
  by (induction m) (auto simp: btree_get_def btree_remove_def)

text \<open>The store under a key that is an XML name: a value set is the value got, other keys keep theirs, an
  \<open>i32\<close> set is the \<open>i32\<close> got, removing returns the value and forgets it, and the keys stay strictly
  ascending; a key that is not an XML name is ignored.\<close>

theorem settings_accessors:
  assumes "sorted_wrt (<) (map fst (se_values s))" "is_xml_name key"
  shows "get_string key d (set_string key v s) = v \<and>
    (\<forall>other. other \<noteq> key \<longrightarrow> get_string other d (set_string key v s) = get_string other d s) \<and>
    get_integer key e (set_integer key w s) = w \<and>
    (let (old, s') = settings_remove key (set_string key v s) in
       old = Some v \<and> \<not> contains_key key s' \<and> (\<forall>other. other \<noteq> key \<longrightarrow> get_string other d s' = get_string other d s)) \<and>
    sorted_wrt (<) (settings_keys (set_string key v s)) \<and>
    (\<forall>bad. \<not> is_xml_name bad \<longrightarrow> set_string bad v s = s)"
proof -
  have ne: "show_int (sint w) \<noteq> []" using parse_i32_show [of w] by (auto simp: parse_i32_def)
  show ?thesis using assms ne
    by (auto simp: get_string_def set_string_def get_integer_def set_integer_def settings_remove_def contains_key_def
        settings_keys_def btree_get_insert btree_get_remove btree_insert_sorted Let_def)
qed

theorem settings_accessors_witness:
  "get_integer ''NetworkPortStart'' 7 (set_integer ''NetworkPortStart'' 6600 sample_settings) = 6600 \<and>
   get_string ''label'' [] (set_string ''NetworkPortStart'' ''x'' sample_settings) = ''</Settings>''"
proof -
  have "sorted_wrt (<) (map fst (se_values sample_settings))" "is_xml_name ''NetworkPortStart''" by code_simp+
  from settings_accessors [OF this, of "[]" "''x''" 7 6600]
  have "get_integer ''NetworkPortStart'' 7 (set_integer ''NetworkPortStart'' 6600 sample_settings) = 6600"
    "get_string ''label'' [] (set_string ''NetworkPortStart'' ''x'' sample_settings) = get_string ''label'' [] sample_settings"
    by auto
  moreover have "get_string ''label'' [] sample_settings = ''</Settings>''" by code_simp
  ultimately show ?thesis by simp
qed

text \<open>The port range falls back bound by bound: an absent, unreadable or out-of-range number gives the default.\<close>

lemma network_port_range_default:
  "btree_get KEY_NETWORK_PORT_START (se_values s) = None \<Longrightarrow> btree_get KEY_NETWORK_PORT_END (se_values s) = None \<Longrightarrow>
     network_port_range s = (6400, 6600)"
  by (simp add: network_port_range_def get_integer_def get_string_def port_or_default_def NETWORK_PORT_START_def NETWORK_PORT_END_def)

text \<open>A key named as the root element is accepted by \<open>set_string\<close>, but the store saved with it is read back
  empty: the reader takes the entry's closing tag for the root's.\<close>

lemma settings_root_key_lost:
  "let s = set_string ''Settings'' ''x'' (set_string ''Label'' ''y'' \<lparr>se_path = [], se_values = []\<rparr>) in
     settings_len s = 2 \<and> settings_len (reload (Some (settings_save s)) s) = 1"
  by code_simp

end
