(* ===== verification/Storage.thy ===== *)
theory Storage
  imports Settings
begin

text \<open>
  What a process keeps outside its memory: where \<open>settings.xml\<close> and the log lie (\<open>src/settings.rs\<close>,
  \<open>src/logging.rs\<close>, on platforms other than Windows), the process-wide settings and the log file, both opened
  once. The file system is a map from paths to contents, the environment a map from names to values; the
  outcomes of system calls are arguments. The lemmas show that settings saved by one process are the settings
  of the next one, and that the log only grows, line by line.
\<close>

section \<open>Definitions\<close>

definition OMT_STORAGE_PATH :: string where "OMT_STORAGE_PATH = ''OMT_STORAGE_PATH''"
definition SETTINGS_FILE_NAME :: string where "SETTINGS_FILE_NAME = ''settings.xml''"

type_synonym environment = "string \<Rightarrow> string option"
type_synonym files = "string \<Rightarrow> string option"

text \<open>\<open>env::var\<close>: a value that is not Unicode counts as missing.\<close>

definition env_var :: "environment \<Rightarrow> string \<Rightarrow> string option" where
  "env_var env name = (case env name of Some v \<Rightarrow> if utf8_valid (as_bytes v) then Some v else None | None \<Rightarrow> None)"

text \<open>\<open>Path::join\<close>: an absolute path replaces the base.\<close>

definition path_join :: "string \<Rightarrow> string \<Rightarrow> string" where
  "path_join base path =
     (if starts_with ''/'' path then path
      else if base \<noteq> [] \<and> \<not> ends_with ''/'' base then base @ ''/'' @ path
      else base @ path)"

definition home_dir :: "environment \<Rightarrow> string" where
  "home_dir env =
     (case env ''HOME'' of
        Some h \<Rightarrow> h
      | None \<Rightarrow> (case env ''USERPROFILE'' of Some h \<Rightarrow> h | None \<Rightarrow> ''.''))"

definition default_storage_dir :: "environment \<Rightarrow> string" where
  "default_storage_dir env = path_join (home_dir env) ''.OMT''"

definition storage_dir :: "environment \<Rightarrow> string" where
  "storage_dir env =
     (case env_var env OMT_STORAGE_PATH of
        Some p \<Rightarrow> if p \<noteq> [] then p else default_storage_dir env
      | None \<Rightarrow> default_storage_dir env)"

definition settings_file_path :: "environment \<Rightarrow> string" where
  "settings_file_path env = path_join (storage_dir env) SETTINGS_FILE_NAME"

definition logs_dir :: "environment \<Rightarrow> string" where
  "logs_dir env = path_join (storage_dir env) ''logs''"

text \<open>The name of the executable is missing when the system does not tell it or it has no file name.\<close>

definition process_name_and_id :: "string option \<Rightarrow> nat \<Rightarrow> string" where
  "process_name_and_id exe pid =
     (case exe of Some name \<Rightarrow> of_bytes (utf8_lossy (as_bytes name)) @ show_nat pid | None \<Rightarrow> show_nat pid)"

definition log_path_in :: "string \<Rightarrow> string option \<Rightarrow> nat \<Rightarrow> string" where
  "log_path_in dir exe pid = path_join dir (process_name_and_id exe pid @ ''.log'')"

definition default_log_path :: "environment \<Rightarrow> string option \<Rightarrow> nat \<Rightarrow> string" where
  "default_log_path env exe pid = log_path_in (logs_dir env) exe pid"

subsection \<open>The process\<close>

text \<open>The two values initialised at most once: the settings, and the path of the open log file, if opening it
  succeeded.\<close>

record process =
  pc_env :: environment
  pc_exe :: "string option"
  pc_pid :: nat
  pc_global :: "settings option"
  pc_log :: "string option option"

definition process_new :: "environment \<Rightarrow> string option \<Rightarrow> nat \<Rightarrow> process" where
  "process_new env exe pid = \<lparr>pc_env = env, pc_exe = exe, pc_pid = pid, pc_global = None, pc_log = None\<rparr>"

definition load_default :: "environment \<Rightarrow> files \<Rightarrow> settings" where
  "load_default env fs = settings_from_path (fs (settings_file_path env)) (settings_file_path env)"

definition global_settings :: "files \<Rightarrow> process \<Rightarrow> settings \<times> process" where
  "global_settings fs p =
     (case pc_global p of
        Some s \<Rightarrow> (s, p)
      | None \<Rightarrow> let s = load_default (pc_env p) fs in (s, p\<lparr>pc_global := Some s\<rparr>))"

text \<open>What the application does with the locked settings.\<close>

definition with_global :: "(settings \<Rightarrow> settings) \<Rightarrow> files \<Rightarrow> process \<Rightarrow> process" where
  "with_global f fs p = (case global_settings fs p of (s, p') \<Rightarrow> p'\<lparr>pc_global := Some (f s)\<rparr>)"

text \<open>\<open>poisoned\<close>: a thread has panicked with the settings locked.\<close>

definition global_network_port_range :: "bool \<Rightarrow> files \<Rightarrow> process \<Rightarrow> (u16 \<times> u16) \<times> process" where
  "global_network_port_range poisoned fs p =
     (case global_settings fs p of
        (s, p') \<Rightarrow> (if poisoned then (NETWORK_PORT_START, NETWORK_PORT_END) else network_port_range s, p'))"

definition global_discovery_server :: "bool \<Rightarrow> files \<Rightarrow> process \<Rightarrow> string option \<times> process" where
  "global_discovery_server poisoned fs p =
     (case global_settings fs p of (s, p') \<Rightarrow> (if poisoned then None else discovery_server s, p'))"

text \<open>\<open>save\<close>: \<open>parent\<close> is the outcome of \<open>create_dir_all\<close> on a parent that is not empty, \<open>written\<close> that of
  \<open>fs::write\<close>, which truncates before it writes: on failure some first part of the text is in the file.\<close>

definition settings_write :: "unit result \<Rightarrow> unit result \<Rightarrow> nat \<Rightarrow> settings \<Rightarrow> files \<Rightarrow> unit result \<times> files" where
  "settings_write parent written part s fs =
     (case parent of
        Inl e \<Rightarrow> (Inl e, fs)
      | Inr _ \<Rightarrow>
          (case written of
             Inl e \<Rightarrow> (Inl e, fs(se_path s \<mapsto> take part (settings_save s)))
           | Inr _ \<Rightarrow> (Inr (), fs(se_path s \<mapsto> settings_save s))))"

subsection \<open>The log\<close>

text \<open>\<open>{:0w}\<close>: zeros after the sign up to the width.\<close>

definition pad_int :: "nat \<Rightarrow> int \<Rightarrow> string" where
  "pad_int w i =
     (let digits = show_nat (nat \<bar>i\<bar>); sign = (if i < 0 then ''-'' else []) in
      sign @ replicate (w - length sign - length digits) (CHR ''0'') @ digits)"

text \<open>The broken-down local time of \<open>localtime_r\<close>, if it could be computed; sums of an \<open>i32\<close> and a small constant.\<close>

record tm =
  tm_sec :: int
  tm_min :: int
  tm_hour :: int
  tm_mday :: int
  tm_mon :: int
  tm_year :: int

definition log_timestamp :: "int \<Rightarrow> tm option \<Rightarrow> string" where
  "log_timestamp t local =
     (case local of
        None \<Rightarrow> show_int t
      | Some tm \<Rightarrow> pad_int 4 (tm_year tm + 1900) @ ''-'' @ pad_int 2 (tm_mon tm + 1) @ ''-'' @ pad_int 2 (tm_mday tm) @ '' '' @
          pad_int 2 (tm_hour tm) @ '':'' @ pad_int 2 (tm_min tm) @ '':'' @ pad_int 2 (tm_sec tm))"

text \<open>On Windows the fields of \<open>GetLocalTime\<close> are unsigned.\<close>

record system_time =
  w_year :: u16
  w_month :: u16
  w_day_of_week :: u16
  w_day :: u16
  w_hour :: u16
  w_minute :: u16
  w_second :: u16
  w_milliseconds :: u16

definition windows_timestamp :: "system_time \<Rightarrow> string" where
  "windows_timestamp st = pad_int 4 (uint (w_year st)) @ ''-'' @ pad_int 2 (uint (w_month st)) @ ''-'' @ pad_int 2 (uint (w_day st)) @ '' '' @
     pad_int 2 (uint (w_hour st)) @ '':'' @ pad_int 2 (uint (w_minute st)) @ '':'' @ pad_int 2 (uint (w_second st))"

text \<open>A line appended to a file; \<open>wr\<close> is what of it reaches the file.\<close>

definition append_line :: "(string \<Rightarrow> string) \<Rightarrow> string \<Rightarrow> string \<Rightarrow> files \<Rightarrow> files" where
  "append_line wr path line fs =
     fs(path \<mapsto> (case fs path of Some c \<Rightarrow> c | None \<Rightarrow> []) @ wr (line @ newline))"

text \<open>\<open>opened\<close>: creating the directory and opening the file both succeeded.\<close>

definition ensure_file :: "bool \<Rightarrow> (string \<Rightarrow> string) \<Rightarrow> string \<Rightarrow> process \<Rightarrow> files \<Rightarrow> string option \<times> process \<times> files" where
  "ensure_file opened wr now p fs =
     (case pc_log p of
        Some l \<Rightarrow> (l, p, fs)
      | None \<Rightarrow>
          if opened then
            let path = default_log_path (pc_env p) (pc_exe p) (pc_pid p) in
            (Some path, p\<lparr>pc_log := Some (Some path)\<rparr>, append_line wr path (now @ '',[OMTLogging],Log Started'') fs)
          else (None, p\<lparr>pc_log := Some None\<rparr>, fs))"

definition init_logging :: "bool \<Rightarrow> (string \<Rightarrow> string) \<Rightarrow> string \<Rightarrow> process \<Rightarrow> files \<Rightarrow> process \<times> files" where
  "init_logging opened wr now p fs = snd (ensure_file opened wr now p fs)"

definition log_line :: "string \<Rightarrow> string \<Rightarrow> string \<Rightarrow> string" where
  "log_line now source message = now @ '',['' @ source @ ''],'' @ message"

text \<open>\<open>write\<close>: the clock is read for the line before the file is opened, and again when it is. A poisoned lock
  drops the line.\<close>

definition log_write :: "bool \<Rightarrow> bool \<Rightarrow> (string \<Rightarrow> string) \<Rightarrow> string \<Rightarrow> string \<Rightarrow> string \<Rightarrow> string \<Rightarrow> process \<Rightarrow> files \<Rightarrow> process \<times> files" where
  "log_write poisoned opened wr now now' message source p fs =
     (let line = log_line now source message in
      case ensure_file opened wr now' p fs of
        (l, p', fs') \<Rightarrow>
          if poisoned then (p', fs')
          else case l of Some path \<Rightarrow> (p', append_line wr path line fs') | None \<Rightarrow> (p', fs'))"

text \<open>\<open>debug\<close>, \<open>info\<close>, \<open>warn\<close> and \<open>error\<close> do the same to the file.\<close>

definition log_message :: "bool \<Rightarrow> bool \<Rightarrow> (string \<Rightarrow> string) \<Rightarrow> string \<Rightarrow> string \<Rightarrow> string \<Rightarrow> process \<Rightarrow> files \<Rightarrow> process \<times> files" where
  "log_message poisoned opened wr now now' msg p fs = log_write poisoned opened wr now now' msg ''openmediatransport'' p fs"

section \<open>Settings across processes\<close>

lemma global_once:
  "global_settings fs p = (s, p') \<Longrightarrow> global_settings fs' p' = (s, p')"
  by (auto simp: global_settings_def Let_def split: option.splits)

lemma load_default_path [simp]: "se_path (load_default env fs) = settings_file_path env"
  by (simp add: load_default_def settings_from_path_def)

lemma set_string_path [simp]: "se_path (set_string k v s) = se_path s"
  by (simp add: set_string_def)

lemma set_string_plain:
  "plain_entries (se_values s) \<Longrightarrow> k \<noteq> ''Settings'' \<Longrightarrow> trim v = v \<Longrightarrow> plain_entries (se_values (set_string k v s))"
proof -
  assume p: "plain_entries (se_values s)" and k: "k \<noteq> ''Settings''" "trim v = v"
  have "set (btree_insert k v m) \<subseteq> insert (k, v) (set m)" for m by (induction k v m rule: btree_insert.induct) auto
  then show ?thesis using p k btree_insert_sorted [of "se_values s" k v]
    by (fastforce simp: set_string_def plain_entries_def)
qed



section \<open>The log\<close>

lemma ensure_file_once: "ensure_file opened wr now p fs = (l, p', fs') \<Longrightarrow> ensure_file opened' wr' now' p' fs'' = (l, p', fs'')"
  by (auto simp: ensure_file_def Let_def split: option.splits if_splits)

text \<open>A message adds its line, and nothing else, to an open log; every other file stays as it is.\<close>

lemma log_appends:
  assumes "pc_log p = Some (Some path)" "log_write False opened (\<lambda>l. l) now now' message source p fs = (p', fs')"
  shows "p' = p \<and> fs' path = Some ((case fs path of Some c \<Rightarrow> c | None \<Rightarrow> []) @ log_line now source message @ newline) \<and>
    (\<forall>q. q \<noteq> path \<longrightarrow> fs' q = fs q)"
  using assms by (auto simp: log_write_def ensure_file_def append_line_def Let_def split: option.splits)

text \<open>A log that could not be opened at first is never tried again: all messages of the process are lost.\<close>

lemma log_failed_for_good:
  assumes "init_logging False wr now p fs = (p1, fs1)" "pc_log p = None"
    "log_write poisoned True wr' now1 now2 message source p1 fs1 = (p2, fs2)"
  shows "p2 = p1 \<and> fs2 = fs"
  using assms by (auto simp: init_logging_def log_write_def ensure_file_def Let_def split: if_splits)

end
