(* ===== verification/Frame.thy ===== *)
theory Frame
  imports Omt_Types
begin

text \<open>
  The wire format (\<open>src/protocol/frame.rs\<close>): the 16-byte frame header, the 32-byte video and 24-byte
  audio extended headers, and the assembled frame with its serialiser and parser. The locale
  \<open>fixed_codec\<close> states what a fixed-width header codec promises; it is interpreted on the three
  headers, and the frame codec is proved from those facts: printing then parsing is the identity on
  well-formed frames, a parsed frame is well formed and prints back to the bytes it came from, and
  every rejection is a protocol error.
\<close>

section \<open>Headers\<close>

definition PROTOCOL_VERSION :: u8 where "PROTOCOL_VERSION = 1"
definition HEADER_SIZE :: nat where "HEADER_SIZE = 16"
definition VIDEO_EXT_HEADER_SIZE :: nat where "VIDEO_EXT_HEADER_SIZE = 32"
definition AUDIO_EXT_HEADER_SIZE :: nat where "AUDIO_EXT_HEADER_SIZE = 24"

lemmas frame_consts = PROTOCOL_VERSION_def HEADER_SIZE_def VIDEO_EXT_HEADER_SIZE_def
  AUDIO_EXT_HEADER_SIZE_def

record frame_header =
  fh_version :: u8
  fh_frame_type :: frame_type
  fh_timestamp :: i64
  fh_metadata_length :: u16
  fh_data_length :: i32

definition frame_header_to_bytes :: "frame_header \<Rightarrow> bytes" where
  "frame_header_to_bytes h =
     [fh_version h, fh_frame_type h] @ le_bytes 8 (fh_timestamp h) @
     le_bytes 2 (fh_metadata_length h) @ le_bytes 4 (fh_data_length h)"

definition frame_header_from_bytes :: "bytes \<Rightarrow> frame_header result" where
  "frame_header_from_bytes buf =
     (if length buf < HEADER_SIZE then Inl (Protocol ''frame header too short'')
      else
        let version = buf ! 0 in
        if version \<noteq> PROTOCOL_VERSION then
          Inl (Protocol (''unsupported protocol version '' @ show_nat (unat version)))
        else Inr \<lparr>fh_version = version, fh_frame_type = buf ! 1,
                  fh_timestamp = le_word (slice 2 10 buf),
                  fh_metadata_length = le_word (slice 10 12 buf),
                  fh_data_length = le_word (slice 12 16 buf)\<rparr>)"

record video_header =
  vh_codec :: codec
  vh_width :: i32
  vh_height :: i32
  vh_frame_rate_n :: i32
  vh_frame_rate_d :: i32
  vh_aspect_ratio :: f32
  vh_flags :: video_flags
  vh_color_space :: color_space

definition video_header_to_bytes :: "video_header \<Rightarrow> bytes" where
  "video_header_to_bytes v =
     le_bytes 4 (codec_as_i32 (vh_codec v)) @ le_bytes 4 (vh_width v) @ le_bytes 4 (vh_height v) @
     le_bytes 4 (vh_frame_rate_n v) @ le_bytes 4 (vh_frame_rate_d v) @
     le_bytes 4 (vh_aspect_ratio v) @ le_bytes 4 (vh_flags v) @
     le_bytes 4 (color_space_i32 (vh_color_space v))"

definition color_space_of_wire :: "i32 \<Rightarrow> color_space" where
  "color_space_of_wire cs = (if cs = 601 then Bt601 else if cs = 709 then Bt709 else Undefined)"

definition video_header_from_bytes :: "bytes \<Rightarrow> video_header result" where
  "video_header_from_bytes buf =
     (if length buf < VIDEO_EXT_HEADER_SIZE then Inl (Protocol ''video header too short'')
      else
        let codec_raw = (le_word (slice 0 4 buf) :: i32) in
        case codec_from_i32 codec_raw of
          None \<Rightarrow> Inl (Protocol (''unknown video codec '' @ show_hex codec_raw))
        | Some codec \<Rightarrow>
            Inr \<lparr>vh_codec = codec, vh_width = le_word (slice 4 8 buf),
                 vh_height = le_word (slice 8 12 buf), vh_frame_rate_n = le_word (slice 12 16 buf),
                 vh_frame_rate_d = le_word (slice 16 20 buf),
                 vh_aspect_ratio = le_word (slice 20 24 buf),
                 vh_flags = le_word (slice 24 28 buf),
                 vh_color_space = color_space_of_wire (le_word (slice 28 32 buf))\<rparr>)"

record audio_header =
  ah_codec :: codec
  ah_sample_rate :: i32
  ah_samples_per_channel :: i32
  ah_channels :: i32
  ah_active_channels :: u32
  ah_reserved1 :: i32

definition audio_header_to_bytes :: "audio_header \<Rightarrow> bytes" where
  "audio_header_to_bytes a =
     le_bytes 4 (codec_as_i32 (ah_codec a)) @ le_bytes 4 (ah_sample_rate a) @
     le_bytes 4 (ah_samples_per_channel a) @ le_bytes 4 (ah_channels a) @
     le_bytes 4 (ah_active_channels a) @ le_bytes 4 (ah_reserved1 a)"

definition audio_header_from_bytes :: "bytes \<Rightarrow> audio_header result" where
  "audio_header_from_bytes buf =
     (if length buf < AUDIO_EXT_HEADER_SIZE then Inl (Protocol ''audio header too short'')
      else
        let codec_raw = (le_word (slice 0 4 buf) :: i32) in
        case codec_from_i32 codec_raw of
          None \<Rightarrow> Inl (Protocol (''unknown audio codec '' @ show_hex codec_raw))
        | Some codec \<Rightarrow>
            Inr \<lparr>ah_codec = codec, ah_sample_rate = le_word (slice 4 8 buf),
                 ah_samples_per_channel = le_word (slice 8 12 buf),
                 ah_channels = le_word (slice 12 16 buf),
                 ah_active_channels = le_word (slice 16 20 buf),
                 ah_reserved1 = le_word (slice 20 24 buf)\<rparr>)"

section \<open>Assembled frames\<close>

record assembled_frame =
  af_header :: frame_header
  af_video :: "video_header option"
  af_audio :: "audio_header option"
  af_data :: bytes
  af_metadata :: bytes

definition ext_bytes :: "assembled_frame \<Rightarrow> bytes" where
  "ext_bytes f =
     (case af_video f of Some v \<Rightarrow> video_header_to_bytes v | None \<Rightarrow> []) @
     (case af_audio f of Some a \<Rightarrow> audio_header_to_bytes a | None \<Rightarrow> [])"

text \<open>\<open>write_into\<close> clears the buffer it is given (\<open>reserve\<close> only affects capacity) and then appends.\<close>

definition write_into :: "assembled_frame \<Rightarrow> bytes \<Rightarrow> bytes" where
  "write_into f out =
     (let out = [] in
      ((out @ frame_header_to_bytes (af_header f)) @ ext_bytes f) @ af_data f @ af_metadata f)"

definition assembled_to_bytes :: "assembled_frame \<Rightarrow> bytes" where
  "assembled_to_bytes f = write_into f []"

text \<open>The last part of \<open>from_bytes\<close>: split the body, already cut at the metadata, by the frame type.\<close>

definition sections_from_bytes :: "frame_header \<Rightarrow> bytes \<Rightarrow> bytes \<Rightarrow> assembled_frame result" where
  "sections_from_bytes header ext_and_data metadata =
     (if ft_contains (fh_frame_type header) FT_VIDEO then
        (if length ext_and_data < VIDEO_EXT_HEADER_SIZE then
           Inl (Protocol ''missing video extended header'')
         else case video_header_from_bytes ext_and_data of
           Inl e \<Rightarrow> Inl e
         | Inr v \<Rightarrow> Inr \<lparr>af_header = header, af_video = Some v, af_audio = None,
                          af_data = drop VIDEO_EXT_HEADER_SIZE ext_and_data,
                          af_metadata = metadata\<rparr>)
      else if ft_contains (fh_frame_type header) FT_AUDIO then
        (if length ext_and_data < AUDIO_EXT_HEADER_SIZE then
           Inl (Protocol ''missing audio extended header'')
         else case audio_header_from_bytes ext_and_data of
           Inl e \<Rightarrow> Inl e
         | Inr a \<Rightarrow> Inr \<lparr>af_header = header, af_video = None, af_audio = Some a,
                          af_data = drop AUDIO_EXT_HEADER_SIZE ext_and_data,
                          af_metadata = metadata\<rparr>)
      else Inr \<lparr>af_header = header, af_video = None, af_audio = None,
                af_data = ext_and_data, af_metadata = metadata\<rparr>)"

definition assembled_from_bytes :: "bytes \<Rightarrow> assembled_frame result" where
  "assembled_from_bytes buf =
     (case frame_header_from_bytes buf of
        Inl e \<Rightarrow> Inl e
      | Inr header \<Rightarrow>
          if sint (fh_data_length header) < 0 then Inl (Protocol ''negative data_length'')
          else
            let body_len = nat (sint (fh_data_length header)) in
            if length buf < HEADER_SIZE + body_len then Inl (Protocol ''frame truncated'')
            else
              let body = slice HEADER_SIZE (HEADER_SIZE + body_len) buf;
                  meta_len = unat (fh_metadata_length header) in
              if body_len < meta_len then Inl (Protocol ''metadata longer than body'')
              else
                let payload_end = body_len - meta_len in
                sections_from_bytes header (take payload_end body) (drop payload_end body))"

text \<open>A frame is well formed when its header describes its sections: the version is 1, the two length
  fields are the lengths of what follows, and the extended headers are the ones the type asks for.\<close>

definition wf_frame :: "assembled_frame \<Rightarrow> bool" where
  "wf_frame f \<longleftrightarrow>
     (let h = af_header f in
        fh_version h = PROTOCOL_VERSION \<and>
        sint (fh_data_length h) = int (length (ext_bytes f) + length (af_data f) + length (af_metadata f)) \<and>
        unat (fh_metadata_length h) = length (af_metadata f) \<and>
        (af_video f \<noteq> None \<longleftrightarrow> ft_contains (fh_frame_type h) FT_VIDEO) \<and>
        (af_audio f \<noteq> None \<longleftrightarrow>
           ft_contains (fh_frame_type h) FT_AUDIO \<and> \<not> ft_contains (fh_frame_type h) FT_VIDEO))"

section \<open>Fixed-width header codecs\<close>

locale fixed_codec =
  fixes enc :: "'a \<Rightarrow> bytes"
    and dec :: "bytes \<Rightarrow> 'a result"
    and width :: nat
    and ok :: "'a \<Rightarrow> bool"
  assumes enc_length: "length (enc x) = width"
    and dec_enc: "ok x \<Longrightarrow> dec (enc x @ rest) = Inr x"
    and dec_error: "dec bs = Inl e \<Longrightarrow> \<exists>m. e = Protocol m"
    and dec_short: "length bs < width \<Longrightarrow> \<exists>e. dec bs = Inl e"
begin

lemma dec_enc_exact: "ok x \<Longrightarrow> dec (enc x) = Inr x"
  using dec_enc [of x "[]"] by simp

lemma prefix_free:
  assumes "ok x" "ok y" "enc x @ a = enc y @ b"
  shows "x = y" and "a = b"
proof -
  from dec_enc [OF assms(1), of a] dec_enc [OF assms(2), of b] assms(3) show "x = y" by simp
  with assms(3) show "a = b" by simp
qed

lemma dec_Inr_length: "dec bs = Inr x \<Longrightarrow> width \<le> length bs"
  using dec_short [of bs] by force

end

lemmas codec_le = le_word_le_bytes_id slice_def

lemma length_frame_header [simp]: "length (frame_header_to_bytes h) = HEADER_SIZE"
  by (simp add: frame_header_to_bytes_def frame_consts)

lemma length_video_header [simp]: "length (video_header_to_bytes v) = VIDEO_EXT_HEADER_SIZE"
  by (simp add: video_header_to_bytes_def frame_consts)

lemma length_audio_header [simp]: "length (audio_header_to_bytes a) = AUDIO_EXT_HEADER_SIZE"
  by (simp add: audio_header_to_bytes_def frame_consts)

lemma color_space_wire [simp]: "color_space_of_wire (color_space_i32 c) = c"
  by (cases c) (simp_all add: color_space_of_wire_def)

interpretation hdr: fixed_codec frame_header_to_bytes frame_header_from_bytes HEADER_SIZE
  "\<lambda>h. fh_version h = PROTOCOL_VERSION"
proof
  fix h :: frame_header and rest
  show "fh_version h = PROTOCOL_VERSION \<Longrightarrow>
        frame_header_from_bytes (frame_header_to_bytes h @ rest) = Inr h"
    by (simp add: frame_header_from_bytes_def frame_header_to_bytes_def frame_consts slice_def
        take_Cons' drop_Cons')
qed (auto simp: frame_header_from_bytes_def Let_def frame_consts split: if_splits)

interpretation vid: fixed_codec video_header_to_bytes video_header_from_bytes VIDEO_EXT_HEADER_SIZE
  "\<lambda>_. True"
proof
  fix v :: video_header and rest
  show "video_header_from_bytes (video_header_to_bytes v @ rest) = Inr v"
    by (simp add: video_header_from_bytes_def video_header_to_bytes_def frame_consts slice_def)
qed (auto simp: video_header_from_bytes_def Let_def frame_consts split: if_splits option.splits)

interpretation aud: fixed_codec audio_header_to_bytes audio_header_from_bytes AUDIO_EXT_HEADER_SIZE
  "\<lambda>_. True"
proof
  fix a :: audio_header and rest
  show "audio_header_from_bytes (audio_header_to_bytes a @ rest) = Inr a"
    by (simp add: audio_header_from_bytes_def audio_header_to_bytes_def frame_consts slice_def)
qed (auto simp: audio_header_from_bytes_def Let_def frame_consts split: if_splits option.splits)

section \<open>The frame codec\<close>

lemma assembled_to_bytes_eq:
  "assembled_to_bytes f =
     frame_header_to_bytes (af_header f) @ ext_bytes f @ af_data f @ af_metadata f"
  by (simp add: assembled_to_bytes_def write_into_def)

lemma length_assembled [simp]:
  "length (assembled_to_bytes f) =
     HEADER_SIZE + (length (ext_bytes f) + length (af_data f) + length (af_metadata f))"
  by (simp add: assembled_to_bytes_eq)

lemma wf_frame_total:
  "wf_frame f \<Longrightarrow> length (assembled_to_bytes f) = HEADER_SIZE + nat (sint (fh_data_length (af_header f)))"
  by (simp add: wf_frame_def Let_def del: of_nat_add)

lemma header_of_assembled:
  "wf_frame f \<Longrightarrow> frame_header_from_bytes (assembled_to_bytes f @ rest) = Inr (af_header f)"
  by (simp add: assembled_to_bytes_eq hdr.dec_enc wf_frame_def Let_def)

text \<open>Any prefix of a frame that holds the whole header already parses to that header.\<close>

lemma header_of_prefix:
  assumes "wf_frame f" "HEADER_SIZE \<le> n"
  shows "frame_header_from_bytes (take n (assembled_to_bytes f)) = Inr (af_header f)"
proof -
  have "take n (assembled_to_bytes f) =
        frame_header_to_bytes (af_header f) @ take (n - HEADER_SIZE) (ext_bytes f @ af_data f @ af_metadata f)"
    using assms(2) by (simp add: assembled_to_bytes_eq)
  moreover have "fh_version (af_header f) = PROTOCOL_VERSION"
    using assms(1) by (simp add: wf_frame_def Let_def)
  ultimately show ?thesis by (simp add: hdr.dec_enc)
qed

lemma slice_body:
  "slice HEADER_SIZE (HEADER_SIZE + (length x + length y + length z))
     (frame_header_to_bytes h @ x @ y @ z @ rest) = x @ y @ z"
  by (simp add: slice_def)

lemma sections_roundtrip:
  assumes "wf_frame f"
  shows "sections_from_bytes (af_header f) (ext_bytes f @ af_data f) (af_metadata f) = Inr f"
proof -
  let ?t = "fh_frame_type (af_header f)"
  from assms have v: "af_video f \<noteq> None \<longleftrightarrow> ft_contains ?t FT_VIDEO"
    and a: "af_audio f \<noteq> None \<longleftrightarrow> ft_contains ?t FT_AUDIO \<and> \<not> ft_contains ?t FT_VIDEO"
    by (simp_all add: wf_frame_def Let_def)
  then consider (video) vh where "af_video f = Some vh" "af_audio f = None" "ft_contains ?t FT_VIDEO"
    | (audio) ah where "af_video f = None" "af_audio f = Some ah" "\<not> ft_contains ?t FT_VIDEO"
        "ft_contains ?t FT_AUDIO"
    | (meta) "af_video f = None" "af_audio f = None" "\<not> ft_contains ?t FT_VIDEO"
        "\<not> ft_contains ?t FT_AUDIO"
    by (cases "af_video f"; cases "af_audio f") auto
  then show ?thesis
    by cases (simp_all add: sections_from_bytes_def ext_bytes_def vid.dec_enc aud.dec_enc)
qed

lemma assembled_roundtrip:
  assumes "wf_frame f"
  shows "assembled_from_bytes (assembled_to_bytes f @ rest) = Inr f"
proof -
  let ?h = "af_header f"
  let ?n = "length (ext_bytes f) + length (af_data f) + length (af_metadata f)"
  from assms have dl: "sint (fh_data_length ?h) = int ?n"
    and ml: "unat (fh_metadata_length ?h) = length (af_metadata f)"
    by (simp_all add: wf_frame_def Let_def)
  have nb: "nat (sint (fh_data_length ?h)) = ?n" "\<not> sint (fh_data_length ?h) < 0"
    using dl by linarith+
  have body: "slice HEADER_SIZE (HEADER_SIZE + ?n) (assembled_to_bytes f @ rest) =
              ext_bytes f @ af_data f @ af_metadata f"
    by (simp add: assembled_to_bytes_eq slice_body)
  have "assembled_from_bytes (assembled_to_bytes f @ rest) =
        sections_from_bytes ?h (ext_bytes f @ af_data f) (af_metadata f)"
    unfolding assembled_from_bytes_def Let_def
    by (simp only: header_of_assembled [OF assms] sum.case nb ml body if_False length_append
        length_assembled) simp
  with sections_roundtrip [OF assms] show ?thesis by simp
qed

lemma le_bytes_slice:
  "length (slice a b buf) = n \<Longrightarrow> 8 * n \<le> LENGTH('a) \<Longrightarrow>
     le_bytes n (le_word (slice a b buf) :: 'a::len word) = slice a b buf"
  using le_bytes_le_word [of "slice a b buf", where 'a = 'a] by metis

lemma slice_chain:
  "slice 0 a xs @ slice a b xs = slice 0 b xs" if "a \<le> b"
  using slice_split [of 0 a b xs] that by simp

lemma slice_0: "slice 0 n xs = take n xs"
  by (simp add: slice_def)

lemma header_reprint:
  assumes "frame_header_from_bytes buf = Inr h"
  shows "frame_header_to_bytes h = take HEADER_SIZE buf" and "fh_version h = PROTOCOL_VERSION"
proof -
  from assms have len: "16 \<le> length buf"
    and h: "h = \<lparr>fh_version = buf ! 0, fh_frame_type = buf ! 1, fh_timestamp = le_word (slice 2 10 buf),
             fh_metadata_length = le_word (slice 10 12 buf), fh_data_length = le_word (slice 12 16 buf)\<rparr>"
    and ver: "buf ! 0 = PROTOCOL_VERSION"
    by (auto simp: frame_header_from_bytes_def Let_def HEADER_SIZE_def split: if_splits)
  from h ver show "fh_version h = PROTOCOL_VERSION" by simp
  have "slice 0 2 buf = [buf ! 0, buf ! 1]"
    using len by (cases buf; cases "tl buf") (auto simp: slice_def)
  moreover have "slice 0 2 buf @ slice 2 10 buf @ slice 10 12 buf @ slice 12 16 buf = slice 0 16 buf"
    by (simp add: slice_split)
  ultimately show "frame_header_to_bytes h = take HEADER_SIZE buf"
    using len by (simp add: h frame_header_to_bytes_def le_bytes_slice HEADER_SIZE_def slice_0)
qed

text \<open>The video header keeps everything but an unknown colour space, which reads as \<open>Undefined\<close>.\<close>

definition canonical_color :: "bytes \<Rightarrow> bool" where
  "canonical_color ext \<longleftrightarrow> (le_word (slice 28 32 ext) :: i32) \<in> {0, 601, 709}"

lemma video_reprint:
  assumes "video_header_from_bytes ext = Inr v" "canonical_color ext"
  shows "video_header_to_bytes v = take VIDEO_EXT_HEADER_SIZE ext"
proof -
  from assms(1) obtain c where len: "32 \<le> length ext"
    and c: "codec_from_i32 (le_word (slice 0 4 ext)) = Some c"
    and v: "v = \<lparr>vh_codec = c, vh_width = le_word (slice 4 8 ext), vh_height = le_word (slice 8 12 ext),
              vh_frame_rate_n = le_word (slice 12 16 ext), vh_frame_rate_d = le_word (slice 16 20 ext),
              vh_aspect_ratio = le_word (slice 20 24 ext), vh_flags = le_word (slice 24 28 ext),
              vh_color_space = color_space_of_wire (le_word (slice 28 32 ext))\<rparr>"
    by (auto simp: video_header_from_bytes_def Let_def VIDEO_EXT_HEADER_SIZE_def
        split: if_splits option.splits)
  have cs: "color_space_i32 (color_space_of_wire (le_word (slice 28 32 ext))) = le_word (slice 28 32 ext)"
    using assms(2) by (auto simp: canonical_color_def color_space_of_wire_def)
  show ?thesis
    using len by (simp add: v video_header_to_bytes_def codec_from_i32_SomeD [OF c] cs le_bytes_slice
        slice_split VIDEO_EXT_HEADER_SIZE_def slice_0 [symmetric])
qed

lemma audio_reprint:
  assumes "audio_header_from_bytes ext = Inr a"
  shows "audio_header_to_bytes a = take AUDIO_EXT_HEADER_SIZE ext"
proof -
  from assms obtain c where len: "24 \<le> length ext"
    and c: "codec_from_i32 (le_word (slice 0 4 ext)) = Some c"
    and a: "a = \<lparr>ah_codec = c, ah_sample_rate = le_word (slice 4 8 ext),
              ah_samples_per_channel = le_word (slice 8 12 ext), ah_channels = le_word (slice 12 16 ext),
              ah_active_channels = le_word (slice 16 20 ext), ah_reserved1 = le_word (slice 20 24 ext)\<rparr>"
    by (auto simp: audio_header_from_bytes_def Let_def AUDIO_EXT_HEADER_SIZE_def
        split: if_splits option.splits)
  show ?thesis
    using len by (simp add: a audio_header_to_bytes_def codec_from_i32_SomeD [OF c] le_bytes_slice
        slice_split AUDIO_EXT_HEADER_SIZE_def slice_0 [symmetric])
qed

text \<open>What a successful split of the body gives back.\<close>

lemma sections_InrD:
  assumes "sections_from_bytes h ext md = Inr f"
  shows "af_header f = h" and "af_metadata f = md"
    and "length (ext_bytes f) + length (af_data f) = length ext"
    and "af_video f \<noteq> None \<longleftrightarrow> ft_contains (fh_frame_type h) FT_VIDEO"
    and "af_audio f \<noteq> None \<longleftrightarrow>
           ft_contains (fh_frame_type h) FT_AUDIO \<and> \<not> ft_contains (fh_frame_type h) FT_VIDEO"
  using assms
  by (auto simp: sections_from_bytes_def ext_bytes_def split: if_splits sum.splits)

lemma sections_reprint:
  assumes "sections_from_bytes h ext md = Inr f"
    and "ft_contains (fh_frame_type h) FT_VIDEO \<Longrightarrow> canonical_color ext"
  shows "ext_bytes f @ af_data f = ext"
  using assms
  by (auto simp: sections_from_bytes_def ext_bytes_def video_reprint audio_reprint
      split: if_splits sum.splits)

lemma assembled_InrD:
  assumes "assembled_from_bytes buf = Inr f"
  obtains h n where "frame_header_from_bytes buf = Inr h" "sint (fh_data_length h) = int n"
    "HEADER_SIZE + n \<le> length buf" "unat (fh_metadata_length h) \<le> n"
    "sections_from_bytes h (slice HEADER_SIZE (HEADER_SIZE + n - unat (fh_metadata_length h)) buf)
       (slice (HEADER_SIZE + n - unat (fh_metadata_length h)) (HEADER_SIZE + n) buf) = Inr f"
proof -
  from assms obtain h where h: "frame_header_from_bytes buf = Inr h" and nn: "0 \<le> sint (fh_data_length h)"
    by (auto simp: assembled_from_bytes_def split: sum.splits if_splits)
  define n where "n = nat (sint (fh_data_length h))"
  define m where "m = unat (fh_metadata_length h)"
  from assms h nn have *: "HEADER_SIZE + n \<le> length buf" "m \<le> n"
    "sections_from_bytes h (take (n - m) (slice HEADER_SIZE (HEADER_SIZE + n) buf))
       (drop (n - m) (slice HEADER_SIZE (HEADER_SIZE + n) buf)) = Inr f"
    by (auto simp: assembled_from_bytes_def Let_def n_def m_def split: if_splits)
  moreover have "take (n - m) (slice HEADER_SIZE (HEADER_SIZE + n) buf) =
      slice HEADER_SIZE (HEADER_SIZE + n - m) buf"
    "drop (n - m) (slice HEADER_SIZE (HEADER_SIZE + n) buf) = slice (HEADER_SIZE + n - m) (HEADER_SIZE + n) buf"
    using *(2) by (simp_all add: slice_def drop_take min_def algebra_simps)
  ultimately show ?thesis
    using that [of h n] h nn by (simp add: n_def m_def)
qed

lemma assembled_wf: "assembled_from_bytes buf = Inr f \<Longrightarrow> wf_frame f"
proof (erule assembled_InrD)
  fix h n
  assume h: "frame_header_from_bytes buf = Inr h" and n: "sint (fh_data_length h) = int n"
    "HEADER_SIZE + n \<le> length buf" "unat (fh_metadata_length h) \<le> n"
    and s: "sections_from_bytes h (slice HEADER_SIZE (HEADER_SIZE + n - unat (fh_metadata_length h)) buf)
       (slice (HEADER_SIZE + n - unat (fh_metadata_length h)) (HEADER_SIZE + n) buf) = Inr f"
  note d = sections_InrD [OF s]
  show "wf_frame f"
    using n d(3,4,5) by (simp add: wf_frame_def Let_def header_reprint [OF h] d(1,2))
qed

lemma assembled_reprint:
  assumes f: "assembled_from_bytes buf = Inr f"
    and col: "af_video f \<noteq> None \<Longrightarrow> canonical_color (drop HEADER_SIZE buf)"
  shows "assembled_to_bytes f = take (length (assembled_to_bytes f)) buf"
  using f
proof (rule assembled_InrD)
  fix h :: frame_header and n
  let ?p = "HEADER_SIZE + n - unat (fh_metadata_length h)"
  assume h: "frame_header_from_bytes buf = Inr h" and n: "sint (fh_data_length h) = int n"
    "HEADER_SIZE + n \<le> length buf" "unat (fh_metadata_length h) \<le> n"
    and s: "sections_from_bytes h (slice HEADER_SIZE ?p buf) (slice ?p (HEADER_SIZE + n) buf) = Inr f"
  note d = sections_InrD [OF s]
  have "ext_bytes f @ af_data f = slice HEADER_SIZE ?p buf"
  proof (rule sections_reprint [OF s])
    assume V: "ft_contains (fh_frame_type h) FT_VIDEO"
    with s have "VIDEO_EXT_HEADER_SIZE \<le> length (slice HEADER_SIZE ?p buf)"
      by (auto simp: sections_from_bytes_def split: if_splits)
    then have "32 \<le> n - unat (fh_metadata_length h)" by (simp add: VIDEO_EXT_HEADER_SIZE_def)
    then have "4 \<le> n - (unat (fh_metadata_length h) + 28)" by linarith
    then have "slice 28 32 (slice HEADER_SIZE ?p buf) = slice 28 32 (drop HEADER_SIZE buf)"
      by (simp add: slice_def drop_take)
    with col d(4) V show "canonical_color (slice HEADER_SIZE ?p buf)" by (simp add: canonical_color_def)
  qed
  then have "assembled_to_bytes f =
      slice 0 HEADER_SIZE buf @ slice HEADER_SIZE ?p buf @ slice ?p (HEADER_SIZE + n) buf"
    by (simp add: assembled_to_bytes_eq d(1,2) header_reprint [OF h] slice_0)
  also have "\<dots> = take (HEADER_SIZE + n) buf"
    using n(3) by (simp add: slice_split slice_0 [symmetric])
  finally have *: "assembled_to_bytes f = take (HEADER_SIZE + n) buf" .
  with n(2) have "length (assembled_to_bytes f) = HEADER_SIZE + n" by simp
  with * show ?thesis by (simp del: length_assembled)
qed

lemma assembled_error_protocol: "assembled_from_bytes buf = Inl e \<Longrightarrow> \<exists>m. e = Protocol m"
  by (auto simp: assembled_from_bytes_def sections_from_bytes_def Let_def
      dest: hdr.dec_error vid.dec_error aud.dec_error split: sum.splits if_splits)

section \<open>Properties\<close>

text \<open>A concrete VMX1 video frame, used by the witnesses.\<close>

definition sample_frame :: assembled_frame where
  "sample_frame = \<lparr>
     af_header = \<lparr>fh_version = 1, fh_frame_type = 2, fh_timestamp = 10000000,
                  fh_metadata_length = 2, fh_data_length = 37\<rparr>,
     af_video = Some \<lparr>vh_codec = Vmx1, vh_width = 16, vh_height = 16, vh_frame_rate_n = 60,
                      vh_frame_rate_d = 1, vh_aspect_ratio = 0x3F800000, vh_flags = 8,
                      vh_color_space = Bt709\<rparr>,
     af_audio = None, af_data = [1, 2, 3], af_metadata = [65, 0]\<rparr>"

lemma sample_frame_wf: "wf_frame sample_frame"
  by (simp add: sample_frame_def wf_frame_def ext_bytes_def frame_consts ft_contains_def ft_defs)

text \<open>C8: serialising a well-formed frame and parsing the bytes, whatever follows them in the buffer,
  gives the frame back, with its header, extended header, payload and per-frame metadata.\<close>

theorem frame_roundtrip:
  assumes "wf_frame f"
  shows "assembled_from_bytes (assembled_to_bytes f @ rest) = Inr f"
  using assms by (rule assembled_roundtrip)

theorem frame_roundtrip_witness:
  "wf_frame sample_frame \<and> assembled_from_bytes (assembled_to_bytes sample_frame @ [9, 9]) = Inr sample_frame"
  using sample_frame_wf frame_roundtrip [OF sample_frame_wf, of "[9, 9]"] by simp


lemma sample_frame_parses: "assembled_from_bytes (assembled_to_bytes sample_frame) = Inr sample_frame"
  using assembled_roundtrip [OF sample_frame_wf, of "[]"] by simp

lemma sample_frame_color: "canonical_color (drop HEADER_SIZE (assembled_to_bytes sample_frame))"
  by (simp add: canonical_color_def assembled_to_bytes_eq sample_frame_def ext_bytes_def
      video_header_to_bytes_def slice_def)


text \<open>What the wire format asks of a buffer, read off the bytes directly.\<close>

definition acceptable :: "bytes \<Rightarrow> bool" where
  "acceptable buf \<longleftrightarrow>
     16 \<le> length buf \<and> buf ! 0 = 1 \<and>
     (let dl = sint (le_word (slice 12 16 buf) :: i32); ml = unat (le_word (slice 10 12 buf) :: u16);
          ft = buf ! 1; ext = slice 16 (16 + nat dl - ml) buf;
          known = codec_from_i32 (le_word (slice 0 4 ext)) \<noteq> None
      in 0 \<le> dl \<and> 16 + nat dl \<le> length buf \<and> ml \<le> nat dl \<and>
         (if ft_contains ft FT_VIDEO then 32 \<le> length ext \<and> known
          else if ft_contains ft FT_AUDIO then 24 \<le> length ext \<and> known
          else True))"

lemma video_header_ok:
  "(\<exists>v. video_header_from_bytes ext = Inr v) \<longleftrightarrow>
     32 \<le> length ext \<and> codec_from_i32 (le_word (slice 0 4 ext)) \<noteq> None"
  by (auto simp: video_header_from_bytes_def frame_consts Let_def split: option.splits)

lemma audio_header_ok:
  "(\<exists>v. audio_header_from_bytes ext = Inr v) \<longleftrightarrow>
     24 \<le> length ext \<and> codec_from_i32 (le_word (slice 0 4 ext)) \<noteq> None"
  by (auto simp: audio_header_from_bytes_def frame_consts Let_def split: option.splits)

lemma sections_ok:
  "(\<exists>f. sections_from_bytes h ext md = Inr f) \<longleftrightarrow>
     (if ft_contains (fh_frame_type h) FT_VIDEO then
        32 \<le> length ext \<and> codec_from_i32 (le_word (slice 0 4 ext)) \<noteq> None
      else if ft_contains (fh_frame_type h) FT_AUDIO then
        24 \<le> length ext \<and> codec_from_i32 (le_word (slice 0 4 ext)) \<noteq> None
      else True)"
  using video_header_ok [of ext] audio_header_ok [of ext]
  by (auto simp: sections_from_bytes_def frame_consts split: sum.splits)

lemma acceptable_iff: "acceptable buf \<longleftrightarrow> (\<exists>f. assembled_from_bytes buf = Inr f)"
proof (cases "16 \<le> length buf \<and> buf ! 0 = 1")
  case False
  then show ?thesis
    by (auto simp: acceptable_def assembled_from_bytes_def frame_header_from_bytes_def frame_consts Let_def
        split: if_splits)
next
  case True
  define h where "h = \<lparr>fh_version = buf ! 0, fh_frame_type = buf ! 1, fh_timestamp = le_word (slice 2 10 buf),
    fh_metadata_length = le_word (slice 10 12 buf), fh_data_length = le_word (slice 12 16 buf)\<rparr>"
  define n where "n = nat (sint (fh_data_length h))"
  define m where "m = unat (fh_metadata_length h)"
  from True have h: "frame_header_from_bytes buf = Inr h"
    by (simp add: frame_header_from_bytes_def frame_consts Let_def h_def)
  have "take (n - m) (slice 16 (16 + n) buf) = slice 16 (16 + n - m) buf" if "m \<le> n"
    using that by (simp add: slice_def min_def)
  moreover have "fh_frame_type h = buf ! 1" by (simp add: h_def)
  ultimately have "(\<exists>f. assembled_from_bytes buf = Inr f) \<longleftrightarrow>
      0 \<le> sint (fh_data_length h) \<and> 16 + n \<le> length buf \<and> m \<le> n \<and>
      (\<exists>f. sections_from_bytes h (slice 16 (16 + n - m) buf) (drop (n - m) (slice 16 (16 + n) buf)) = Inr f)"
    by (auto simp: assembled_from_bytes_def h Let_def n_def m_def frame_consts split: if_splits)
  with True show ?thesis
    by (simp add: acceptable_def sections_ok Let_def n_def m_def h_def)
qed

text \<open>C18: the parser accepts a buffer exactly when it holds a version-1 header with a non-negative data
  length, all the bytes that length announces, per-frame metadata no longer than the body, and, for a
  video or audio frame, a complete extended header with a known codec; every other buffer is rejected
  with a protocol error, never with another error.\<close>

theorem frame_parse_complete:
  "if acceptable buf then \<exists>f. assembled_from_bytes buf = Inr f
   else \<exists>m. assembled_from_bytes buf = Inl (Protocol m)"
  using acceptable_iff [of buf] assembled_error_protocol [of buf]
  by (cases "assembled_from_bytes buf") auto

end
