(* ===== verification/Channel.thy ===== *)
theory Channel
  imports Frame
begin

text \<open>
  Streaming reassembly (\<open>src/transport/channel.rs\<close>): the \<open>Channel\<close> buffer, \<open>try_pop_frame\<close> with its
  size and type checks, and \<open>recv_frame_into\<close>, which reads at most once per call. The reader is a list
  of read outcomes still to come (\<open>ReadOk []\<close> is end of file; when the list is exhausted the read would
  block). The locale \<open>framing\<close> states what a stream consumer needs of a pop operation on a buffer; it is
  interpreted on \<open>try_pop_frame\<close> here and on the sender's inbound loop in the sender theory, and its
  lemmas show that a stream of frames comes out in order however the network cuts it into chunks.
\<close>

section \<open>Definitions\<close>

record channel =
  ch_frame_type :: frame_type
  ch_buf :: bytes

datatype read_result = ReadOk bytes | ReadErr io_kind string

type_synonym reader = "read_result list"

definition channel_new :: "frame_type \<Rightarrow> channel" where
  "channel_new frame_type = \<lparr>ch_frame_type = frame_type, ch_buf = []\<rparr>"

definition max_reassembly :: nat where
  "max_reassembly = VIDEO_MAX_SIZE + HEADER_SIZE + 64 * 1024"

definition max_payload_for :: "frame_type \<Rightarrow> nat" where
  "max_payload_for ft =
     (if ft_contains ft FT_VIDEO then VIDEO_MAX_SIZE
      else if ft_contains ft FT_AUDIO then AUDIO_MAX_SIZE
      else METADATA_FRAME_SIZE)"

definition is_valid_frame_type :: "frame_type \<Rightarrow> bool" where
  "is_valid_frame_type ft \<longleftrightarrow> ft \<noteq> 0 \<and> ft AND NOT (FT_VIDEO OR FT_AUDIO OR FT_METADATA) = 0"

definition try_pop_frame :: "channel \<Rightarrow> assembled_frame option result \<times> channel" where
  "try_pop_frame ch =
     (if length (ch_buf ch) < HEADER_SIZE then (Inr None, ch)
      else case frame_header_from_bytes (ch_buf ch) of
        Inl e \<Rightarrow> (Inl e, ch\<lparr>ch_buf := []\<rparr>)
      | Inr header \<Rightarrow>
          if sint (fh_data_length header) < 0 then
            (Inl (Protocol ''negative data_length''), ch\<lparr>ch_buf := []\<rparr>)
          else
            let data_len = nat (sint (fh_data_length header));
                mx = max_payload_for (fh_frame_type header) in
            if data_len > mx then
              (Inl (Protocol (''data_length '' @ show_nat data_len @ '' exceeds max '' @ show_nat mx)),
               ch\<lparr>ch_buf := []\<rparr>)
            else if \<not> is_valid_frame_type (fh_frame_type header) then
              (Inl (Protocol (''invalid frame type '' @ show_nat (unat (fh_frame_type header)))),
               ch\<lparr>ch_buf := []\<rparr>)
            else
              let total_len = HEADER_SIZE + data_len in
              if length (ch_buf ch) < total_len then (Inr None, ch)
              else
                let frame_bytes = take total_len (ch_buf ch);
                    ch' = ch\<lparr>ch_buf := drop total_len (ch_buf ch)\<rparr> in
                (case assembled_from_bytes frame_bytes of
                   Inl e \<Rightarrow> (Inl e, ch')
                 | Inr frame \<Rightarrow> (Inr (Some frame), ch')))"

text \<open>One \<open>reader.read(scratch)\<close>: the next outcome, cut to the scratch buffer.\<close>

fun read_once :: "nat \<Rightarrow> reader \<Rightarrow> read_result \<times> reader" where
  "read_once scratch [] = (ReadErr WouldBlock ''resource temporarily unavailable'', [])"
| "read_once scratch (ReadErr k m # rs) = (ReadErr k m, rs)"
| "read_once scratch (ReadOk bs # rs) =
     (if length bs \<le> scratch then (ReadOk bs, rs)
      else (ReadOk (take scratch bs), ReadOk (drop scratch bs) # rs))"

definition after_read :: "channel \<Rightarrow> reader \<Rightarrow>
    (assembled_frame option result \<times> channel \<times> reader)" where
  "after_read ch reader =
     (case try_pop_frame ch of
        (Inl e, ch') \<Rightarrow> (Inl e, ch', reader)
      | (Inr (Some frame), ch') \<Rightarrow> (Inr (Some frame), ch', reader)
      | (Inr None, ch') \<Rightarrow> (Inl (Io TimedOut ''incomplete OMT frame''), ch', reader))"

definition recv_frame_into :: "nat \<Rightarrow> channel \<Rightarrow> reader \<Rightarrow>
    (assembled_frame option result \<times> channel \<times> reader)" where
  "recv_frame_into scratch ch reader =
     (case try_pop_frame ch of
        (Inl e, ch') \<Rightarrow> (Inl e, ch', reader)
      | (Inr (Some frame), ch') \<Rightarrow> (Inr (Some frame), ch', reader)
      | (Inr None, ch') \<Rightarrow>
          (case read_once scratch reader of
             (ReadOk bs, reader') \<Rightarrow>
               if bs = [] then
                 (if ch_buf ch' = [] then (Inr None, ch', reader')
                  else (Inl (Network ''connection closed mid-frame''), ch', reader'))
               else if usize_saturating_add (length (ch_buf ch')) (length bs) > max_reassembly then
                 (Inl (Protocol ''reassembly buffer overflow''), ch'\<lparr>ch_buf := []\<rparr>, reader')
               else after_read (ch'\<lparr>ch_buf := ch_buf ch' @ bs\<rparr>) reader'
           | (ReadErr k m, reader') \<Rightarrow>
               if k \<in> {WouldBlock, TimedOut, Interrupted} then after_read ch' reader'
               else (Inl (Io k m), ch', reader')))"

definition recv_frame :: "channel \<Rightarrow> reader \<Rightarrow> (assembled_frame option result \<times> channel \<times> reader)" where
  "recv_frame ch reader = recv_frame_into NETWORK_RECEIVE_MAX_TRANSFER ch reader"

definition push_bytes :: "bytes \<Rightarrow> channel \<Rightarrow> channel" where
  "push_bytes data ch = ch\<lparr>ch_buf := ch_buf ch @ data\<rparr>"

definition channel_clear :: "channel \<Rightarrow> channel" where
  "channel_clear ch = ch\<lparr>ch_buf := []\<rparr>"

definition buffered_len :: "channel \<Rightarrow> nat" where
  "buffered_len ch = length (ch_buf ch)"

text \<open>\<open>Write::write_all\<close> over the outcomes of the successive \<open>write\<close> calls: how many bytes the socket
  took, or an error. It returns the bytes that reached the wire beside the result; a list that is
  exhausted would block.\<close>

datatype write_result = Wrote nat | WriteErr io_kind string

fun write_all :: "bytes \<Rightarrow> write_result list \<Rightarrow> unit result \<times> bytes \<times> write_result list" where
  "write_all [] ws = (Inr (), [], ws)"
| "write_all (b # bs) [] = (Inl (Io WouldBlock ''resource temporarily unavailable''), [], [])"
| "write_all (b # bs) (Wrote n # ws) =
     (if n = 0 then (Inl (Io OtherIo ''failed to write whole buffer''), [], ws)
      else case write_all (drop n (b # bs)) ws of (r, out, ws') \<Rightarrow> (r, take n (b # bs) @ out, ws'))"
| "write_all (b # bs) (WriteErr k m # ws) =
     (if k = Interrupted then write_all (b # bs) ws else (Inl (Io k m), [], ws))"

definition send_bytes :: "bytes \<Rightarrow> write_result list \<Rightarrow> unit result \<times> bytes \<times> write_result list" where
  "send_bytes data ws = write_all data ws"

definition send_frame :: "assembled_frame \<Rightarrow> write_result list \<Rightarrow> unit result \<times> bytes \<times> write_result list" where
  "send_frame frame ws = send_bytes (assembled_to_bytes frame) ws"

section \<open>The framing interface\<close>

text \<open>\<open>pop\<close> takes a frame off the front of a buffer: on a complete frame it returns the frame and the
  bytes behind it, on a proper prefix of a frame it waits and keeps the buffer.\<close>

locale framing =
  fixes pop :: "bytes \<Rightarrow> 'f option result \<times> bytes"
    and enc :: "'f \<Rightarrow> bytes"
    and ok :: "'f \<Rightarrow> bool"
  assumes pop_enc: "ok f \<Longrightarrow> pop (enc f @ rest) = (Inr (Some f), rest)"
    and pop_prefix: "ok f \<Longrightarrow> n < length (enc f) \<Longrightarrow> pop (take n (enc f)) = (Inr None, take n (enc f))"
    and pop_Nil: "pop [] = (Inr None, [])"
    and enc_pos: "ok f \<Longrightarrow> enc f \<noteq> []"
begin

abbreviation stream :: "'f list \<Rightarrow> bytes" where
  "stream fs \<equiv> concat (map enc fs)"

text \<open>A buffer that begins a stream of frames is empty at the end of the stream, or is a proper prefix
  of the first frame and waits, or yields that frame; in no case is a byte lost.\<close>

lemma pop_stream:
  assumes "\<forall>f \<in> set fs. ok f" "buf @ future = stream fs"
  obtains (finished) "fs = []" "buf = []" "future = []" "pop buf = (Inr None, buf)"
  | (waits) f fs' where "fs = f # fs'" "pop buf = (Inr None, buf)" "length buf < length (enc f)"
      "future \<noteq> []"
  | (pops) f fs' rest where "fs = f # fs'" "pop buf = (Inr (Some f), rest)"
      "rest @ future = stream fs'" "buf = enc f @ rest"
proof (cases fs)
  case Nil
  with assms(2) finished show ?thesis by (simp add: pop_Nil)
next
  case (Cons f fs')
  with assms have f: "ok f" and eq: "buf @ future = enc f @ stream fs'" by auto
  show ?thesis
  proof (cases "length (enc f) \<le> length buf")
    case True
    with eq obtain rest where buf: "buf = enc f @ rest"
      by (metis append_eq_append_conv_if append_take_drop_id)
    with eq have "rest @ future = stream fs'" by simp
    with Cons buf pop_enc [OF f, of rest] pops show ?thesis by blast
  next
    case False
    then have lt: "length buf < length (enc f)" by simp
    with eq have "buf = take (length buf) (enc f)"
      by (metis append_eq_append_conv_if append_eq_conv_conj less_imp_le_nat)
    with pop_prefix [OF f lt] have "pop buf = (Inr None, buf)" by simp
    moreover have "future \<noteq> []" using eq lt by auto
    ultimately show ?thesis using Cons lt waits by blast
  qed
qed

end

section \<open>The channel is a framing\<close>

text \<open>\<open>try_pop_frame\<close> on a bare buffer; the frame-type hint of the channel plays no part in it.\<close>

definition channel_pop :: "bytes \<Rightarrow> assembled_frame option result \<times> bytes" where
  "channel_pop buf =
     (case try_pop_frame \<lparr>ch_frame_type = FT_NONE, ch_buf = buf\<rparr> of (r, ch) \<Rightarrow> (r, ch_buf ch))"

definition sendable :: "assembled_frame \<Rightarrow> bool" where
  "sendable f \<longleftrightarrow> wf_frame f \<and> is_valid_frame_type (fh_frame_type (af_header f)) \<and>
     nat (sint (fh_data_length (af_header f))) \<le> max_payload_for (fh_frame_type (af_header f))"

lemma try_pop_frame_channel_pop:
  "try_pop_frame ch = (case channel_pop (ch_buf ch) of (r, buf) \<Rightarrow> (r, ch\<lparr>ch_buf := buf\<rparr>))"
  by (cases ch) (simp add: channel_pop_def try_pop_frame_def Let_def split: sum.split prod.split)

lemma wf_frame_nonneg: "wf_frame f \<Longrightarrow> \<not> sint (fh_data_length (af_header f)) < 0"
  by (simp add: wf_frame_def Let_def)

lemma take_assembled: "wf_frame f \<Longrightarrow>
  take (HEADER_SIZE + nat (sint (fh_data_length (af_header f)))) (assembled_to_bytes f @ rest) =
    assembled_to_bytes f"
  by (simp add: wf_frame_total [symmetric] del: length_assembled)

lemma drop_assembled: "wf_frame f \<Longrightarrow>
  drop (HEADER_SIZE + nat (sint (fh_data_length (af_header f)))) (assembled_to_bytes f @ rest) = rest"
  by (simp add: wf_frame_total [symmetric] del: length_assembled)

interpretation chan: framing channel_pop assembled_to_bytes sendable
proof
  fix f rest
  assume f: "sendable f"
  then have wf: "wf_frame f" by (simp add: sendable_def)
  have "assembled_from_bytes (assembled_to_bytes f) = Inr f"
    using assembled_roundtrip [OF wf, of "[]"] by simp
  moreover have "HEADER_SIZE + nat (sint (fh_data_length (af_header f))) \<le> length (assembled_to_bytes f @ rest)"
    using wf_frame_total [OF wf] by simp
  ultimately show "channel_pop (assembled_to_bytes f @ rest) = (Inr (Some f), rest)"
    using f unfolding channel_pop_def try_pop_frame_def
    by (simp add: header_of_assembled [OF wf] wf_frame_nonneg [OF wf] Let_def take_assembled [OF wf]
        drop_assembled [OF wf] sendable_def
        del: length_append length_assembled take_append drop_append)
next
  fix f n
  assume f: "sendable f" and n: "n < length (assembled_to_bytes f)"
  then have wf: "wf_frame f" by (simp add: sendable_def)
  let ?p = "take n (assembled_to_bytes f)"
  have len: "length ?p = n" using n by simp
  have tot: "length (assembled_to_bytes f) = HEADER_SIZE + nat (sint (fh_data_length (af_header f)))"
    by (rule wf_frame_total [OF wf])
  show "channel_pop ?p = (Inr None, ?p)"
  proof (cases "n < HEADER_SIZE")
    case True
    then show ?thesis using len by (simp add: channel_pop_def try_pop_frame_def)
  next
    case False
    then have "frame_header_from_bytes ?p = Inr (af_header f)"
      using header_of_prefix [OF wf, of n] by simp
    then show ?thesis
      using f False n tot len unfolding channel_pop_def try_pop_frame_def
      by (simp add: wf_frame_nonneg [OF wf] Let_def sendable_def del: length_take length_assembled)
  qed
next
  show "channel_pop [] = (Inr None, [])" by (simp add: channel_pop_def try_pop_frame_def HEADER_SIZE_def)
next
  fix f assume "sendable f"
  show "assembled_to_bytes f \<noteq> []"
    by (simp add: assembled_to_bytes_eq frame_header_to_bytes_def)
qed

section \<open>Receiving a stream\<close>

text \<open>Consecutive calls of \<open>recv_frame_into\<close>, as every reader loop of the crate makes them: an
  incomplete frame (\<open>TimedOut\<close>) is retried, end of file and every other error end the loop.\<close>

fun recv_n :: "nat \<Rightarrow> nat \<Rightarrow> channel \<Rightarrow> reader \<Rightarrow> assembled_frame list \<times> channel \<times> reader" where
  "recv_n 0 scratch ch reader = ([], ch, reader)"
| "recv_n (Suc n) scratch ch reader =
     (case recv_frame_into scratch ch reader of
        (Inr (Some frame), ch', reader') \<Rightarrow>
          (case recv_n n scratch ch' reader' of (fs, ch'', reader'') \<Rightarrow> (frame # fs, ch'', reader''))
      | (Inr None, ch', reader') \<Rightarrow> ([], ch', reader')
      | (Inl (Io TimedOut m), ch', reader') \<Rightarrow> recv_n n scratch ch' reader'
      | (Inl e, ch', reader') \<Rightarrow> ([], ch', reader'))"

lemma recv_pops:
  "channel_pop (ch_buf ch) = (Inr (Some f), rest) \<Longrightarrow>
     recv_frame_into scratch ch reader = (Inr (Some f), ch\<lparr>ch_buf := rest\<rparr>, reader)"
  by (simp add: recv_frame_into_def try_pop_frame_channel_pop)

lemma recv_blocks:
  "channel_pop (ch_buf ch) = (Inr None, ch_buf ch) \<Longrightarrow>
     recv_frame_into scratch ch [] = (Inl (Io TimedOut ''incomplete OMT frame''), ch, [])"
  by (simp add: recv_frame_into_def after_read_def try_pop_frame_channel_pop)

lemma recv_chunk:
  assumes "channel_pop (ch_buf ch) = (Inr None, ch_buf ch)" "c \<noteq> []" "length c \<le> scratch"
    and "length (ch_buf ch) + length c \<le> max_reassembly"
  shows "recv_frame_into scratch ch (ReadOk c # reader) =
     after_read (ch\<lparr>ch_buf := ch_buf ch @ c\<rparr>) reader"
  using assms by (simp add: recv_frame_into_def try_pop_frame_channel_pop usize_saturating_add_def)

text \<open>One call on the prefix \<open>ch_buf ch\<close> of a stream whose remaining bytes arrive as \<open>chunks\<close>.\<close>

definition stream_inv :: "nat \<Rightarrow> assembled_frame list \<Rightarrow> bytes list \<Rightarrow> channel \<Rightarrow> bool" where
  "stream_inv scratch fs chunks ch \<longleftrightarrow>
     (\<forall>f \<in> set fs. sendable f \<and> length (assembled_to_bytes f) + scratch \<le> max_reassembly) \<and>
     (\<forall>c \<in> set chunks. c \<noteq> [] \<and> length c \<le> scratch) \<and>
     ch_buf ch @ concat chunks = concat (map assembled_to_bytes fs)"

lemma after_read_stream:
  assumes "stream_inv scratch fs chunks ch"
  obtains (frame) f fs' rest where "fs = f # fs'"
      "after_read ch reader = (Inr (Some f), ch\<lparr>ch_buf := rest\<rparr>, reader)"
      "stream_inv scratch fs' chunks (ch\<lparr>ch_buf := rest\<rparr>)"
  | (again) "after_read ch reader = (Inl (Io TimedOut ''incomplete OMT frame''), ch, reader)"
proof -
  have fs: "\<forall>f \<in> set fs. sendable f" and eq: "ch_buf ch @ concat chunks = concat (map assembled_to_bytes fs)"
    using assms by (auto simp: stream_inv_def)
  show ?thesis
    by (rule chan.pop_stream [OF fs eq])
       (use assms frame again in \<open>auto simp: after_read_def try_pop_frame_channel_pop stream_inv_def\<close>)
qed

lemma recv_stream:
  assumes inv: "stream_inv scratch fs chunks ch"
  obtains (frame) f fs' chunks' rest where "fs = f # fs'" "length chunks' \<le> length chunks"
      "recv_frame_into scratch ch (map ReadOk chunks) =
         (Inr (Some f), ch\<lparr>ch_buf := rest\<rparr>, map ReadOk chunks')"
      "stream_inv scratch fs' chunks' (ch\<lparr>ch_buf := rest\<rparr>)"
  | (again) chunks' rest where "fs = [] \<and> chunks' = [] \<or> length chunks' < length chunks"
      "recv_frame_into scratch ch (map ReadOk chunks) =
         (Inl (Io TimedOut ''incomplete OMT frame''), ch\<lparr>ch_buf := rest\<rparr>, map ReadOk chunks')"
      "stream_inv scratch fs chunks' (ch\<lparr>ch_buf := rest\<rparr>)"
proof -
  have fs: "\<forall>f \<in> set fs. sendable f" and eq: "ch_buf ch @ concat chunks = concat (map assembled_to_bytes fs)"
    using inv by (auto simp: stream_inv_def)
  from fs eq show ?thesis
  proof (cases rule: chan.pop_stream)
    case finished
    with inv have "chunks = []" by (cases chunks) (auto simp: stream_inv_def)
    with finished inv again [of "[]" "ch_buf ch"] show ?thesis by (simp add: recv_blocks stream_inv_def)
  next
    case (pops f fs' rest)
    with inv frame [of f fs' chunks rest] show ?thesis by (simp add: recv_pops stream_inv_def)
  next
    case (waits f fs')
    then obtain c cs where chunks: "chunks = c # cs" by (cases chunks) auto
    let ?ch = "ch\<lparr>ch_buf := ch_buf ch @ c\<rparr>"
    have recv: "recv_frame_into scratch ch (map ReadOk chunks) = after_read ?ch (map ReadOk cs)"
      using inv waits chunks by (simp add: recv_chunk stream_inv_def del: length_assembled)
    have inv': "stream_inv scratch fs cs ?ch"
      using inv chunks by (simp add: stream_inv_def)
    show ?thesis
    proof (rule after_read_stream [OF inv', of "map ReadOk cs"])
      fix g gs rest
      assume "fs = g # gs" "after_read ?ch (map ReadOk cs) = (Inr (Some g), ?ch\<lparr>ch_buf := rest\<rparr>, map ReadOk cs)"
        "stream_inv scratch gs cs (?ch\<lparr>ch_buf := rest\<rparr>)"
      with recv chunks frame [of g gs cs rest] show ?thesis by simp
    next
      assume "after_read ?ch (map ReadOk cs) = (Inl (Io TimedOut ''incomplete OMT frame''), ?ch, map ReadOk cs)"
      with recv chunks inv' again [of cs "ch_buf ch @ c"] show ?thesis by simp
    qed
  qed
qed

lemma recv_n_stream:
  assumes "stream_inv scratch fs chunks ch" "length fs + length chunks \<le> n"
  shows "recv_n n scratch ch (map ReadOk chunks) = (fs, ch\<lparr>ch_buf := []\<rparr>, [])"
  using assms
proof (induction n arbitrary: fs chunks ch)
  case 0
  then show ?case by (cases ch) (simp add: stream_inv_def)
next
  case (Suc n)
  from Suc.prems(1) show ?case
  proof (cases rule: recv_stream)
    case (frame f fs' chunks' rest)
    with Suc.IH [of fs' chunks' "ch\<lparr>ch_buf := rest\<rparr>"] Suc.prems(2) show ?thesis by simp
  next
    case (again chunks' rest)
    with Suc.IH [of fs chunks' "ch\<lparr>ch_buf := rest\<rparr>"] Suc.prems(2) show ?thesis by auto
  qed
qed

section \<open>Properties\<close>

lemma sample_frame_sendable: "sendable sample_frame"
proof -
  have "is_valid_frame_type 2" "(37 :: nat) \<le> max_payload_for 2"
    by (simp_all add: is_valid_frame_type_def max_payload_for_def ft_contains_def ft_defs VIDEO_MAX_SIZE_def)
  moreover have "fh_frame_type (af_header sample_frame) = 2" "fh_data_length (af_header sample_frame) = 37"
    by (simp_all add: sample_frame_def)
  ultimately show ?thesis using sample_frame_wf by (simp add: sendable_def)
qed



lemma try_pop_shrinks: "try_pop_frame ch = (r, ch') \<Longrightarrow> length (ch_buf ch') \<le> length (ch_buf ch)"
  by (auto simp: try_pop_frame_def Let_def split: if_splits sum.splits)

lemma after_read_shrinks:
  "after_read ch reader = (r, ch', reader') \<Longrightarrow> length (ch_buf ch') \<le> length (ch_buf ch)"
  by (auto simp: after_read_def dest: try_pop_shrinks split: prod.splits sum.splits option.splits)

text \<open>C28: the reassembly buffer never grows beyond its limit, whatever the peer sends and whatever the
  read returns: every call of \<open>recv_frame_into\<close> keeps it at most \<open>MAX_REASSEMBLY\<close> bytes long.\<close>

theorem reassembly_buffer_bounded:
  assumes "buffered_len ch \<le> max_reassembly"
    and "recv_frame_into scratch ch reader = (r, ch', reader')"
  shows "buffered_len ch' \<le> max_reassembly"
proof -
  obtain q ch1 where pop: "try_pop_frame ch = (q, ch1)" by fastforce
  from try_pop_shrinks [OF pop] assms(1) have 1: "length (ch_buf ch1) \<le> max_reassembly"
    by (simp add: buffered_len_def)
  have 2: "length (ch_buf ch1 @ bs) \<le> max_reassembly"
    if "\<not> usize_saturating_add (length (ch_buf ch1)) (length bs) > max_reassembly" for bs
    using that by (simp add: usize_saturating_add_def usize_max_def max_reassembly_def VIDEO_MAX_SIZE_def
        HEADER_SIZE_def)
  have 3: "length (ch_buf c') \<le> max_reassembly"
    if "after_read c rd = (q', c', rd')" "length (ch_buf c) \<le> max_reassembly" for c rd q' c' rd'
    using after_read_shrinks [OF that(1)] that(2) by simp
  show ?thesis
    using assms(2) pop 1
    by (auto simp: recv_frame_into_def buffered_len_def split: sum.splits option.splits prod.splits
        read_result.splits if_splits dest!: 3) (use 2 in auto)
qed

theorem reassembly_buffer_bounded_witness:
  "buffered_len (channel_new FT_AUDIO) \<le> max_reassembly \<and>
   buffered_len (fst (snd (recv_frame_into 4 (channel_new FT_AUDIO) [ReadOk [1, 2, 3]]))) \<le> max_reassembly"
proof -
  have 1: "buffered_len (channel_new FT_AUDIO) \<le> max_reassembly"
    by (simp add: buffered_len_def channel_new_def)
  obtain r ch' rd where "recv_frame_into 4 (channel_new FT_AUDIO) [ReadOk [1, 2, 3]] = (r, ch', rd)"
    by (cases "recv_frame_into 4 (channel_new FT_AUDIO) [ReadOk [1, 2, 3]]") auto
  with reassembly_buffer_bounded [OF 1 this] 1 show ?thesis by simp
qed

text \<open>What \<open>write_all\<close> puts on the wire is a prefix of its data, all of it exactly on success.\<close>

lemma write_all_prefix:
  assumes "write_all data ws = (r, out, ws')"
  obtains rest where "data = out @ rest" "r = Inr () \<longleftrightarrow> rest = []"
proof -
  have "\<exists>rest. data = out @ rest \<and> (r = Inr () \<longleftrightarrow> rest = [])"
    using assms
  proof (induction data ws arbitrary: r out ws' rule: write_all.induct)
    case (3 b bs n ws)
    show ?case
    proof (cases "n = 0")
      case False
      obtain r1 out1 ws1 where w: "write_all (drop n (b # bs)) ws = (r1, out1, ws1)" by (metis prod_cases3)
      from "3.IH" [OF False w] obtain rest where "drop n (b # bs) = out1 @ rest" "r1 = Inr () \<longleftrightarrow> rest = []"
        by blast
      moreover have "b # bs = take n (b # bs) @ drop n (b # bs)" by simp
      moreover from "3.prems" False w have "r = r1" "out = take n (b # bs) @ out1" by auto
      ultimately show ?thesis by (metis append_assoc)
    qed (use "3.prems" in auto)
  qed (auto split: if_splits)
  then show ?thesis using that by blast
qed

text \<open>C27: every outcome of \<open>try_pop_frame\<close>. Waiting leaves the channel untouched. A frame is returned only
  when it is well formed, of a known type and within its size limit, and exactly its header and
  \<open>data_length\<close> bytes leave the buffer. An error is a protocol error and consumes at least a header, so
  a caller that retries makes progress.\<close>

theorem try_pop_frame_outcomes:
  "case try_pop_frame ch of
     (Inr None, ch') \<Rightarrow> ch' = ch
   | (Inr (Some f), ch') \<Rightarrow> sendable f \<and>
       (\<exists>raw. ch_buf ch = raw @ ch_buf ch' \<and> assembled_from_bytes raw = Inr f \<and>
          length raw = HEADER_SIZE + nat (sint (fh_data_length (af_header f))))
   | (Inl e, ch') \<Rightarrow> (\<exists>m. e = Protocol m) \<and> length (ch_buf ch') + HEADER_SIZE \<le> length (ch_buf ch)"
proof (cases "length (ch_buf ch) < HEADER_SIZE")
  case True
  then show ?thesis by (simp add: try_pop_frame_def)
next
  case False
  show ?thesis
  proof (cases "frame_header_from_bytes (ch_buf ch)")
    case (Inl e)
    with False hdr.dec_error [of "ch_buf ch" e] show ?thesis by (simp add: try_pop_frame_def)
  next
    case (Inr h)
    let ?n = "HEADER_SIZE + nat (sint (fh_data_length h))"
    have hd: "af_header f = h" if "assembled_from_bytes (take ?n (ch_buf ch)) = Inr f" for f
    proof -
      have "frame_header_from_bytes (take ?n (ch_buf ch)) = Inr h"
        using Inr False by (simp add: frame_header_from_bytes_def frame_consts slice_def Let_def take_drop min_def
            split: if_splits)
      with that show ?thesis
        by (auto elim!: assembled_InrD dest: sections_InrD(1))
    qed
    show ?thesis
      using False Inr
      by (auto simp: try_pop_frame_def Let_def sendable_def hd assembled_wf dest: assembled_error_protocol
          split: sum.split intro!: exI [of _ "take ?n (ch_buf ch)"])
  qed
qed

text \<open>A video frame with \<open>n\<close> payload bytes.\<close>

definition big_frame :: "nat \<Rightarrow> assembled_frame" where
  "big_frame n = sample_frame
     \<lparr>af_header := (af_header sample_frame)\<lparr>fh_metadata_length := 0,
        fh_data_length := word_of_nat (VIDEO_EXT_HEADER_SIZE + n)\<rparr>,
      af_data := replicate n 0, af_metadata := []\<rparr>"

lemma big_frame_sendable:
  assumes "VIDEO_EXT_HEADER_SIZE + n \<le> VIDEO_MAX_SIZE"
  shows "sendable (big_frame n)" and "length (assembled_to_bytes (big_frame n)) = HEADER_SIZE + (VIDEO_EXT_HEADER_SIZE + n)"
proof -
  have "VIDEO_EXT_HEADER_SIZE + n < 2 ^ 31" using assms by (simp add: VIDEO_MAX_SIZE_def)
  then have dl: "sint (word_of_nat (VIDEO_EXT_HEADER_SIZE + n) :: i32) = int (VIDEO_EXT_HEADER_SIZE + n)"
    by (subst sint_of_nat_small) simp_all
  have "wf_frame (big_frame n)"
    using dl sample_frame_wf
    by (simp add: wf_frame_def big_frame_def sample_frame_def ext_bytes_def Let_def frame_consts ft_contains_def ft_defs)
  moreover have "fh_frame_type (af_header (big_frame n)) = FT_VIDEO"
    by (simp add: big_frame_def sample_frame_def ft_defs)
  moreover have "fh_data_length (af_header (big_frame n)) = word_of_nat (VIDEO_EXT_HEADER_SIZE + n)"
    by (simp add: big_frame_def)
  ultimately show "sendable (big_frame n)"
    and "length (assembled_to_bytes (big_frame n)) = HEADER_SIZE + (VIDEO_EXT_HEADER_SIZE + n)"
    using dl assms
    by (simp_all add: sendable_def max_payload_for_def is_valid_frame_type_def ft_contains_def ft_defs
        wf_frame_total nat_add_distrib del: length_assembled)
qed

text \<open>the reassembly limit leaves 64 KiB beyond the largest frame, but one read may bring 128 KiB. When
  the buffer holds an incomplete but legal frame and the read goes past the limit, the frame is lost:
  the call reports an overflow and the buffer is cleared. A legal frame of maximal size that is
  followed closely by another one can run into this.\<close>

theorem reassembly_overflow:
  assumes "sendable f" "n < length (assembled_to_bytes f)" "ch_buf ch = take n (assembled_to_bytes f)"
    and "length c \<le> NETWORK_RECEIVE_MAX_TRANSFER" "max_reassembly < n + length c" "c \<noteq> []"
  shows "recv_frame ch (ReadOk c # reader) =
     (Inl (Protocol ''reassembly buffer overflow''), channel_clear ch, reader)"
proof -
  have "channel_pop (ch_buf ch) = (Inr None, ch_buf ch)"
    using chan.pop_prefix [OF assms(1,2)] assms(3) by simp
  moreover have "length (ch_buf ch) = n" using assms(2,3) by simp
  ultimately show ?thesis
    using assms(4,5,6)
    by (simp add: recv_frame_def recv_frame_into_def try_pop_frame_channel_pop channel_clear_def
        usize_saturating_add_def usize_max_def max_reassembly_def VIDEO_MAX_SIZE_def HEADER_SIZE_def)
qed

theorem reassembly_overflow_witness:
  "recv_frame (push_bytes (take (HEADER_SIZE + VIDEO_MAX_SIZE - 1)
       (assembled_to_bytes (big_frame (VIDEO_MAX_SIZE - VIDEO_EXT_HEADER_SIZE)))) (channel_new FT_VIDEO))
     [ReadOk (replicate NETWORK_RECEIVE_MAX_TRANSFER 0)] =
   (Inl (Protocol ''reassembly buffer overflow''), channel_new FT_VIDEO, [])"
proof -
  let ?f = "big_frame (VIDEO_MAX_SIZE - VIDEO_EXT_HEADER_SIZE)"
  let ?ch = "push_bytes (take (HEADER_SIZE + VIDEO_MAX_SIZE - 1) (assembled_to_bytes ?f)) (channel_new FT_VIDEO)"
  have le: "VIDEO_EXT_HEADER_SIZE + (VIDEO_MAX_SIZE - VIDEO_EXT_HEADER_SIZE) = VIDEO_MAX_SIZE"
    by (simp add: VIDEO_EXT_HEADER_SIZE_def VIDEO_MAX_SIZE_def)
  have "recv_frame ?ch [ReadOk (replicate NETWORK_RECEIVE_MAX_TRANSFER 0)] =
      (Inl (Protocol ''reassembly buffer overflow''), channel_clear ?ch, [])"
  proof (rule reassembly_overflow)
    show "sendable ?f" by (rule big_frame_sendable(1)) (simp add: le)
    have "length (assembled_to_bytes ?f) = HEADER_SIZE + VIDEO_MAX_SIZE"
      using big_frame_sendable(2) [of "VIDEO_MAX_SIZE - VIDEO_EXT_HEADER_SIZE"] unfolding le by simp
    then show "HEADER_SIZE + VIDEO_MAX_SIZE - 1 < length (assembled_to_bytes ?f)"
      by (simp add: HEADER_SIZE_def del: length_assembled)
    show "ch_buf ?ch = take (HEADER_SIZE + VIDEO_MAX_SIZE - 1) (assembled_to_bytes ?f)"
      by (simp add: push_bytes_def channel_new_def)
    show "replicate NETWORK_RECEIVE_MAX_TRANSFER 0 \<noteq> []"
      by (simp add: NETWORK_RECEIVE_MAX_TRANSFER_def)
  qed (simp_all add: max_reassembly_def HEADER_SIZE_def NETWORK_RECEIVE_MAX_TRANSFER_def)
  then show ?thesis by (simp add: channel_clear_def push_bytes_def channel_new_def)
qed

end
