(* ===== verification/Metadata.thy ===== *)
theory Metadata
  imports Xml
begin

text \<open>
  Metadata documents (\<open>src/protocol/metadata.rs\<close>): the control strings of the wire, the typed documents
  with their builders and parser, and the classification into control commands. The XML reader is the
  parameter \<open>rox\<close> of the theory \<open>Xml\<close>; the exact tally strings are matched before it is called. The
  lemmas show that what a peer sends with these builders is what the other side reads.
\<close>

section \<open>Wire strings\<close>

definition SUBSCRIBE_VIDEO :: string where
  "SUBSCRIBE_VIDEO = ''<OMTSubscribe Video='' @ dq @ ''true'' @ dq @ '' />''"
definition SUBSCRIBE_AUDIO :: string where
  "SUBSCRIBE_AUDIO = ''<OMTSubscribe Audio='' @ dq @ ''true'' @ dq @ '' />''"
definition SUBSCRIBE_METADATA :: string where
  "SUBSCRIBE_METADATA = ''<OMTSubscribe Metadata='' @ dq @ ''true'' @ dq @ '' />''"
definition PREVIEW_ON :: string where
  "PREVIEW_ON = ''<OMTSettings Preview='' @ dq @ ''true'' @ dq @ '' />''"
definition PREVIEW_OFF :: string where
  "PREVIEW_OFF = ''<OMTSettings Preview='' @ dq @ ''false'' @ dq @ '' />''"
definition SUGGESTED_QUALITY :: string where
  "SUGGESTED_QUALITY = ''<OMTSettings Quality='' @ dq @ ''Default'' @ dq @ '' />''"
definition SUGGESTED_QUALITY_PREFIX :: string where
  "SUGGESTED_QUALITY_PREFIX = ''<OMTSettings Quality=''"
definition TALLY_PREVIEW :: string where
  "TALLY_PREVIEW = ''<OMTTally Preview='' @ dq @ ''true'' @ dq @ '' Program=='' @ dq @ ''false'' @ dq @ '' />''"
definition TALLY_PROGRAM :: string where
  "TALLY_PROGRAM = ''<OMTTally Preview='' @ dq @ ''false'' @ dq @ '' Program=='' @ dq @ ''true'' @ dq @ '' />''"
definition TALLY_PREVIEW_PROGRAM :: string where
  "TALLY_PREVIEW_PROGRAM = ''<OMTTally Preview='' @ dq @ ''true'' @ dq @ '' Program=='' @ dq @ ''true'' @ dq @ '' />''"
definition TALLY_NONE :: string where
  "TALLY_NONE = ''<OMTTally Preview='' @ dq @ ''false'' @ dq @ '' Program=='' @ dq @ ''false'' @ dq @ '' />''"
definition SENDER_INFO_NAME :: string where "SENDER_INFO_NAME = ''OMTInfo''"
definition SENDER_INFO_PREFIX :: string where "SENDER_INFO_PREFIX = ''<OMTInfo''"
definition ADDRESS_NAME :: string where "ADDRESS_NAME = ''OMTAddress''"
definition REDIRECT_NAME :: string where "REDIRECT_NAME = ''OMTRedirect''"
definition REDIRECT_PREFIX :: string where "REDIRECT_PREFIX = ''<OMTRedirect''"

lemmas control_defs = SUBSCRIBE_VIDEO_def SUBSCRIBE_AUDIO_def SUBSCRIBE_METADATA_def PREVIEW_ON_def PREVIEW_OFF_def
lemmas tally_defs = TALLY_PREVIEW_def TALLY_PROGRAM_def TALLY_PREVIEW_PROGRAM_def TALLY_NONE_def

section \<open>Documents\<close>

record ptz_metadata =
  ptz_protocol :: string
  ptz_url :: "string option"
  ptz_sequence :: "string option"
  ptz_command :: "string option"
  ptz_reply :: "string option"

record ancillary_packet =
  ap_attributes :: "(string \<times> string) list"
  ap_payload :: string

record ancillary_metadata =
  am_xmlns :: "string option"
  am_packets :: "ancillary_packet list"

datatype metadata =
  MSubscribe bool bool bool
  | MSettings "bool option" "quality option"
  | MTally tally
  | MSenderInfo sender_info
  | MRedirect string
  | MAddress string u16 bool "string list"
  | MWeb string
  | MPtz ptz_metadata
  | MAncillary ancillary_metadata
  | MUnknown xml_element

definition visca_over_ip_xml :: "string \<Rightarrow> string" where
  "visca_over_ip_xml url =
     ''<OMTPTZ Protocol='' @ dq @ ''VISCAoverIP'' @ dq @ '' URL='' @ dq @ escape_xml url @ dq @ '' />''"

definition visca_command_xml :: "string \<Rightarrow> string \<Rightarrow> string" where
  "visca_command_xml sequence command_hex =
     ''<OMTPTZ Protocol='' @ dq @ ''VISCA'' @ dq @ '' Sequence='' @ dq @ escape_xml sequence @ dq @
     '' Command='' @ dq @ escape_xml command_hex @ dq @ '' />''"

definition visca_reply_xml :: "string \<Rightarrow> string \<Rightarrow> string" where
  "visca_reply_xml sequence reply_hex =
     ''<OMTPTZ Protocol='' @ dq @ ''VISCA'' @ dq @ '' Sequence='' @ dq @ escape_xml sequence @ dq @
     '' Reply='' @ dq @ escape_xml reply_hex @ dq @ '' />''"

definition packet_attr :: "string \<Rightarrow> ancillary_packet \<Rightarrow> string option" where
  "packet_attr name p = find_attr name (ap_attributes p)"

definition web_xml :: "string \<Rightarrow> string" where
  "web_xml url = ''<OMTWeb URL='' @ dq @ escape_xml url @ dq @ '' />''"

definition nl :: string where
  "nl = [CHR 0x0A]"

definition group_xml :: "string list \<Rightarrow> string" where
  "group_xml inner = ''<OMTGroup>'' @ nl @ concat (map (\<lambda>xml. trim xml @ nl) inner) @ ''</OMTGroup>''"

definition redirect_xml :: "string \<Rightarrow> string" where
  "redirect_xml new_address = ''<OMTRedirect NewAddress='' @ dq @ escape_xml new_address @ dq @ '' />''"

definition suggested_quality_xml :: "quality \<Rightarrow> string" where
  "suggested_quality_xml quality = ''<OMTSettings Quality='' @ dq @ quality_as_str quality @ dq @ '' />''"

definition suggested_quality_xml_alias :: "quality \<Rightarrow> string" where
  "suggested_quality_xml_alias q = suggested_quality_xml q"

definition tally_xml :: "tally \<Rightarrow> string" where
  "tally_xml t =
     (case (t_preview t \<noteq> 0, t_program t \<noteq> 0) of
        (False, False) \<Rightarrow> TALLY_NONE
      | (True, False) \<Rightarrow> TALLY_PREVIEW
      | (False, True) \<Rightarrow> TALLY_PROGRAM
      | (True, True) \<Rightarrow> TALLY_PREVIEW_PROGRAM)"

definition from_tally :: "tally \<Rightarrow> string" where
  "from_tally t = tally_xml t"

definition encode_metadata_xml :: "string \<Rightarrow> bytes" where
  "encode_metadata_xml xml = as_bytes xml"

text \<open>The detail of the UTF-8 error is not modelled.\<close>

definition decode_metadata_xml :: "bytes \<Rightarrow> string result" where
  "decode_metadata_xml bytes =
     (let text = takeWhile (\<lambda>b. b \<noteq> 0) bytes in
      if utf8_valid text then Inr (of_bytes text) else Inl (Protocol ''invalid metadata utf-8''))"

section \<open>Parsing\<close>

definition tally_from_libomtnet_constant :: "string \<Rightarrow> tally option" where
  "tally_from_libomtnet_constant xml =
     (if xml = TALLY_PREVIEW then Some (tally_new 1 0)
      else if xml = TALLY_PROGRAM then Some (tally_new 0 1)
      else if xml = TALLY_PREVIEW_PROGRAM then Some (tally_new 1 1)
      else if xml = TALLY_NONE then Some (tally_new 0 0)
      else None)"

definition quality_from_name :: "string \<Rightarrow> quality option" where
  "quality_from_name name =
     (if name = ''Default'' then Some QDefault
      else if name = ''Low'' then Some Low
      else if name = ''Medium'' then Some Medium
      else if name = ''High'' then Some High
      else None)"

definition unwrap_or :: "'a \<Rightarrow> 'a option \<Rightarrow> 'a" where
  "unwrap_or d x = (case x of None \<Rightarrow> d | Some v \<Rightarrow> v)"

definition bool_i32 :: "bool \<Rightarrow> i32" where
  "bool_i32 b = (if b then 1 else 0)"

definition address_element :: "xml_element \<Rightarrow> metadata" where
  "address_element el =
     MAddress (unwrap_or [] (xe_child_text ''Name'' el))
       (unwrap_or 0 (Option.bind (xe_child_text ''Port'' el) parse_u16))
       (unwrap_or False (Option.bind (xe_child_text ''Removed'' el) parse_bool))
       (case xe_child ''Addresses'' el of
          None \<Rightarrow> []
        | Some a \<Rightarrow> map xe_text (xe_children_named ''IPAddress'' a @ xe_children_named ''Address'' a))"

definition ancillary_element :: "xml_element \<Rightarrow> metadata" where
  "ancillary_element el =
     MAncillary \<lparr>am_xmlns = (case xe_attr ''xmlns'' el of Some v \<Rightarrow> Some v | None \<Rightarrow> xe_attr ''xmns'' el),
       am_packets = map (\<lambda>p. \<lparr>ap_attributes = xe_attributes p, ap_payload = unwrap_or [] (xe_child_text ''Payload'' p)\<rparr>)
         (xe_children_named ''Packet'' el)\<rparr>"

definition element_to_metadata :: "xml_element \<Rightarrow> metadata" where
  "element_to_metadata el =
     (if xe_name el = ''OMTSubscribe'' then
        MSubscribe (unwrap_or False (xe_attr_bool ''Video'' el)) (unwrap_or False (xe_attr_bool ''Audio'' el))
          (unwrap_or False (xe_attr_bool ''Metadata'' el))
      else if xe_name el = ''OMTSettings'' then
        MSettings (xe_attr_bool ''Preview'' el) (Option.bind (xe_attr ''Quality'' el) quality_from_name)
      else if xe_name el = ''OMTTally'' then
        MTally (tally_new (bool_i32 (unwrap_or False (xe_attr_bool ''Preview'' el)))
          (bool_i32 (unwrap_or False (xe_attr_bool ''Program'' el))))
      else if xe_name el = ''OMTInfo'' then
        MSenderInfo (sender_info_new (unwrap_or [] (xe_attr ''ProductName'' el))
          (unwrap_or [] (xe_attr ''Manufacturer'' el)) (unwrap_or [] (xe_attr ''Version'' el)))
      else if xe_name el = ''OMTRedirect'' then MRedirect (unwrap_or [] (xe_attr ''NewAddress'' el))
      else if xe_name el = ''OMTAddress'' then address_element el
      else if xe_name el = ''OMTWeb'' then MWeb (unwrap_or [] (xe_attr ''URL'' el))
      else if xe_name el = ''OMTPTZ'' then
        MPtz \<lparr>ptz_protocol = unwrap_or [] (xe_attr ''Protocol'' el), ptz_url = xe_attr ''URL'' el,
          ptz_sequence = xe_attr ''Sequence'' el, ptz_command = xe_attr ''Command'' el, ptz_reply = xe_attr ''Reply'' el\<rparr>
      else if xe_name el = ''AncillaryData'' then ancillary_element el
      else MUnknown el)"

fun unknown_size :: "metadata \<Rightarrow> nat" where
  "unknown_size (MUnknown el) = size el"
| "unknown_size _ = 0"

function flatten :: "metadata \<Rightarrow> metadata list" where
  "flatten item =
     (case item of
        MUnknown el \<Rightarrow>
          if xe_name el = ''OMTGroup'' then concat (map (\<lambda>c. flatten (element_to_metadata c)) (xe_children el))
          else [item]
      | _ \<Rightarrow> [item])"
  by pat_completeness auto

lemma unknown_size_element: "unknown_size (element_to_metadata c) \<le> size c"
  by (simp add: element_to_metadata_def address_element_def ancillary_element_def)

lemma size_child: "c \<in> set (xe_children el) \<Longrightarrow> size c < size el"
  by (cases el) (auto dest: size_list_estimation' [of _ _ "size c" size])

termination flatten
proof (relation "measure unknown_size", goal_cases)
  case (2 item el c)
  then show ?case using unknown_size_element [of c] size_child [of c el] by simp
qed simp

declare flatten.simps [simp del]

definition parse_metadata :: "rox \<Rightarrow> string \<Rightarrow> metadata list" where
  "parse_metadata rox xml =
     (case tally_from_libomtnet_constant xml of
        Some t \<Rightarrow> [MTally t]
      | None \<Rightarrow>
          (case xml_parse rox xml of
             Inr root \<Rightarrow> flatten (element_to_metadata root)
           | Inl _ \<Rightarrow> []))"

datatype metadata_command =
  SubscribeVideo | SubscribeAudio | SubscribeMetadata | PreviewOn | PreviewOff
  | CQuality quality | CTally tally

fun metadata_to_commands :: "metadata \<Rightarrow> metadata_command list" where
  "metadata_to_commands (MSubscribe video audio metadata) =
     (if video then [SubscribeVideo] else []) @ (if audio then [SubscribeAudio] else []) @
     (if metadata then [SubscribeMetadata] else [])"
| "metadata_to_commands (MSettings preview quality) =
     (case preview of None \<Rightarrow> [] | Some on \<Rightarrow> [if on then PreviewOn else PreviewOff]) @
     (case quality of None \<Rightarrow> [] | Some q \<Rightarrow> [CQuality q])"
| "metadata_to_commands (MTally t) = [CTally t]"
| "metadata_to_commands _ = []"

definition classify :: "rox \<Rightarrow> string \<Rightarrow> metadata_command list" where
  "classify rox xml = concat (map metadata_to_commands (parse_metadata rox xml))"

definition is_subscribe :: "rox \<Rightarrow> string \<Rightarrow> string \<Rightarrow> bool" where
  "is_subscribe rox xml kind =
     list_ex (\<lambda>m. case m of
        MSubscribe video audio metadata \<Rightarrow>
          kind = ''Video'' \<and> video \<or> kind = ''Audio'' \<and> audio \<or> kind = ''Metadata'' \<and> metadata
      | _ \<Rightarrow> False) (parse_metadata rox xml)"

definition metadata_frame_parse :: "rox \<Rightarrow> metadata_frame \<Rightarrow> metadata list" where
  "metadata_frame_parse rox self = parse_metadata rox (md_xml self)"

fun find_sender_info :: "metadata list \<Rightarrow> sender_info option" where
  "find_sender_info [] = None"
| "find_sender_info (MSenderInfo info # ms) = Some info"
| "find_sender_info (m # ms) = find_sender_info ms"

definition sender_info_from_xml :: "rox \<Rightarrow> string \<Rightarrow> sender_info option" where
  "sender_info_from_xml rox xml = find_sender_info (parse_metadata rox xml)"

section \<open>Reading what the builders write\<close>

lemma render_element_hd: "is_element t \<Longrightarrow> \<exists>s. render q t = CHR ''<'' # s"
  by (cases t) auto

lemma render_element_last: "is_element t \<Longrightarrow> \<exists>s. render q t = s @ [CHR ''>'']"
  by (cases t) auto

lemma trim_bom_lt: "trim_bom (CHR ''<'' # s) = CHR ''<'' # s"
proof -
  have "(of_char (char_of (239 :: nat)) :: nat) \<noteq> of_char (CHR ''<'')" by simp
  then have "char_of (239 :: nat) \<noteq> CHR ''<''" by metis
  then show ?thesis
    unfolding trim_bom_def by (intro strip_while_stop) (simp add: bom_def)
qed

lemma ws_start_lt: "ws_start (CHR ''<'' # s) = 0"
  by (simp add: ws_start_def ws1_def ws2_def ws3_def split: list.split)

lemma ws_end_gt: "ws_end_rev (CHR ''>'' # s) = 0"
  by (simp add: ws_end_rev_def ws1_def ws2_def ws3_def split: list.split)

lemma trim_render: "is_element t \<Longrightarrow> trim (render q t) = render q t"
  using render_element_hd [of t q] render_element_last [of t q]
  by (metis trim_fixed ws_start_lt ws_end_gt rev_append append_Cons append_Nil rev.simps(1) rev.simps(2))

text \<open>The tally strings of the wire are not XML documents, so no rendered document is one of them.\<close>

lemma tally_not_xml:
  "ref_xml TALLY_PREVIEW = Inl ''malformed''" "ref_xml TALLY_PROGRAM = Inl ''malformed''"
  "ref_xml TALLY_PREVIEW_PROGRAM = Inl ''malformed''" "ref_xml TALLY_NONE = Inl ''malformed''"
  by code_simp+

lemma render_not_tally:
  assumes "is_element t" "wf_xml t"
  shows "tally_from_libomtnet_constant (render q t) = None"
proof -
  have "ref_xml (render q t) = Inr t" using ref_xml_reads assms by (simp add: reads_xml_def)
  with tally_not_xml have "render q t \<notin> {TALLY_PREVIEW, TALLY_PROGRAM, TALLY_PREVIEW_PROGRAM, TALLY_NONE}" by auto
  then show ?thesis by (simp add: tally_from_libomtnet_constant_def)
qed

lemma parse_rendered:
  assumes "reads_xml rox" "is_element t" "wf_xml t"
  shows "parse_metadata rox (render q t) = flatten (element_to_metadata (from_node t))"
proof -
  have "trim_bom (render q t) = render q t"
    using render_element_hd [OF assms(2), of q] by (auto simp: trim_bom_lt)
  with assms show ?thesis
    by (simp add: parse_metadata_def render_not_tally xml_parse_def reads_xml_def)
qed

text \<open>The builders write an element without content whose attributes are the arguments.\<close>

lemma xml_name_check:
  "xml_name ''OMTSubscribe''" "xml_name ''OMTSettings''" "xml_name ''OMTInfo''" "xml_name ''OMTRedirect''"
  "xml_name ''OMTWeb''" "xml_name ''OMTPTZ''" "xml_name ''OMTGroup''" "xml_name ''OMTAddress''"
  "xml_name ''Video''" "xml_name ''Audio''" "xml_name ''Metadata''" "xml_name ''Preview''" "xml_name ''Quality''"
  "xml_name ''ProductName''" "xml_name ''Manufacturer''" "xml_name ''Version''" "xml_name ''NewAddress''"
  "xml_name ''URL''" "xml_name ''Protocol''" "xml_name ''Sequence''" "xml_name ''Command''" "xml_name ''Reply''"
  "xml_name ''Name''" "xml_name ''Port''" "xml_name ''Removed''" "xml_name ''Addresses''" "xml_name ''IPAddress''"
  by (simp_all add: xml_name_def is_ascii_alphanumeric_def is_ascii_alphabetic_def)

lemma parse_empty_element:
  assumes "reads_xml rox" "xml_name name" "distinct (map fst attrs)"
    and "list_all (\<lambda>(k, v). xml_name k \<and> k \<noteq> ''xmlns'' \<and> printable v) attrs"
    and "xml = ''<'' @ name @ render_attrs q attrs @ '' />''"
  shows "parse_metadata rox xml = flatten (element_to_metadata (XmlElement name attrs [] []))"
  using parse_rendered [of rox "RoxElement name attrs []" q] assms by simp

lemma flatten_single: "(\<forall>el. m \<noteq> MUnknown el) \<Longrightarrow> flatten m = [m]"
  by (subst flatten.simps) (simp split: metadata.split)

lemma parse_bool_words [simp]: "parse_bool ''true'' = Some True" "parse_bool ''false'' = Some False"
  "parse_bool ''True'' = Some True"
  by code_simp+

lemmas element_simps = element_to_metadata_def xe_attr_bool_def xe_attr_def find_attr_def unwrap_or_def flatten_single

lemma quality_printable: "printable (quality_as_str q)"
  by (cases q) (simp_all add: printable_def)

lemma esc_quality: "esc b (quality_as_str q) = quality_as_str q"
  by (cases q) (simp_all add: esc_def esc_char_def)

lemma quality_from_as_str: "quality_from_name (quality_as_str q) = Some q"
  by (cases q) (simp_all add: quality_from_name_def)

lemma esc_bool_words: "esc q ''true'' = ''true''" "esc q ''false'' = ''false''" "esc q ''VISCA'' = ''VISCA''"
  "esc q ''VISCAoverIP'' = ''VISCAoverIP''"
  by (simp_all add: esc_def esc_char_def)

lemma printable_words: "printable ''true''" "printable ''false''" "printable ''VISCA''" "printable ''VISCAoverIP''"
  by (simp_all add: printable_def)

lemma parse_subscribe:
  assumes "reads_xml rox"
  shows "parse_metadata rox SUBSCRIBE_VIDEO = [MSubscribe True False False]"
    and "parse_metadata rox SUBSCRIBE_AUDIO = [MSubscribe False True False]"
    and "parse_metadata rox SUBSCRIBE_METADATA = [MSubscribe False False True]"
  using parse_empty_element [OF assms xml_name_check(1), of "[(''Video'', ''true'')]" SUBSCRIBE_VIDEO True]
    parse_empty_element [OF assms xml_name_check(1), of "[(''Audio'', ''true'')]" SUBSCRIBE_AUDIO True]
    parse_empty_element [OF assms xml_name_check(1), of "[(''Metadata'', ''true'')]" SUBSCRIBE_METADATA True]
  by (simp_all add: xml_name_check printable_words render_attrs_def esc_bool_words control_defs dq_def element_simps)

lemma parse_settings:
  assumes "reads_xml rox"
  shows "parse_metadata rox PREVIEW_ON = [MSettings (Some True) None]"
    and "parse_metadata rox PREVIEW_OFF = [MSettings (Some False) None]"
    and "parse_metadata rox (suggested_quality_xml q) = [MSettings None (Some q)]"
  using parse_empty_element [OF assms xml_name_check(2), of "[(''Preview'', ''true'')]" PREVIEW_ON True]
    parse_empty_element [OF assms xml_name_check(2), of "[(''Preview'', ''false'')]" PREVIEW_OFF True]
    parse_empty_element [OF assms xml_name_check(2), of "[(''Quality'', quality_as_str q)]" "suggested_quality_xml q" True]
  by (simp_all add: xml_name_check printable_words render_attrs_def esc_bool_words esc_quality control_defs dq_def
      quality_printable quality_from_as_str suggested_quality_xml_def element_simps)

lemma tally_xml_constant:
  "tally_from_libomtnet_constant (tally_xml t) = Some (tally_new (bool_i32 (t_preview t \<noteq> 0)) (bool_i32 (t_program t \<noteq> 0)))"
proof -
  have "distinct [TALLY_PREVIEW, TALLY_PROGRAM, TALLY_PREVIEW_PROGRAM, TALLY_NONE]" by code_simp
  then show ?thesis by (auto simp: tally_from_libomtnet_constant_def tally_xml_def bool_i32_def)
qed

section \<open>Properties\<close>

text \<open>the control strings a receiver sends are read by the sender as exactly the commands they stand for:
  each subscription, preview on and off, every suggested quality; and every tally state is read as its
  on/off pair, whatever the XML reader does, since tally strings are matched before it is called.\<close>

theorem control_strings_classified:
  assumes "reads_xml rox"
  shows "classify rox SUBSCRIBE_VIDEO = [SubscribeVideo] \<and> classify rox SUBSCRIBE_AUDIO = [SubscribeAudio] \<and>
     classify rox SUBSCRIBE_METADATA = [SubscribeMetadata] \<and>
     classify rox PREVIEW_ON = [PreviewOn] \<and> classify rox PREVIEW_OFF = [PreviewOff] \<and>
     classify rox (suggested_quality_xml q) = [CQuality q] \<and>
     classify rox' (tally_xml t) = [CTally (tally_new (bool_i32 (t_preview t \<noteq> 0)) (bool_i32 (t_program t \<noteq> 0)))]"
  by (simp add: classify_def parse_subscribe [OF assms] parse_settings [OF assms])
     (simp add: parse_metadata_def tally_xml_constant)

theorem control_strings_classified_witness:
  "classify ref_xml SUBSCRIBE_AUDIO = [SubscribeAudio] \<and> classify ref_xml (suggested_quality_xml Low) = [CQuality Low] \<and>
   classify (\<lambda>_. Inl []) (tally_xml (tally_new 0 7)) = [CTally (tally_new 0 1)]"
  using control_strings_classified [OF ref_xml_reads, of Low "\<lambda>_. Inl []" "tally_new 0 7"]
  by (simp add: tally_new_def bool_i32_def)

lemma escape_words: "escape_xml ''VISCA'' = ''VISCA''" "escape_xml ''VISCAoverIP'' = ''VISCAoverIP''"
  by (simp_all add: escape_xml_def)

lemmas builder_simps = escape_words xml_name_check printable_words render_attrs_def esc_bool_words dq_def element_simps esc_True

lemma parse_info:
  assumes "reads_xml rox" "printable (si_product_name info)" "printable (si_manufacturer info)" "printable (si_version info)"
  shows "parse_metadata rox (sender_info_to_xml info) = [MSenderInfo info]"
  using parse_empty_element [OF assms(1) xml_name_check(3), of "[(''ProductName'', si_product_name info),
      (''Manufacturer'', si_manufacturer info), (''Version'', si_version info)]" "sender_info_to_xml info" False] assms
  by (simp add: builder_simps sender_info_to_xml_def escape_xml_attr_esc sender_info_new_def)

lemma parse_links:
  assumes "reads_xml rox" "printable a"
  shows "parse_metadata rox (redirect_xml a) = [MRedirect a]" and "parse_metadata rox (web_xml a) = [MWeb a]"
  using parse_empty_element [OF assms(1) xml_name_check(4), of "[(''NewAddress'', a)]" "redirect_xml a" True]
    parse_empty_element [OF assms(1) xml_name_check(5), of "[(''URL'', a)]" "web_xml a" True] assms
  by (simp_all add: builder_simps redirect_xml_def web_xml_def)

lemma parse_ptz:
  assumes "reads_xml rox" "printable a" "printable b"
  shows "parse_metadata rox (visca_over_ip_xml a) =
      [MPtz \<lparr>ptz_protocol = ''VISCAoverIP'', ptz_url = Some a, ptz_sequence = None, ptz_command = None, ptz_reply = None\<rparr>]"
    and "parse_metadata rox (visca_command_xml a b) =
      [MPtz \<lparr>ptz_protocol = ''VISCA'', ptz_url = None, ptz_sequence = Some a, ptz_command = Some b, ptz_reply = None\<rparr>]"
    and "parse_metadata rox (visca_reply_xml a b) =
      [MPtz \<lparr>ptz_protocol = ''VISCA'', ptz_url = None, ptz_sequence = Some a, ptz_command = None, ptz_reply = Some b\<rparr>]"
  using parse_empty_element [OF assms(1) xml_name_check(6), of "[(''Protocol'', ''VISCAoverIP''), (''URL'', a)]"
      "visca_over_ip_xml a" True]
    parse_empty_element [OF assms(1) xml_name_check(6), of "[(''Protocol'', ''VISCA''), (''Sequence'', a), (''Command'', b)]"
      "visca_command_xml a b" True]
    parse_empty_element [OF assms(1) xml_name_check(6), of "[(''Protocol'', ''VISCA''), (''Sequence'', a), (''Reply'', b)]"
      "visca_reply_xml a b" True] assms(2,3)
  by (simp_all add: builder_simps visca_over_ip_xml_def visca_command_xml_def visca_reply_xml_def)



text \<open>The tree of a group: a line feed after the tag and after every document.\<close>

definition group_node :: "rox_node list \<Rightarrow> rox_node" where
  "group_node ts = RoxElement ''OMTGroup'' [] (RoxText nl # concat (map (\<lambda>t. [t, RoxText nl]) ts))"

lemma no_adjacent_group: "\<forall>t \<in> set ts. is_element t \<Longrightarrow> no_adjacent_text (RoxText nl # concat (map (\<lambda>t. [t, RoxText nl]) ts))"
proof (induction ts)
  case (Cons t ts)
  then show ?case by (cases t) auto
qed simp

lemma esc_nl: "esc q nl = nl"
  by (simp add: esc_def esc_char_def nl_def)

lemma group_render:
  assumes "\<forall>t \<in> set ts. is_element t"
  shows "group_xml (map (render q) ts) = render q (group_node ts)"
proof -
  have "concat (map (\<lambda>xml. trim xml @ nl) (map (render q) ts)) = concat (map (render q) (concat (map (\<lambda>t. [t, RoxText nl]) ts)))"
    using assms by (induction ts) (simp_all add: trim_render esc_nl)
  then show ?thesis by (simp add: group_xml_def group_node_def render_attrs_def esc_nl)
qed

lemma group_wf: "\<forall>t \<in> set ts. is_element t \<and> wf_xml t \<Longrightarrow> wf_xml (group_node ts)"
  using no_adjacent_group [of ts]
  by (auto simp: group_node_def xml_name_check text_ok_def nl_def list_all_iff)

lemma group_children: "\<forall>t \<in> set ts. is_element t \<Longrightarrow> xe_children (from_node (group_node ts)) = map from_node ts"
  unfolding group_node_def by (induction ts) (auto simp: comp_def)

text \<open>a group of documents is read as the documents one after the other, nested groups included.\<close>

theorem group_flattened:
  assumes "reads_xml rox" "\<forall>t \<in> set ts. is_element t \<and> wf_xml t"
  shows "parse_metadata rox (group_xml (map (render q) ts)) =
     concat (map (\<lambda>xml. parse_metadata rox xml) (map (render q) ts))"
proof -
  have el: "\<forall>t \<in> set ts. is_element t" using assms(2) by simp
  have "element_to_metadata (from_node (group_node ts)) = MUnknown (from_node (group_node ts))"
    "xe_name (from_node (group_node ts)) = ''OMTGroup''"
    by (simp_all add: group_node_def element_to_metadata_def)
  then have "parse_metadata rox (render q (group_node ts)) = concat (map (\<lambda>c. flatten (element_to_metadata c)) (map from_node ts))"
    using parse_rendered [OF assms(1) _ group_wf [OF assms(2)], of q] group_children [OF el]
      flatten.simps [of "MUnknown (from_node (group_node ts))"]
    by (simp add: group_node_def)
  moreover have "map (\<lambda>t. flatten (element_to_metadata (from_node t))) ts = map (\<lambda>t. parse_metadata rox (render q t)) ts"
    using parse_rendered [OF assms(1)] assms(2) by simp
  ultimately show ?thesis by (simp add: group_render [OF el] comp_def)
qed

theorem group_flattened_witness:
  "parse_metadata ref_xml (group_xml (map (render True)
     [RoxElement ''OMTWeb'' [(''URL'', ''u'')] [], RoxElement ''OMTRedirect'' [(''NewAddress'', ''r'')] []])) =
   [MWeb ''u'', MRedirect ''r'']"
proof -
  have wf: "\<forall>t \<in> set [RoxElement ''OMTWeb'' [(''URL'', ''u'')] [], RoxElement ''OMTRedirect'' [(''NewAddress'', ''r'')] []].
      is_element t \<and> wf_xml t"
    by (simp add: xml_name_check printable_def)
  have "render True (RoxElement ''OMTWeb'' [(''URL'', ''u'')] []) = web_xml ''u''"
    "render True (RoxElement ''OMTRedirect'' [(''NewAddress'', ''r'')] []) = redirect_xml ''r''"
    by (simp_all add: web_xml_def redirect_xml_def render_attrs_def esc_True dq_def)
  then show ?thesis
    using group_flattened [OF ref_xml_reads wf, of True]
      parse_links [OF ref_xml_reads, of "''u''"] parse_links [OF ref_xml_reads, of "''r''"]
    by (simp add: printable_def)
qed

text \<open>metadata text survives the wire: encoding a string without NUL and decoding it, also when the
  payload carries a NUL and anything after it, gives the string back.\<close>

theorem metadata_text_roundtrip:
  assumes "0 \<notin> set (as_bytes xml)" "utf8_valid (as_bytes xml)" "pad = [] \<or> hd pad = 0"
  shows "decode_metadata_xml (encode_metadata_xml xml @ pad) = Inr xml"
proof -
  have "takeWhile (\<lambda>b. b \<noteq> 0) (as_bytes xml @ pad) = as_bytes xml"
    using assms(1,3) by (cases pad) (auto simp: takeWhile_eq_all_conv takeWhile_append)
  with assms(2) show ?thesis by (simp add: decode_metadata_xml_def encode_metadata_xml_def)
qed

theorem metadata_text_roundtrip_witness:
  "decode_metadata_xml (encode_metadata_xml SUBSCRIBE_VIDEO @ [0, 200]) = Inr SUBSCRIBE_VIDEO"
proof (rule metadata_text_roundtrip)
  show "0 \<notin> set (as_bytes SUBSCRIBE_VIDEO)" by code_simp
  show "utf8_valid (as_bytes SUBSCRIBE_VIDEO)" by (rule utf8_valid_ascii) code_simp
qed simp

end
