(* ===== verification/Address.thy ===== *)
theory Address
  imports Metadata
begin

text \<open>
  Source addresses (\<open>src/discovery/address.rs\<close>): names, URLs and the XML of the discovery server. Slicing a
  string inside a UTF-8 character panics; \<open>limit_name_length\<close> and what calls it therefore give an
  \<open>option\<close>, \<open>None\<close> being the panic. The host name and the local addresses come from outside as arguments.
  The lemmas show the length cap, and that names, URLs and XML read back what was written.
\<close>

section \<open>Definitions\<close>

record omt_address =
  oa_name :: string
  oa_machine_name :: string
  oa_port :: u16
  oa_addresses :: "string list"
  oa_removed :: bool

definition sanitize_name :: "string \<Rightarrow> string" where
  "sanitize_name s = trim (remove_chars [CHR 0x00, CHR 0x0A, CHR 0x0D] s)"

definition instance_name :: "omt_address \<Rightarrow> string" where
  "instance_name a =
     (if oa_machine_name a = [] then oa_name a else oa_machine_name a @ '' ('' @ oa_name a @ '')'')"

text \<open>\<open>Display\<close>.\<close>

definition show_address :: "omt_address \<Rightarrow> string" where "show_address a = instance_name a"

definition limit_name_length :: "omt_address \<Rightarrow> omt_address option" where
  "limit_name_length a =
     (let full = instance_name a in
      if length full \<le> MAX_INSTANCE_NAME_LENGTH then Some a
      else
        let oversize = length full - MAX_INSTANCE_NAME_LENGTH in
        if oversize < length (oa_name a) then
          let keep = length (oa_name a) - oversize in
          if is_char_boundary (oa_name a) keep then Some (a\<lparr>oa_name := trim (take keep (oa_name a))\<rparr>) else None
        else Some a)"

definition address_new :: "string \<Rightarrow> u16 \<Rightarrow> omt_address option" where
  "address_new name port =
     limit_name_length \<lparr>oa_name = sanitize_name name, oa_machine_name = [], oa_port = port, oa_addresses = [],
       oa_removed = False\<rparr>"

definition split_full_name :: "string \<Rightarrow> (string \<times> string) option" where
  "split_full_name full =
     (case (char_find (CHR ''('') full, char_rfind (CHR '')'') full) of
        (Some opn, Some cls) \<Rightarrow>
          if opn = 0 \<or> cls \<le> opn then None
          else
            let machine = trim (take opn full);
                name = trim (slice (opn + 1) cls full) in
            if machine = [] \<or> name = [] then None else Some (machine, name)
      | _ \<Rightarrow> None)"

definition from_full_name :: "string \<Rightarrow> u16 \<Rightarrow> omt_address option" where
  "from_full_name full_name port =
     (let full = sanitize_name full_name in
      case split_full_name full of
        Some (machine, name) \<Rightarrow>
          limit_name_length \<lparr>oa_name = name, oa_machine_name = machine, oa_port = port, oa_addresses = [],
            oa_removed = False\<rparr>
      | None \<Rightarrow> address_new full port)"

definition is_valid_name :: "string \<Rightarrow> bool" where
  "is_valid_name full_name \<longleftrightarrow> CHR ''('' \<in> set full_name \<and> CHR '')'' \<in> set full_name"

definition strip_omt_service_suffix :: "string \<Rightarrow> string" where
  "strip_omt_service_suffix fqdn =
     (let trimmed = trim_end_char (CHR ''.'') fqdn;
          lower = to_ascii_lowercase trimmed in
      case str_find ''._omt.'' lower of
        Some pos \<Rightarrow> take pos trimmed
      | None \<Rightarrow> trimmed)"

text \<open>The inner option is the source's \<open>Option\<close>.\<close>

definition from_dns_sd :: "string \<Rightarrow> u16 \<Rightarrow> string list \<Rightarrow> omt_address option option" where
  "from_dns_sd fullname_or_instance port addresses =
     (let inst = strip_omt_service_suffix fullname_or_instance in
      if \<not> is_valid_name inst \<or> port = 0 then Some None
      else map_option (\<lambda>a. Some (a\<lparr>oa_addresses := addresses\<rparr>)) (from_full_name inst port))"

definition hostname :: "string option \<Rightarrow> string option \<Rightarrow> string" where
  "hostname computername_var hostname_var =
     to_ascii_uppercase
       (case computername_var of Some h \<Rightarrow> h
        | None \<Rightarrow> (case hostname_var of Some h \<Rightarrow> h | None \<Rightarrow> ''localhost''))"

text \<open>\<open>route\<close> is the local address of the UDP socket when binding and connecting succeeded.\<close>

definition local_ips :: "string option \<Rightarrow> string list" where
  "local_ips route =
     (case route of
        Some ip \<Rightarrow> if ip \<noteq> ''0.0.0.0'' \<and> ip \<noteq> ''127.0.0.1'' then [ip, ''127.0.0.1''] else [''127.0.0.1'']
      | None \<Rightarrow> [''127.0.0.1''])"

definition address_local :: "string \<Rightarrow> string option \<Rightarrow> string \<Rightarrow> u16 \<Rightarrow> omt_address option" where
  "address_local machine route source_name port =
     (let addrs = local_ips route in
      limit_name_length \<lparr>oa_name = sanitize_name source_name, oa_machine_name = sanitize_name machine, oa_port = port,
        oa_addresses = filter (\<lambda>a. CHR '':'' \<notin> set a) addrs @ filter (\<lambda>a. CHR '':'' \<in> set a) addrs,
        oa_removed = False\<rparr>)"

definition url_host_port :: "string \<Rightarrow> (string \<times> u16) result" where
  "url_host_port host_port =
     (case rsplit_once (CHR '':'') host_port of
        Some (h, p) \<Rightarrow>
          if h \<noteq> [] then
            (case parse_u16 p of
               Some port \<Rightarrow> Inr (h, port)
             | None \<Rightarrow> Inl (InvalidArgument (''invalid port in URL: '' @ p)))
          else Inr (host_port, 0)
      | None \<Rightarrow> Inr (host_port, 0))"

definition from_url :: "string \<Rightarrow> omt_address result option" where
  "from_url url =
     (if \<not> starts_with URL_PREFIX url then Some (Inl (InvalidArgument (''URL must start with '' @ URL_PREFIX)))
      else
        let rest = drop (length URL_PREFIX) url;
            (host_port, name) = (case split_once (CHR ''/'') rest of Some (h, n) \<Rightarrow> (h, n) | None \<Rightarrow> (rest, [])) in
        case url_host_port host_port of
          Inl e \<Rightarrow> Some (Inl e)
        | Inr (host, port) \<Rightarrow>
            let name' = (if name = [] then host else name) in
            map_option Inr (limit_name_length \<lparr>oa_name = sanitize_name name', oa_machine_name = [], oa_port = port,
              oa_addresses = [host], oa_removed = False\<rparr>))"

definition to_url :: "omt_address \<Rightarrow> string" where
  "to_url a =
     (let host = (if oa_machine_name a \<noteq> [] then oa_machine_name a
                  else case oa_addresses a of h # _ \<Rightarrow> h | [] \<Rightarrow> ''127.0.0.1'') in
      if oa_port a = 0 then URL_PREFIX @ host @ ''/'' @ oa_name a
      else URL_PREFIX @ host @ '':'' @ show_nat (unat (oa_port a)) @ ''/'' @ oa_name a)"

text \<open>The escaping of this module leaves the apostrophe alone.\<close>

definition address_escape_xml :: "string \<Rightarrow> string" where
  "address_escape_xml s =
     replace_char (CHR 0x22) ''&quot;''
       (replace_char (CHR ''>'') ''&gt;''
         (replace_char (CHR ''<'') ''&lt;''
           (replace_char (CHR ''&'') ''&amp;'' s)))"

definition address_to_xml :: "omt_address \<Rightarrow> string" where
  "address_to_xml a =
     ''<OMTAddress>'' @ nl @ ''  <Name>'' @ address_escape_xml (instance_name a) @ ''</Name>'' @ nl @
     ''  <Port>'' @ show_nat (unat (oa_port a)) @ ''</Port>'' @ nl @
     (if oa_removed a then ''  <Removed>True</Removed>'' @ nl else []) @
     ''  <Addresses>'' @ nl @
     (if oa_addresses a = [] then ''    <IPAddress>0.0.0.0</IPAddress>'' @ nl
      else concat (map (\<lambda>x. ''    <IPAddress>'' @ address_escape_xml x @ ''</IPAddress>'' @ nl) (oa_addresses a))) @
     ''  </Addresses>'' @ nl @ ''</OMTAddress>''"

definition to_register_xml :: "omt_address \<Rightarrow> string" where
  "to_register_xml a = address_to_xml (a\<lparr>oa_removed := False\<rparr>)"

definition to_deregister_xml :: "omt_address \<Rightarrow> string" where
  "to_deregister_xml a = address_to_xml (a\<lparr>oa_removed := True, oa_addresses := []\<rparr>)"

fun from_items :: "metadata list \<Rightarrow> omt_address result option" where
  "from_items [] = Some (Inl (InvalidArgument ''OMTAddress XML missing Name''))"
| "from_items (MAddress name port removed addresses # ms) =
     (if name = [] then Some (Inl (InvalidArgument ''OMTAddress XML missing Name''))
      else map_option (\<lambda>a. Inr (a\<lparr>oa_removed := removed, oa_addresses := addresses\<rparr>)) (from_full_name name port))"
| "from_items (m # ms) = from_items ms"

definition address_from_xml :: "rox \<Rightarrow> string \<Rightarrow> omt_address result option" where
  "address_from_xml rox xml = from_items (parse_metadata rox xml)"

section \<open>Names\<close>

lemma length_instance_name:
  "length (instance_name a) =
     (if oa_machine_name a = [] then length (oa_name a) else length (oa_machine_name a) + length (oa_name a) + 3)"
  by (simp add: instance_name_def)

lemma limit_short: "length (instance_name a) \<le> MAX_INSTANCE_NAME_LENGTH \<Longrightarrow> limit_name_length a = Some a"
  by (simp add: limit_name_length_def)

lemma limit_cap:
  assumes "limit_name_length a = Some b" "oa_machine_name a = [] \<or> length (oa_machine_name a) + 3 < MAX_INSTANCE_NAME_LENGTH"
  shows "length (instance_name b) \<le> MAX_INSTANCE_NAME_LENGTH"
proof (cases "length (instance_name a) \<le> MAX_INSTANCE_NAME_LENGTH")
  case False
  let ?keep = "length (oa_name a) - (length (instance_name a) - MAX_INSTANCE_NAME_LENGTH)"
  have lt: "length (instance_name a) - MAX_INSTANCE_NAME_LENGTH < length (oa_name a)"
    using False assms(2) by (auto simp: length_instance_name MAX_INSTANCE_NAME_LENGTH_def split: if_splits)
  with assms(1) False have b: "b = a\<lparr>oa_name := trim (take ?keep (oa_name a))\<rparr>"
    by (simp add: limit_name_length_def Let_def split: if_splits)
  have "length (trim (take ?keep (oa_name a))) \<le> ?keep"
    using length_trim_le [of "take ?keep (oa_name a)"] by simp
  with False lt assms(2) show ?thesis
    by (auto simp: b length_instance_name MAX_INSTANCE_NAME_LENGTH_def split: if_splits)
qed (use assms(1) in \<open>simp add: limit_short\<close>)

lemma ws_start_stop:
  assumes "ws_start s = 0" "s \<noteq> []" "(of_char c :: nat) < 128"
  shows "ws_start (s @ c # t) = 0"
proof (cases s)
  case (Cons a s')
  with assms show ?thesis
    by (cases s'; cases "tl s'") (auto simp: ws_start_def ws2_def ws3_def Let_def split: if_splits list.splits)
qed (use assms in simp)

lemma ws_end_ascii: "\<not> ws1 c \<Longrightarrow> (of_char c :: nat) < 128 \<Longrightarrow> ws_end_rev (c # s) = 0"
  by (auto simp: ws_end_rev_def ws2_def ws3_def Let_def split: list.splits)

lemma trim_end_space: "trim_end (s @ [CHR '' '']) = trim_end s"
  unfolding trim_end_def by (subst strip_while.simps) (simp add: ws_end_rev_def ws1_def)

lemma trim_space:
  assumes "trim s = s" "s \<noteq> []"
  shows "trim (s @ [CHR '' '']) = s"
proof -
  have ws: "ws_start s = 0" "ws_end_rev (rev s) = 0" using assms(1) by (simp_all add: trim_eq_iff)
  have "trim_start (s @ [CHR '' '']) = s @ [CHR '' '']"
    unfolding trim_start_def using ws_start_stop [OF ws(1) assms(2), of "CHR '' ''" "[]"]
    by (intro strip_while_stop) simp
  then show ?thesis using ws(2) by (simp add: trim_def trim_end_space) (simp add: trim_end_def strip_while_stop)
qed

text \<open>A canonical name: trimmed, without the characters that are removed, and within the cap; the machine
  name, when there is one, has no opening parenthesis and leaves the source name not empty.\<close>

definition clean_name :: "string \<Rightarrow> bool" where
  "clean_name s \<longleftrightarrow> s \<noteq> [] \<and> trim s = s \<and> CHR 0x00 \<notin> set s \<and> CHR 0x0A \<notin> set s \<and> CHR 0x0D \<notin> set s"

definition canonical :: "omt_address \<Rightarrow> bool" where
  "canonical a \<longleftrightarrow> clean_name (oa_name a) \<and> clean_name (oa_machine_name a) \<and>
     CHR ''('' \<notin> set (oa_machine_name a) \<and> length (instance_name a) \<le> MAX_INSTANCE_NAME_LENGTH"

lemma remove_chars_id: "set cs \<inter> set s = {} \<Longrightarrow> remove_chars cs s = s"
  by (auto simp: remove_chars_def filter_id_conv)

lemma sanitize_clean: "clean_name s \<Longrightarrow> sanitize_name s = s"
  by (simp add: sanitize_name_def clean_name_def remove_chars_id)

lemma clean_instance_name:
  assumes "canonical a"
  shows "clean_name (instance_name a)"
proof -
  let ?m = "oa_machine_name a" and ?n = "oa_name a"
  have m: "ws_start ?m = 0" "?m \<noteq> []" using assms by (auto simp: canonical_def clean_name_def trim_eq_iff)
  have i: "instance_name a = ?m @ '' ('' @ ?n @ '')''" using m by (simp add: instance_name_def)
  have "ws_start (instance_name a) = 0"
    using ws_start_stop [OF m, of "CHR '' ''"] by (simp add: i)
  moreover have "ws_end_rev (rev (instance_name a)) = 0"
    by (simp add: i ws_end_ascii ws1_def)
  ultimately have "trim (instance_name a) = instance_name a" by (rule trim_fixed)
  with assms m(2) show ?thesis by (auto simp: canonical_def clean_name_def i)
qed

lemma split_instance_name:
  assumes "canonical a"
  shows "split_full_name (instance_name a) = Some (oa_machine_name a, oa_name a)"
proof -
  let ?m = "oa_machine_name a" and ?n = "oa_name a"
  have c: "?m \<noteq> []" "trim ?m = ?m" "?n \<noteq> []" "trim ?n = ?n" "CHR ''('' \<notin> set ?m"
    using assms by (auto simp: canonical_def clean_name_def)
  have i: "instance_name a = (?m @ [CHR '' '']) @ CHR ''('' # ?n @ [CHR '')'']" using c by (simp add: instance_name_def)
  have "char_find (CHR ''('') (instance_name a) = Some (length ?m + 1)"
    unfolding i using c(5) by (subst char_find_append) auto
  moreover have "char_rfind (CHR '')'') (instance_name a) = Some (length ?m + 2 + length ?n)"
    using char_rfind_append [of "CHR '')''" "[]" "(?m @ [CHR '' '']) @ CHR ''('' # ?n"] by (simp add: i)
  ultimately show ?thesis
    using trim_space [OF c(2,1)] c by (simp add: split_full_name_def Let_def) (simp add: i slice_def)
qed

lemma from_instance_name:
  assumes "canonical a"
  shows "from_full_name (instance_name a) port =
     Some (a\<lparr>oa_port := port, oa_addresses := [], oa_removed := False\<rparr>)"
proof -
  have "instance_name \<lparr>oa_name = oa_name a, oa_machine_name = oa_machine_name a, oa_port = port, oa_addresses = [],
      oa_removed = False\<rparr> = instance_name a" by (simp add: instance_name_def)
  then show ?thesis
    using assms split_instance_name [OF assms] sanitize_clean [OF clean_instance_name [OF assms]]
    by (cases a) (simp add: from_full_name_def Let_def limit_short canonical_def)
qed

section \<open>The discovery document\<close>

lemma address_escape_esc: "address_escape_xml s = esc False s"
  by (induction s) (simp_all add: address_escape_xml_def esc_def esc_char_def)

definition text_element :: "string \<Rightarrow> string \<Rightarrow> rox_node" where
  "text_element name t = RoxElement name [] [RoxText t]"

definition ips :: "string list \<Rightarrow> string list" where
  "ips addrs = (if addrs = [] then [''0.0.0.0''] else addrs)"

fun ip_nodes :: "string list \<Rightarrow> rox_node list" where
  "ip_nodes [] = []"
| "ip_nodes [x] = [RoxText (nl @ ''    ''), text_element ''IPAddress'' x, RoxText (nl @ ''  '')]"
| "ip_nodes (x # y # xs) = RoxText (nl @ ''    '') # text_element ''IPAddress'' x # ip_nodes (y # xs)"

definition address_node :: "omt_address \<Rightarrow> rox_node" where
  "address_node a = RoxElement ''OMTAddress'' []
     ([RoxText (nl @ ''  ''), text_element ''Name'' (instance_name a), RoxText (nl @ ''  ''),
       text_element ''Port'' (show_nat (unat (oa_port a))), RoxText (nl @ ''  '')] @
      (if oa_removed a then [text_element ''Removed'' ''True'', RoxText (nl @ ''  '')] else []) @
      [RoxElement ''Addresses'' [] (ip_nodes (ips (oa_addresses a))), RoxText nl])"

lemma esc_blank: "esc q nl = nl" "esc q (CHR '' '' # s) = CHR '' '' # esc q s"
  by (simp_all add: esc_def esc_char_def nl_def)

lemma esc_digits: "esc q (show_nat n) = show_nat n"
proof (rule esc_id, unfold list_all_iff, rule ballI)
  fix c assume "c \<in> set (show_nat n)"
  then have "is_ascii_digit c" by (rule show_nat_digits)
  then show "c \<notin> {CHR ''&'', CHR ''<'', CHR ''>'', CHR 0x22, CHR 0x27}" by (auto simp: is_ascii_digit_def)
qed

lemma render_ips:
  "xs \<noteq> [] \<Longrightarrow> concat (map (render False) (ip_nodes xs)) =
     nl @ concat (map (\<lambda>x. ''    <IPAddress>'' @ address_escape_xml x @ ''</IPAddress>'' @ nl) xs) @ ''  ''"
  by (induction xs rule: ip_nodes.induct)
     (simp_all add: text_element_def render_attrs_def esc_blank address_escape_esc)

lemma esc_words: "esc q ''True'' = ''True''" "esc False ''0.0.0.0'' = ''0.0.0.0''"
  by (simp_all add: esc_def esc_char_def)

lemma address_xml_render: "address_to_xml a = render False (address_node a)"
proof -
  have ne: "ips (oa_addresses a) \<noteq> []" "ip_nodes (ips (oa_addresses a)) \<noteq> []"
    by (cases "ips (oa_addresses a)" rule: ip_nodes.cases; simp add: ips_def split: if_splits)+
  have "(if oa_addresses a = [] then ''    <IPAddress>0.0.0.0</IPAddress>'' @ nl
      else concat (map (\<lambda>x. ''    <IPAddress>'' @ address_escape_xml x @ ''</IPAddress>'' @ nl) (oa_addresses a))) =
     concat (map (\<lambda>x. ''    <IPAddress>'' @ address_escape_xml x @ ''</IPAddress>'' @ nl) (ips (oa_addresses a)))"
    by (simp add: ips_def address_escape_esc esc_words)
  then show ?thesis
    using ne by (simp add: address_to_xml_def address_node_def render_ips text_element_def render_attrs_def esc_blank
        address_escape_esc esc_digits esc_words)
qed

definition plain_text :: "string \<Rightarrow> bool" where
  "plain_text s \<longleftrightarrow> s \<noteq> [] \<and> printable s \<and> trim s = s"

lemma plain_text_ok: "plain_text s \<Longrightarrow> text_ok s"
  by (auto simp: plain_text_def text_ok_def printable_def list_all_iff)

lemma digits_plain: "text_ok (show_nat n)" "trim (show_nat n) = show_nat n"
proof -
  have d: "\<forall>c \<in> set (show_nat n). 48 \<le> (of_char c :: nat) \<and> (of_char c :: nat) \<le> 57"
    using show_nat_digits by (auto simp: is_ascii_digit_def Let_def)
  then show "text_ok (show_nat n)" by (fastforce simp: text_ok_def list_all_iff)
  obtain c s where cs: "show_nat n = c # s" by (cases "show_nat n") auto
  obtain e t where et: "rev (show_nat n) = e # t" by (cases "rev (show_nat n)") auto
  then have "e \<in> set (show_nat n)" by (metis list.set_intros(1) set_rev)
  with d cs have "48 \<le> (of_char c :: nat)" "(of_char c :: nat) \<le> 57" "48 \<le> (of_char e :: nat)" "(of_char e :: nat) \<le> 57"
    by auto
  then have "ws_start (c # s) = 0" "ws_end_rev (e # t) = 0"
    by (auto simp: ws_start_def ws_end_rev_def ws1_def ws2_def ws3_def Let_def split: list.splits)
  then show "trim (show_nat n) = show_nat n" unfolding trim_eq_iff cs [symmetric] et [symmetric] by simp
qed

lemma blank_text_ok: "text_ok nl" "text_ok (nl @ ''  '')" "text_ok (nl @ ''    '')" "text_ok ''True''"
  by (simp_all add: text_ok_def nl_def)

lemma wf_ips:
  assumes "list_all plain_text xs"
  shows "list_all wf_xml (ip_nodes xs) \<and> no_adjacent_text (ip_nodes xs)"
  using assms
proof (induction xs rule: ip_nodes.induct)
  case (3 x y xs)
  then show ?case
    by (cases xs) (auto simp: text_element_def plain_text_ok xml_name_check blank_text_ok)
qed (auto simp: text_element_def plain_text_ok xml_name_check blank_text_ok)

lemma ips_plain: "list_all plain_text addrs \<Longrightarrow> list_all plain_text (ips addrs)"
  by (simp add: ips_def plain_text_def printable_def trim_eq_iff ws_start_def ws_end_rev_def ws1_def ws2_def ws3_def)

lemma address_node_wf:
  assumes "plain_text (instance_name a)" "list_all plain_text (oa_addresses a)"
  shows "wf_xml (address_node a)"
  using assms wf_ips [OF ips_plain [OF assms(2)]]
  by (auto simp: address_node_def text_element_def xml_name_check plain_text_ok digits_plain blank_text_ok)

lemma from_node_ips:
  "list_all plain_text xs \<Longrightarrow>
     map from_node (filter is_element (ip_nodes xs)) = map (\<lambda>x. XmlElement ''IPAddress'' [] [] x) xs"
  by (induction xs rule: ip_nodes.induct) (auto simp: text_element_def plain_text_def)

lemma parse_address:
  assumes "reads_xml rox" "plain_text (instance_name a)" "list_all plain_text (oa_addresses a)"
  shows "parse_metadata rox (address_to_xml a) =
     [MAddress (instance_name a) (oa_port a) (oa_removed a) (ips (oa_addresses a))]"
proof -
  have is_el: "is_element (address_node a)" by (simp add: address_node_def)
  have ipn: "map from_node (filter is_element (ip_nodes (ips (oa_addresses a)))) =
      map (\<lambda>x. XmlElement ''IPAddress'' [] [] x) (ips (oa_addresses a))"
    by (rule from_node_ips [OF ips_plain [OF assms(3)]])
  have named: "filter (\<lambda>c. xe_name c = ''IPAddress'') (map (\<lambda>x. XmlElement ''IPAddress'' [] [] x) xs) =
      map (\<lambda>x. XmlElement ''IPAddress'' [] [] x) xs"
    "filter (\<lambda>c. xe_name c = ''Address'') (map (\<lambda>x. XmlElement ''IPAddress'' [] [] x) xs) = []" for xs
    by (induction xs) simp_all
  have "trim (instance_name a) = instance_name a" "instance_name a \<noteq> []" "trim ''True'' = ''True''"
    using assms(2) by (simp_all add: plain_text_def trim_eq_iff ws_start_def ws_end_rev_def ws1_def ws2_def ws3_def)
  then have "element_to_metadata (from_node (address_node a)) =
      MAddress (instance_name a) (oa_port a) (oa_removed a) (ips (oa_addresses a))"
    by (cases "oa_removed a")
       (simp_all add: address_node_def text_element_def element_to_metadata_def address_element_def xe_child_text_def
        xe_child_def xe_children_named_def unwrap_or_def digits_plain ipn named comp_def)
  with parse_rendered [OF assms(1) is_el address_node_wf [OF assms(2,3)], of False] show ?thesis
    by (simp add: address_xml_render flatten_single)
qed

section \<open>Properties\<close>

text \<open>the 63-byte cap on instance names. When the machine name leaves room, a name that survives is within
  the cap; the call panics exactly when the full name is over the cap and the cut falls inside a UTF-8
  character of the source name.\<close>

theorem limit_name_length_cap:
  assumes "oa_machine_name a = [] \<or> length (oa_machine_name a) + 3 < MAX_INSTANCE_NAME_LENGTH"
  shows "case limit_name_length a of
      Some b \<Rightarrow> length (instance_name b) \<le> MAX_INSTANCE_NAME_LENGTH \<and> oa_machine_name b = oa_machine_name a
    | None \<Rightarrow> MAX_INSTANCE_NAME_LENGTH < length (instance_name a) \<and>
        \<not> is_char_boundary (oa_name a)
          (length (oa_name a) - (length (instance_name a) - MAX_INSTANCE_NAME_LENGTH))"
proof (cases "limit_name_length a")
  case None
  then show ?thesis by (auto simp: limit_name_length_def Let_def split: if_splits)
next
  case (Some b)
  moreover have "oa_machine_name b = oa_machine_name a"
    using Some by (auto simp: limit_name_length_def Let_def split: if_splits)
  ultimately show ?thesis using limit_cap [OF Some assms] by simp
qed

theorem limit_name_length_cap_witness:
  "(let a = \<lparr>oa_name = replicate 60 CHR ''x'' @ [char_of (0xC3 :: nat), char_of (0xA9 :: nat)] @ replicate 9 CHR ''y'',
      oa_machine_name = [], oa_port = 1, oa_addresses = [], oa_removed = False\<rparr> in
    case limit_name_length a of
      Some b \<Rightarrow> length (instance_name b) \<le> MAX_INSTANCE_NAME_LENGTH \<and> oa_machine_name b = oa_machine_name a
    | None \<Rightarrow> MAX_INSTANCE_NAME_LENGTH < length (instance_name a) \<and>
        \<not> is_char_boundary (oa_name a)
          (length (oa_name a) - (length (instance_name a) - MAX_INSTANCE_NAME_LENGTH)))"
  unfolding Let_def by (rule limit_name_length_cap) simp

text \<open>names round trip: the instance name \<open>MACHINE (Source)\<close> of a canonical address is split back into the
  machine and source names, also when the source name has parentheses of its own.\<close>

theorem instance_name_roundtrip:
  assumes "canonical a"
  shows "from_full_name (instance_name a) (oa_port a) = Some (a\<lparr>oa_addresses := [], oa_removed := False\<rparr>)"
  using from_instance_name [OF assms, of "oa_port a"] by simp

text \<open>A camera on a host, used by the witnesses.\<close>

definition sample_address :: omt_address where
  "sample_address = \<lparr>oa_name = ''Cam (1) & co'', oa_machine_name = ''HOST'', oa_port = 6400,
     oa_addresses = [''10.0.0.5'', ''fe80::1''], oa_removed = False\<rparr>"

lemma sample_address_canonical: "canonical sample_address"
  by (simp add: canonical_def clean_name_def sample_address_def instance_name_def MAX_INSTANCE_NAME_LENGTH_def
      trim_eq_iff ws_start_def ws_end_rev_def ws1_def ws2_def ws3_def)

theorem instance_name_roundtrip_witness:
  "canonical sample_address \<and>
   from_full_name ''HOST (Cam (1) & co)'' 6400 = Some (sample_address\<lparr>oa_addresses := [], oa_removed := False\<rparr>)"
proof -
  have "instance_name sample_address = ''HOST (Cam (1) & co)''" "oa_port sample_address = 6400"
    by (simp_all add: instance_name_def sample_address_def)
  with instance_name_roundtrip [OF sample_address_canonical] sample_address_canonical show ?thesis by simp
qed

text \<open>URLs round trip: an address with one host, a clean source name and, unless the host has no colon, a
  port, is written as a URL that reads back as the same address.\<close>

theorem url_roundtrip:
  assumes "oa_machine_name a = []" "oa_addresses a = [host]" "\<not> oa_removed a"
    and "host \<noteq> []" "CHR ''/'' \<notin> set host" "oa_port a \<noteq> 0 \<or> CHR '':'' \<notin> set host"
    and "clean_name (oa_name a)" "length (oa_name a) \<le> MAX_INSTANCE_NAME_LENGTH"
  shows "from_url (to_url a) = Some (Inr a)"
proof -
  let ?hp = "if oa_port a = 0 then host else host @ CHR '':'' # show_nat (unat (oa_port a))"
  have colon: "CHR '':'' \<notin> set (show_nat n)" "CHR ''/'' \<notin> set (show_nat n)" for n
    using show_nat_digits [of _ n] not_digit by blast+
  have url: "to_url a = URL_PREFIX @ ?hp @ CHR ''/'' # oa_name a" using assms(1,2) by (simp add: to_url_def)
  have "split_once (CHR ''/'') (?hp @ CHR ''/'' # oa_name a) = Some (?hp, oa_name a)"
    using assms(5) colon(2) by (intro split_once_append) auto
  moreover have "url_host_port ?hp = Inr (host, oa_port a)"
  proof (cases "oa_port a = 0")
    case True
    with assms(6) have "rsplit_once (CHR '':'') host = None" by (simp add: rsplit_once_def char_rfind_None)
    with True show ?thesis by (simp add: url_host_port_def)
  next
    case False
    have "rsplit_once (CHR '':'') (host @ CHR '':'' # show_nat (unat (oa_port a))) = Some (host, show_nat (unat (oa_port a)))"
      by (rule rsplit_once_append [OF colon(1)])
    with False assms(4) show ?thesis by (simp add: url_host_port_def)
  qed
  moreover have "limit_name_length a = Some a"
    using assms(1,8) by (intro limit_short) (simp add: instance_name_def)
  moreover have "\<lparr>oa_name = oa_name a, oa_machine_name = [], oa_port = oa_port a, oa_addresses = [host], oa_removed = False\<rparr> = a"
    using assms(1-3) by (cases a) simp
  ultimately show ?thesis
    using assms(7) sanitize_clean [OF assms(7)]
    unfolding from_url_def url by (simp add: Let_def clean_name_def)
qed

theorem url_roundtrip_witness:
  "from_url (to_url \<lparr>oa_name = ''HOST (Cam)'', oa_machine_name = [], oa_port = 6400, oa_addresses = [''fe80::1''],
     oa_removed = False\<rparr>) =
   Some (Inr \<lparr>oa_name = ''HOST (Cam)'', oa_machine_name = [], oa_port = 6400, oa_addresses = [''fe80::1''],
     oa_removed = False\<rparr>)"
  by (rule url_roundtrip [where host = "''fe80::1''"])
     (simp_all add: clean_name_def MAX_INSTANCE_NAME_LENGTH_def trim_eq_iff ws_start_def ws_end_rev_def ws1_def ws2_def ws3_def)

text \<open>the discovery document round trips: registration and removal documents of a canonical address with
  plain text read back as that address; an empty address list reads back as \<open>0.0.0.0\<close>.\<close>

theorem address_xml_roundtrip:
  assumes "reads_xml rox" "canonical a" "plain_text (instance_name a)" "list_all plain_text (oa_addresses a)"
  shows "address_from_xml rox (address_to_xml a) = Some (Inr (a\<lparr>oa_addresses := ips (oa_addresses a)\<rparr>))"
proof -
  have "instance_name a \<noteq> []" using assms(3) by (simp add: plain_text_def)
  then show ?thesis
    using parse_address [OF assms(1,3,4)] from_instance_name [OF assms(2), of "oa_port a"]
    by (cases a) (simp add: address_from_xml_def)
qed

theorem address_xml_roundtrip_witness:
  "address_from_xml ref_xml (address_to_xml (sample_address\<lparr>oa_removed := True, oa_addresses := []\<rparr>)) =
     Some (Inr (sample_address\<lparr>oa_removed := True, oa_addresses := [''0.0.0.0'']\<rparr>))"
proof -
  let ?a = "sample_address\<lparr>oa_removed := True, oa_addresses := []\<rparr>"
  have "canonical ?a" using sample_address_canonical by (simp add: canonical_def length_instance_name split: if_splits)
  moreover have "plain_text (instance_name ?a)"
    by (simp add: plain_text_def printable_def instance_name_def sample_address_def trim_eq_iff ws_start_def
        ws_end_rev_def ws1_def ws2_def ws3_def)
  ultimately show ?thesis using address_xml_roundtrip [OF ref_xml_reads, of ?a] by (simp add: ips_def)
qed

end
