(* ===== verification/Registry.thy ===== *)
theory Registry
  imports Prelude
begin

text \<open>
  The interface of a registry of values with keys, as the discovery server keeps one of entries and every
  discovery client one of sources. \<open>upd\<close> puts a value under its key (an implementation may keep the value
  already there), \<open>del\<close> removes a key, \<open>look\<close> reads. The locale's lemmas say which keys are present after
  any history of updates and removals: for each key the last operation on it decides.
\<close>

locale keyed_registry =
  fixes inv :: "'s \<Rightarrow> bool"
    and key :: "'v \<Rightarrow> 'k"
    and look :: "'s \<Rightarrow> 'k \<Rightarrow> 'v option"
    and upd :: "'v \<Rightarrow> 's \<Rightarrow> 's"
    and del :: "'k \<Rightarrow> 's \<Rightarrow> 's"
  assumes inv_upd: "inv s \<Longrightarrow> inv (upd v s)"
    and inv_del: "inv s \<Longrightarrow> inv (del k s)"
    and look_upd_other: "inv s \<Longrightarrow> k \<noteq> key v \<Longrightarrow> look (upd v s) k = look s k"
    and look_upd_key: "inv s \<Longrightarrow> look (upd v s) (key v) \<noteq> None"
    and look_del: "inv s \<Longrightarrow> look (del k s) k' = (if k' = k then None else look s k')"
begin

definition apply_op :: "'v + 'k \<Rightarrow> 's \<Rightarrow> 's" where
  "apply_op opn s = (case opn of Inl v \<Rightarrow> upd v s | Inr k \<Rightarrow> del k s)"

definition present :: "'s \<Rightarrow> 'k set" where
  "present s = {k. look s k \<noteq> None}"

definition track :: "'v + 'k \<Rightarrow> 'k set \<Rightarrow> 'k set" where
  "track opn D = (case opn of Inl v \<Rightarrow> insert (key v) D | Inr k \<Rightarrow> D - {k})"

lemma inv_apply: "inv s \<Longrightarrow> inv (apply_op opn s)"
  by (simp add: apply_op_def inv_upd inv_del split: sum.split)

lemma inv_run: "inv s \<Longrightarrow> inv (fold apply_op ops s)"
  by (induction ops arbitrary: s) (simp_all add: inv_apply)

lemma present_apply:
  assumes "inv s"
  shows "present (apply_op opn s) = track opn (present s)"
proof (cases opn)
  case (Inl v)
  have "look (upd v s) k \<noteq> None \<longleftrightarrow> k = key v \<or> look s k \<noteq> None" for k
    using look_upd_other [OF assms, of k v] look_upd_key [OF assms, of v] by (cases "k = key v") auto
  with Inl show ?thesis by (auto simp: present_def apply_op_def track_def)
next
  case (Inr k)
  with assms show ?thesis by (auto simp: present_def apply_op_def track_def look_del split: if_splits)
qed

lemma present_run: "inv s \<Longrightarrow> present (fold apply_op ops s) = fold track ops (present s)"
  by (induction ops arbitrary: s) (simp_all add: inv_apply present_apply)

text \<open>A key is present exactly when the last operation on it was an update.\<close>

lemma present_snoc:
  "inv s \<Longrightarrow> k \<in> present (fold apply_op (ops @ [opn]) s) \<longleftrightarrow>
     (case opn of Inl v \<Rightarrow> k = key v \<or> k \<in> present (fold apply_op ops s)
      | Inr k' \<Rightarrow> k \<noteq> k' \<and> k \<in> present (fold apply_op ops s))"
  by (auto simp: present_apply inv_run track_def split: sum.split)

end

end
