(* ===== verification/State_Machine.thy ===== *)
theory State_Machine
  imports Prelude
begin

text \<open>
  The interface of a component seen as a state machine: initial states, a step relation and an invariant that
  the initial states have and every step keeps. The locale proves once that every reachable state has the
  invariant; the discovery server, the sender and the receiver are interpretations.
\<close>

locale state_machine =
  fixes init :: "'s \<Rightarrow> bool"
    and step :: "'s \<Rightarrow> 's \<Rightarrow> bool"
    and inv :: "'s \<Rightarrow> bool"
  assumes init_inv: "init s \<Longrightarrow> inv s"
    and step_inv: "step s s' \<Longrightarrow> inv s \<Longrightarrow> inv s'"
begin

lemma steps_inv: "step\<^sup>*\<^sup>* s s' \<Longrightarrow> inv s \<Longrightarrow> inv s'"
  by (induction rule: rtranclp_induct) (auto intro: step_inv)

lemma reachable_inv: "init s \<Longrightarrow> step\<^sup>*\<^sup>* s s' \<Longrightarrow> inv s'"
  using steps_inv init_inv by blast

text \<open>A step relation that only makes steps of the machine inherits the invariant.\<close>

lemma substeps_inv: "(\<And>s s'. inv s \<Longrightarrow> r s s' \<Longrightarrow> step\<^sup>*\<^sup>* s s') \<Longrightarrow> r\<^sup>*\<^sup>* s s' \<Longrightarrow> inv s \<Longrightarrow> inv s'"
  by (rotate_tac 1, induction rule: rtranclp_induct) (auto intro: steps_inv)

end

end
