(* ===== verification/Discovery_Server.thy ===== *)
theory Discovery_Server
  imports Channel Address Registry State_Machine
begin

text \<open>
  The discovery server (\<open>src/discovery/server.rs\<close>): the registry shared by the accept thread and the peer
  threads, with one definition per critical section. A critical section gives the new registry, the
  messages its thread sends after it has released the lock, and the events it emits; the handlers of
  the source are the critical section followed by the sends. A \<open>SocketAddr\<close> is its textual IP with port
  and scope; the peers' \<open>HashMap\<close> is the list of its keys in any order, which is immaterial because every
  peer has its own stream. The handle that starts and stops the server is a second state machine; the blocking
  server at the end runs the same accept loop on the calling thread.
\<close>

section \<open>Definitions\<close>

record socket_addr =
  sa_ip :: string
  sa_port :: u16
  sa_scope :: u32

definition default_bind_addr :: "u16 \<Rightarrow> socket_addr" where
  "default_bind_addr port = \<lparr>sa_ip = ''::'', sa_port = port, sa_scope = 0\<rparr>"

record entry =
  e_address :: omt_address
  e_owner :: socket_addr

record shared =
  sh_entries :: "entry list"
  sh_peers :: "socket_addr list"
  sh_peer_threads :: "socket_addr list"
  sh_bound :: "socket_addr option"

definition shared_new :: shared where
  "shared_new = \<lparr>sh_entries = [], sh_peers = [], sh_peer_threads = [], sh_bound = None\<rparr>"

text \<open>\<open>is_finished\<close> of the thread handles is given from outside.\<close>

definition reap_peers :: "(socket_addr \<Rightarrow> bool) \<Rightarrow> shared \<Rightarrow> shared" where
  "reap_peers finished g = g\<lparr>sh_peer_threads := filter (\<lambda>t. \<not> finished t) (sh_peer_threads g)\<rparr>"

record snapshot =
  sn_bind :: "socket_addr option"
  sn_running :: bool
  sn_peers :: "socket_addr list"
  sn_sources :: "omt_address list"

definition peer_count :: "snapshot \<Rightarrow> nat" where
  "peer_count s = length (sn_peers s)"

datatype server_event =
  Started socket_addr
  | ClientConnected socket_addr
  | ClientDisconnected socket_addr
  | SourceRegistered omt_address socket_addr
  | SourceRemoved omt_address socket_addr
  | ServerError string
  | Stopped

definition take_snapshot :: "shared \<Rightarrow> bool \<Rightarrow> socket_addr option \<Rightarrow> snapshot" where
  "take_snapshot g running bind =
     \<lparr>sn_bind = (case bind of Some b \<Rightarrow> Some b | None \<Rightarrow> sh_bound g), sn_running = running, sn_peers = sh_peers g,
      sn_sources = map e_address (sh_entries g)\<rparr>"

subsection \<open>Critical sections\<close>

type_synonym key = "string \<times> u16"
type_synonym message = "socket_addr \<times> omt_address"

definition key_of :: "omt_address \<Rightarrow> key" where
  "key_of a = (instance_name a, oa_port a)"

definition to_all :: "socket_addr list \<Rightarrow> omt_address \<Rightarrow> message list" where
  "to_all peers a = map (\<lambda>p. (p, a)) peers"

text \<open>\<open>HashMap::insert\<close> and \<open>remove\<close> on the keys.\<close>

definition peers_insert :: "socket_addr \<Rightarrow> socket_addr list \<Rightarrow> socket_addr list" where
  "peers_insert p ps = (if p \<in> set ps then ps else p # ps)"

definition peers_remove :: "socket_addr \<Rightarrow> socket_addr list \<Rightarrow> socket_addr list" where
  "peers_remove p ps = filter (\<lambda>q. q \<noteq> p) ps"

definition accept_locked :: "(socket_addr \<Rightarrow> bool) \<Rightarrow> socket_addr \<Rightarrow> shared \<Rightarrow> shared \<times> message list" where
  "accept_locked finished peer g0 =
     (let g = reap_peers finished g0 in
      (g\<lparr>sh_peers := peers_insert peer (sh_peers g)\<rparr>, map (\<lambda>e. (peer, e_address e)) (sh_entries g)))"

fun remove_first :: "('a \<Rightarrow> bool) \<Rightarrow> 'a list \<Rightarrow> 'a list" where
  "remove_first P [] = []"
| "remove_first P (x # xs) = (if P x then xs else x # remove_first P xs)"

definition handle_locked :: "socket_addr \<Rightarrow> omt_address \<Rightarrow> shared \<Rightarrow> shared \<times> message list \<times> server_event list" where
  "handle_locked peer addr g =
     (let existing = find (\<lambda>e. key_of (e_address e) = key_of addr) (sh_entries g) in
      if oa_removed addr then
        (case existing of
           Some e \<Rightarrow>
             let removed = (e_address e)\<lparr>oa_removed := True\<rparr> in
             (g\<lparr>sh_entries := remove_first (\<lambda>e. key_of (e_address e) = key_of addr) (sh_entries g)\<rparr>,
              to_all (sh_peers g) removed, [SourceRemoved removed peer])
         | None \<Rightarrow> (g, [], []))
      else if existing = None then
        let addr' = addr\<lparr>oa_addresses := [sa_ip peer]\<rparr> in
        (g\<lparr>sh_entries := sh_entries g @ [\<lparr>e_address = addr', e_owner = peer\<rparr>]\<rparr>,
         to_all (sh_peers g) addr', [SourceRegistered addr' peer])
      else (g, [], []))"

definition disconnect_locked :: "socket_addr \<Rightarrow> shared \<Rightarrow> shared \<times> message list \<times> server_event list" where
  "disconnect_locked peer g =
     (let removed = map (\<lambda>e. (e_address e)\<lparr>oa_removed := True\<rparr>) (filter (\<lambda>e. e_owner e = peer) (sh_entries g));
          peers = peers_remove peer (sh_peers g) in
      (g\<lparr>sh_entries := filter (\<lambda>e. e_owner e \<noteq> peer) (sh_entries g), sh_peers := peers\<rparr>,
       concat (map (to_all peers) removed),
       map (\<lambda>a. SourceRemoved a peer) removed @ [ClientDisconnected peer]))"

subsection \<open>Handlers\<close>

text \<open>The server with what it has sent on each peer's stream since the peer connected.\<close>

record server =
  sv_shared :: shared
  sv_events :: "server_event list"
  sv_wire :: "socket_addr \<Rightarrow> omt_address list"

definition deliver :: "message \<Rightarrow> (socket_addr \<Rightarrow> omt_address list) \<Rightarrow> (socket_addr \<Rightarrow> omt_address list)" where
  "deliver m wire = wire(fst m := wire (fst m) @ [snd m])"

definition server_emit :: "server_event \<Rightarrow> server \<Rightarrow> server" where
  "server_emit event sv = sv\<lparr>sv_events := sv_events sv @ [event]\<rparr>"

text \<open>\<open>clone_ok\<close> says whether \<open>try_clone\<close> of the stream succeeded; the registry is unchanged by a failure
  except for the reaped thread handles.\<close>

definition accept_peer :: "(socket_addr \<Rightarrow> bool) \<Rightarrow> bool \<Rightarrow> socket_addr \<Rightarrow> server \<Rightarrow> unit result \<times> server" where
  "accept_peer finished clone_ok peer sv =
     (if \<not> clone_ok then
        (Inl (Io OtherIo ''try_clone''), sv\<lparr>sv_shared := reap_peers finished (sv_shared sv)\<rparr>)
      else
        case accept_locked finished peer (sv_shared sv) of (g, msgs) \<Rightarrow>
          (Inr (), sv\<lparr>sv_shared := g\<lparr>sh_peer_threads := sh_peer_threads g @ [peer]\<rparr>,
                     sv_wire := fold deliver msgs ((sv_wire sv)(peer := [])),
                     sv_events := sv_events sv @ [ClientConnected peer]\<rparr>))"

definition handle_address :: "socket_addr \<Rightarrow> omt_address \<Rightarrow> server \<Rightarrow> server" where
  "handle_address peer addr sv =
     (case handle_locked peer addr (sv_shared sv) of (g, msgs, evs) \<Rightarrow>
        sv\<lparr>sv_shared := g, sv_wire := fold deliver msgs (sv_wire sv), sv_events := sv_events sv @ evs\<rparr>)"

definition disconnect_peer :: "socket_addr \<Rightarrow> server \<Rightarrow> server" where
  "disconnect_peer peer sv =
     (case disconnect_locked peer (sv_shared sv) of (g, msgs, evs) \<Rightarrow>
        sv\<lparr>sv_shared := g, sv_wire := fold deliver msgs (sv_wire sv), sv_events := sv_events sv @ evs\<rparr>)"

definition metadata_xml_from_frame :: "assembled_frame \<Rightarrow> string result" where
  "metadata_xml_from_frame frame =
     (if af_metadata frame \<noteq> [] then decode_metadata_xml (af_metadata frame) else decode_metadata_xml (af_data frame))"

definition address_frame :: "omt_address \<Rightarrow> assembled_frame" where
  "address_frame addr =
     (let data = encode_metadata_xml (address_to_xml addr) in
      \<lparr>af_header = \<lparr>fh_version = PROTOCOL_VERSION, fh_frame_type = FT_METADATA, fh_timestamp = 0,
          fh_metadata_length = 0, fh_data_length = word_of_nat (length data)\<rparr>,
       af_video = None, af_audio = None, af_data = data, af_metadata = []\<rparr>)"

definition address_frame_bytes :: "omt_address \<Rightarrow> bytes" where
  "address_frame_bytes addr = assembled_to_bytes (address_frame addr)"

definition send_address_to :: "omt_address \<Rightarrow> write_result list \<Rightarrow> unit result \<times> bytes \<times> write_result list" where
  "send_address_to addr ws = write_all (address_frame_bytes addr) ws"

text \<open>What one frame from a peer does; \<open>None\<close> is a panic of the name handling.\<close>

definition peer_frame :: "rox \<Rightarrow> socket_addr \<Rightarrow> assembled_frame \<Rightarrow> server \<Rightarrow> server option" where
  "peer_frame rox peer frame sv =
     (case metadata_xml_from_frame frame of
        Inl _ \<Rightarrow> Some sv
      | Inr xml \<Rightarrow>
          (case address_from_xml rox xml of
             None \<Rightarrow> None
           | Some (Inl _) \<Rightarrow> Some sv
           | Some (Inr addr) \<Rightarrow> Some (handle_address peer addr sv)))"

text \<open>The loop of a peer thread. Each iteration reads the stop flag and lets the other threads run (\<open>env\<close>)
  before the frame is handled; the list bounds the iterations, \<open>None\<close> is a panic.\<close>

fun peer_loop :: "rox \<Rightarrow> socket_addr \<Rightarrow> (bool \<times> (server \<Rightarrow> server)) list \<Rightarrow> channel \<Rightarrow> reader \<Rightarrow> server \<Rightarrow> server option" where
  "peer_loop rox peer [] ch rd sv = Some sv"
| "peer_loop rox peer ((stop, env) # its) ch rd sv =
     (if stop then Some (disconnect_peer peer (env sv))
      else case recv_frame ch rd of
        (Inr (Some frame), ch', rd') \<Rightarrow>
          (case peer_frame rox peer frame (env sv) of
             None \<Rightarrow> None
           | Some sv' \<Rightarrow> peer_loop rox peer its ch' rd' sv')
      | (Inr None, ch', rd') \<Rightarrow> Some (disconnect_peer peer (env sv))
      | (Inl (Io k m), ch', rd') \<Rightarrow>
          if k = WouldBlock \<or> k = TimedOut then peer_loop rox peer its ch' rd' (env sv)
          else Some (disconnect_peer peer (env sv))
      | (Inl e, ch', rd') \<Rightarrow> Some (disconnect_peer peer (env sv)))"

datatype accept_result = Accepted socket_addr bool | AcceptErr io_kind string

fun accept_loop :: "(bool \<times> (server \<Rightarrow> server) \<times> (socket_addr \<Rightarrow> bool) \<times> accept_result) list \<Rightarrow> server \<Rightarrow>
    unit result option \<times> server" where
  "accept_loop [] sv = (None, sv)"
| "accept_loop ((stop, env, finished, r) # its) sv =
     (if stop then (Some (Inr ()), env sv)
      else case r of
        Accepted peer clone_ok \<Rightarrow>
          (case accept_peer finished clone_ok peer (env sv) of
             (Inr _, sv') \<Rightarrow> accept_loop its sv'
           | (Inl e, sv') \<Rightarrow> accept_loop its (server_emit (ServerError (error_display (\<lambda>_. []) e)) sv'))
      | AcceptErr k m \<Rightarrow>
          if k = WouldBlock then accept_loop its (env sv) else (Some (Inl (Io k m)), env sv))"

fun try_recv_metadata :: "nat \<Rightarrow> channel \<Rightarrow> reader \<Rightarrow> string option result \<times> channel \<times> reader" where
  "try_recv_metadata 0 ch rd = (Inl (Io TimedOut ''metadata receive timed out''), ch, rd)"
| "try_recv_metadata (Suc n) ch rd =
     (case recv_frame ch rd of
        (Inr (Some frame), ch', rd') \<Rightarrow> (map_sum id Some (metadata_xml_from_frame frame), ch', rd')
      | (Inr None, ch', rd') \<Rightarrow> (Inr None, ch', rd')
      | (Inl (Io k m), ch', rd') \<Rightarrow>
          if k = WouldBlock \<or> k = TimedOut then try_recv_metadata n ch' rd' else (Inl (Io k m), ch', rd')
      | (Inl e, ch', rd') \<Rightarrow> (Inl e, ch', rd'))"

subsection \<open>Starting and stopping\<close>

text \<open>The handle: the flags, the bind address, the shared registry with the event queue, and the accept thread,
  which is serving, has ended with a result, or has panicked.\<close>

datatype accept_thread = Serving | Ended "unit result" | ThreadPanicked

record server_handle =
  hd_bind :: socket_addr
  hd_stop :: bool
  hd_running :: bool
  hd_server :: server
  hd_thread :: "accept_thread option"

definition handle_with_bind :: "socket_addr \<Rightarrow> server_handle" where
  "handle_with_bind bind = \<lparr>hd_bind = bind, hd_stop = False, hd_running = False,
     hd_server = \<lparr>sv_shared = shared_new, sv_events = [], sv_wire = (\<lambda>_. [])\<rparr>, hd_thread = None\<rparr>"

definition handle_with_port :: "u16 \<Rightarrow> server_handle" where
  "handle_with_port port = handle_with_bind (default_bind_addr port)"

definition handle_new :: server_handle where
  "handle_new = handle_with_bind (default_bind_addr DISCOVERY_SERVER_DEFAULT_PORT)"

definition handle_is_running :: "server_handle \<Rightarrow> bool" where
  "handle_is_running h = hd_running h"

definition handle_set_bind :: "socket_addr \<Rightarrow> server_handle \<Rightarrow> unit result \<times> server_handle" where
  "handle_set_bind bind h =
     (if handle_is_running h then
        (Inl (Discovery ''cannot change bind address while the discovery server is running''), h)
      else (Inr (), h\<lparr>hd_bind := bind\<rparr>))"

definition thread_result :: "accept_thread \<Rightarrow> unit result" where
  "thread_result t = (case t of Ended r \<Rightarrow> r | _ \<Rightarrow> Inl (Discovery ''discovery server thread panicked''))"

definition reap_accept_thread :: "server_handle \<Rightarrow> unit result \<times> server_handle" where
  "reap_accept_thread h =
     (case hd_thread h of
        None \<Rightarrow> (Inr (), h)
      | Some Serving \<Rightarrow> (Inl (Discovery ''discovery server is already running''), h)
      | Some t \<Rightarrow> (thread_result t, h\<lparr>hd_thread := None\<rparr>))"

text \<open>\<open>listen_at\<close> is the outcome of binding: the actual local address.\<close>

definition handle_start :: "(socket_addr \<Rightarrow> socket_addr result) \<Rightarrow> server_handle \<Rightarrow> unit result \<times> server_handle" where
  "handle_start listen_at h0 =
     (case reap_accept_thread h0 of
        (Inl e, h) \<Rightarrow> (Inl e, h)
      | (Inr _, h) \<Rightarrow>
          (case listen_at (hd_bind h) of
             Inl e \<Rightarrow> (Inl e, h)
           | Inr actual \<Rightarrow>
               (Inr (), h\<lparr>hd_bind := actual, hd_stop := False, hd_running := True, hd_thread := Some Serving\<rparr>)))"

definition handle_stop :: "server_handle \<Rightarrow> server_handle" where
  "handle_stop h = h\<lparr>hd_stop := True\<rparr>"

text \<open>\<open>join\<close> waits for the accept thread; \<open>wait\<close> is what the thread has made of the handle by then.\<close>

definition handle_join :: "(server_handle \<Rightarrow> server_handle) \<Rightarrow> server_handle \<Rightarrow> unit result \<times> server_handle" where
  "handle_join wait h0 =
     (let h = handle_stop h0 in
      case hd_thread h of
        None \<Rightarrow> (Inr (), h)
      | Some _ \<Rightarrow>
          let h' = wait h in
          (case hd_thread h' of Some t \<Rightarrow> thread_result t | None \<Rightarrow> Inr (), h'\<lparr>hd_thread := None\<rparr>))"

definition handle_bind :: "server_handle \<Rightarrow> socket_addr" where "handle_bind h = hd_bind h"

definition handle_snapshot :: "server_handle \<Rightarrow> snapshot" where
  "handle_snapshot h =
     take_snapshot (sv_shared (hd_server h)) (hd_running h) (if hd_running h then Some (hd_bind h) else None)"

definition poll_event :: "server_handle \<Rightarrow> server_event option \<times> server_handle" where
  "poll_event h =
     (case sv_events (hd_server h) of
        [] \<Rightarrow> (None, h)
      | e # es \<Rightarrow> (Some e, h\<lparr>hd_server := (hd_server h)\<lparr>sv_events := es\<rparr>\<rparr>))"

function drain_events :: "server_handle \<Rightarrow> server_event list \<times> server_handle" where
  "drain_events h =
     (case poll_event h of
        (None, h') \<Rightarrow> ([], h')
      | (Some e, h') \<Rightarrow> (case drain_events h' of (es, h'') \<Rightarrow> (e # es, h'')))"
  by pat_completeness auto
termination
  by (relation "measure (\<lambda>h. length (sv_events (hd_server h)))") (auto simp: poll_event_def split: list.splits)

declare drain_events.simps [simp del]

text \<open>The accept thread: \<open>serve_listener\<close> before and after its accept loop, and the end of the thread. \<open>nonblocking\<close> is
  the outcome of \<open>set_nonblocking\<close>; when it fails nothing else is done.\<close>

definition serve_begin :: "socket_addr option \<Rightarrow> server \<Rightarrow> server" where
  "serve_begin bound sv =
     (let sv' = sv\<lparr>sv_shared := (sv_shared sv)\<lparr>sh_bound := bound, sh_entries := [], sh_peers := []\<rparr>\<rparr> in
      case bound of Some bind \<Rightarrow> server_emit (Started bind) sv' | None \<Rightarrow> sv')"

definition join_peers :: "server \<Rightarrow> server" where
  "join_peers sv = sv\<lparr>sv_shared := (sv_shared sv)\<lparr>sh_peer_threads := []\<rparr>\<rparr>"

definition serve_end :: "server \<Rightarrow> server" where
  "serve_end sv =
     (let sv' = join_peers sv in
      sv'\<lparr>sv_shared := (sv_shared sv')\<lparr>sh_entries := [], sh_peers := [], sh_bound := None\<rparr>\<rparr>)"

definition serve_listener :: "unit result \<Rightarrow> socket_addr option \<Rightarrow> (bool \<times> (server \<Rightarrow> server) \<times> (socket_addr \<Rightarrow> bool) \<times> accept_result) list \<Rightarrow>
    server \<Rightarrow> unit result option \<times> server" where
  "serve_listener nonblocking bound its sv =
     (case nonblocking of
        Inl e \<Rightarrow> (Some (Inl e), sv)
      | Inr _ \<Rightarrow>
          (case accept_loop its (serve_begin bound sv) of
             (None, sv') \<Rightarrow> (None, sv')
           | (Some r, sv') \<Rightarrow> (Some r, serve_end sv')))"

definition accept_thread_run :: "unit result \<Rightarrow> (bool \<times> (server \<Rightarrow> server) \<times> (socket_addr \<Rightarrow> bool) \<times> accept_result) list \<Rightarrow>
    server_handle \<Rightarrow> server_handle" where
  "accept_thread_run nonblocking its h =
     (case serve_listener nonblocking (Some (hd_bind h)) its (hd_server h) of
        (None, sv) \<Rightarrow> h\<lparr>hd_server := sv\<rparr>
      | (Some r, sv) \<Rightarrow>
          let sv' = (case r of Inl e \<Rightarrow> server_emit (ServerError (error_display (\<lambda>_. []) e)) sv | Inr _ \<Rightarrow> sv) in
          h\<lparr>hd_stop := (case nonblocking of Inl _ \<Rightarrow> hd_stop h | Inr _ \<Rightarrow> True), hd_running := False, hd_server := server_emit Stopped sv', hd_thread := Some (Ended r)\<rparr>)"

section \<open>The entries are a registry\<close>

definition entry_key :: "entry \<Rightarrow> key" where
  "entry_key e = key_of (e_address e)"

definition entries_look :: "entry list \<Rightarrow> key \<Rightarrow> entry option" where
  "entries_look es k = find (\<lambda>e. entry_key e = k) es"

definition entries_upd :: "entry \<Rightarrow> entry list \<Rightarrow> entry list" where
  "entries_upd e es = (if entries_look es (entry_key e) = None then es @ [e] else es)"

definition entries_del :: "key \<Rightarrow> entry list \<Rightarrow> entry list" where
  "entries_del k es = remove_first (\<lambda>e. entry_key e = k) es"

definition distinct_keys :: "entry list \<Rightarrow> bool" where
  "distinct_keys es \<longleftrightarrow> distinct (map entry_key es)"

lemma set_remove_first: "set (remove_first P xs) \<subseteq> set xs"
  by (induction xs) auto

lemma find_append: "find P (xs @ ys) = (case find P xs of None \<Rightarrow> find P ys | Some x \<Rightarrow> Some x)"
  by (induction xs) auto

lemma find_None_iff': "find P xs = None \<longleftrightarrow> (\<forall>x \<in> set xs. \<not> P x)"
  by (auto simp: find_None_iff)

lemma entries_look_None: "entries_look es k = None \<longleftrightarrow> k \<notin> entry_key ` set es"
  by (auto simp: entries_look_def find_None_iff')

lemma distinct_keys_remove: "distinct_keys es \<Longrightarrow> distinct_keys (remove_first P es)"
proof (induction es)
  case (Cons e es)
  then show ?case using set_remove_first [of P es] by (auto simp: distinct_keys_def)
qed simp

lemma look_remove_first:
  "distinct_keys es \<Longrightarrow> entries_look (entries_del k es) k' = (if k' = k then None else entries_look es k')"
proof (induction es)
  case Nil
  then show ?case by (simp add: entries_look_def entries_del_def)
next
  case (Cons e es)
  then have "\<forall>x \<in> set es. entry_key x \<noteq> entry_key e" "distinct_keys es"
    by (simp_all add: distinct_keys_def) (metis imageI)
  with Cons.IH show ?case
    by (auto simp: entries_del_def entries_look_def find_None_iff')
qed

interpretation srv: keyed_registry distinct_keys entry_key entries_look entries_upd entries_del
proof
  fix s v k k'
  assume inv: "distinct_keys s"
  show "distinct_keys (entries_upd v s)"
    using inv by (auto simp: entries_upd_def distinct_keys_def entries_look_None)
  show "distinct_keys (entries_del k s)" using inv by (simp add: entries_del_def distinct_keys_remove)
  show "entries_look (entries_upd v s) k = entries_look s k" if "k \<noteq> entry_key v"
    using that by (simp add: entries_upd_def entries_look_def find_append split: option.split)
  show "entries_look (entries_upd v s) (entry_key v) \<noteq> None"
    by (auto simp: entries_upd_def entries_look_None)
  show "entries_look (entries_del k s) k' = (if k' = k then None else entries_look s k')"
    using inv by (rule look_remove_first)
qed

lemma entry_key_simp [simp]: "entry_key \<lparr>e_address = a, e_owner = p\<rparr> = key_of a"
  by (simp add: entry_key_def)

lemma key_of_update [simp]: "key_of (a\<lparr>oa_addresses := xs\<rparr>) = key_of a" "key_of (a\<lparr>oa_removed := b\<rparr>) = key_of a"
  by (simp_all add: key_of_def instance_name_def)

text \<open>The critical section of \<open>handle_address\<close> in terms of the registry.\<close>

lemma handle_locked_remove:
  "oa_removed addr \<Longrightarrow> handle_locked peer addr g =
     (case entries_look (sh_entries g) (key_of addr) of
        Some e \<Rightarrow> (g\<lparr>sh_entries := entries_del (key_of addr) (sh_entries g)\<rparr>,
           to_all (sh_peers g) ((e_address e)\<lparr>oa_removed := True\<rparr>), [SourceRemoved ((e_address e)\<lparr>oa_removed := True\<rparr>) peer])
      | None \<Rightarrow> (g, [], []))"
  by (simp add: handle_locked_def entries_look_def entries_del_def entry_key_def Let_def split: option.split)

lemma handle_locked_add:
  "\<not> oa_removed addr \<Longrightarrow> handle_locked peer addr g =
     (if entries_look (sh_entries g) (key_of addr) = None then
        (g\<lparr>sh_entries := entries_upd \<lparr>e_address = addr\<lparr>oa_addresses := [sa_ip peer]\<rparr>, e_owner = peer\<rparr> (sh_entries g)\<rparr>,
         to_all (sh_peers g) (addr\<lparr>oa_addresses := [sa_ip peer]\<rparr>),
         [SourceRegistered (addr\<lparr>oa_addresses := [sa_ip peer]\<rparr>) peer])
      else (g, [], []))"
  by (simp add: handle_locked_def entries_look_def entries_upd_def entry_key_def Let_def)

section \<open>The server as a state machine\<close>

text \<open>Every interleaving of accepts, address documents from connected peers and disconnects. A peer that
  is connected cannot connect again, since its socket address is in use.\<close>

inductive server_step :: "server \<Rightarrow> server \<Rightarrow> bool" where
  accept: "peer \<notin> set (sh_peers (sv_shared sv)) \<Longrightarrow> accept_peer finished clone_ok peer sv = (r, sv') \<Longrightarrow> server_step sv sv'"
| address: "peer \<in> set (sh_peers (sv_shared sv)) \<Longrightarrow> server_step sv (handle_address peer addr sv)"
| disconnect: "peer \<in> set (sh_peers (sv_shared sv)) \<Longrightarrow> server_step sv (disconnect_peer peer sv)"

definition server_init :: server where
  "server_init = \<lparr>sv_shared = shared_new, sv_events = [], sv_wire = (\<lambda>_. [])\<rparr>"

definition entry_ok :: "socket_addr list \<Rightarrow> entry \<Rightarrow> bool" where
  "entry_ok peers e \<longleftrightarrow> \<not> oa_removed (e_address e) \<and> oa_addresses (e_address e) = [sa_ip (e_owner e)] \<and> e_owner e \<in> set peers"

definition shared_ok :: "shared \<Rightarrow> bool" where
  "shared_ok g \<longleftrightarrow> distinct_keys (sh_entries g) \<and> distinct (sh_peers g) \<and> (\<forall>e \<in> set (sh_entries g). entry_ok (sh_peers g) e)"

lemma shared_ok_handle:
  assumes ok: "shared_ok g" and peer: "peer \<in> set (sh_peers g)" and h: "handle_locked peer addr g = (g', msgs, evs)"
  shows "shared_ok g' \<and> sh_peers g' = sh_peers g"
proof (cases "oa_removed addr")
  case True
  then show ?thesis
    using ok h set_remove_first by (fastforce simp: handle_locked_remove shared_ok_def entries_del_def distinct_keys_remove split: option.splits)
next
  case False
  let ?e = "\<lparr>e_address = addr\<lparr>oa_addresses := [sa_ip peer]\<rparr>, e_owner = peer\<rparr>"
  have "distinct_keys (entries_upd ?e (sh_entries g))" using ok srv.inv_upd by (simp add: shared_ok_def)
  moreover have "set (entries_upd ?e (sh_entries g)) \<subseteq> insert ?e (set (sh_entries g))" by (auto simp: entries_upd_def)
  ultimately show ?thesis using False ok peer h
    by (auto simp: handle_locked_add shared_ok_def entry_ok_def split: if_splits)
qed

lemma shared_ok_disconnect:
  "shared_ok g \<Longrightarrow> disconnect_locked peer g = (g', msgs, evs) \<Longrightarrow> shared_ok g'"
  by (auto simp: disconnect_locked_def Let_def shared_ok_def peers_remove_def entry_ok_def distinct_keys_def
      distinct_map_filter)

lemma shared_ok_accept:
  "shared_ok g \<Longrightarrow> accept_locked finished peer g = (g', msgs) \<Longrightarrow> shared_ok g'"
  by (auto simp: accept_locked_def reap_peers_def Let_def shared_ok_def peers_insert_def entry_ok_def)

lemma server_step_ok:
  assumes "server_step sv sv'" "shared_ok (sv_shared sv)"
  shows "shared_ok (sv_shared sv')"
  using assms
proof cases
  case (accept peer finished clone_ok r)
  then show ?thesis
    using assms(2) shared_ok_accept [OF assms(2), of finished peer]
    by (auto simp: accept_peer_def shared_ok_def reap_peers_def split: if_splits prod.splits)
next
  case (address peer addr)
  then show ?thesis using shared_ok_handle [OF assms(2), of peer addr] by (auto simp: handle_address_def split: prod.splits)
next
  case (disconnect peer)
  then show ?thesis using shared_ok_disconnect [OF assms(2), of peer] by (auto simp: disconnect_peer_def split: prod.splits)
qed

interpretation srv_machine: state_machine "\<lambda>sv. sv = server_init" server_step "\<lambda>sv. shared_ok (sv_shared sv)"
proof unfold_locales
  fix sv sv' :: server
  show "sv = server_init \<Longrightarrow> shared_ok (sv_shared sv)"
    by (simp add: server_init_def shared_new_def shared_ok_def distinct_keys_def)
  show "server_step sv sv' \<Longrightarrow> shared_ok (sv_shared sv) \<Longrightarrow> shared_ok (sv_shared sv')" by (rule server_step_ok)
qed

lemmas server_reachable_ok = srv_machine.reachable_inv [OF refl]

section \<open>Properties\<close>

definition sample_peer :: socket_addr where
  "sample_peer = \<lparr>sa_ip = ''10.0.0.9'', sa_port = 50000, sa_scope = 0\<rparr>"

lemma sample_reachable:
  "server_step\<^sup>*\<^sup>* server_init (handle_address sample_peer sample_address (snd (accept_peer (\<lambda>_. False) True sample_peer server_init)))"
proof -
  let ?s1 = "snd (accept_peer (\<lambda>_. False) True sample_peer server_init)"
  have "server_step server_init ?s1"
    by (rule server_step.accept [where peer = sample_peer and finished = "\<lambda>_. False" and clone_ok = True])
       (simp_all add: server_init_def shared_new_def prod_eq_iff)
  moreover have "server_step ?s1 (handle_address sample_peer sample_address ?s1)"
    by (rule server_step.address) (simp add: accept_peer_def accept_locked_def peers_insert_def reap_peers_def Let_def server_init_def shared_new_def)
  ultimately show ?thesis by (meson converse_rtranclp_into_rtranclp rtranclp.rtrancl_refl)
qed

text \<open>C14: in every reachable state of the server, whatever its peers send and in whatever order they come and
  go, no two entries have the same name and port, no entry is marked removed, every entry advertises
  exactly the address its owner connected from, and its owner is connected.\<close>

theorem server_registry_invariant:
  assumes "server_step\<^sup>*\<^sup>* server_init sv"
  shows "distinct (map (\<lambda>e. key_of (e_address e)) (sh_entries (sv_shared sv))) \<and>
     distinct (sh_peers (sv_shared sv)) \<and>
     (\<forall>e \<in> set (sh_entries (sv_shared sv)). \<not> oa_removed (e_address e) \<and>
        oa_addresses (e_address e) = [sa_ip (e_owner e)] \<and> e_owner e \<in> set (sh_peers (sv_shared sv)))"
  using server_reachable_ok [OF assms] by (simp add: shared_ok_def entry_ok_def distinct_keys_def entry_key_def [abs_def])

theorem server_registry_invariant_witness:
  "let sv = handle_address sample_peer sample_address (snd (accept_peer (\<lambda>_. False) True sample_peer server_init)) in
   sh_entries (sv_shared sv) = [\<lparr>e_address = sample_address\<lparr>oa_addresses := [''10.0.0.9'']\<rparr>, e_owner = sample_peer\<rparr>] \<and>
   distinct (sh_peers (sv_shared sv))"
  using server_registry_invariant [OF sample_reachable]
  by (simp add: Let_def handle_address_def handle_locked_def accept_peer_def accept_locked_def peers_insert_def reap_peers_def
      server_init_def shared_new_def sample_address_def sample_peer_def)

lemma entries_look_owner:
  assumes "distinct_keys es"
  shows "entries_look (filter (\<lambda>e. e_owner e \<noteq> p) es) k =
     (case entries_look es k of Some e \<Rightarrow> if e_owner e = p then None else Some e | None \<Rightarrow> None)"
  using assms
proof (induction es)
  case (Cons e es)
  then have "\<forall>x \<in> set es. entry_key x \<noteq> entry_key e" "distinct_keys es"
    by (simp_all add: distinct_keys_def) (metis imageI)
  moreover from this(1) have "find (\<lambda>x. entry_key x = entry_key e) es = None" by (simp add: find_None_iff')
  ultimately show ?case using Cons.IH by (auto simp: entries_look_def)
qed (simp add: entries_look_def)


lemma sample_entries:
  "sh_entries (sv_shared (handle_address sample_peer sample_address (snd (accept_peer (\<lambda>_. False) True sample_peer server_init)))) =
     [\<lparr>e_address = sample_address\<lparr>oa_addresses := [''10.0.0.9'']\<rparr>, e_owner = sample_peer\<rparr>]"
  by (simp add: Let_def handle_address_def handle_locked_def accept_peer_def accept_locked_def peers_insert_def reap_peers_def
      server_init_def shared_new_def sample_address_def sample_peer_def)


lemma drain_all: "drain_events h = (sv_events (hd_server h), h\<lparr>hd_server := (hd_server h)\<lparr>sv_events := []\<rparr>\<rparr>)"
proof (induction "sv_events (hd_server h)" arbitrary: h)
  case Nil
  then show ?case by (subst drain_events.simps) (simp add: poll_event_def)
next
  case (Cons e es)
  then show ?case by (subst drain_events.simps) (auto simp: poll_event_def split: list.split)
qed

text \<open>the life of a server handle. Once started, a second start and a change of the bind address are refused
  and change nothing. When the accept loop ends, with or without an error, the server is not running, has
  neither peers nor sources, its last event is \<open>Stopped\<close>, draining the queue returns every event in order
  and \<open>join\<close> returns the loop's result.\<close>

theorem handle_lifecycle:
  assumes "handle_start listen_at h = (Inr (), h1)"
    and "fst (serve_listener (Inr ()) (Some (hd_bind h1)) its (hd_server h1)) = Some r"
    and "h2 = accept_thread_run (Inr ()) its h1"
  shows "handle_start listen_at' h1 = (Inl (Discovery ''discovery server is already running''), h1) \<and>
     handle_set_bind b h1 = (Inl (Discovery ''cannot change bind address while the discovery server is running''), h1) \<and>
     sn_running (handle_snapshot h1) \<and> \<not> sn_running (handle_snapshot h2) \<and>
     sn_sources (handle_snapshot h2) = [] \<and> peer_count (handle_snapshot h2) = 0 \<and>
     last (fst (drain_events h2)) = Stopped \<and> fst (handle_join id h2) = r"
proof -
  from assms(1) have h1: "hd_thread h1 = Some Serving" "hd_running h1"
    by (auto simp: handle_start_def split: prod.splits sum.splits)
  obtain sv where sv: "accept_loop its (serve_begin (Some (hd_bind h1)) (hd_server h1)) = (Some r, sv)"
    using assms(2) by (auto simp: serve_listener_def split: prod.splits option.splits)
  have h2: "hd_running h2 = False" "hd_thread h2 = Some (Ended r)" "sh_entries (sv_shared (hd_server h2)) = []"
    "sh_peers (sv_shared (hd_server h2)) = []" "last (sv_events (hd_server h2)) = Stopped"
    by (simp_all add: assms(3) accept_thread_run_def serve_listener_def sv Let_def serve_end_def server_emit_def
        split: sum.split)
  show ?thesis
    using h1 h2
    by (simp add: handle_start_def reap_accept_thread_def handle_set_bind_def handle_is_running_def handle_snapshot_def
        take_snapshot_def peer_count_def drain_all handle_join_def handle_stop_def thread_result_def)
qed

theorem handle_lifecycle_witness:
  "let h1 = snd (handle_start Inr handle_new);
       h2 = accept_thread_run (Inr ()) [(False, id, \<lambda>_. False, Accepted sample_peer True), (True, id, \<lambda>_. False, AcceptErr OtherIo [])] h1 in
   sn_running (handle_snapshot h1) \<and> sn_sources (handle_snapshot h2) = [] \<and> last (fst (drain_events h2)) = Stopped"
proof -
  let ?its = "[(False, id, \<lambda>_. False, Accepted sample_peer True), (True, id, \<lambda>_. False, AcceptErr OtherIo [])]"
  let ?h1 = "snd (handle_start Inr handle_new)"
  have start: "handle_start Inr handle_new = (Inr (), ?h1)"
    by (simp add: handle_start_def reap_accept_thread_def handle_new_def handle_with_bind_def)
  have "fst (serve_listener (Inr ()) (Some (hd_bind ?h1)) ?its (hd_server ?h1)) = Some (Inr ())"
    by (simp add: serve_listener_def accept_peer_def split: prod.split)
  from handle_lifecycle [OF start this refl] show ?thesis by (simp add: Let_def)
qed

section \<open>The blocking server\<close>

record blocking_server =
  bs_port :: u16
  bs_bind :: socket_addr
  bs_stop :: bool

definition blocking_with_bind :: "socket_addr \<Rightarrow> blocking_server" where
  "blocking_with_bind bind = \<lparr>bs_port = sa_port bind, bs_bind = bind, bs_stop = False\<rparr>"

definition blocking_with_port :: "u16 \<Rightarrow> blocking_server" where
  "blocking_with_port port = blocking_with_bind (default_bind_addr port)"

definition blocking_new :: blocking_server where
  "blocking_new = blocking_with_port DISCOVERY_SERVER_DEFAULT_PORT"

definition blocking_stop :: "blocking_server \<Rightarrow> blocking_server" where
  "blocking_stop b = b\<lparr>bs_stop := True\<rparr>"

text \<open>The server is new at every run and dropped at its end, with its events. The stop flag is cleared at the
  start, read by every iteration of the accept loop (the first component of an iteration), and set at the end;
  \<open>None\<close>: still serving.\<close>

definition run_with_listener :: "unit result \<Rightarrow> socket_addr option \<Rightarrow> (bool \<times> (server \<Rightarrow> server) \<times> (socket_addr \<Rightarrow> bool) \<times> accept_result) list \<Rightarrow>
    blocking_server \<Rightarrow> unit result option \<times> blocking_server" where
  "run_with_listener nonblocking bound its b =
     (case serve_listener nonblocking bound its server_init of
        (None, _) \<Rightarrow> (None, b\<lparr>bs_stop := False\<rparr>)
      | (Some r, _) \<Rightarrow> (Some r, b\<lparr>bs_stop := (nonblocking = Inr ())\<rparr>))"

definition blocking_run :: "unit result \<Rightarrow> (socket_addr \<Rightarrow> socket_addr option result) \<Rightarrow>
    (bool \<times> (server \<Rightarrow> server) \<times> (socket_addr \<Rightarrow> bool) \<times> accept_result) list \<Rightarrow> blocking_server \<Rightarrow> unit result option \<times> blocking_server" where
  "blocking_run nonblocking listen_at its b =
     (case listen_at (bs_bind b) of
        Inl e \<Rightarrow> (Some (Inl e), b)
      | Inr bound \<Rightarrow> run_with_listener nonblocking bound its b)"

text \<open>A request to stop made before the server runs is forgotten; made while it runs, the accept loop ends without
  an error, and the server can run again.\<close>

lemma stop_before_run: "blocking_run nb listen_at its (blocking_stop b) = blocking_run nb listen_at its b \<or>
    (\<exists>e. listen_at (bs_bind b) = Inl e)"
  by (auto simp: blocking_run_def run_with_listener_def blocking_stop_def split: sum.splits prod.splits option.splits)

lemma accept_loop_stopped: "fst (accept_loop ((True, env) # its) sv) = Some (Inr ())"
  by (cases env) simp

lemma run_until_stopped:
  assumes "listen_at (bs_bind b) = Inr bound"
  shows "blocking_run (Inr ()) listen_at ((True, env) # its) b = (Some (Inr ()), blocking_stop b)"
  using assms accept_loop_stopped [of env its "serve_begin bound server_init"]
  by (auto simp: blocking_run_def run_with_listener_def serve_listener_def blocking_stop_def split: prod.splits)

end
