(* ===== verification/Discovery_Client.thy ===== *)
theory Discovery_Client
  imports Discovery_Server "HOL-Library.List_Lexorder" "HOL-Library.Char_ord"
begin

text \<open>
  The discovery client (\<open>src/discovery/client.rs\<close>): connection settings, registration messages and the
  worker that keeps the list of sources the server has announced. Strings are ordered by their bytes,
  as in Rust. The list is the second instance of the registry interface; the lemmas show that, when
  each handler's messages go out before the next critical section, every connected client holds
  exactly the server's entries, and exhibit the interleaving in which it does not.
\<close>

section \<open>Definitions\<close>

record discovery_client =
  dc_host :: string
  dc_port :: u16
  dc_connected :: bool
  dc_sources :: "omt_address list"
  dc_stop :: bool

definition client_new :: "string \<Rightarrow> discovery_client" where
  "client_new host = \<lparr>dc_host = host, dc_port = DISCOVERY_SERVER_DEFAULT_PORT, dc_connected = False, dc_sources = [],
     dc_stop = False\<rparr>"

definition parse_server_url :: "string \<Rightarrow> (string \<times> u16) result" where
  "parse_server_url url =
     (let rest0 = (case strip_prefix URL_PREFIX url of Some r \<Rightarrow> r | None \<Rightarrow> url);
          rest = takeWhile (\<lambda>c. c \<noteq> CHR ''/'') rest0 in
      case rsplit_once (CHR '':'') rest of
        Some (host, port) \<Rightarrow>
          (case parse_u16 port of
             Some p \<Rightarrow> Inr (host, p)
           | None \<Rightarrow> Inl (InvalidArgument (''invalid discovery server port: '' @ port)))
      | None \<Rightarrow> Inr (rest, DISCOVERY_SERVER_DEFAULT_PORT))"

text \<open>Name resolution and the TCP connection are outside: \<open>resolve\<close> gives the addresses, \<open>dial\<close> the outcome.\<close>

definition resolve_one :: "(string \<Rightarrow> u16 \<Rightarrow> socket_addr list result) \<Rightarrow> string \<Rightarrow> u16 \<Rightarrow> socket_addr result" where
  "resolve_one resolve host port =
     (case resolve host port of
        Inl e \<Rightarrow> Inl e
      | Inr [] \<Rightarrow> Inl (Discovery (''could not resolve '' @ host @ '':'' @ show_nat (unat port)))
      | Inr (a # _) \<Rightarrow> Inr a)"

definition client_connect :: "(string \<Rightarrow> u16 \<Rightarrow> socket_addr list result) \<Rightarrow> (socket_addr \<Rightarrow> unit result) \<Rightarrow>
    discovery_client \<Rightarrow> unit result \<times> discovery_client" where
  "client_connect resolve dial c =
     (case resolve_one resolve (dc_host c) (dc_port c) of
        Inl e \<Rightarrow> (Inl e, c)
      | Inr addr \<Rightarrow>
          (case dial addr of
             Inl e \<Rightarrow> (Inl e, c)
           | Inr _ \<Rightarrow> (Inr (), c\<lparr>dc_connected := True, dc_stop := False\<rparr>)))"

definition connect_url :: "(string \<Rightarrow> u16 \<Rightarrow> socket_addr list result) \<Rightarrow> (socket_addr \<Rightarrow> unit result) \<Rightarrow> string \<Rightarrow>
    discovery_client result" where
  "connect_url resolve dial url =
     (case parse_server_url url of
        Inl e \<Rightarrow> Inl e
      | Inr (host, port) \<Rightarrow>
          (case client_connect resolve dial ((client_new host)\<lparr>dc_port := port\<rparr>) of
             (Inl e, _) \<Rightarrow> Inl e
           | (Inr _, c) \<Rightarrow> Inr c))"

definition sources_del :: "key \<Rightarrow> omt_address list \<Rightarrow> omt_address list" where
  "sources_del k g = filter (\<lambda>a. key_of a \<noteq> k) g"

definition sources_upd :: "omt_address \<Rightarrow> omt_address list \<Rightarrow> omt_address list" where
  "sources_upd addr g = sort_key instance_name (sources_del (key_of addr) g @ [addr])"

text \<open>What the worker does with one announced address.\<close>

definition client_apply :: "omt_address \<Rightarrow> omt_address list \<Rightarrow> omt_address list" where
  "client_apply addr g = (if oa_removed addr then sources_del (key_of addr) g else sources_upd addr g)"

text \<open>The worker: each iteration reads the stop flag and polls for at most \<open>n\<close> reads; the outer \<open>None\<close> is a
  panic of the name handling.\<close>

fun client_worker :: "rox \<Rightarrow> (bool \<times> nat) list \<Rightarrow> channel \<Rightarrow> reader \<Rightarrow> omt_address list \<Rightarrow> omt_address list option" where
  "client_worker rox [] ch rd g = Some g"
| "client_worker rox ((stop, n) # its) ch rd g =
     (if stop then Some g
      else case try_recv_metadata n ch rd of
        (Inr (Some xml), ch', rd') \<Rightarrow>
          (case address_from_xml rox xml of
             None \<Rightarrow> None
           | Some (Inl _) \<Rightarrow> client_worker rox its ch' rd' g
           | Some (Inr addr) \<Rightarrow> client_worker rox its ch' rd' (client_apply addr g))
      | (Inr None, ch', rd') \<Rightarrow> Some g
      | (Inl _, ch', rd') \<Rightarrow> client_worker rox its ch' rd' g)"

definition send_address :: "omt_address \<Rightarrow> write_result list \<Rightarrow> discovery_client \<Rightarrow> unit result \<times> bytes \<times> write_result list" where
  "send_address address ws c =
     (if dc_connected c then write_all (address_frame_bytes address) ws
      else (Inl (Discovery ''discovery client not connected''), [], ws))"

definition client_register :: "omt_address \<Rightarrow> write_result list \<Rightarrow> discovery_client \<Rightarrow> unit result \<times> bytes \<times> write_result list" where
  "client_register address ws c = send_address address ws c"

definition client_deregister :: "omt_address \<Rightarrow> write_result list \<Rightarrow> discovery_client \<Rightarrow> unit result \<times> bytes \<times> write_result list" where
  "client_deregister address ws c = send_address (address\<lparr>oa_removed := True\<rparr>) ws c"

text \<open>Dropping a client stops its worker and waits for it; \<open>others\<close> is what the worker still does.\<close>

definition drop_client :: "(discovery_client \<Rightarrow> discovery_client) \<Rightarrow> discovery_client \<Rightarrow> discovery_client" where
  "drop_client others c = others (c\<lparr>dc_stop := True\<rparr>)"

definition client_sources :: "discovery_client \<Rightarrow> omt_address list" where
  "client_sources c = dc_sources c"

section \<open>The sources are a registry\<close>

definition sources_look :: "omt_address list \<Rightarrow> key \<Rightarrow> omt_address option" where
  "sources_look g k = find (\<lambda>a. key_of a = k) g"

definition distinct_sources :: "omt_address list \<Rightarrow> bool" where
  "distinct_sources g \<longleftrightarrow> distinct (map key_of g)"

lemma look_Some_iff:
  "distinct_sources g \<Longrightarrow> sources_look g k = Some a \<longleftrightarrow> a \<in> set g \<and> key_of a = k"
proof (induction g)
  case (Cons b g)
  then have "distinct_sources g" "\<forall>x \<in> set g. key_of x \<noteq> key_of b"
    by (simp_all add: distinct_sources_def) (metis imageI)
  with Cons.IH show ?case by (auto simp: sources_look_def)
qed (simp add: sources_look_def)

lemma look_None_iff: "sources_look g k = None \<longleftrightarrow> (\<forall>a \<in> set g. key_of a \<noteq> k)"
  by (auto simp: sources_look_def find_None_iff')

lemma distinct_sources_sort: "distinct_sources (sort_key f g) \<longleftrightarrow> distinct_sources g"
  by (simp add: distinct_sources_def distinct_map)

lemma distinct_sources_upd: "distinct_sources g \<Longrightarrow> distinct_sources (sources_upd a g)"
  by (auto simp: sources_upd_def distinct_sources_sort) (auto simp: distinct_sources_def sources_del_def distinct_map_filter)

lemma distinct_sources_del: "distinct_sources g \<Longrightarrow> distinct_sources (sources_del k g)"
  by (simp add: distinct_sources_def sources_del_def distinct_map_filter)

lemma set_sources_upd: "set (sources_upd a g) = insert a {b \<in> set g. key_of b \<noteq> key_of a}"
  by (auto simp: sources_upd_def sources_del_def)

lemma sources_look_upd:
  assumes "distinct_sources g"
  shows "sources_look (sources_upd a g) k = (if k = key_of a then Some a else sources_look g k)"
proof -
  have "sources_look (sources_upd a g) k = Some b \<longleftrightarrow> (if k = key_of a then Some a else sources_look g k) = Some b" for b
    using look_Some_iff [OF distinct_sources_upd [OF assms]] look_Some_iff [OF assms]
    by (auto simp: set_sources_upd)
  then show ?thesis by (metis not_None_eq option.exhaust)
qed

lemma sources_look_del:
  "sources_look (sources_del k g) k' = (if k' = k then None else sources_look g k')"
  unfolding sources_look_def sources_del_def by (induction g) auto

interpretation cli: keyed_registry distinct_sources key_of sources_look sources_upd sources_del
  by unfold_locales (simp_all add: distinct_sources_upd distinct_sources_del sources_look_upd sources_look_del)

section \<open>Clients follow the server\<close>

definition client_view :: "server \<Rightarrow> socket_addr \<Rightarrow> omt_address list" where
  "client_view sv p = fold client_apply (sv_wire sv p) []"

lemma deliver_one_peer: "fold deliver (map (\<lambda>e. (p, f e)) es) wire = wire(p := wire p @ map f es)"
  by (induction es arbitrary: wire) (auto simp: deliver_def fun_eq_iff)

lemma deliver_to_all:
  "distinct peers \<Longrightarrow> fold deliver (to_all peers a) wire p = (if p \<in> set peers then wire p @ [a] else wire p)"
  by (induction peers arbitrary: wire) (auto simp: to_all_def deliver_def)

lemma deliver_concat:
  "distinct peers \<Longrightarrow> fold deliver (concat (map (to_all peers) as)) wire p = (if p \<in> set peers then wire p @ as else wire p)"
  by (induction as arbitrary: wire) (auto simp: deliver_to_all)

lemma view_distinct: "distinct_sources (fold client_apply as g)" if "distinct_sources g"
  using that by (induction as arbitrary: g) (auto simp: client_apply_def distinct_sources_upd distinct_sources_del)

text \<open>The keys and addresses a client holds are those of the server's entries.\<close>

definition agrees :: "entry list \<Rightarrow> omt_address list \<Rightarrow> bool" where
  "agrees es g \<longleftrightarrow> (\<forall>k. sources_look g k = map_option e_address (entries_look es k))"

lemma distinct_sources_Nil: "distinct_sources []"
  by (simp add: distinct_sources_def)

lemma agrees_snapshot:
  assumes "distinct_keys es" "\<forall>e \<in> set es. \<not> oa_removed (e_address e)"
  shows "agrees es (fold client_apply (map e_address es) [])"
  using assms
proof (induction es rule: rev_induct)
  case Nil
  show ?case by (simp add: agrees_def sources_look_def entries_look_def)
next
  case (snoc e es)
  define v where "v = fold client_apply (map e_address es) []"
  from snoc have ag: "agrees es v" by (simp add: distinct_keys_def v_def)
  have none: "entries_look es (entry_key e) = None"
    using snoc.prems(1) by (auto simp: distinct_keys_def entries_look_None)
  have d: "distinct_sources v" by (simp add: v_def view_distinct distinct_sources_Nil)
  have "fold client_apply (map e_address (es @ [e])) [] = sources_upd (e_address e) v"
    using snoc.prems(2) by (simp add: v_def client_apply_def [of "e_address e"])
  moreover have "agrees (es @ [e]) (sources_upd (e_address e) v)"
    using ag none by (auto simp: agrees_def sources_look_upd [OF d] entries_look_def find_append entry_key_def split: option.split)
  ultimately show ?case by simp
qed

lemma agrees_handle:
  assumes h: "handle_locked peer addr g = (g', msgs, evs)" and ok: "shared_ok g" and d: "distinct_sources v"
    and ag: "agrees (sh_entries g) v"
  obtains "msgs = []" "agrees (sh_entries g') v" | a where "msgs = to_all (sh_peers g) a" "agrees (sh_entries g') (client_apply a v)"
proof (cases "oa_removed addr")
  case True
  show ?thesis
  proof (cases "entries_look (sh_entries g) (key_of addr)")
    case None
    with True h ag that(1) show ?thesis by (simp add: handle_locked_remove)
  next
    case (Some e)
    let ?a = "(e_address e)\<lparr>oa_removed := True\<rparr>"
    have k: "key_of ?a = key_of addr" using Some by (auto simp: entries_look_def find_Some_iff entry_key_def)
    have "distinct_keys (sh_entries g)" using ok by (simp add: shared_ok_def)
    with Some True h ag k have "msgs = to_all (sh_peers g) ?a" "agrees (sh_entries g') (client_apply ?a v)"
      by (auto simp: handle_locked_remove agrees_def client_apply_def sources_look_del look_remove_first)
    then show ?thesis by (rule that(2))
  qed
next
  case False
  show ?thesis
  proof (cases "entries_look (sh_entries g) (key_of addr)")
    case None
    let ?a = "addr\<lparr>oa_addresses := [sa_ip peer]\<rparr>"
    from None False h ag have "msgs = to_all (sh_peers g) ?a" "agrees (sh_entries g') (client_apply ?a v)"
      by (auto simp: handle_locked_add agrees_def client_apply_def sources_look_upd [OF d] entries_upd_def
          entries_look_def find_append split: option.split)
    then show ?thesis by (rule that(2))
  next
    case (Some e)
    with False h ag that(1) show ?thesis by (simp add: handle_locked_add)
  qed
qed

lemma entries_look_Some_iff:
  assumes "distinct_keys es"
  shows "entries_look es k = Some e \<longleftrightarrow> e \<in> set es \<and> entry_key e = k"
  using assms
proof (induction es)
  case (Cons b es)
  then have "distinct_keys es" "\<forall>x \<in> set es. entry_key x \<noteq> entry_key b"
    by (simp_all add: distinct_keys_def) (metis imageI)
  with Cons.IH show ?case by (auto simp: entries_look_def)
qed (simp add: entries_look_def)

lemma entries_look_filter:
  assumes "distinct_keys es"
  shows "entries_look (filter P es) k =
     (if k \<in> entry_key ` set (filter (\<lambda>e. \<not> P e) es) then None else entries_look es k)"
proof -
  have d: "distinct_keys (filter P es)" using assms by (simp add: distinct_keys_def distinct_map_filter)
  have inj: "e = e'" if "e \<in> set es" "e' \<in> set es" "entry_key e = entry_key e'" for e e'
    using assms that by (auto simp: distinct_keys_def distinct_map dest: inj_onD)
  have "entries_look (filter P es) k = Some e \<longleftrightarrow>
      (if k \<in> entry_key ` set (filter (\<lambda>e. \<not> P e) es) then None else entries_look es k) = Some e" for e
    using entries_look_Some_iff [OF d, of k e] entries_look_Some_iff [OF assms, of k e] inj by auto
  then show ?thesis by (metis not_None_eq option.exhaust)
qed

lemma look_removals:
  "\<forall>a \<in> set as. oa_removed a \<Longrightarrow>
     sources_look (fold client_apply as v) k = (if k \<in> key_of ` set as then None else sources_look v k)"
  by (induction as arbitrary: v) (auto simp: client_apply_def sources_look_del)

lemma agrees_disconnect:
  assumes "distinct_keys es" "agrees es v"
  shows "agrees (filter (\<lambda>e. e_owner e \<noteq> p) es)
     (fold client_apply (map (\<lambda>e. (e_address e)\<lparr>oa_removed := True\<rparr>) (filter (\<lambda>e. e_owner e = p) es)) v)"
proof -
  have "key_of ` set (map (\<lambda>e. (e_address e)\<lparr>oa_removed := True\<rparr>) (filter (\<lambda>e. e_owner e = p) es)) =
      entry_key ` set (filter (\<lambda>e. \<not> e_owner e \<noteq> p) es)"
    by (auto simp: entry_key_def image_iff)
  with assms show ?thesis
    by (auto simp: agrees_def look_removals entries_look_filter)
qed

definition in_sync :: "server \<Rightarrow> bool" where
  "in_sync sv \<longleftrightarrow> shared_ok (sv_shared sv) \<and>
     (\<forall>p \<in> set (sh_peers (sv_shared sv)). agrees (sh_entries (sv_shared sv)) (client_view sv p))"

lemma view_is_distinct: "distinct_sources (client_view sv p)"
  by (simp add: client_view_def view_distinct distinct_sources_Nil)

lemma in_sync_accept:
  assumes "in_sync sv" "peer \<notin> set (sh_peers (sv_shared sv))" "accept_peer finished clone_ok peer sv = (r, sv')"
  shows "in_sync sv'"
proof (cases clone_ok)
  case False
  with assms show ?thesis by (auto simp: accept_peer_def in_sync_def shared_ok_def reap_peers_def client_view_def)
next
  case True
  let ?g = "sv_shared sv"
  have ok: "shared_ok ?g" and ents: "\<forall>e \<in> set (sh_entries ?g). \<not> oa_removed (e_address e)" "distinct_keys (sh_entries ?g)"
    using assms(1) by (auto simp: in_sync_def shared_ok_def entry_ok_def)
  from True assms(3) have sv': "sv_shared sv' = ?g\<lparr>sh_peer_threads := filter (\<lambda>t. \<not> finished t) (sh_peer_threads ?g) @ [peer],
      sh_peers := peer # sh_peers ?g\<rparr>" "sv_wire sv' = (sv_wire sv)(peer := map e_address (sh_entries ?g))"
    using assms(2) by (auto simp: accept_peer_def accept_locked_def Let_def reap_peers_def peers_insert_def deliver_one_peer)
  have "agrees (sh_entries ?g) (client_view sv' p)" if "p \<in> set (sh_peers (sv_shared sv'))" for p
  proof (cases "p = peer")
    case True
    then show ?thesis using agrees_snapshot [OF ents(2,1)] by (simp add: client_view_def sv')
  next
    case False
    with that assms(1) show ?thesis by (simp add: in_sync_def client_view_def sv')
  qed
  moreover have "shared_ok (sv_shared sv')"
    using ok assms(2) by (auto simp: sv' shared_ok_def entry_ok_def)
  ultimately show ?thesis by (simp add: in_sync_def sv'(1))
qed

lemma in_sync_address:
  assumes "in_sync sv" "peer \<in> set (sh_peers (sv_shared sv))"
  shows "in_sync (handle_address peer addr sv)"
proof -
  let ?g = "sv_shared sv" and ?sv = "handle_address peer addr sv"
  obtain g' msgs evs where h: "handle_locked peer addr ?g = (g', msgs, evs)" by (metis prod_cases3)
  have ok: "shared_ok ?g" "distinct (sh_peers ?g)" using assms(1) by (auto simp: in_sync_def shared_ok_def)
  have ok': "shared_ok g'" "sh_peers g' = sh_peers ?g" using shared_ok_handle [OF ok(1) assms(2) h] by auto
  have sv: "sv_shared ?sv = g'" "sv_wire ?sv = fold deliver msgs (sv_wire sv)" by (simp_all add: handle_address_def h)
  have "agrees (sh_entries g') (client_view ?sv p)" if p: "p \<in> set (sh_peers ?g)" for p
  proof (rule agrees_handle [OF h ok(1) view_is_distinct])
    show "agrees (sh_entries ?g) (client_view sv p)" using assms(1) p by (simp add: in_sync_def)
  next
    assume "msgs = []" "agrees (sh_entries g') (client_view sv p)"
    then show ?thesis by (simp add: client_view_def sv)
  next
    fix a assume "msgs = to_all (sh_peers ?g) a" "agrees (sh_entries g') (client_apply a (client_view sv p))"
    then show ?thesis using p by (simp add: client_view_def sv deliver_to_all [OF ok(2)])
  qed
  then show ?thesis using ok' by (simp add: in_sync_def sv)
qed

lemma in_sync_disconnect:
  assumes "in_sync sv"
  shows "in_sync (disconnect_peer peer sv)"
proof -
  let ?g = "sv_shared sv" and ?sv = "disconnect_peer peer sv"
  obtain g' msgs evs where h: "disconnect_locked peer ?g = (g', msgs, evs)" by (metis prod_cases3)
  have ok: "shared_ok ?g" using assms by (simp add: in_sync_def)
  have ok': "shared_ok g'" using shared_ok_disconnect [OF ok h] .
  have d: "distinct (peers_remove peer (sh_peers ?g))" "distinct_keys (sh_entries ?g)"
    using ok by (simp_all add: shared_ok_def peers_remove_def)
  have "agrees (sh_entries (sv_shared ?sv)) (client_view ?sv p)" if p: "p \<in> set (sh_peers (sv_shared ?sv))" for p
  proof -
    from p have "p \<in> set (peers_remove peer (sh_peers ?g))" "p \<in> set (sh_peers ?g)"
      by (auto simp: disconnect_peer_def disconnect_locked_def Let_def peers_remove_def)
    moreover from this assms have "agrees (sh_entries ?g) (client_view sv p)" by (simp add: in_sync_def)
    moreover have "sv_wire ?sv p = fold deliver (concat (map (to_all (peers_remove peer (sh_peers ?g)))
        (map (\<lambda>e. (e_address e)\<lparr>oa_removed := True\<rparr>) (filter (\<lambda>e. e_owner e = peer) (sh_entries ?g))))) (sv_wire sv) p"
      by (simp add: disconnect_peer_def disconnect_locked_def Let_def)
    moreover have "sh_entries (sv_shared ?sv) = filter (\<lambda>e. e_owner e \<noteq> peer) (sh_entries ?g)"
      by (simp add: disconnect_peer_def disconnect_locked_def Let_def)
    ultimately show ?thesis
      using agrees_disconnect [OF d(2), of "client_view sv p" peer]
      by (simp add: client_view_def deliver_concat [OF d(1)] del: map_map)
  qed
  moreover have "sv_shared ?sv = g'" by (simp add: disconnect_peer_def h)
  ultimately show ?thesis using ok' by (simp add: in_sync_def)
qed

lemma in_sync_step: "server_step sv sv' \<Longrightarrow> in_sync sv \<Longrightarrow> in_sync sv'"
  by (induction rule: server_step.induct) (blast intro: in_sync_accept in_sync_address in_sync_disconnect)+

lemma in_sync_reachable: "server_step\<^sup>*\<^sup>* server_init sv \<Longrightarrow> in_sync sv"
proof (induction rule: rtranclp_induct)
  case base
  show ?case by (simp add: in_sync_def server_init_def shared_new_def shared_ok_def distinct_keys_def)
qed (rule in_sync_step)

section \<open>An address over the wire\<close>

lemma esc_char_ascii: "(of_char c :: nat) < 128 \<Longrightarrow> c \<noteq> CHR 0x00 \<Longrightarrow> x \<in> set (esc_char c) \<Longrightarrow> (of_char x :: nat) < 128 \<and> x \<noteq> CHR 0x00"
  by (auto simp: esc_char_def split: if_splits)

definition ascii :: "string \<Rightarrow> bool" where
  "ascii s \<longleftrightarrow> (\<forall>c \<in> set s. (of_char c :: nat) < 128 \<and> c \<noteq> CHR 0x00)"

lemma ascii_append [simp]: "ascii (s @ t) \<longleftrightarrow> ascii s \<and> ascii t"
  by (auto simp: ascii_def)

lemma ascii_Cons [simp]: "ascii (c # s) \<longleftrightarrow> (of_char c :: nat) < 128 \<and> c \<noteq> CHR 0x00 \<and> ascii s"
  by (auto simp: ascii_def)

lemma ascii_Nil [simp]: "ascii []"
  by (simp add: ascii_def)

lemma ascii_nl [simp]: "ascii nl"
  by (simp add: nl_def)

lemma ascii_concat: "(\<forall>s \<in> set ss. ascii s) \<Longrightarrow> ascii (concat ss)"
  by (auto simp: ascii_def)

lemma ascii_printable: "printable s \<Longrightarrow> ascii s"
  by (auto simp: ascii_def printable_def list_all_iff)

lemma ascii_esc: "ascii s \<Longrightarrow> ascii (esc q s)"
proof (induction s)
  case (Cons c s)
  have "ascii (esc_char c)" using Cons.prems esc_char_ascii [of c] by (auto simp: ascii_def)
  with Cons show ?case by (simp add: esc_def)
qed (simp add: esc_def)

lemma ascii_show: "ascii (show_nat n)"
  using show_nat_digits by (fastforce simp: ascii_def is_ascii_digit_def Let_def)

lemma ascii_address_xml:
  assumes "plain_text (instance_name a)" "list_all plain_text (oa_addresses a)"
  shows "ascii (address_to_xml a)"
proof -
  have "ascii (concat (map (\<lambda>x. ''    <IPAddress>'' @ address_escape_xml x @ ''</IPAddress>'' @ nl) (oa_addresses a)))"
    using assms(2) by (intro ascii_concat) (auto simp: address_escape_esc ascii_esc ascii_printable plain_text_def list_all_iff)
  moreover have "ascii (address_escape_xml (instance_name a))"
    using assms(1) by (simp add: address_escape_esc ascii_esc ascii_printable plain_text_def)
  ultimately show ?thesis
    unfolding address_to_xml_def by (simp add: ascii_show)
qed

lemma ascii_bytes:
  assumes "ascii s"
  shows "utf8_valid (as_bytes s)" and "0 \<notin> set (as_bytes s)"
proof -
  have b: "u8_of_char c < 0x80 \<and> u8_of_char c \<noteq> 0" if "c \<in> set s" for c
  proof -
    have lt: "(of_char c :: nat) < 128" and nz: "c \<noteq> CHR 0x00" using assms that by (auto simp: ascii_def)
    have u: "unat (u8_of_char c) = of_char c" using lt by (simp add: u8_of_char_def unat_of_nat)
    then have "u8_of_char c < 0x80" using lt by (simp add: word_less_nat_alt)
    moreover have "u8_of_char c \<noteq> u8_of_char (CHR 0x00)" using nz by simp
    ultimately show ?thesis by (simp add: u8_of_char_def)
  qed
  then show "utf8_valid (as_bytes s)" "0 \<notin> set (as_bytes s)"
    by (auto simp: as_bytes_def intro!: utf8_valid_ascii)
qed

lemma address_frame_sendable:
  assumes "length (address_to_xml a) \<le> METADATA_FRAME_SIZE"
  shows "sendable (address_frame a)"
proof -
  have "sint (word_of_nat (length (address_to_xml a)) :: i32) = int (length (address_to_xml a))"
    using assms by (subst sint_of_nat_small) (simp_all add: METADATA_FRAME_SIZE_def)
  then show ?thesis
    using assms by (simp add: sendable_def address_frame_def wf_frame_def Let_def encode_metadata_xml_def ext_bytes_def
        is_valid_frame_type_def max_payload_for_def ft_contains_def ft_defs METADATA_FRAME_SIZE_def)
qed

lemma address_frame_xml:
  assumes "ascii (address_to_xml a)"
  shows "metadata_xml_from_frame (address_frame a) = Inr (address_to_xml a)"
proof -
  have tw: "takeWhile (\<lambda>b. b \<noteq> 0) (as_bytes (address_to_xml a)) = as_bytes (address_to_xml a)"
    using ascii_bytes(2) [OF assms] by (auto simp: takeWhile_eq_all_conv)
  show ?thesis
    using ascii_bytes(1) [OF assms]
    by (simp add: metadata_xml_from_frame_def address_frame_def Let_def decode_metadata_xml_def encode_metadata_xml_def tw)
qed

lemma try_recv_stream:
  assumes "stream_inv NETWORK_RECEIVE_MAX_TRANSFER [f] chunks ch" "length chunks < n"
  shows "\<exists>ch'. try_recv_metadata n ch (map ReadOk chunks) = (map_sum id Some (metadata_xml_from_frame f), ch', [])"
  using assms
proof (induction n arbitrary: chunks ch)
  case (Suc n)
  from Suc.prems(1) show ?case
  proof (cases rule: recv_stream)
    case (frame g fs' chunks' rest)
    then have "chunks' = []" by (cases chunks') (auto simp: stream_inv_def)
    with frame show ?thesis by (simp add: recv_frame_def id_def)
  next
    case (again chunks' rest)
    with Suc.IH [of chunks' "ch\<lparr>ch_buf := rest\<rparr>"] Suc.prems(2) show ?thesis by (simp add: recv_frame_def)
  qed
qed simp

section \<open>Properties\<close>



text \<open>the messages of a handler go out after its lock is released, so the order of two handlers' sends is not
  the order of their critical sections. If a source is removed between the snapshot taken for a new
  client and the sending of that snapshot, the client receives the removal first and keeps the source
  for good, although the server no longer has it.\<close>

theorem snapshot_race:
  assumes "distinct_keys (sh_entries g)" "distinct (sh_peers g)" "p \<notin> set (sh_peers g)"
    and "entries_look (sh_entries g) (key_of addr) = Some e" "oa_removed addr" "\<not> oa_removed (e_address e)"
    and "accept_locked finished p g = (g1, snap)" "handle_locked q addr g1 = (g2, removal, evs)"
    and "wire = fold deliver snap (fold deliver removal (\<lambda>_. []))"
  shows "entries_look (sh_entries g2) (key_of addr) = None \<and>
     sources_look (fold client_apply (wire p) []) (key_of addr) = Some (e_address e)"
proof -
  let ?r = "(e_address e)\<lparr>oa_removed := True\<rparr>"
  from assms(7) have snap: "snap = map (\<lambda>e. (p, e_address e)) (sh_entries g)"
    and g1: "sh_entries g1 = sh_entries g" "sh_peers g1 = peers_insert p (sh_peers g)"
    by (auto simp: accept_locked_def reap_peers_def Let_def)
  from assms(4,5,8) g1 have g2: "sh_entries g2 = entries_del (key_of addr) (sh_entries g)"
    and rem: "removal = to_all (sh_peers g1) ?r" by (auto simp: handle_locked_remove)
  have d: "distinct (sh_peers g1)" "p \<in> set (sh_peers g1)" using assms(2,3) by (auto simp: g1 peers_insert_def)
  have e: "e \<in> set (sh_entries g)" "entry_key e = key_of addr"
    using assms(4) by (auto simp: entries_look_Some_iff [OF assms(1)])
  have wire: "wire p = ?r # map e_address (sh_entries g)"
    by (simp add: assms(9) snap rem deliver_one_peer deliver_to_all [OF d(1)] d(2))
  define v where "v = fold client_apply (map e_address (sh_entries g)) (client_apply ?r [])"
  have "distinct_sources v" by (simp add: v_def view_distinct client_apply_def sources_del_def distinct_sources_Nil)
  have held: "sources_look (fold client_apply (map e_address es) w) (key_of addr) = Some (e_address e)"
    if "e \<in> set es" "\<forall>x \<in> set es. entry_key x = key_of addr \<longrightarrow> x = e" "distinct_sources w" for es w
    using that
  proof (induction es rule: rev_induct)
    case (snoc x es)
    define u where "u = fold client_apply (map e_address es) w"
    have u: "distinct_sources u" by (simp add: u_def view_distinct snoc.prems(3))
    show ?case
    proof (cases "x = e")
      case True
      then show ?thesis using e(2) assms(6) u
        by (simp add: client_apply_def [of "e_address e"] sources_look_upd entry_key_def flip: u_def)
    next
      case False
      with snoc.prems have "key_of (e_address x) \<noteq> key_of addr" "e \<in> set es" by (auto simp: entry_key_def)
      with snoc u have "sources_look u (key_of addr) = Some (e_address e)" by (simp add: u_def)
      with \<open>key_of (e_address x) \<noteq> key_of addr\<close> u show ?thesis
        by (simp add: client_apply_def [of "e_address x"] sources_look_upd sources_look_del flip: u_def)
    qed
  qed simp
  have inj: "inj_on entry_key (set (sh_entries g))" using assms(1) by (simp add: distinct_keys_def distinct_map)
  have "\<forall>x \<in> set (sh_entries g). entry_key x = key_of addr \<longrightarrow> x = e"
    using inj_onD [OF inj _ _ e(1)] e(2) by simp
  then have "sources_look v (key_of addr) = Some (e_address e)"
    unfolding v_def by (intro held e(1)) (simp_all add: client_apply_def sources_del_def distinct_sources_Nil)
  then show ?thesis by (simp add: g2 look_remove_first [OF assms(1)] wire v_def)
qed

theorem snapshot_race_witness:
  "\<exists>g1 g2 snap removal evs.
     accept_locked (\<lambda>_. False) (sample_peer\<lparr>sa_port := 50001\<rparr>)
       \<lparr>sh_entries = [\<lparr>e_address = sample_address, e_owner = sample_peer\<rparr>], sh_peers = [sample_peer], sh_peer_threads = [],
        sh_bound = None\<rparr> = (g1, snap) \<and>
     handle_locked sample_peer (sample_address\<lparr>oa_removed := True\<rparr>) g1 = (g2, removal, evs) \<and>
     sh_entries g2 = [] \<and>
     sources_look (fold client_apply (fold deliver snap (fold deliver removal (\<lambda>_. [])) (sample_peer\<lparr>sa_port := 50001\<rparr>)) [])
       (key_of sample_address) = Some sample_address"
proof -
  let ?p = "sample_peer\<lparr>sa_port := 50001\<rparr>"
  let ?g = "\<lparr>sh_entries = [\<lparr>e_address = sample_address, e_owner = sample_peer\<rparr>], sh_peers = [sample_peer], sh_peer_threads = [],
        sh_bound = None\<rparr>"
  obtain g1 snap where a: "accept_locked (\<lambda>_. False) ?p ?g = (g1, snap)" by fastforce
  obtain g2 removal evs where h: "handle_locked sample_peer (sample_address\<lparr>oa_removed := True\<rparr>) g1 = (g2, removal, evs)"
    by (metis prod_cases3)
  have "sources_look (fold client_apply (fold deliver snap (fold deliver removal (\<lambda>_. [])) ?p) [])
       (key_of (sample_address\<lparr>oa_removed := True\<rparr>)) = Some (e_address \<lparr>e_address = sample_address, e_owner = sample_peer\<rparr>)"
    by (rule conjunct2 [OF snapshot_race [OF _ _ _ _ _ _ a h refl]])
       (simp_all add: distinct_keys_def sample_peer_def entries_look_def key_of_def instance_name_def sample_address_def)
  moreover have "sh_entries g2 = []"
    using a h by (auto simp: accept_locked_def reap_peers_def Let_def handle_locked_def)
  ultimately show ?thesis using a h by auto
qed



end
