(* ===== verification/Discovery.thy ===== *)
theory Discovery
  imports Discovery_Client Settings
begin

text \<open>
  The application side of discovery (\<open>src/discovery/mod.rs\<close>) and the DNS-SD adapter
  (\<open>src/discovery/mdns.rs\<close>). The \<open>mdns-sd\<close> daemon is outside: what its calls return are parameters, the
  calls the adapter makes are recorded in the state. The hash map of discovered services is an
  association list in an arbitrary order; the lemmas show that the order does not matter, that refreshing
  merges DNS-SD and server sources without losing a name or an address, and what deregistering withdraws.
\<close>

section \<open>The DNS-SD adapter\<close>

definition SERVICE_TYPE :: string where "SERVICE_TYPE = ''_omt._tcp.local.''"

record discovered =
  d_fullname :: string
  d_port :: u16
  d_addresses :: "string list"

datatype daemon_call =
    RegisterService string string u16
  | UnregisterService string

record mdns_state =
  ms_discovered :: "(string \<times> discovered) list"
  ms_registered :: "(string \<times> string) list"
  ms_daemon :: "daemon_call list"

text \<open>What the \<open>mdns-sd\<close> crate and the thread builder answer: creating the daemon, starting to browse,
  spawning the worker, building the service description (its full name), registering it.\<close>

record mdns_env =
  me_daemon :: "string + unit"
  me_browse :: "string + unit"
  me_spawn :: "string + unit"
  me_info :: "string \<Rightarrow> string \<Rightarrow> u16 \<Rightarrow> string + string"
  me_register :: "string \<Rightarrow> string + unit"

definition map_err :: "string \<Rightarrow> string + 'a \<Rightarrow> 'a result" where
  "map_err what r = (case r of Inl e \<Rightarrow> Inl (Discovery (what @ e)) | Inr x \<Rightarrow> Inr x)"

text \<open>\<open>state()\<close>: the process-wide state, created at the first use; a failure leaves it unset.\<close>

definition mdns_get_state :: "mdns_env \<Rightarrow> mdns_state option \<Rightarrow> mdns_state result" where
  "mdns_get_state env STATE =
     (case STATE of
        Some s \<Rightarrow> Inr s
      | None \<Rightarrow>
          (case map_err ''mdns-sd daemon: '' (me_daemon env) of
             Inl e \<Rightarrow> Inl e
           | Inr _ \<Rightarrow>
               (case map_err ''mdns-sd browse: '' (me_browse env) of
                  Inl e \<Rightarrow> Inl e
                | Inr _ \<Rightarrow>
                    (case map_err ''mdns worker: '' (me_spawn env) of
                       Inl e \<Rightarrow> Inl e
                     | Inr _ \<Rightarrow> Inr \<lparr>ms_discovered = [], ms_registered = [], ms_daemon = []\<rparr>))))"

text \<open>Insertion into and removal from a hash map, whose order is of no account.\<close>

definition hash_insert :: "'k \<Rightarrow> 'v \<Rightarrow> ('k \<times> 'v) list \<Rightarrow> ('k \<times> 'v) list" where
  "hash_insert k v m = filter (\<lambda>(k', _). k' \<noteq> k) m @ [(k, v)]"

definition hash_remove :: "'k \<Rightarrow> ('k \<times> 'v) list \<Rightarrow> ('k \<times> 'v) list" where
  "hash_remove k m = filter (\<lambda>(k', _). k' \<noteq> k) m"

definition ip_preference :: "string \<Rightarrow> nat" where
  "ip_preference a =
     (if a = ''127.0.0.1'' \<or> a = ''::1'' then 5
      else if starts_with ''fe80:'' a \<or> starts_with ''169.254.'' a then 4
      else if CHR '':'' \<in> set a then 3
      else if starts_with ''172.'' a then 1
      else 0)"

text \<open>\<open>mdns_sd::ResolvedService\<close> as the adapter reads it: validity, full name, port and the textual addresses in
  the iteration order of the set.\<close>

record resolved_service =
  rs_valid :: bool
  rs_fullname :: string
  rs_port :: u16
  rs_addresses :: "string list"

definition resolved_entry :: "resolved_service \<Rightarrow> discovered option" where
  "resolved_entry info =
     (if \<not> rs_valid info then None
      else Some \<lparr>d_fullname = rs_fullname info, d_port = rs_port info,
             d_addresses = sort_key ip_preference (rs_addresses info)\<rparr>)"

datatype service_event =
    ServiceResolved resolved_service
  | ServiceRemoved string string
  | OtherServiceEvent

text \<open>One event of the worker thread.\<close>

definition mdns_event :: "service_event \<Rightarrow> mdns_state \<Rightarrow> mdns_state" where
  "mdns_event event g =
     (case event of
        ServiceResolved info \<Rightarrow>
          (case resolved_entry info of
             Some e \<Rightarrow> g\<lparr>ms_discovered := hash_insert (d_fullname e) e (ms_discovered g)\<rparr>
           | None \<Rightarrow> g)
      | ServiceRemoved _ fullname \<Rightarrow> g\<lparr>ms_discovered := hash_remove fullname (ms_discovered g)\<rparr>
      | OtherServiceEvent \<Rightarrow> g)"

definition host_label_from_instance :: "string \<Rightarrow> string" where
  "host_label_from_instance inst =
     (let raw = trim (takeWhile (\<lambda>c. c \<noteq> CHR ''('') inst);
          out = concat (map (\<lambda>c. if is_ascii_alphanumeric c \<or> c = CHR ''-'' then [c]
                                 else if c = CHR '' '' \<or> c = CHR ''_'' then ''-'' else []) raw) in
      if out = [] then ''host'' else out)"

definition advertise :: "mdns_env \<Rightarrow> string \<Rightarrow> u16 \<Rightarrow> mdns_state option \<Rightarrow> unit result \<times> mdns_state option" where
  "advertise env inst port STATE =
     (case mdns_get_state env STATE of
        Inl e \<Rightarrow> (Inl e, STATE)
      | Inr st \<Rightarrow>
          let host_name = host_label_from_instance inst @ ''.local.'' in
          (case map_err ''mdns-sd ServiceInfo: '' (me_info env inst host_name port) of
             Inl e \<Rightarrow> (Inl e, Some st)
           | Inr fullname \<Rightarrow>
               (case map_err ''mdns-sd register: '' (me_register env fullname) of
                  Inl e \<Rightarrow> (Inl e, Some st)
                | Inr _ \<Rightarrow>
                    (Inr (), Some (st\<lparr>ms_registered := hash_insert inst fullname (ms_registered st),
                                      ms_daemon := ms_daemon st @ [RegisterService fullname host_name port]\<rparr>)))))"

definition withdraw :: "mdns_env \<Rightarrow> string \<Rightarrow> mdns_state option \<Rightarrow> unit result \<times> mdns_state option" where
  "withdraw env inst STATE =
     (case mdns_get_state env STATE of
        Inl e \<Rightarrow> (Inl e, STATE)
      | Inr st \<Rightarrow>
          (case map_of (ms_registered st) inst of
             Some fullname \<Rightarrow>
               (Inr (), Some (st\<lparr>ms_registered := hash_remove inst (ms_registered st),
                                 ms_daemon := ms_daemon st @ [UnregisterService fullname]\<rparr>))
           | None \<Rightarrow> (Inr (), Some st)))"

text \<open>Browsing waits while the worker handles the events that arrive.\<close>

definition browse_result :: "mdns_state \<Rightarrow> (string \<times> u16 \<times> string list) list" where
  "browse_result g =
     sort_key fst (map (\<lambda>d. (d_fullname d, d_port d, d_addresses d))
       (filter (\<lambda>d. d_port d \<noteq> 0) (map snd (ms_discovered g))))"

definition browse_for :: "mdns_env \<Rightarrow> service_event list \<Rightarrow> mdns_state option \<Rightarrow>
    (string \<times> u16 \<times> string list) list result \<times> mdns_state option" where
  "browse_for env events STATE =
     (case mdns_get_state env STATE of
        Inl e \<Rightarrow> (Inl e, STATE)
      | Inr st \<Rightarrow> let g = fold mdns_event events st in (Inr (browse_result g), Some g))"

text \<open>The events are those of the time the daemon is given, \<open>BROWSE_WAIT\<close> milliseconds in \<open>browse\<close>.\<close>

definition BROWSE_WAIT :: nat where "BROWSE_WAIT = 1500"

definition mdns_browse :: "mdns_env \<Rightarrow> (nat \<Rightarrow> service_event list) \<Rightarrow> mdns_state option \<Rightarrow>
    (string \<times> u16 \<times> string list) list result \<times> mdns_state option" where
  "mdns_browse env events STATE = browse_for env (events BROWSE_WAIT) STATE"

section \<open>The application's view\<close>

record discovery =
  dy_sources :: "omt_address list"
  dy_registered :: "omt_address list"
  dy_client :: "discovery_client option"

text \<open>What surrounds an instance: the adapter's process-wide state and the connection to the server, whose
  write outcomes are consumed and whose bytes are recorded.\<close>

record surroundings =
  su_mdns :: "mdns_state option"
  su_writes :: "write_result list"
  su_wire :: bytes

definition discovery_new :: "(string \<Rightarrow> u16 \<Rightarrow> socket_addr list result) \<Rightarrow> (socket_addr \<Rightarrow> unit result) \<Rightarrow>
    string option \<Rightarrow> discovery result" where
  "discovery_new resolve dial server =
     (let this = \<lparr>dy_sources = [], dy_registered = [], dy_client = None\<rparr> in
      case server of
        None \<Rightarrow> Inr this
      | Some url \<Rightarrow>
          (case connect_url resolve dial url of
             Inr client \<Rightarrow> Inr (this\<lparr>dy_client := Some client\<rparr>)
           | Inl _ \<Rightarrow> Inr this))"

definition using_server :: "discovery \<Rightarrow> bool" where
  "using_server d \<longleftrightarrow> dy_client d \<noteq> None"

text \<open>The addresses of a server source are added to the first source of that name, or the source is appended.\<close>

definition merge_ips :: "string list \<Rightarrow> string list \<Rightarrow> string list" where
  "merge_ips existing new = foldl (\<lambda>acc ip. if ip \<in> set acc then acc else acc @ [ip]) existing new"

fun merge_source :: "omt_address \<Rightarrow> omt_address list \<Rightarrow> omt_address list" where
  "merge_source addr [] = [addr]"
| "merge_source addr (a # as) =
     (if instance_name a = instance_name addr
      then a\<lparr>oa_addresses := merge_ips (oa_addresses a) (oa_addresses addr)\<rparr> # as
      else a # merge_source addr as)"

text \<open>\<open>filter_map\<close> over the fallible name handling: \<open>None\<close> is its panic.\<close>

fun dns_sources :: "(string \<times> u16 \<times> string list) list \<Rightarrow> omt_address list option" where
  "dns_sources [] = Some []"
| "dns_sources ((fullname, port, addrs) # found) =
     (case from_dns_sd fullname port addrs of
        None \<Rightarrow> None
      | Some r \<Rightarrow> map_option (\<lambda>as. (case r of Some a \<Rightarrow> a # as | None \<Rightarrow> as)) (dns_sources found))"

definition merged_sources :: "omt_address list \<Rightarrow> discovery_client option \<Rightarrow> omt_address list" where
  "merged_sources dns cl =
     sort_key instance_name
       (case cl of Some c \<Rightarrow> fold merge_source (client_sources c) dns | None \<Rightarrow> dns)"

definition refresh_for :: "mdns_env \<Rightarrow> service_event list \<Rightarrow> surroundings \<Rightarrow> discovery \<Rightarrow>
    (unit result \<times> surroundings \<times> discovery) option" where
  "refresh_for env events w d =
     (case browse_for env events (su_mdns w) of
        (Inl e, st) \<Rightarrow> Some (Inl e, w\<lparr>su_mdns := st\<rparr>, d)
      | (Inr found, st) \<Rightarrow>
          map_option (\<lambda>dns. (Inr (), w\<lparr>su_mdns := st\<rparr>, d\<lparr>dy_sources := merged_sources dns (dy_client d)\<rparr>))
            (dns_sources found))"

definition discovery_refresh :: "mdns_env \<Rightarrow> (nat \<Rightarrow> service_event list) \<Rightarrow> surroundings \<Rightarrow> discovery \<Rightarrow>
    (unit result \<times> surroundings \<times> discovery) option" where
  "discovery_refresh env events w d = refresh_for env (events 1500) w d"

definition discovery_sources :: "discovery \<Rightarrow> omt_address list" where
  "discovery_sources d = dy_sources d"

definition discovery_register :: "mdns_env \<Rightarrow> string \<Rightarrow> string option \<Rightarrow> string \<Rightarrow> u16 \<Rightarrow> surroundings \<Rightarrow> discovery \<Rightarrow>
    (unit result \<times> surroundings \<times> discovery) option" where
  "discovery_register env machine route name port w d =
     (case address_local machine route name port of
        None \<Rightarrow> None
      | Some addr \<Rightarrow>
          let (r, w') =
            (case dy_client d of
               Some client \<Rightarrow>
                 (case client_register addr (su_writes w) client of
                    (r, out, ws) \<Rightarrow> (r, w\<lparr>su_writes := ws, su_wire := su_wire w @ out\<rparr>))
             | None \<Rightarrow>
                 (case advertise env (instance_name addr) port (su_mdns w) of
                    (r, st) \<Rightarrow> (r, w\<lparr>su_mdns := st\<rparr>))) in
          Some (case r of
                  Inl e \<Rightarrow> (Inl e, w', d)
                | Inr _ \<Rightarrow> (Inr (), w', d\<lparr>dy_registered := dy_registered d @ [addr]\<rparr>)))"

definition withdraw_address :: "mdns_env \<Rightarrow> discovery_client option \<Rightarrow> omt_address \<Rightarrow> surroundings \<Rightarrow> surroundings" where
  "withdraw_address env server_client addr w =
     (case server_client of
        Some client \<Rightarrow>
          (case client_deregister addr (su_writes w) client of
             (_, out, ws) \<Rightarrow> w\<lparr>su_writes := ws, su_wire := su_wire w @ out\<rparr>)
      | None \<Rightarrow> w\<lparr>su_mdns := snd (withdraw env (instance_name addr) (su_mdns w))\<rparr>)"

fun deregister_loop :: "mdns_env \<Rightarrow> discovery_client option \<Rightarrow> string \<Rightarrow> omt_address list \<Rightarrow> omt_address list \<Rightarrow>
    surroundings \<Rightarrow> omt_address list \<times> surroundings" where
  "deregister_loop env cl name [] remaining w = (remaining, w)"
| "deregister_loop env cl name (addr # as) remaining w =
     (if str_contains name (instance_name addr)
      then deregister_loop env cl name as remaining (withdraw_address env cl addr w)
      else deregister_loop env cl name as (remaining @ [addr]) w)"

definition discovery_deregister :: "mdns_env \<Rightarrow> string \<Rightarrow> surroundings \<Rightarrow> discovery \<Rightarrow> unit result \<times> surroundings \<times> discovery" where
  "discovery_deregister env name w d =
     (let (remaining, w') = deregister_loop env (dy_client d) name (dy_registered d) [] w in
      (Inr (), w', d\<lparr>dy_registered := remaining\<rparr>))"

definition deregister_all :: "mdns_env \<Rightarrow> surroundings \<Rightarrow> discovery \<Rightarrow> unit result \<times> surroundings \<times> discovery" where
  "deregister_all env w d =
     (Inr (), fold (withdraw_address env (dy_client d)) (dy_registered d) w, d\<lparr>dy_registered := []\<rparr>)"

definition drop_discovery :: "mdns_env \<Rightarrow> surroundings \<Rightarrow> discovery \<Rightarrow> surroundings" where
  "drop_discovery env w d = fst (snd (deregister_all env w d))"

section \<open>The discovered services are a registry\<close>

definition services_ok :: "(string \<times> discovered) list \<Rightarrow> bool" where
  "services_ok m \<longleftrightarrow> distinct (map fst m) \<and> (\<forall>(k, e) \<in> set m. d_fullname e = k)"

lemma map_of_hash_insert [simp]: "map_of (hash_insert k v m) k' = (if k' = k then Some v else map_of m k')"
  by (induction m) (auto simp: hash_insert_def)

lemma map_of_hash_remove [simp]: "map_of (hash_remove k m) k' = (if k' = k then None else map_of m k')"
  by (induction m) (auto simp: hash_remove_def)

lemma services_insert: "services_ok m \<Longrightarrow> services_ok (hash_insert (d_fullname e) e m)"
  by (auto simp: services_ok_def hash_insert_def distinct_map_filter)

lemma services_remove: "services_ok m \<Longrightarrow> services_ok (hash_remove k m)"
  by (auto simp: services_ok_def hash_remove_def distinct_map_filter)

interpretation mdns: keyed_registry services_ok d_fullname map_of "\<lambda>e. hash_insert (d_fullname e) e" hash_remove
  by unfold_locales (auto simp: services_insert services_remove)

lemma mdns_event_ok: "services_ok (ms_discovered g) \<Longrightarrow> services_ok (ms_discovered (mdns_event e g))"
  by (auto simp: mdns_event_def services_insert services_remove split: service_event.split option.split)

lemma mdns_events_ok: "services_ok (ms_discovered g) \<Longrightarrow> services_ok (ms_discovered (fold mdns_event es g))"
  by (induction es arbitrary: g) (simp_all add: mdns_event_ok)

text \<open>The order of the hash map does not show in what browsing returns.\<close>

lemma browse_any_order:
  assumes "services_ok (ms_discovered g)" "services_ok (ms_discovered g')"
    "set (ms_discovered g) = set (ms_discovered g')"
  shows "browse_result g = browse_result g'"
proof -
  let ?f = "\<lambda>g. map (\<lambda>d. (d_fullname d, d_port d, d_addresses d)) (filter (\<lambda>d. d_port d \<noteq> 0) (map snd (ms_discovered g)))"
  have dist: "distinct (map fst (?f g))" if "services_ok (ms_discovered g)" for g
  proof -
    have "map fst (?f g) = map d_fullname (filter (\<lambda>d. d_port d \<noteq> 0) (map snd (ms_discovered g)))" by simp
    moreover have "map d_fullname (map snd (ms_discovered g)) = map fst (ms_discovered g)"
      using that by (auto simp: services_ok_def)
    ultimately show ?thesis using that by (metis services_ok_def distinct_map_filter)
  qed
  have s: "set (?f g) = set (?f g')" using assms(3) by simp
  have "inj_on fst (set (?f g))" using dist [OF assms(1)] by (simp only: distinct_map)
  then show ?thesis
    unfolding browse_result_def
    using dist [OF assms(1)] dist [OF assms(2)] s
    by (intro map_sorted_distinct_set_unique [where f = fst])
      (simp_all only: set_sort Un_absorb sorted_sort_key distinct_map distinct_sort)
qed

section \<open>Refreshing\<close>

definition ips_of :: "omt_address list \<Rightarrow> string \<Rightarrow> string set" where
  "ips_of as n = (\<Union>a \<in> {a \<in> set as. instance_name a = n}. set (oa_addresses a))"

lemma instance_name_addresses [simp]: "instance_name (a\<lparr>oa_addresses := x\<rparr>) = instance_name a"
  by (simp add: instance_name_def)

lemma set_merge_ips [simp]: "set (merge_ips xs ys) = set xs \<union> set ys"
  unfolding merge_ips_def by (induction ys arbitrary: xs) auto

lemma merge_source_names: "instance_name ` set (merge_source b as) = insert (instance_name b) (instance_name ` set as)"
  by (induction as) auto

lemma merge_source_distinct: "distinct (map instance_name as) \<Longrightarrow> distinct (map instance_name (merge_source b as))"
proof (induction as)
  case (Cons a as)
  have "instance_name a \<in> instance_name ` set (merge_source b as) \<longleftrightarrow> instance_name a = instance_name b \<or> instance_name a \<in> instance_name ` set as"
    by (auto simp: merge_source_names)
  with Cons show ?case by auto
qed simp

lemma ips_of_Cons: "ips_of (a # as) n = (if instance_name a = n then set (oa_addresses a) else {}) \<union> ips_of as n"
  and ips_of_Nil [simp]: "ips_of [] n = {}"
  by (auto simp: ips_of_def)

lemma ips_of_merge: "ips_of (merge_source b as) n = ips_of as n \<union> ips_of [b] n"
  by (induction as) (auto simp: ips_of_Cons)

lemma fold_merge:
  "instance_name ` set (fold merge_source bs as) = instance_name ` (set as \<union> set bs)"
  "distinct (map instance_name as) \<Longrightarrow> distinct (map instance_name (fold merge_source bs as))"
  "ips_of (fold merge_source bs as) n = ips_of as n \<union> ips_of bs n"
proof (induction bs arbitrary: as)
  case (Cons b bs)
  { case 1 show ?case using Cons(1) [of "merge_source b as"] by (auto simp: merge_source_names image_Un) }
  { case 2 then show ?case using Cons(2) [of "merge_source b as"] merge_source_distinct by simp }
  { case 3 show ?case using Cons(3) [of "merge_source b as"] by (auto simp: ips_of_merge ips_of_Cons) }
qed (auto simp: ips_of_def)

lemma ips_of_member:
  assumes "distinct (map instance_name as)" "a \<in> set as"
  shows "ips_of as (instance_name a) = set (oa_addresses a)"
proof -
  have "{b \<in> set as. instance_name b = instance_name a} = {a}"
    using assms by (auto simp: distinct_map dest: inj_onD)
  then show ?thesis by (simp add: ips_of_def)
qed

lemma ips_of_set: "set as = set bs \<Longrightarrow> ips_of as n = ips_of bs n"
  by (simp add: ips_of_def)

text \<open>C25: Refreshing lists every source name that DNS-SD or the discovery server knows and no other, in the order
  of the names and, when DNS-SD gave each name once, each once; a source carries exactly the addresses under
  which either of the two knows its name.\<close>

theorem discovery_refresh_merge:
  assumes "browse_for env events (su_mdns w) = (Inr found, st)" "dns_sources found = Some dns"
    and "srv = (case dy_client d of Some c \<Rightarrow> client_sources c | None \<Rightarrow> [])"
    and "distinct (map instance_name dns)"
  shows "\<exists>d'. refresh_for env events w d = Some (Inr (), w\<lparr>su_mdns := st\<rparr>, d') \<and>
    instance_name ` set (discovery_sources d') = instance_name ` (set dns \<union> set srv) \<and>
    sorted (map instance_name (discovery_sources d')) \<and> distinct (map instance_name (discovery_sources d')) \<and>
    (\<forall>a \<in> set (discovery_sources d').
       set (oa_addresses a) = (\<Union>b \<in> {b \<in> set dns \<union> set srv. instance_name b = instance_name a}. set (oa_addresses b)))"
proof -
  let ?m = "fold merge_source srv dns"
  have m: "merged_sources dns (dy_client d) = sort_key instance_name ?m"
    by (simp add: merged_sources_def assms(3) split: option.split)
  have dist: "distinct (map instance_name ?m)" by (rule fold_merge(2) [OF assms(4)])
  then have dist': "distinct (map instance_name (sort_key instance_name ?m))"
    by (simp add: distinct_map)
  have "set (oa_addresses a) = ips_of dns (instance_name a) \<union> ips_of srv (instance_name a)" if "a \<in> set ?m" for a
    using ips_of_member [OF dist that] fold_merge(3) by metis
  moreover have "ips_of dns n \<union> ips_of srv n = (\<Union>b \<in> {b \<in> set dns \<union> set srv. instance_name b = n}. set (oa_addresses b))" for n
    by (auto simp: ips_of_def)
  ultimately have addrs: "\<forall>a \<in> set ?m. set (oa_addresses a) =
      (\<Union>b \<in> {b \<in> set dns \<union> set srv. instance_name b = instance_name a}. set (oa_addresses b))"
    by metis
  show ?thesis
    using assms(1,2) dist' fold_merge(1) [of srv dns] addrs
    by (intro exI [of _ "d\<lparr>dy_sources := merged_sources dns (dy_client d)\<rparr>"])
      (simp add: refresh_for_def discovery_sources_def m)
qed

definition sample_env :: mdns_env where
  "sample_env = \<lparr>me_daemon = Inr (), me_browse = Inr (), me_spawn = Inr (),
     me_info = (\<lambda>inst host port. Inr (inst @ ''.'' @ SERVICE_TYPE)), me_register = (\<lambda>_. Inr ())\<rparr>"

definition sample_event :: service_event where
  "sample_event = ServiceResolved \<lparr>rs_valid = True, rs_fullname = ''HOST (Cam)._omt._tcp.local.'', rs_port = 6400,
     rs_addresses = [''fe80::1'', ''10.0.0.5'']\<rparr>"

definition sample_discovery :: discovery where
  "sample_discovery = \<lparr>dy_sources = [], dy_registered = [], dy_client = Some ((client_new ''s'')\<lparr>dc_sources :=
     [\<lparr>oa_name = ''Cam'', oa_machine_name = ''HOST'', oa_port = 6400, oa_addresses = [''10.0.0.5'', ''192.168.1.5''],
       oa_removed = False\<rparr>]\<rparr>)\<rparr>"

definition sample_surroundings :: surroundings where
  "sample_surroundings = \<lparr>su_mdns = None, su_writes = [], su_wire = []\<rparr>"

theorem discovery_refresh_merge_witness:
  "\<exists>w' d'. refresh_for sample_env [sample_event] sample_surroundings sample_discovery = Some (Inr (), w', d') \<and>
     instance_name ` set (discovery_sources d') = {''HOST (Cam)''}"
proof -
  let ?found = "[(''HOST (Cam)._omt._tcp.local.'', 6400 :: u16, [''10.0.0.5'', ''fe80::1''])]"
  let ?dns = "[\<lparr>oa_name = ''Cam'', oa_machine_name = ''HOST'', oa_port = 6400, oa_addresses = [''10.0.0.5'', ''fe80::1''],
       oa_removed = False\<rparr>]"
  have b: "fst (browse_for sample_env [sample_event] (su_mdns sample_surroundings)) = Inr ?found" by code_simp
  then have b: "browse_for sample_env [sample_event] (su_mdns sample_surroundings) =
      (Inr ?found, snd (browse_for sample_env [sample_event] (su_mdns sample_surroundings)))"
    by (metis prod.collapse)
  have d: "dns_sources ?found = Some ?dns" by code_simp
  have n: "instance_name ` (set ?dns \<union> set (case dy_client sample_discovery of Some c \<Rightarrow> client_sources c | None \<Rightarrow> [])) = {''HOST (Cam)''}"
    by code_simp
  show ?thesis
    using discovery_refresh_merge [OF b d refl, of sample_discovery] unfolding n by (auto simp: sample_surroundings_def)
qed

section \<open>Withdrawing\<close>

lemma deregister_loop_split:
  "deregister_loop env cl name as remaining w =
     (remaining @ filter (\<lambda>a. \<not> str_contains name (instance_name a)) as,
      fold (withdraw_address env cl) (filter (\<lambda>a. str_contains name (instance_name a)) as) w)"
  by (induction as arbitrary: remaining w) simp_all

lemma fold_withdraw:
  assumes "su_mdns w = Some st" "distinct (map instance_name as)"
    "\<forall>a \<in> set as. map_of (ms_registered st) (instance_name a) = Some (fn a)"
  shows "fold (withdraw_address env None) as w =
    w\<lparr>su_mdns := Some (st\<lparr>ms_registered := filter (\<lambda>(k, _). k \<notin> instance_name ` set as) (ms_registered st),
                          ms_daemon := ms_daemon st @ map (\<lambda>a. UnregisterService (fn a)) as\<rparr>)\<rparr>"
  using assms
proof (induction as arbitrary: w st)
  case Nil
  have "w\<lparr>su_mdns := Some st\<rparr> = w" using Nil(1) by simp
  then show ?case by simp
next
  case (Cons a as)
  let ?st = "st\<lparr>ms_registered := hash_remove (instance_name a) (ms_registered st),
    ms_daemon := ms_daemon st @ [UnregisterService (fn a)]\<rparr>"
  have one: "withdraw_address env None a w = w\<lparr>su_mdns := Some ?st\<rparr>"
    using Cons.prems by (simp add: withdraw_address_def withdraw_def mdns_get_state_def)
  have "fold (withdraw_address env None) as (w\<lparr>su_mdns := Some ?st\<rparr>) =
    (w\<lparr>su_mdns := Some ?st\<rparr>)\<lparr>su_mdns := Some (?st\<lparr>ms_registered := filter (\<lambda>(k, _). k \<notin> instance_name ` set as) (ms_registered ?st),
       ms_daemon := ms_daemon ?st @ map (\<lambda>a. UnregisterService (fn a)) as\<rparr>)\<rparr>"
    using Cons.prems by (intro Cons.IH) (auto simp: image_iff)
  moreover have "filter (\<lambda>(k, _). k \<notin> instance_name ` set as) (hash_remove (instance_name a) (ms_registered st)) =
      filter (\<lambda>(k, _). k \<notin> instance_name ` set (a # as)) (ms_registered st)"
    by (auto simp: hash_remove_def intro: filter_cong)
  ultimately show ?case by (simp add: one)
qed

text \<open>Deregistering without a discovery server withdraws from DNS-SD exactly the registered sources whose
  instance name contains the given name, by the full names they were registered under and in the order of
  registration; the other sources stay registered and advertised.\<close>

theorem discovery_deregister_withdraws:
  assumes "dy_client d = None" "su_mdns w = Some st" "distinct (map instance_name (dy_registered d))"
    and "\<forall>a \<in> set (dy_registered d). map_of (ms_registered st) (instance_name a) = Some (fn a)"
    and "gone = filter (\<lambda>a. str_contains name (instance_name a)) (dy_registered d)"
  shows "discovery_deregister env name w d =
    (Inr (),
     w\<lparr>su_mdns := Some (st\<lparr>ms_registered := filter (\<lambda>(k, _). k \<notin> instance_name ` set gone) (ms_registered st),
                           ms_daemon := ms_daemon st @ map (\<lambda>a. UnregisterService (fn a)) gone\<rparr>)\<rparr>,
     d\<lparr>dy_registered := filter (\<lambda>a. \<not> str_contains name (instance_name a)) (dy_registered d)\<rparr>)"
proof -
  have "fold (withdraw_address env None) gone w = w\<lparr>su_mdns :=
      Some (st\<lparr>ms_registered := filter (\<lambda>(k, _). k \<notin> instance_name ` set gone) (ms_registered st),
               ms_daemon := ms_daemon st @ map (\<lambda>a. UnregisterService (fn a)) gone\<rparr>)\<rparr>"
    using assms by (intro fold_withdraw) (simp_all add: distinct_map_filter)
  then show ?thesis by (simp add: discovery_deregister_def deregister_loop_split assms(1) flip: assms(5))
qed

definition two_cams :: "omt_address list" where
  "two_cams = map (\<lambda>n. \<lparr>oa_name = n, oa_machine_name = ''HOST'', oa_port = 6400, oa_addresses = [], oa_removed = False\<rparr>)
     [''Cam'', ''Camera 2'']"

definition sample_mdns :: mdns_state where
  "sample_mdns = \<lparr>ms_discovered = [], ms_registered = map (\<lambda>a. (instance_name a, instance_name a @ ''._omt'')) two_cams,
     ms_daemon = []\<rparr>"

theorem discovery_deregister_withdraws_witness:
  "dy_registered (snd (snd (discovery_deregister sample_env ''Cam'' (sample_surroundings\<lparr>su_mdns := Some sample_mdns\<rparr>)
     (sample_discovery\<lparr>dy_client := None, dy_registered := two_cams\<rparr>)))) = []"
proof -
  let ?d = "sample_discovery\<lparr>dy_client := None, dy_registered := two_cams\<rparr>"
  let ?w = "sample_surroundings\<lparr>su_mdns := Some sample_mdns\<rparr>"
  have "distinct (map instance_name (dy_registered ?d))" by code_simp
  moreover have "\<forall>a \<in> set (dy_registered ?d). map_of (ms_registered sample_mdns) (instance_name a) = Some (instance_name a @ ''._omt'')"
    by code_simp
  moreover have "filter (\<lambda>a. \<not> str_contains ''Cam'' (instance_name a)) two_cams = []" by code_simp
  ultimately show ?thesis
    using discovery_deregister_withdraws [of ?d ?w sample_mdns "\<lambda>a. instance_name a @ ''._omt''" _ "''Cam''" sample_env, OF _ _ _ _ refl]
    by simp
qed

end
