(* ===== verification/Ieee754.thy ===== *)
theory Ieee754
  imports Complex_Main Prelude
begin

text \<open>
  The floating-point arithmetic the sources use outside the codec crate: conversions of integers to \<open>f32\<close> and
  \<open>f64\<close>, multiplication, division, and \<open>round() as i64\<close>. A float is its bits, as IEEE 754 and Rust have it. A
  finite result is the exact rational rounded to the nearest float, ties to even, computed on natural
  numbers: numerator, denominator. The lemmas show that a rounded value differs from the exact one by a
  relative error of at most \<open>2 ^ -p\<close>, \<open>p\<close> being the precision.
\<close>

type_synonym f64 = "64 word"

section \<open>Rounding a rational\<close>

text \<open>The integer nearest to \<open>a / b\<close>, ties to even.\<close>

definition round_half_even :: "nat \<Rightarrow> nat \<Rightarrow> nat" where
  "round_half_even a b =
     (let q = a div b; r = a mod b in if 2 * r < b \<or> (2 * r = b \<and> even q) then q else q + 1)"

fun log2_nat :: "nat \<Rightarrow> nat" where
  "log2_nat n = (if n \<le> 1 then 0 else Suc (log2_nat (n div 2)))"

declare log2_nat.simps [simp del]

text \<open>Multiplication of \<open>a / b\<close> by \<open>2 ^ j\<close>.\<close>

definition scale_ratio :: "int \<Rightarrow> nat \<Rightarrow> nat \<Rightarrow> nat \<times> nat" where
  "scale_ratio j a b = (if j \<ge> 0 then (a * 2 ^ nat j, b) else (a, b * 2 ^ nat (- j)))"

text \<open>The exponent of \<open>a / b\<close>: the largest \<open>k\<close> with \<open>2 ^ k \<le> a / b\<close>.\<close>

definition ratio_exponent :: "nat \<Rightarrow> nat \<Rightarrow> int" where
  "ratio_exponent a b =
     (let k = int (log2_nat a) - int (log2_nat b) in
      case scale_ratio k 1 1 of (n, d) \<Rightarrow> if n * b \<le> a * d then k else k - 1)"

text \<open>The bits of a positive result without the sign. \<open>p\<close> is the precision, \<open>emin\<close> the smallest exponent and
  \<open>limit\<close> the bits of infinity; exponent and fraction are adjacent fields, so a carry out of the fraction and
  the subnormal numbers need no case of their own.\<close>

definition float_bits :: "nat \<Rightarrow> int \<Rightarrow> nat \<Rightarrow> nat \<Rightarrow> nat \<Rightarrow> nat" where
  "float_bits p emin limit a b =
     (if a = 0 then 0
      else
        let k = max emin (ratio_exponent a b) in
        case scale_ratio (int p - 1 - k) a b of
          (n, d) \<Rightarrow> min limit (nat (k - emin) * 2 ^ (p - 1) + round_half_even n d))"

text \<open>The value of finite bits without the sign, as numerator and denominator.\<close>

definition float_ratio :: "nat \<Rightarrow> int \<Rightarrow> nat \<Rightarrow> nat \<times> nat" where
  "float_ratio p emin bits =
     (let e = bits div 2 ^ (p - 1); f = bits mod 2 ^ (p - 1) in
      if e = 0 then scale_ratio (emin - (int p - 1)) f 1
      else scale_ratio (int e - 1 + emin - (int p - 1)) (f + 2 ^ (p - 1)) 1)"

definition f32_bits :: "nat \<Rightarrow> nat \<Rightarrow> nat" where "f32_bits = float_bits 24 (- 126) (255 * 2 ^ 23)"
definition f32_ratio :: "nat \<Rightarrow> nat \<times> nat" where "f32_ratio = float_ratio 24 (- 126)"

definition F64_INF :: nat where "F64_INF = 2047 * 2 ^ 52"
definition f64_bits :: "nat \<Rightarrow> nat \<Rightarrow> nat" where "f64_bits = float_bits 53 (- 1022) F64_INF"
definition f64_ratio :: "nat \<Rightarrow> nat \<times> nat" where "f64_ratio = float_ratio 53 (- 1022)"

section \<open>Operations\<close>

text \<open>\<open>a as f32 / b as f32\<close> for two unsigned integers, \<open>b > 0\<close>.\<close>

definition f32_div_u32 :: "32 word \<Rightarrow> 32 word \<Rightarrow> f32" where
  "f32_div_u32 a b =
     (case (f32_ratio (f32_bits (unat a) 1), f32_ratio (f32_bits (unat b) 1)) of
        ((n, d), (n', d')) \<Rightarrow> word_of_nat (f32_bits (n * d') (d * n')))"

definition f64_magnitude :: "f64 \<Rightarrow> nat" where "f64_magnitude x = unat x mod 2 ^ 63"
definition f64_negative :: "f64 \<Rightarrow> bool" where "f64_negative x \<longleftrightarrow> 2 ^ 63 \<le> unat x"

definition f64_make :: "bool \<Rightarrow> nat \<Rightarrow> f64" where
  "f64_make negative bits = word_of_nat (bits + (if negative then 2 ^ 63 else 0))"

text \<open>Multiplication and division by a positive integer that is a float itself. A NaN stays a NaN.\<close>

definition f64_mul_nat :: "f64 \<Rightarrow> nat \<Rightarrow> f64" where
  "f64_mul_nat x c =
     (if f64_magnitude x \<ge> F64_INF then x
      else case f64_ratio (f64_magnitude x) of (n, d) \<Rightarrow> f64_make (f64_negative x) (f64_bits (n * c) d))"

definition f64_div_nat :: "f64 \<Rightarrow> nat \<Rightarrow> f64" where
  "f64_div_nat x c =
     (if f64_magnitude x \<ge> F64_INF then x
      else case f64_ratio (f64_magnitude x) of (n, d) \<Rightarrow> f64_make (f64_negative x) (f64_bits n (d * c)))"

definition f64_of_i64 :: "int \<Rightarrow> f64" where
  "f64_of_i64 i = f64_make (i < 0) (f64_bits (nat \<bar>i\<bar>) 1)"

text \<open>\<open>round() as i64\<close>: ties away from zero; the cast saturates and takes a NaN to zero.\<close>

definition f64_round_i64 :: "f64 \<Rightarrow> int" where
  "f64_round_i64 x =
     (let neg = f64_negative x; m = f64_magnitude x in
      if m > F64_INF then 0
      else if m = F64_INF then (if neg then - (2 ^ 63) else 2 ^ 63 - 1)
      else case f64_ratio m of
        (n, d) \<Rightarrow>
          let r = int ((2 * n + d) div (2 * d)) in
          if neg then max (- (2 ^ 63)) (- r) else min (2 ^ 63 - 1) r)"

section \<open>Rounding errors\<close>

lemma log2_nat_bounds: "0 < n \<Longrightarrow> 2 ^ log2_nat n \<le> n \<and> n < 2 * 2 ^ log2_nat n"
proof (induction n rule: log2_nat.induct)
  case (1 n)
  show ?case
  proof (cases "n \<le> 1")
    case True
    with 1(2) show ?thesis by (simp add: log2_nat.simps)
  next
    case False
    then have "2 ^ log2_nat (n div 2) \<le> n div 2 \<and> n div 2 < 2 * 2 ^ log2_nat (n div 2)" by (intro 1(1)) simp_all
    moreover have "n = 2 * (n div 2) + n mod 2" "n mod 2 < 2" by simp_all
    ultimately show ?thesis using False unfolding log2_nat.simps [of n] by (simp del: mod_less_divisor) linarith
  qed
qed

lemma log2_real:
  assumes "0 < n"
  shows "2 powi int (log2_nat n) \<le> real n \<and> real n < 2 * 2 powi int (log2_nat n)"
proof -
  have "real (2 ^ log2_nat n) \<le> real n" "real n < real (2 * 2 ^ log2_nat n)"
    using log2_nat_bounds [OF assms] unfolding of_nat_le_iff of_nat_less_iff by simp_all
  then show ?thesis by simp
qed

definition ratio :: "nat \<times> nat \<Rightarrow> real" where "ratio q = (case q of (n, d) \<Rightarrow> real n / real d)"

lemma powi_nat: "0 \<le> j \<Longrightarrow> 2 powi j = (2 :: real) ^ nat j"
  by (simp add: power_int_def)

lemma powi_neg: "j < 0 \<Longrightarrow> 2 powi j = 1 / (2 :: real) ^ nat (- j)"
  by (simp add: power_int_def field_simps)

lemma ratio_scale: "ratio (scale_ratio j a b) = ratio (a, b) * 2 powi j"
  by (simp add: scale_ratio_def ratio_def powi_nat powi_neg)

lemma scale_den_pos: "0 < b \<Longrightarrow> 0 < snd (scale_ratio j a b)"
  by (simp add: scale_ratio_def)

lemma ratio_exponent_bounds:
  assumes "0 < a" "0 < b"
  shows "2 powi ratio_exponent a b \<le> ratio (a, b) \<and> ratio (a, b) < 2 powi (ratio_exponent a b + 1)"
proof -
  let ?k = "int (log2_nat a) - int (log2_nat b)"
  obtain n d where s: "scale_ratio ?k 1 1 = (n, d)" by fastforce
  have d: "0 < real d" using scale_den_pos [of 1 ?k 1] s by simp
  have nd: "real n / real d = 2 powi ?k" using ratio_scale [of ?k 1 1] s by (simp add: ratio_def)
  note A = log2_real [OF assms(1)] and B = log2_real [OF assms(2)]
  have b: "0 < real b" using assms(2) by simp
  have pk: "2 powi ?k = 2 powi int (log2_nat a) / (2 :: real) powi int (log2_nat b)" by (simp add: power_int_diff)
  have low: "2 powi (?k - 1) \<le> real a / real b"
  proof -
    have "2 powi (?k - 1) = 2 powi int (log2_nat a) / (2 * (2 :: real) powi int (log2_nat b))" using pk by (simp add: power_int_diff)
    also have "\<dots> \<le> real a / real b" by (intro frac_le) (use A B b in auto)
    finally show ?thesis .
  qed
  have high: "real a / real b < 2 powi (?k + 1)"
  proof -
    have "real a / real b < (2 * 2 powi int (log2_nat a)) / 2 powi int (log2_nat b)"
      by (intro frac_less) (use A B b in auto)
    also have "\<dots> = 2 powi (?k + 1)" using pk by (simp add: power_int_add)
    finally show ?thesis .
  qed
  have iff: "n * b \<le> a * d \<longleftrightarrow> 2 powi ?k \<le> real a / real b"
  proof -
    have "2 powi ?k \<le> real a / real b \<longleftrightarrow> real n * real b \<le> real a * real d"
      unfolding nd [symmetric] using b d by (simp add: field_simps)
    also have "\<dots> \<longleftrightarrow> n * b \<le> a * d" by (metis of_nat_le_iff of_nat_mult)
    finally show ?thesis by simp
  qed
  show ?thesis
    using low high iff by (simp add: ratio_exponent_def Let_def s [unfolded One_nat_def] ratio_def)
qed

lemma round_half_even_error:
  assumes "0 < b"
  shows "\<bar>real (round_half_even a b) - real a / real b\<bar> \<le> 1 / 2"
proof -
  let ?q = "a div b" and ?r = "a mod b"
  have "real a / real b = real ?q + real ?r / real b"
    using assms by (metis add_divide_distrib mult_div_mod_eq nonzero_mult_div_cancel_left of_nat_0_less_iff of_nat_add of_nat_mult less_numeral_extra(3))
  moreover have "real ?r < real b" using assms by simp
  moreover have "real ?r / real b \<le> 1 / 2" if "2 * ?r \<le> b" using that assms by (simp add: field_simps flip: of_nat_mult)
  moreover have "1 / 2 \<le> real ?r / real b" if "b \<le> 2 * ?r" using that assms by (simp add: field_simps flip: of_nat_mult)
  moreover have "0 \<le> real ?r / real b" "real ?r / real b \<le> 1" using assms by simp_all
  ultimately show ?thesis by (auto simp: round_half_even_def Let_def)
qed

lemma float_ratio_normal:
  assumes "1 \<le> p" "2 ^ (p - 1) \<le> m" "m \<le> 2 ^ p"
  shows "ratio (float_ratio p emin (e * 2 ^ (p - 1) + m)) = real m * 2 powi (int e + emin - (int p - 1)) \<and>
    0 < snd (float_ratio p emin (e * 2 ^ (p - 1) + m))"
proof -
  let ?h = "2 ^ (p - 1) :: nat"
  have p: "2 ^ p = 2 * ?h" using assms(1) by (cases p) auto
  show ?thesis
  proof (cases "m = 2 ^ p")
    case False
    define r where "r = m - ?h"
    have r: "r < ?h" "m = r + ?h" using False assms(2,3) p unfolding r_def by linarith+
    then have "e * ?h + m = r + (e + 1) * ?h" by simp
    then have "(e * ?h + m) div ?h = e + 1" "(e * ?h + m) mod ?h = r" using r(1) by simp_all
    then show ?thesis using r(2) by (simp add: float_ratio_def Let_def ratio_scale scale_den_pos) (simp add: ratio_def)
  next
    case True
    then have m: "e * ?h + m = (e + 2) * ?h" using p by simp
    then have "(e * ?h + m) div ?h = e + 2" "(e * ?h + m) mod ?h = 0" by simp_all
    then have "ratio (float_ratio p emin (e * ?h + m)) = real ?h * 2 powi (int e + 1 + emin - (int p - 1)) \<and>
        0 < snd (float_ratio p emin (e * ?h + m))"
      by (simp add: float_ratio_def Let_def ratio_scale scale_den_pos) (simp add: ratio_def)
    moreover have "real m = 2 * real ?h" using True p by simp
    moreover have "2 powi (int e + 1 + emin - (int p - 1)) = 2 * (2 :: real) powi (int e + emin - (int p - 1))"
      by (simp add: power_int_add power_int_diff)
    ultimately show ?thesis by simp
  qed
qed

lemma float_bits_error:
  assumes "0 < a" "0 < b" "1 \<le> p" "emin \<le> ratio_exponent a b"
    and room: "(nat (ratio_exponent a b - emin) + 2) * 2 ^ (p - 1) < limit"
    and x: "x = float_bits p emin limit a b"
  shows "\<bar>ratio (float_ratio p emin x) - ratio (a, b)\<bar> \<le> ratio (a, b) * 2 powi (- int p) \<and>
    0 < snd (float_ratio p emin x) \<and> x < limit"
proof -
  let ?k = "ratio_exponent a b" and ?h = "2 ^ (p - 1) :: nat"
  obtain n d where nd: "scale_ratio (int p - 1 - ?k) a b = (n, d)" by fastforce
  let ?m = "round_half_even n d" and ?q = "ratio (a, b)"
  have d: "0 < d" using scale_den_pos [OF assms(2), of "int p - 1 - ?k" a] nd by simp
  have k: "2 powi ?k \<le> ?q" "?q < 2 powi (?k + 1)" using ratio_exponent_bounds [OF assms(1,2)] by auto
  have s: "real n / real d = ?q * 2 powi (int p - 1 - ?k)" using ratio_scale [of "int p - 1 - ?k" a b] nd by (simp add: ratio_def)
  have h: "real ?h = 2 powi (int p - 1)" using assms(3) by (simp add: power_int_def nat_diff_distrib')
  have p: "2 ^ p = 2 * ?h" using assms(3) by (cases p) auto
  have "2 powi ?k * 2 powi (int p - 1 - ?k) \<le> real n / real d" unfolding s by (intro mult_right_mono k) simp
  then have lo: "real ?h \<le> real n / real d" unfolding h by (simp flip: power_int_add)
  have "real n / real d < 2 powi (?k + 1) * 2 powi (int p - 1 - ?k)" unfolding s by (intro mult_strict_right_mono k) simp
  then have "real n / real d < 2 powi int p" by (simp flip: power_int_add)
  then have hi: "real n / real d < 2 * real ?h" unfolding h by (simp add: power_int_diff)
  have err: "\<bar>real ?m - real n / real d\<bar> \<le> 1 / 2" by (rule round_half_even_error [OF d])
  have "real ?h - 1 < real ?m" "real ?m < 2 * real ?h + 1" using lo hi err by linarith+
  then have m: "?h \<le> ?m" "?m \<le> 2 ^ p" unfolding p by linarith+
  have "nat (?k - emin) * ?h + ?m \<le> (nat (?k - emin) + 2) * ?h" using m(2) p by (simp add: algebra_simps)
  then have x': "x = nat (?k - emin) * ?h + ?m" "x < limit"
    using room assms(1,4) unfolding x float_bits_def Let_def by (simp_all add: nd max_absorb2)
  have e: "int (nat (?k - emin)) + emin - (int p - 1) = ?k - (int p - 1)" using assms(4) by simp
  have v: "ratio (float_ratio p emin x) = real ?m * 2 powi (?k - (int p - 1))" "0 < snd (float_ratio p emin x)"
    using float_ratio_normal [OF assms(3) m, of emin "nat (?k - emin)"] unfolding x'(1) e by simp_all
  have "?q = real n / real d * 2 powi (?k - (int p - 1))" unfolding s by (simp add: mult.assoc flip: power_int_add)
  then have "ratio (float_ratio p emin x) - ?q = (real ?m - real n / real d) * 2 powi (?k - (int p - 1))"
    unfolding v(1) by (simp add: left_diff_distrib)
  then have "\<bar>ratio (float_ratio p emin x) - ?q\<bar> = \<bar>real ?m - real n / real d\<bar> * 2 powi (?k - (int p - 1))" by (simp add: abs_mult)
  also have "\<dots> \<le> 1 / 2 * 2 powi (?k - (int p - 1))" by (intro mult_right_mono err) simp
  also have "\<dots> = 2 powi ?k * 2 powi (- int p)" by (simp add: power_int_diff power_int_minus power_int_add field_simps)
  also have "\<dots> \<le> ?q * 2 powi (- int p)" by (intro mult_right_mono k) simp
  finally show ?thesis using v(2) x'(2) by simp
qed

section \<open>Double precision\<close>

lemma f64_make_parts [simp]:
  assumes "bits \<le> F64_INF"
  shows "f64_magnitude (f64_make neg bits) = bits" "f64_negative (f64_make neg bits) = neg"
proof -
  have "unat (f64_make neg bits) = bits + (if neg then 2 ^ 63 else 0)"
    unfolding f64_make_def unat_of_nat using assms by (intro mod_less) (simp add: F64_INF_def)
  then show "f64_magnitude (f64_make neg bits) = bits" "f64_negative (f64_make neg bits) = neg"
    using assms by (simp_all add: f64_magnitude_def f64_negative_def F64_INF_def)
qed

lemma f64_bits_error:
  assumes "0 < a" "0 < b" "1 / 2 ^ 100 \<le> ratio (a, b)" "ratio (a, b) \<le> 2 ^ 100"
  shows "\<bar>ratio (f64_ratio (f64_bits a b)) - ratio (a, b)\<bar> \<le> ratio (a, b) / 2 ^ 53"
    and "0 < snd (f64_ratio (f64_bits a b))" and "f64_bits a b < F64_INF"
proof -
  let ?k = "ratio_exponent a b"
  have k: "2 powi ?k \<le> ratio (a, b)" "ratio (a, b) < 2 powi (?k + 1)" using ratio_exponent_bounds [OF assms(1,2)] by auto
  have "(2 :: real) powi 100 = 2 ^ 100" "(2 :: real) powi (- 100) = 1 / 2 ^ 100" by (simp_all add: powi_nat powi_neg)
  then have "(2 :: real) powi ?k \<le> 2 powi 100" "(2 :: real) powi (- 100) < 2 powi (?k + 1)"
    using k assms(3,4) by linarith+
  then have "?k \<le> 100" "- 100 < ?k + 1"
    using power_int_strict_increasing [of 100 ?k "2 :: real"] power_int_increasing [of "?k + 1" "- 100" "2 :: real"] by linarith+
  then have "- 1022 \<le> ?k" "nat (?k + 1022) \<le> 1122" by simp_all
  then have "(nat (?k - - 1022) + 2) * 2 ^ (53 - 1) < F64_INF" unfolding F64_INF_def by simp
  from float_bits_error [OF assms(1,2) _ \<open>- 1022 \<le> ?k\<close> this refl]
  show "\<bar>ratio (f64_ratio (f64_bits a b)) - ratio (a, b)\<bar> \<le> ratio (a, b) / 2 ^ 53"
    "0 < snd (f64_ratio (f64_bits a b))" "f64_bits a b < F64_INF"
    by (simp_all add: f64_bits_def f64_ratio_def powi_neg)
qed

lemma f64_mul_make:
  "bits < F64_INF \<Longrightarrow> f64_ratio bits = (n, d) \<Longrightarrow> f64_mul_nat (f64_make neg bits) c = f64_make neg (f64_bits (n * c) d)"
  by (simp add: f64_mul_nat_def)

lemma f64_div_make:
  "bits < F64_INF \<Longrightarrow> f64_ratio bits = (n, d) \<Longrightarrow> f64_div_nat (f64_make neg bits) c = f64_make neg (f64_bits n (d * c))"
  by (simp add: f64_div_nat_def)

text \<open>One operation with a positive exact result \<open>q = a / b\<close>.\<close>

lemma f64_step:
  assumes "0 < a" "0 < b" "q = ratio (a, b)" "1 / 2 ^ 100 \<le> q" "q \<le> 2 ^ 100"
  obtains n d where "f64_ratio (f64_bits a b) = (n, d)" "0 < n" "0 < d" "\<bar>ratio (n, d) - q\<bar> \<le> q / 2 ^ 53"
    "f64_bits a b < F64_INF"
proof -
  obtain n d where nd: "f64_ratio (f64_bits a b) = (n, d)" by fastforce
  have e: "\<bar>ratio (n, d) - q\<bar> \<le> q / 2 ^ 53" "0 < d" "f64_bits a b < F64_INF"
    using f64_bits_error [OF assms(1,2)] assms(3-5) nd by simp_all
  have "0 < q" using assms(4) by (smt (verit) zero_less_divide_1_iff zero_less_power)
  then have "q / 2 ^ 53 < q" by (simp add: field_simps)
  with e(1) have "0 < ratio (n, d)" by linarith
  then have "0 < n" by (simp add: ratio_def zero_less_divide_iff)
  with nd e that show ?thesis by blast
qed

lemma relative_bounds: "\<bar>x - q\<bar> \<le> q / c \<Longrightarrow> q * (1 - 1 / c) \<le> x \<and> x \<le> q * (1 + 1 / c)" for x q c :: real
  by (auto simp: abs_le_iff right_diff_distrib distrib_left)

lemma rounds_to:
  assumes "0 < d" "\<bar>ratio (n, d) - real a\<bar> < 1 / 2"
  shows "(2 * n + d) div (2 * d) = a"
proof -
  have "\<bar>real n / real d - real a\<bar> < 1 / 2" using assms(2) by (simp add: ratio_def)
  then have "real a - 1 / 2 < real n / real d" "real n / real d < real a + 1 / 2" by linarith+
  then have "2 * real a * real d < 2 * real n + real d" "2 * real n < 2 * real a * real d + real d"
    using assms(1) by (simp_all add: field_simps)
  then have "real (a * (2 * d)) < real (2 * n + d)" "real (2 * n + d) < real (Suc a * (2 * d))" by (simp_all add: algebra_simps)
  then have "a * (2 * d) < 2 * n + d" "2 * n + d < Suc a * (2 * d)" unfolding of_nat_less_iff by simp_all
  then show ?thesis by (intro div_nat_eqI) (simp_all add: mult.commute)
qed

end
