(* ===== verification/Video_Encoder.thy ===== *)
theory Video_Encoder
  imports Omt_Types
begin

text \<open>
  Encoding of uncompressed frames (\<open>src/send_video.rs\<close>). The VMX codec is a crate of its own: its
  operations are the fields of a parameter \<open>'c vmx\<close>, \<open>'c\<close> being its state. Modelled are the checks on a
  frame, the planes cut out of its data for each pixel format (a slice out of range is a panic, \<open>None\<close>), the
  reuse of the codec and the loop that saves the bitstream into a growing buffer. The lemmas show that no
  slice is out of range, that the codec in use always fits the frame, and that the loop ends and returns
  the bitstream whenever it fits below the limit. Textures are encoded in \<open>Texture_Sender\<close>.
\<close>

section \<open>The codec\<close>

datatype vmx_profile_kind = ProfileOmtLq | ProfileOmtSq | ProfileOmtHq | ProfileDefault
datatype vmx_color_space = VmxUndefined | VmxBt601 | VmxBt709

text \<open>A call of one of the \<open>encode\<close> operations with its planes and strides.\<close>

datatype vmx_input =
    EncodeUyvy bytes nat
  | EncodeYuy2 bytes nat
  | EncodeBgra bytes nat
  | EncodeBgrx bytes nat
  | EncodeNv12 bytes nat bytes nat
  | EncodeYv12 bytes nat bytes nat bytes nat

text \<open>\<open>vx_save n\<close> is \<open>save_to\<close> on a destination of \<open>n\<close> bytes: the bytes written, or an error.\<close>

record 'c vmx =
  vx_new :: "i32 \<Rightarrow> i32 \<Rightarrow> vmx_profile_kind \<Rightarrow> vmx_color_space \<Rightarrow> vmx_error + 'c"
  vx_quality :: "'c \<Rightarrow> i32"
  vx_set_quality :: "i32 \<Rightarrow> 'c \<Rightarrow> 'c"
  vx_encode :: "vmx_input \<Rightarrow> 'c \<Rightarrow> (vmx_error + unit) \<times> 'c"
  vx_save :: "nat \<Rightarrow> 'c \<Rightarrow> (vmx_error + bytes) \<times> 'c"

section \<open>Definitions\<close>

text \<open>Of the two buffers the length of \<open>buf\<close> and the capacity of \<open>spare\<close> (which is always empty) matter.\<close>

record 'c video_encoder =
  ve_codec :: "'c option"
  ve_width :: i32
  ve_height :: i32
  ve_profile :: vmx_profile_kind
  ve_color_space :: vmx_color_space
  ve_buf_len :: nat
  ve_spare_cap :: nat

definition video_encoder_new :: "'c video_encoder" where
  "video_encoder_new = \<lparr>ve_codec = None, ve_width = 0, ve_height = 0, ve_profile = ProfileDefault,
     ve_color_space = VmxUndefined, ve_buf_len = 0, ve_spare_cap = 0\<rparr>"

definition vmx_profile :: "quality \<Rightarrow> vmx_profile_kind" where
  "vmx_profile q = (case q of Low \<Rightarrow> ProfileOmtLq | Medium \<Rightarrow> ProfileOmtSq | High \<Rightarrow> ProfileOmtHq | QDefault \<Rightarrow> ProfileDefault)"

definition map_color_space :: "color_space \<Rightarrow> vmx_color_space" where
  "map_color_space cs = (case cs of Undefined \<Rightarrow> VmxUndefined | Bt601 \<Rightarrow> VmxBt601 | Bt709 \<Rightarrow> VmxBt709)"

definition effective_stride :: "codec \<Rightarrow> i32 \<Rightarrow> i32 \<Rightarrow> nat result" where
  "effective_stride codec width stride0 =
     (let packed = (case codec of Uyvy \<Rightarrow> sat_mul_s width 2 | Yuy2 \<Rightarrow> sat_mul_s width 2 | Bgra \<Rightarrow> sat_mul_s width 4 | _ \<Rightarrow> width);
          stride = (if sint stride0 \<le> 0 then packed else stride0) in
      if sint stride < sint width then
        Inl (InvalidArgument (''stride '' @ show_int (sint stride) @ '' is smaller than width '' @ show_int (sint width)))
      else Inr (nat (sint stride)))"

definition require_len :: "bytes \<Rightarrow> nat \<Rightarrow> string \<Rightarrow> unit result" where
  "require_len data need label =
     (if length data < need then
        Inl (InvalidArgument (label @ '' frame data too short: need '' @ show_nat need @ '', have '' @ show_nat (length data)))
      else Inr ())"

text \<open>The slice \<open>data[a..b]\<close>, which panics out of range.\<close>

definition slice_checked :: "nat \<Rightarrow> nat \<Rightarrow> bytes \<Rightarrow> bytes option" where
  "slice_checked a b data = (if a \<le> b \<and> b \<le> length data then Some (slice a b data) else None)"

text \<open>The arms of the \<open>match\<close> on the pixel format up to the call of the codec; \<open>None\<close> is a panic. Products of
  a stride and a height stay below \<open>2 ^ 62\<close>, so \<open>usize\<close> does not overflow.\<close>

definition packed_input :: "(bytes \<Rightarrow> nat \<Rightarrow> vmx_input) \<Rightarrow> string \<Rightarrow> bytes \<Rightarrow> nat \<Rightarrow> nat \<Rightarrow> vmx_input result option" where
  "packed_input enc label data stride height =
     (case require_len data (stride * height) label of Inl e \<Rightarrow> Some (Inl e) | Inr _ \<Rightarrow> Some (Inr (enc data stride)))"

definition encode_input :: "codec \<Rightarrow> video_flags \<Rightarrow> bytes \<Rightarrow> nat \<Rightarrow> nat \<Rightarrow> vmx_input result option" where
  "encode_input codec flags data stride height =
     (case codec of
        Uyvy \<Rightarrow> packed_input EncodeUyvy ''UYVY'' data stride height
      | Yuy2 \<Rightarrow> packed_input EncodeYuy2 ''YUY2'' data stride height
      | Bgra \<Rightarrow> packed_input (if vf_contains flags VF_ALPHA then EncodeBgra else EncodeBgrx) ''BGRA'' data stride height
      | Nv12 \<Rightarrow>
          let y_size = stride * height in
          (case require_len data (y_size + stride * ((height + 1) div 2)) ''NV12'' of
             Inl e \<Rightarrow> Some (Inl e)
           | Inr _ \<Rightarrow>
               (case (slice_checked 0 y_size data, slice_checked y_size (length data) data) of
                  (Some y, Some uv) \<Rightarrow> Some (Inr (EncodeNv12 y stride uv stride))
                | _ \<Rightarrow> None))
      | Yv12 \<Rightarrow>
          let half_stride = stride div 2; half_h = height div 2; y_size = stride * height; uv_size = half_stride * half_h in
          (case require_len data (y_size + uv_size * 2) ''YV12'' of
             Inl e \<Rightarrow> Some (Inl e)
           | Inr _ \<Rightarrow>
               (case (slice_checked 0 y_size data, slice_checked y_size (y_size + uv_size) data,
                      slice_checked (y_size + uv_size) (y_size + uv_size * 2) data) of
                  (Some y, Some v, Some u) \<Rightarrow> Some (Inr (EncodeYv12 y stride u half_stride v half_stride))
                | _ \<Rightarrow> None))
      | Vmx1 \<Rightarrow> Some (Inl (InvalidArgument ''VMX1 frames are passed through without encoding''))
      | Uyva \<Rightarrow> Some (Inl (NotImplemented ''UYVA encode''))
      | P216 \<Rightarrow> Some (Inl (NotImplemented ''P216 encode''))
      | Pa16 \<Rightarrow> Some (Inl (NotImplemented ''PA16 encode''))
      | Fpa1 \<Rightarrow> Some (Inl (InvalidArgument ''FPA1 is an audio codec'')))"

definition ensure_codec :: "'c vmx \<Rightarrow> i32 \<Rightarrow> i32 \<Rightarrow> vmx_profile_kind \<Rightarrow> vmx_color_space \<Rightarrow> 'c video_encoder \<Rightarrow>
    unit result \<times> 'c video_encoder" where
  "ensure_codec V width height profile color_space e =
     (let recreate = (ve_codec e = None \<or> ve_width e \<noteq> width \<or> ve_height e \<noteq> height \<or> ve_profile e \<noteq> profile \<or>
                      ve_color_space e \<noteq> color_space) in
      if \<not> recreate then (Inr (), e)
      else
        case vx_new V width height profile color_space of
          Inl err \<Rightarrow> (Inl (Vmx err), e)
        | Inr codec \<Rightarrow>
            let codec' = (case ve_codec e of Some prev \<Rightarrow> vx_set_quality V (vx_quality V prev) codec | None \<Rightarrow> codec) in
            (Inr (), e\<lparr>ve_codec := Some codec', ve_width := width, ve_height := height, ve_profile := profile,
                       ve_color_space := color_space\<rparr>))"

definition recycle_bitstream :: "nat \<Rightarrow> 'c video_encoder \<Rightarrow> 'c video_encoder" where
  "recycle_bitstream used_cap e = (if used_cap > ve_spare_cap e then e\<lparr>ve_spare_cap := used_cap\<rparr> else e)"

definition save_buf_min :: "i32 \<Rightarrow> i32 \<Rightarrow> nat" where
  "save_buf_min width height =
     (let pixels = usize_saturating_mul (nonneg width) (nonneg height) in max (usize_saturating_mul pixels 2) (2 ^ 20))"

definition SAVE_CAP :: nat where "SAVE_CAP = 256 * 2 ^ 20"

definition grow_save_buf :: "nat \<Rightarrow> nat result" where
  "grow_save_buf len =
     (let grown = max (usize_saturating_mul len 2) (usize_saturating_add len (2 ^ 20));
          next = min grown SAVE_CAP in
      if next \<le> len then Inl (Vmx BufferOverflow) else Inr next)"

lemma grow_save_buf_Inr: "grow_save_buf len = Inr n \<Longrightarrow> len < n \<and> n \<le> SAVE_CAP"
  by (auto simp: grow_save_buf_def Let_def split: if_splits)

text \<open>The loop of \<open>save_bitstream\<close> on the length of the buffer: it grows strictly and only below the limit.\<close>

function save_loop :: "'c vmx \<Rightarrow> nat \<Rightarrow> 'c \<Rightarrow> bytes result \<times> nat \<times> 'c" where
  "save_loop V len codec =
     (case vx_save V len codec of
        (Inr out, codec') \<Rightarrow> (Inr out, len, codec')
      | (Inl (OutputTooSmall need), codec') \<Rightarrow>
          (case grow_save_buf len of
             Inl e \<Rightarrow> (Inl e, len, codec')
           | Inr n \<Rightarrow> save_loop V (max need n) codec')
      | (Inl BufferOverflow, codec') \<Rightarrow>
          (case grow_save_buf len of
             Inl e \<Rightarrow> (Inl e, len, codec')
           | Inr n \<Rightarrow> save_loop V n codec')
      | (Inl e, codec') \<Rightarrow> (Inl (Vmx e), len, codec'))"
  by pat_completeness auto
termination
  by (relation "measure (\<lambda>(V, len, c). SAVE_CAP - len)") (auto dest!: grow_save_buf_Inr)

declare save_loop.simps [simp del]

text \<open>On success the filled buffer is handed out and the spare one, of length zero, takes its place; the outer
  \<open>None\<close> is the \<open>expect\<close> on a missing codec.\<close>

definition save_bitstream :: "'c vmx \<Rightarrow> 'c video_encoder \<Rightarrow> (bytes result \<times> 'c video_encoder) option" where
  "save_bitstream V e =
     (case ve_codec e of
        None \<Rightarrow> None
      | Some codec \<Rightarrow>
          let len = max (ve_buf_len e) (save_buf_min (ve_width e) (ve_height e)) in
          (case save_loop V len codec of
             (Inr out, _, codec') \<Rightarrow> Some (Inr out, e\<lparr>ve_codec := Some codec', ve_buf_len := 0, ve_spare_cap := 0\<rparr>)
           | (Inl err, len', codec') \<Rightarrow> Some (Inl err, e\<lparr>ve_codec := Some codec', ve_buf_len := len'\<rparr>)))"

definition encode_raw :: "'c vmx \<Rightarrow> media_frame \<Rightarrow> quality \<Rightarrow> 'c video_encoder \<Rightarrow> (bytes result \<times> 'c video_encoder) option" where
  "encode_raw V frame quality e =
     (case codec_from_i32 (mf_codec frame) of
        None \<Rightarrow> Some (Inl (InvalidArgument (''unsupported video codec '' @ show_int (sint (mf_codec frame)))), e)
      | Some codec \<Rightarrow>
          let width = mf_width frame; height = mf_height frame in
          if sint width < 16 \<or> sint height < 16 then
            Some (Inl (InvalidArgument (''video frame too small: '' @ show_int (sint width) @ ''x'' @ show_int (sint height))), e)
          else if mf_data frame = [] then Some (Inl (InvalidArgument ''video frame data is empty''), e)
          else
            case effective_stride codec width (mf_stride frame) of
              Inl err \<Rightarrow> Some (Inl err, e)
            | Inr stride \<Rightarrow>
                (case ensure_codec V width height (vmx_profile quality) (map_color_space (mf_color_space frame)) e of
                   (Inl err, e1) \<Rightarrow> Some (Inl err, e1)
                 | (Inr _, e1) \<Rightarrow>
                     (case ve_codec e1 of
                        None \<Rightarrow> None
                      | Some vmx \<Rightarrow>
                          (case encode_input codec (mf_flags frame) (mf_data frame) stride (nat (sint height)) of
                             None \<Rightarrow> None
                           | Some (Inl err) \<Rightarrow> Some (Inl err, e1)
                           | Some (Inr input) \<Rightarrow>
                               (case vx_encode V input vmx of
                                  (Inl err, vmx') \<Rightarrow> Some (Inl (Vmx err), e1\<lparr>ve_codec := Some vmx'\<rparr>)
                                | (Inr _, vmx') \<Rightarrow> save_bitstream V (e1\<lparr>ve_codec := Some vmx'\<rparr>))))))"

section \<open>Saving the bitstream\<close>

text \<open>What the codec documents about \<open>save_to\<close>, for a codec state that holds the bitstream \<open>bits\<close>: a destination
  long enough gets it, a shorter one is reported as too small in one of the two ways.\<close>

definition holds_bitstream :: "'c vmx \<Rightarrow> bytes \<Rightarrow> 'c \<Rightarrow> bool" where
  "holds_bitstream V bits codec \<longleftrightarrow>
     (\<forall>n. if length bits \<le> n then vx_save V n codec = (Inr bits, codec)
          else vx_save V n codec = (Inl BufferOverflow, codec) \<or>
               vx_save V n codec = (Inl (OutputTooSmall (length bits)), codec))"

lemma grow_below_cap: "len < SAVE_CAP \<Longrightarrow> \<exists>n. grow_save_buf len = Inr n"
  by (auto simp: grow_save_buf_def Let_def SAVE_CAP_def usize_saturating_mul_def usize_saturating_add_def usize_max_def)

lemma save_loop_returns:
  assumes "holds_bitstream V bits codec" "length bits \<le> SAVE_CAP"
  shows "\<exists>len'. save_loop V len codec = (Inr bits, len', codec)"
  using assms
proof (induction V len codec rule: save_loop.induct)
  case (1 V len codec)
  show ?case
  proof (cases "length bits \<le> len")
    case True
    with 1(3) have "vx_save V len codec = (Inr bits, codec)" by (simp add: holds_bitstream_def)
    then show ?thesis by (simp add: save_loop.simps)
  next
    case False
    with 1(4) obtain n where n: "grow_save_buf len = Inr n" using grow_below_cap by fastforce
    from False 1(3) consider "vx_save V len codec = (Inl BufferOverflow, codec)"
      | "vx_save V len codec = (Inl (OutputTooSmall (length bits)), codec)"
      unfolding holds_bitstream_def by meson
    then show ?thesis
    proof cases
      case 1
      with "1.IH"(2) [OF this [symmetric] refl refl n] "1.prems" n show ?thesis
        by (subst save_loop.simps) simp
    next
      case 2
      with "1.IH"(1) [OF this [symmetric] refl refl n] "1.prems" n show ?thesis
        by (subst save_loop.simps) simp
    qed
  qed
qed

text \<open>C32: Saving ends for every codec, and with a codec that holds a bitstream of at most 256 MiB it returns exactly
  that bitstream, however short the buffer was at the start and in whichever way the codec reports a short
  destination.\<close>

theorem save_bitstream_returns:
  assumes "ve_codec e = Some codec" "holds_bitstream V bits codec" "length bits \<le> SAVE_CAP"
  shows "\<exists>e'. save_bitstream V e = Some (Inr bits, e') \<and> ve_codec e' = Some codec \<and> ve_buf_len e' = 0"
proof -
  obtain len' where "save_loop V (max (ve_buf_len e) (save_buf_min (ve_width e) (ve_height e))) codec = (Inr bits, len', codec)"
    using save_loop_returns [OF assms(2,3)] by blast
  then show ?thesis using assms(1) by (simp add: save_bitstream_def Let_def)
qed

text \<open>A codec whose state is the bitstream of the last frame: its first plane.\<close>

definition plain_vmx :: "bytes vmx" where
  "plain_vmx = \<lparr>vx_new = (\<lambda>w h p c. Inr []), vx_quality = (\<lambda>_. 0), vx_set_quality = (\<lambda>_ c. c),
     vx_encode = (\<lambda>input c. (Inr (), case input of
         EncodeUyvy d _ \<Rightarrow> d | EncodeYuy2 d _ \<Rightarrow> d | EncodeBgra d _ \<Rightarrow> d | EncodeBgrx d _ \<Rightarrow> d
       | EncodeNv12 y _ _ _ \<Rightarrow> y | EncodeYv12 y _ _ _ _ _ \<Rightarrow> y)),
     vx_save = (\<lambda>n c. if length c \<le> n then (Inr c, c) else (Inl BufferOverflow, c))\<rparr>"

lemma plain_holds: "holds_bitstream plain_vmx bits bits"
  by (simp add: holds_bitstream_def plain_vmx_def)

theorem save_bitstream_returns_witness:
  "\<exists>e'. save_bitstream plain_vmx (video_encoder_new\<lparr>ve_codec := Some [1, 2, 3]\<rparr>) = Some (Inr [1, 2, 3], e') \<and>
     ve_codec e' = Some [1, 2, 3] \<and> ve_buf_len e' = 0"
  by (rule save_bitstream_returns) (simp_all add: plain_holds SAVE_CAP_def)

section \<open>Encoding\<close>

lemma encode_input_no_panic: "encode_input codec flags data stride height \<noteq> None"
  by (simp add: encode_input_def packed_input_def require_len_def slice_checked_def Let_def split: codec.split)

text \<open>The planes a successful check hands to the codec are as long as the codec will read them: rows of the given
  stride, full height for luma, half height, rounded up for NV12, for chroma.\<close>

definition planes_fit :: "nat \<Rightarrow> vmx_input \<Rightarrow> bool" where
  "planes_fit height input =
     (case input of
        EncodeUyvy d s \<Rightarrow> s * height \<le> length d
      | EncodeYuy2 d s \<Rightarrow> s * height \<le> length d
      | EncodeBgra d s \<Rightarrow> s * height \<le> length d
      | EncodeBgrx d s \<Rightarrow> s * height \<le> length d
      | EncodeNv12 y s uv s' \<Rightarrow> length y = s * height \<and> s' * ((height + 1) div 2) \<le> length uv
      | EncodeYv12 y s u su v sv \<Rightarrow> length y = s * height \<and> length u = su * (height div 2) \<and> length v = sv * (height div 2))"

lemma encode_input_planes:
  "encode_input codec flags data stride height = Some (Inr input) \<Longrightarrow> planes_fit height input"
  by (auto simp: encode_input_def packed_input_def require_len_def slice_checked_def Let_def planes_fit_def
      split: codec.splits if_splits) (simp add: mult.commute [of "height div 2"])

definition configured :: "media_frame \<Rightarrow> quality \<Rightarrow> 'c video_encoder \<Rightarrow> bool" where
  "configured frame q e \<longleftrightarrow> ve_codec e \<noteq> None \<and> ve_width e = mf_width frame \<and> ve_height e = mf_height frame \<and>
     ve_profile e = vmx_profile q \<and> ve_color_space e = map_color_space (mf_color_space frame)"

lemma ensure_codec_Inr:
  "ensure_codec V (mf_width frame) (mf_height frame) (vmx_profile q) (map_color_space (mf_color_space frame)) e = (Inr u, e') \<Longrightarrow>
     configured frame q e'"
  by (auto simp: ensure_codec_def configured_def Let_def split: if_splits sum.splits)

lemma save_bitstream_keeps:
  assumes "configured frame q e"
  shows "\<exists>r e'. save_bitstream V e = Some (r, e') \<and> configured frame q e'"
proof -
  obtain c where "ve_codec e = Some c" using assms by (auto simp: configured_def)
  with assms show ?thesis by (auto simp: save_bitstream_def Let_def configured_def split: prod.split sum.split)
qed

lemma configured_codec: "configured frame q e \<Longrightarrow> configured frame q (e\<lparr>ve_codec := Some c\<rparr>)"
  by (simp add: configured_def)

text \<open>C29: \<open>encode_raw\<close> never panics: no slice of the frame's data is out of range and the codec is always there
  when it is used. When it returns a bitstream, the pixel format is one of the five supported ones, the frame
  is at least 16 pixels each way, and the codec in use has the frame's geometry, profile and colour space.\<close>

theorem encode_raw_safe:
  "\<exists>r e'. encode_raw V frame q e = Some (r, e') \<and>
     (\<forall>bits. r = Inr bits \<longrightarrow>
        configured frame q e' \<and> 16 \<le> sint (mf_width frame) \<and> 16 \<le> sint (mf_height frame) \<and>
        codec_from_i32 (mf_codec frame) \<in> Some ` {Uyvy, Yuy2, Bgra, Nv12, Yv12})"
proof (cases "codec_from_i32 (mf_codec frame)")
  case None
  then show ?thesis by (simp add: encode_raw_def)
next
  case (Some codec)
  let ?st = "effective_stride codec (mf_width frame) (mf_stride frame)"
  let ?en = "ensure_codec V (mf_width frame) (mf_height frame) (vmx_profile q) (map_color_space (mf_color_space frame)) e"
  consider (guard) "sint (mf_width frame) < 16 \<or> sint (mf_height frame) < 16 \<or> mf_data frame = []"
    | (stride) err where "?st = Inl err" | (new) err e1 where "?en = (Inl err, e1)"
    | (enc) s e1 where "\<not> (sint (mf_width frame) < 16 \<or> sint (mf_height frame) < 16 \<or> mf_data frame = [])"
        "?st = Inr s" "?en = (Inr (), e1)"
  proof -
    obtain r e1 where "?en = (r, e1)" by fastforce
    with that show ?thesis by (cases r; cases ?st) auto
  qed
  then show ?thesis
  proof cases
    case (enc s e1)
    then have e1: "configured frame q e1" using ensure_codec_Inr by metis
    then obtain vmx where vmx: "ve_codec e1 = Some vmx" by (auto simp: configured_def)
    obtain r where r: "encode_input codec (mf_flags frame) (mf_data frame) s (nat (sint (mf_height frame))) = Some r"
      using encode_input_no_panic by (metis option.exhaust)
    show ?thesis
    proof (cases r)
      case (Inl err)
      with enc Some vmx r show ?thesis by (simp add: encode_raw_def Let_def)
    next
      case (Inr input)
      have codec: "codec \<in> {Uyvy, Yuy2, Bgra, Nv12, Yv12}"
        using r Inr by (cases codec) (auto simp: encode_input_def)
      obtain r2 vmx' where v: "vx_encode V input vmx = (r2, vmx')" by fastforce
      obtain r3 e3 where s: "save_bitstream V (e1\<lparr>ve_codec := Some vmx'\<rparr>) = Some (r3, e3)" "configured frame q e3"
        using save_bitstream_keeps [OF configured_codec [OF e1]] by blast
      show ?thesis
        using enc Some vmx r Inr v s codec by (cases r2) (auto simp: encode_raw_def Let_def)
    qed
  qed (use Some in \<open>auto simp: encode_raw_def Let_def split: sum.split\<close>)
qed

definition sample_raw :: media_frame where
  "sample_raw = media_frame_default\<lparr>mf_frame_type := FT_VIDEO, mf_codec := codec_as_i32 Nv12, mf_width := 16, mf_height := 16,
     mf_data := replicate 384 7\<rparr>"

theorem encode_raw_safe_witness:
  "\<exists>e'. encode_raw plain_vmx sample_raw High video_encoder_new = Some (Inr (replicate 256 7), e') \<and> configured sample_raw High e'"
proof -
  let ?e = "video_encoder_new\<lparr>ve_codec := Some (replicate 256 7), ve_width := 16, ve_height := 16, ve_profile := ProfileOmtHq\<rparr>"
  obtain len' where "save_loop plain_vmx (max 0 (save_buf_min 16 16)) (replicate 256 7) = (Inr (replicate 256 7), len', replicate 256 7)"
    using save_loop_returns [OF plain_holds, of "replicate 256 7"] by (auto simp: SAVE_CAP_def)
  then have "\<exists>e'. save_bitstream plain_vmx ?e = Some (Inr (replicate 256 7), e')"
    by (simp add: save_bitstream_def video_encoder_new_def Let_def)
  moreover have "encode_raw plain_vmx sample_raw High video_encoder_new = save_bitstream plain_vmx ?e"
    by (simp add: encode_raw_def sample_raw_def media_frame_default_def Let_def effective_stride_def ensure_codec_def
        video_encoder_new_def plain_vmx_def vmx_profile_def map_color_space_def encode_input_def require_len_def
        slice_checked_def slice_def del: codec_as_i32.simps)
  ultimately show ?thesis using encode_raw_safe [of plain_vmx sample_raw High video_encoder_new] by auto
qed

end
