(* ===== verification/Colorbar.thy ===== *)
theory Colorbar
  imports Ieee754 Video_Encoder Rust_Str
begin

text \<open>
  The test picture of the example senders (\<open>examples/common/colorbar.rs\<close>): the options of the command line and
  the colour bars in UYVY. \<open>None\<close> is a panic: an index or slice out of range, the assertion, a remainder by
  zero, an overflow of \<open>usize\<close>. Reading an \<open>f32\<close> from text is an argument (\<open>pf\<close>); the tone and the frame rate
  are in \<open>Colorbar_Sender\<close>. The lemmas show that the picture fills the frame with
  legal values and is accepted by the encoder, and that an odd width always panics.
\<close>

section \<open>Options\<close>

record send_options =
  op_name :: string
  op_width :: i32
  op_height :: i32
  op_fps_n :: i32
  op_fps_d :: i32
  op_animate :: bool
  op_tone_hz :: f32
  op_sample_rate :: i32
  op_channels :: i32
  op_audio_samples :: i32
  op_quality :: quality
  op_send_queue :: nat
  op_send_buffer :: nat
  op_recv_buffer :: nat

definition DEFAULT_AUDIO_SAMPLES :: i32 where "DEFAULT_AUDIO_SAMPLES = 480"

definition send_options_default :: send_options where
  "send_options_default = \<lparr>op_name = ''Colorbars'', op_width = 1920, op_height = 1080, op_fps_n = 30, op_fps_d = 1, op_animate = True,
     op_tone_hz = 0x447A0000, op_sample_rate = 48000, op_channels = 2, op_audio_samples = DEFAULT_AUDIO_SAMPLES, op_quality = Medium,
     op_send_queue = NETWORK_ASYNC_COUNT, op_send_buffer = NETWORK_SEND_BUFFER, op_recv_buffer = NETWORK_SEND_RECEIVE_BUFFER\<rparr>"

definition parse_usize :: "string \<Rightarrow> nat option" where
  "parse_usize s = (case parse_decimal (strip_plus s) of Some n \<Rightarrow> if n < 2 ^ 64 then Some n else None | None \<Rightarrow> None)"

text \<open>\<open>args.next().and_then(parse)\<close>: the argument is consumed whether it parses or not.\<close>

definition flag_value :: "(string \<Rightarrow> 'a option) \<Rightarrow> ('a \<Rightarrow> send_options) \<Rightarrow> send_options \<Rightarrow> string list \<Rightarrow> send_options \<times> string list" where
  "flag_value parse put opts args =
     (case args of [] \<Rightarrow> (opts, []) | a # rest \<Rightarrow> (case parse a of Some v \<Rightarrow> (put v, rest) | None \<Rightarrow> (opts, rest)))"

definition at_least_one :: "i32 \<Rightarrow> i32" where "at_least_one v = (if sint v < 1 then 1 else v)"

definition profile_quality :: "string \<Rightarrow> quality" where
  "profile_quality v =
     (let l = to_ascii_lowercase v in
      if l = ''lq'' \<or> l = ''low'' then Low else if l = ''hq'' \<or> l = ''high'' then High else Medium)"

definition apply_flag :: "(string \<Rightarrow> f32 option) \<Rightarrow> send_options \<Rightarrow> string \<Rightarrow> string list \<Rightarrow> send_options \<times> string list" where
  "apply_flag pf opts flag args =
     (if flag = ''--width'' then flag_value parse_i32 (\<lambda>v. opts\<lparr>op_width := v\<rparr>) opts args
      else if flag = ''--height'' then flag_value parse_i32 (\<lambda>v. opts\<lparr>op_height := v\<rparr>) opts args
      else if flag = ''--fps'' then flag_value parse_i32 (\<lambda>v. opts\<lparr>op_fps_n := v, op_fps_d := 1\<rparr>) opts args
      else if flag = ''--animate'' then (opts\<lparr>op_animate := True\<rparr>, args)
      else if flag = ''--no-animate'' then (opts\<lparr>op_animate := False\<rparr>, args)
      else if flag = ''--tone-hz'' then flag_value pf (\<lambda>v. opts\<lparr>op_tone_hz := v\<rparr>) opts args
      else if flag = ''--rate'' then flag_value parse_i32 (\<lambda>v. opts\<lparr>op_sample_rate := v\<rparr>) opts args
      else if flag = ''--channels'' then flag_value parse_i32 (\<lambda>v. opts\<lparr>op_channels := at_least_one v\<rparr>) opts args
      else if flag = ''--audio-samples'' then flag_value parse_i32 (\<lambda>v. opts\<lparr>op_audio_samples := at_least_one v\<rparr>) opts args
      else if flag = ''--profile'' then flag_value Some (\<lambda>v. opts\<lparr>op_quality := profile_quality v\<rparr>) opts args
      else if flag = ''--send-queue'' then flag_value parse_usize (\<lambda>v. opts\<lparr>op_send_queue := v\<rparr>) opts args
      else if flag = ''--send-buffer'' then flag_value parse_usize (\<lambda>v. opts\<lparr>op_send_buffer := max v 4096\<rparr>) opts args
      else if flag = ''--recv-buffer'' then flag_value parse_usize (\<lambda>v. opts\<lparr>op_recv_buffer := max v 4096\<rparr>) opts args
      else (opts, args))"

lemma flag_value_consumes: "flag_value parse put opts args = (opts', args') \<Longrightarrow> length args' \<le> length args"
  by (auto simp: flag_value_def split: list.splits option.splits)

lemma apply_flag_consumes: "apply_flag pf opts flag args = (opts', args') \<Longrightarrow> length args' \<le> length args"
  by (auto simp: apply_flag_def split: if_splits dest: flag_value_consumes)

function apply_flags :: "(string \<Rightarrow> f32 option) \<Rightarrow> send_options \<Rightarrow> string list \<Rightarrow> send_options" where
  "apply_flags pf opts [] = opts"
| "apply_flags pf opts (flag # args) = (case apply_flag pf opts flag args of (opts', args') \<Rightarrow> apply_flags pf opts' args')"
  by pat_completeness auto
termination
  by (relation "measure (\<lambda>(pf, opts, args). length args)") (auto simp: less_Suc_eq_le split: prod.split dest: apply_flag_consumes)

definition from_args :: "(string \<Rightarrow> f32 option) \<Rightarrow> string list \<Rightarrow> send_options" where
  "from_args pf args =
     (case args of
        [] \<Rightarrow> send_options_default
      | first # rest \<Rightarrow>
          if starts_with ''-'' first then (case apply_flag pf send_options_default first rest of (opts, rest') \<Rightarrow> apply_flags pf opts rest')
          else apply_flags pf (send_options_default\<lparr>op_name := first\<rparr>) rest)"

definition profile_name :: "send_options \<Rightarrow> string" where
  "profile_name opts = (case op_quality opts of Low \<Rightarrow> ''lq'' | High \<Rightarrow> ''hq'' | _ \<Rightarrow> ''sq'')"

text \<open>Whatever the command line, the options are in the ranges the senders rely on.\<close>

lemma from_args_ranges:
  "1 \<le> sint (op_channels (from_args pf args)) \<and> 1 \<le> sint (op_audio_samples (from_args pf args)) \<and>
   4096 \<le> op_send_buffer (from_args pf args) \<and> 4096 \<le> op_recv_buffer (from_args pf args)"
proof -
  define ok where "ok opts \<longleftrightarrow> 1 \<le> sint (op_channels opts) \<and> 1 \<le> sint (op_audio_samples opts) \<and>
    4096 \<le> op_send_buffer opts \<and> 4096 \<le> op_recv_buffer opts" for opts :: send_options
  have put: "ok opts \<Longrightarrow> (\<And>v. ok (f v)) \<Longrightarrow> flag_value parse f opts args = (opts', args') \<Longrightarrow> ok opts'"
    for parse :: "string \<Rightarrow> 'a option" and f opts args opts' args'
    by (auto simp: flag_value_def split: list.splits option.splits)
  have one: "1 \<le> sint (at_least_one v)" for v by (simp add: at_least_one_def)
  have flag: "ok opts'" if "ok opts" "apply_flag pf opts f args = (opts', args')" for pf opts f args opts' args'
    using that one unfolding apply_flag_def by (auto simp: ok_def split: if_splits elim!: put [unfolded ok_def, rotated 2])
  have flags: "ok opts \<Longrightarrow> ok (apply_flags pf opts args)" for pf opts args
  proof (induction pf opts args rule: apply_flags.induct)
    case (2 pf opts f args)
    obtain opts' args' where a: "apply_flag pf opts f args = (opts', args')" by fastforce
    from "2.IH" [OF a [symmetric]] flag [OF "2.prems" a] show ?case by (simp add: a)
  qed simp
  have start: "ok send_options_default" "ok (send_options_default\<lparr>op_name := n\<rparr>)" for n
    by (simp_all add: ok_def send_options_default_def DEFAULT_AUDIO_SAMPLES_def NETWORK_SEND_BUFFER_def NETWORK_SEND_RECEIVE_BUFFER_def)
  have "ok (from_args pf args)"
    using start flags flag by (auto simp: from_args_def split: list.split prod.split)
  then show ?thesis by (simp add: ok_def)
qed

section \<open>The picture\<close>

definition BARS_RGB :: "(nat \<times> nat \<times> nat) list" where
  "BARS_RGB = [(191, 191, 191), (191, 191, 0), (0, 191, 191), (0, 191, 0), (191, 0, 191), (191, 0, 0), (0, 0, 191), (0, 0, 0)]"

definition bar_at :: "nat \<Rightarrow> nat \<Rightarrow> nat \<times> nat \<times> nat" where
  "bar_at x width = BARS_RGB ! min ((x * 8) div max width 1) 7"

definition clamp :: "int \<Rightarrow> int \<Rightarrow> int \<Rightarrow> u8" where
  "clamp low high v = word_of_int (max low (min high v))"

text \<open>\<open>>> 8\<close> on an \<open>i32\<close> rounds down, as \<open>div\<close> does; the sums are far from overflow.\<close>

definition rgb_to_yuv :: "nat \<times> nat \<times> nat \<Rightarrow> u8 \<times> u8 \<times> u8" where
  "rgb_to_yuv rgb =
     (case rgb of (r0, g0, b0) \<Rightarrow>
        let r = int r0; g = int g0; b = int b0 in
        (clamp 16 235 ((66 * r + 129 * g + 25 * b + 128) div 256 + 16),
         clamp 16 240 ((- 38 * r - 74 * g + 112 * b + 128) div 256 + 128),
         clamp 16 240 ((112 * r - 94 * g - 18 * b + 128) div 256 + 128)))"

text \<open>\<open>phase.rem_euclid(1.0)\<close> as a ratio, \<open>None\<close> for a NaN; the remainder of a positive number is exact, that of a
  negative one is added to 1 and rounded. Then \<open>(remainder * c as f32) as usize\<close>, a NaN giving 0.\<close>

definition f32_fraction :: "f32 \<Rightarrow> (nat \<times> nat) option" where
  "f32_fraction p =
     (let m = unat p mod 2 ^ 31 in
      if 255 * 2 ^ 23 \<le> m then None
      else case f32_ratio m of
        (n, d) \<Rightarrow>
          let r = n mod d in
          if 2 ^ 31 \<le> unat p \<and> r \<noteq> 0 then Some (f32_ratio (f32_bits (d - r) d)) else Some (r, d))"

definition scaled_phase :: "f32 \<Rightarrow> nat \<Rightarrow> nat" where
  "scaled_phase p c =
     (case f32_fraction p of
        None \<Rightarrow> 0
      | Some (n, d) \<Rightarrow>
          (case f32_ratio (f32_bits c 1) of
             (n', d') \<Rightarrow> (case f32_ratio (f32_bits (n * n') (d * d')) of (a, b) \<Rightarrow> a div b)))"

definition phase_is_zero :: "f32 \<Rightarrow> bool" where "phase_is_zero p \<longleftrightarrow> unat p mod 2 ^ 31 = 0"

text \<open>Two pixels of the line.\<close>

definition bar_pair :: "nat \<Rightarrow> nat \<Rightarrow> nat \<Rightarrow> u8 list" where
  "bar_pair w offset x =
     (case (rgb_to_yuv (bar_at ((x + offset) mod w) w), rgb_to_yuv (bar_at ((x + 1 + offset) mod w) w)) of
        ((y0, u0, v0), (y1, u1, v1)) \<Rightarrow>
          [word_of_nat ((unat u0 + unat u1) div 2), y0, word_of_nat ((unat v0 + unat v1) div 2), y1])"

text \<open>The line has \<open>2 * w\<close> bytes; with an odd width the last pair does not fit and its indices are out of range.\<close>

definition bar_line :: "nat \<Rightarrow> nat \<Rightarrow> u8 list option" where
  "bar_line w offset = (if odd w then None else Some (concat (map (\<lambda>i. bar_pair w offset (2 * i)) [0..<w div 2])))"

definition mark_row :: "nat \<Rightarrow> u8 list \<Rightarrow> u8 list" where
  "mark_row w row = fold (\<lambda>i row. row[4 * i + 1 := 235, 4 * i + 3 := 235]) [0..<w div 2] row"

text \<open>\<open>as usize\<close> of a negative \<open>i32\<close> is huge: the line would overflow \<open>usize\<close>.\<close>

definition fill_colorbar_uyvy :: "u8 list \<Rightarrow> i32 \<Rightarrow> i32 \<Rightarrow> f32 \<Rightarrow> u8 list option" where
  "fill_colorbar_uyvy dst width height phase =
     (let w = unat (scast width :: 64 word); h = unat (scast height :: 64 word); stride = w * 2 in
      if 2 ^ 64 \<le> stride \<or> 2 ^ 64 \<le> stride * h \<or> length dst < stride * h then None
      else
        let offset = (if phase_is_zero phase then 0 else scaled_phase phase w) in
        case bar_line w offset of
          None \<Rightarrow> None
        | Some line \<Rightarrow>
            let dst1 = concat (replicate h line) @ drop (stride * h) dst in
            if phase_is_zero phase then Some dst1
            else if h = 0 then None
            else
              let my = scaled_phase phase h mod h in
              Some (take (my * stride) dst1 @ mark_row w (take stride (drop (my * stride) dst1)) @ drop ((my + 1) * stride) dst1))"

lemma clamp_range: "0 \<le> low \<Longrightarrow> low \<le> high \<Longrightarrow> high < 256 \<Longrightarrow> nat low \<le> unat (clamp low high v) \<and> unat (clamp low high v) \<le> nat high"
  using take_bit_int_eq_self [of "max low (min high v)" 8]
  by (auto simp: clamp_def unat_eq_nat_uint uint_word_of_int_eq max_def min_def)

text \<open>Studio range: luma in every second byte, chroma in the others.\<close>

definition studio :: "nat \<Rightarrow> u8 \<Rightarrow> bool" where
  "studio i b \<longleftrightarrow> 16 \<le> unat b \<and> unat b \<le> (if even i then 240 else 235)"

definition studio_bytes :: "u8 list \<Rightarrow> bool" where
  "studio_bytes bs \<longleftrightarrow> even (length bs) \<and> (\<forall>i < length bs. studio i (bs ! i))"

lemma studio_append: "studio_bytes xs \<Longrightarrow> studio_bytes ys \<Longrightarrow> studio_bytes (xs @ ys)"
proof -
  assume xs: "studio_bytes xs" and ys: "studio_bytes ys"
  have "studio i ((xs @ ys) ! i)" if i: "i < length (xs @ ys)" for i
  proof (cases "i < length xs")
    case False
    then have "even (i - length xs) = even i" using xs by (simp add: studio_bytes_def)
    moreover have "studio (i - length xs) (ys ! (i - length xs))" using ys i False by (simp add: studio_bytes_def)
    ultimately show ?thesis using False by (simp add: nth_append studio_def)
  qed (use xs in \<open>simp add: nth_append studio_bytes_def\<close>)
  with xs ys show ?thesis by (simp add: studio_bytes_def)
qed

lemma studio_concat: "\<forall>xs \<in> set xss. studio_bytes xs \<Longrightarrow> studio_bytes (concat xss)"
  by (induction xss) (simp_all add: studio_append, simp add: studio_bytes_def)

lemma rgb_to_yuv_range:
  assumes "rgb_to_yuv rgb = (y, u, v)"
  shows "16 \<le> unat y \<and> unat y \<le> 235" "16 \<le> unat u \<and> unat u \<le> 240" "16 \<le> unat v \<and> unat v \<le> 240"
  using assms clamp_range [of 16 235] clamp_range [of 16 240] by (auto simp: rgb_to_yuv_def Let_def split: prod.splits)

lemma studio_four: "studio_bytes [a, b, c, d] \<longleftrightarrow> studio 0 a \<and> studio 1 b \<and> studio 0 c \<and> studio 1 d"
proof -
  have "(\<forall>i < 4. P i) \<longleftrightarrow> P 0 \<and> P 1 \<and> P 2 \<and> P 3" for P :: "nat \<Rightarrow> bool"
    by (auto simp: less_Suc_eq eval_nat_numeral)
  moreover have "length [a, b, c, d] = 4" by simp
  ultimately show ?thesis unfolding studio_bytes_def by (simp only:) (simp add: studio_def)
qed

lemma bar_pair_studio: "studio_bytes (bar_pair w offset x)" "length (bar_pair w offset x) = 4"
proof -
  obtain y0 u0 v0 y1 u1 v1 where p: "rgb_to_yuv (bar_at ((x + offset) mod w) w) = (y0, u0, v0)"
    "rgb_to_yuv (bar_at ((x + 1 + offset) mod w) w) = (y1, u1, v1)" by (metis prod_cases3)
  show "length (bar_pair w offset x) = 4" by (simp only: bar_pair_def p prod.case) simp
  have mean: "16 \<le> unat (word_of_nat ((unat a + unat b) div 2) :: u8) \<and> unat (word_of_nat ((unat a + unat b) div 2) :: u8) \<le> 240"
    if "16 \<le> unat a \<and> unat a \<le> 240" "16 \<le> unat b \<and> unat b \<le> 240" for a b :: u8
  proof -
    have "(unat a + unat b) div 2 < 256" "16 \<le> (unat a + unat b) div 2" "(unat a + unat b) div 2 \<le> 240" using that by auto
    then show ?thesis by (simp add: unat_of_nat)
  qed
  show "studio_bytes (bar_pair w offset x)"
    unfolding bar_pair_def p prod.case studio_four
    using rgb_to_yuv_range [OF p(1)] rgb_to_yuv_range [OF p(2)] mean [of u0 u1] mean [of v0 v1]
    by (simp add: studio_def)
qed

lemma studio_take: "studio_bytes bs \<Longrightarrow> even n \<Longrightarrow> studio_bytes (take n bs)"
  by (auto simp: studio_bytes_def min_def)

lemma studio_drop: "studio_bytes bs \<Longrightarrow> even n \<Longrightarrow> studio_bytes (drop n bs)"
proof -
  assume bs: "studio_bytes bs" and n: "even n"
  have "studio i (drop n bs ! i)" if i: "i < length (drop n bs)" for i
  proof -
    have "studio (n + i) (bs ! (n + i))" using bs i by (simp add: studio_bytes_def)
    then show ?thesis using n i by (simp add: studio_def)
  qed
  with bs n show ?thesis by (simp add: studio_bytes_def)
qed

lemma bar_line_studio:
  assumes "bar_line w offset = Some row"
  shows "studio_bytes row" "length row = 2 * w"
proof -
  have row: "even w" "row = concat (map (\<lambda>i. bar_pair w offset (2 * i)) [0..<w div 2])" using assms by (auto simp: bar_line_def split: if_splits)
  show "studio_bytes row" unfolding row(2) by (rule studio_concat) (auto simp: bar_pair_studio)
  have "length (concat (map (\<lambda>i. bar_pair w offset (2 * i)) [0..<n])) = 4 * n" for n by (induction n) (simp_all add: bar_pair_studio)
  then show "length row = 2 * w" using row(1) by (simp add: row(2))
qed

lemma mark_row_studio:
  assumes "studio_bytes row"
  shows "studio_bytes (mark_row w row)" "length (mark_row w row) = length row"
proof -
  have update: "studio_bytes (bs[i := 235])" if "studio_bytes bs" for bs i
  proof -
    have "studio j (bs[i := 235] ! j)" if "j < length bs" for j
    proof (cases "j = i")
      case True
      then show ?thesis using that by (simp add: studio_def)
    qed (use \<open>studio_bytes bs\<close> that in \<open>simp add: studio_bytes_def\<close>)
    with that show ?thesis by (simp add: studio_bytes_def)
  qed
  have "studio_bytes (fold (\<lambda>i row. row[4 * i + 1 := 235, 4 * i + 3 := 235]) is bs) \<and>
      length (fold (\<lambda>i row. row[4 * i + 1 := 235, 4 * i + 3 := 235]) is bs) = length bs" if "studio_bytes bs" for "is" and bs :: "u8 list"
    using that by (induction "is" arbitrary: bs) (simp_all add: update)
  with assms show "studio_bytes (mark_row w row)" "length (mark_row w row) = length row" by (simp_all add: mark_row_def)
qed

lemma mark_slice:
  assumes "studio_bytes P" "even a" "even n" "a + n \<le> length P" "Q = take a P @ mark_row w (take n (drop a P)) @ drop (a + n) P"
  shows "studio_bytes Q" "length Q = length P"
proof -
  have slice: "studio_bytes (take n (drop a P))" using assms(1-3) by (intro studio_take studio_drop)
  show "studio_bytes Q" unfolding assms(5) using assms(1-3) slice
    by (intro studio_append studio_take [of P] studio_drop [of P] mark_row_studio) simp_all
  show "length Q = length P" using assms(4) by (simp add: assms(5) mark_row_studio(2) [OF slice])
qed

lemma mark_slice_append:
  assumes "a + n \<le> length P"
  shows "take a (P @ D) @ mark_row w (take n (drop a (P @ D))) @ drop (a + n) (P @ D) =
    (take a P @ mark_row w (take n (drop a P)) @ drop (a + n) P) @ D"
  using assms by simp

lemma usize_of_i32: "0 \<le> sint (i :: i32) \<Longrightarrow> unat (scast i :: 64 word) = nat (sint i) \<and> nat (sint i) < 2 ^ 31"
proof -
  assume i: "0 \<le> sint i"
  have b: "sint i < 2 ^ 31" using sint_lt [of i] by simp
  then have "take_bit 64 (sint i) = sint i" using i by (intro take_bit_int_eq_self) simp_all
  then have "uint (scast i :: 64 word) = sint i" unfolding scast_eq uint_word_of_int_eq by simp
  then have "unat (scast i :: 64 word) = nat (sint i)" by (simp only: unat_eq_nat_uint)
  moreover have "nat (sint i) < 2 ^ 31" using b i by (simp only: nat_less_iff) simp
  ultimately show ?thesis ..
qed

text \<open>The test picture. For an even width and any phase, infinite and not-a-number included, the buffer is filled with
  studio-range UYVY in its first \<open>2 * width * height\<close> bytes and kept beyond them, and the encoder takes it as a
  frame of that size. An odd width panics whatever the buffer.\<close>

lemma colorbar_picture:
  assumes "0 < sint width" "0 < sint height" "w = nat (sint width)" "h = nat (sint height)" "2 * w * h \<le> length dst"
  shows "if even w
    then \<exists>pic. fill_colorbar_uyvy dst width height phase = Some (pic @ drop (2 * w * h) dst) \<and> length pic = 2 * w * h \<and> studio_bytes pic \<and>
      encode_input Uyvy flags (pic @ drop (2 * w * h) dst) (2 * w) h = Some (Inr (EncodeUyvy (pic @ drop (2 * w * h) dst) (2 * w)))
    else fill_colorbar_uyvy dst width height phase = None"
proof -
  have u: "unat (scast width :: 64 word) = w" "unat (scast height :: 64 word) = h" "0 < w" "0 < h" and b: "w < 2 ^ 31" "h < 2 ^ 31"
    using usize_of_i32 [of width] usize_of_i32 [of height] assms(1-4) by auto
  have "w * 2 * h < 2 ^ 32 * 2 ^ 31" using b by (intro mult_strict_mono) auto
  then have fits: "w * 2 < 2 ^ 64" "w * 2 * h < 2 ^ 64" using b by auto
  let ?offset = "if phase_is_zero phase then 0 else scaled_phase phase w" and ?my = "scaled_phase phase h mod h"
  show ?thesis
  proof (cases "even w")
    case False
    then show ?thesis by (simp add: fill_colorbar_uyvy_def u bar_line_def Let_def)
  next
    case True
    then obtain row where row: "bar_line w ?offset = Some row" by (simp add: bar_line_def)
    let ?P = "concat (replicate h row)" and ?D = "drop (2 * w * h) dst"
    have P: "studio_bytes ?P" "length ?P = 2 * w * h"
      using bar_line_studio [OF row] by (auto intro!: studio_concat simp: length_concat sum_list_replicate)
    have "?my < h" using u(4) by simp
    then have "(?my + 1) * (w * 2) \<le> h * (w * 2)" by (intro mult_right_mono) simp_all
    then have my: "?my * (w * 2) + w * 2 \<le> length ?P" using P(2) by (simp add: algebra_simps)
    let ?a = "?my * (w * 2)"
    let ?Q = "take ?a ?P @ mark_row w (take (w * 2) (drop ?a ?P)) @ drop (?a + w * 2) ?P"
    have Q: "studio_bytes ?Q" "length ?Q = 2 * w * h"
      using mark_slice [OF P(1) _ _ my refl, of w] P(2) by simp_all
    have next_row: "(?my + 1) * (w * 2) = ?a + w * 2" by simp
    note marked = mark_slice_append [OF my, of ?D w]
    have size: "w * 2 * h = 2 * w * h" by simp
    have "\<not> (2 ^ 64 \<le> w * 2 \<or> 2 ^ 64 \<le> w * 2 * h \<or> length dst < w * 2 * h)" using fits assms(5) size by simp
    then have "fill_colorbar_uyvy dst width height phase =
        (if phase_is_zero phase then Some (?P @ ?D)
         else Some (take ?a (?P @ ?D) @ mark_row w (take (w * 2) (drop ?a (?P @ ?D))) @ drop ((?my + 1) * (w * 2)) (?P @ ?D)))"
      unfolding fill_colorbar_uyvy_def Let_def u using row u(4) by (simp only: size if_False option.case) simp
    then have "fill_colorbar_uyvy dst width height phase = Some ((if phase_is_zero phase then ?P else ?Q) @ ?D)"
      unfolding next_row marked by simp
    moreover have "encode_input Uyvy flags (X @ ?D) (2 * w) h = Some (Inr (EncodeUyvy (X @ ?D) (2 * w)))" if "length X = 2 * w * h" for X
      using that by (simp add: encode_input_def packed_input_def require_len_def)
    ultimately show ?thesis using P Q True by (intro if_P [THEN iffD2] exI [of _ "if phase_is_zero phase then ?P else ?Q"]) auto
  qed
qed

end
