(* ===== verification/Bounded_Queue.thy ===== *)
theory Bounded_Queue
  imports Prelude "HOL-Library.Sublist"
begin

text \<open>
  The interface of a bounded first-in-first-out queue that drops instead of blocking, as the sender's write
  queues (which refuse the newest item) and the receiver's queue of decoded frames (which discards the oldest)
  are. \<open>offer\<close> returns the items dropped, \<open>poll\<close> the item taken. The locale's lemmas are about every
  interleaving of offers and polls: what comes out is a subsequence of what went in, the length stays within
  the bound, and no item is unaccounted for.
\<close>

locale bounded_queue =
  fixes inv :: "'q \<Rightarrow> bool"
    and bound :: "'q \<Rightarrow> nat"
    and items :: "'q \<Rightarrow> 'a list"
    and offer :: "'a \<Rightarrow> 'q \<Rightarrow> 'a list \<times> 'q"
    and poll :: "'q \<Rightarrow> 'a option \<times> 'q"
  assumes offer_inv: "inv q \<Longrightarrow> offer x q = (ds, q') \<Longrightarrow> inv q' \<and> bound q' = bound q"
    and offer_bound: "inv q \<Longrightarrow> length (items q) \<le> bound q \<Longrightarrow> offer x q = (ds, q') \<Longrightarrow> length (items q') \<le> bound q"
    and offer_order: "inv q \<Longrightarrow> offer x q = (ds, q') \<Longrightarrow> subseq (items q') (items q @ [x])"
    and offer_count: "inv q \<Longrightarrow> offer x q = (ds, q') \<Longrightarrow> length (items q') + length ds = Suc (length (items q))"
    and poll_Some: "inv q \<Longrightarrow> poll q = (Some x, q') \<Longrightarrow> items q = x # items q' \<and> inv q' \<and> bound q' = bound q"
    and poll_None: "inv q \<Longrightarrow> poll q = (None, q') \<Longrightarrow> items q = [] \<and> items q' = [] \<and> inv q' \<and> bound q' = bound q"
begin

text \<open>A run over operations, \<open>Some x\<close> offering \<open>x\<close> and \<open>None\<close> polling: the items taken, the items dropped, the
  final queue.\<close>

fun run :: "'a option list \<Rightarrow> 'q \<Rightarrow> 'a list \<times> 'a list \<times> 'q" where
  "run [] q = ([], [], q)"
| "run (Some x # ops) q =
     (case offer x q of (ds, q') \<Rightarrow> case run ops q' of (out, drp, q'') \<Rightarrow> (out, ds @ drp, q''))"
| "run (None # ops) q =
     (case poll q of
        (Some x, q') \<Rightarrow> (case run ops q' of (out, drp, q'') \<Rightarrow> (x # out, drp, q''))
      | (None, q') \<Rightarrow> run ops q')"

abbreviation offered :: "'a option list \<Rightarrow> 'a list" where
  "offered ops \<equiv> map the (filter (\<lambda>opn. opn \<noteq> None) ops)"

lemma run_facts:
  assumes "inv q" "length (items q) \<le> bound q" "run ops q = (out, drp, q')"
  shows "inv q' \<and> bound q' = bound q \<and> length (items q') \<le> bound q \<and>
    subseq (out @ items q') (items q @ offered ops) \<and>
    length out + length drp + length (items q') = length (items q) + length (offered ops)"
  using assms
proof (induction ops q arbitrary: out drp q' rule: run.induct)
  case (2 x ops q)
  obtain ds q1 where o: "offer x q = (ds, q1)" by fastforce
  obtain out1 drp1 q2 where r: "run ops q1 = (out1, drp1, q2)" by (metis prod_cases3)
  have q1: "inv q1" "bound q1 = bound q" using offer_inv [OF 2(2) o] by auto
  have len: "length (items q1) \<le> bound q1" using offer_bound [OF 2(2,3) o] q1(2) by simp
  from 2(1) [OF o [symmetric] q1(1) len r]
  have ih: "inv q2 \<and> bound q2 = bound q1 \<and> length (items q2) \<le> bound q1 \<and>
      subseq (out1 @ items q2) (items q1 @ offered ops) \<and>
      length out1 + length drp1 + length (items q2) = length (items q1) + length (offered ops)" .
  have "subseq (items q1 @ offered ops) ((items q @ [x]) @ offered ops)"
    using offer_order [OF 2(2) o] by (intro list_emb_append_mono) auto
  then have "subseq (out1 @ items q2) ((items q @ [x]) @ offered ops)" using ih subseq_order.order_trans by blast
  then show ?case using 2(4) o r ih q1 offer_count [OF 2(2) o] by auto
next
  case (3 ops q)
  obtain r q1 where p: "poll q = (r, q1)" by fastforce
  obtain out1 drp1 q2 where r1: "run ops q1 = (out1, drp1, q2)" by (metis prod_cases3)
  show ?case
  proof (cases r)
    case None
    with p poll_None [OF 3(3)] have q1: "items q = []" "items q1 = []" "inv q1" "bound q1 = bound q" by auto
    then have "length (items q1) \<le> bound q1" by simp
    from 3(1) [OF p [symmetric] None q1(3) this r1] show ?thesis using 3(5) p None r1 q1 by auto
  next
    case (Some x)
    with p poll_Some [OF 3(3)] have q1: "items q = x # items q1" "inv q1" "bound q1 = bound q" by auto
    then have len: "length (items q1) \<le> bound q1" using 3(4) by simp
    from 3(2) [OF p [symmetric] Some q1(2) len r1] show ?thesis using 3(5) p Some r1 q1 by auto
  qed
qed auto

end

end
