(* ===== verification/Sender_Peers.thy ===== *)
theory Sender_Peers
  imports Channel Metadata Bounded_Queue
begin

text \<open>
  The peers of a sender (the second half of \<open>src/send.rs\<close>): what a peer has subscribed to, how the control
  bytes it sends are reassembled and applied, how the subscriptions of all peers are combined, and how a
  frame is queued and written to the peers. A peer's socket is the bytes written to it; the outcomes of the
  system calls are arguments. The hash map of peers is an association list in an arbitrary order.
\<close>

section \<open>Definitions\<close>

record peer_state =
  ps_video :: bool
  ps_audio :: bool
  ps_metadata :: bool
  ps_preview :: bool
  ps_quality :: quality
  ps_tally :: tally

definition peer_state_default :: peer_state where
  "peer_state_default = \<lparr>ps_video = False, ps_audio = False, ps_metadata = False, ps_preview = False,
     ps_quality = QDefault, ps_tally = tally_new 0 0\<rparr>"

record peer =
  pe_state :: peer_state
  pe_inbound :: bytes
  pe_wire :: bytes

type_synonym peers = "(nat \<times> peer) list"

definition PEER_INBOUND_CAP :: nat where "PEER_INBOUND_CAP = 64 * 1024"

subsection \<open>Inbound control bytes\<close>

fun apply_item :: "metadata \<Rightarrow> peer_state \<Rightarrow> peer_state" where
  "apply_item (MSubscribe video audio metadata) state =
     (let s1 = (if video then state\<lparr>ps_video := True\<rparr> else state);
          s2 = (if audio then s1\<lparr>ps_audio := True\<rparr> else s1) in
      if metadata then s2\<lparr>ps_metadata := True\<rparr> else s2)"
| "apply_item (MSettings preview quality) state =
     (let s1 = (case preview of Some on \<Rightarrow> state\<lparr>ps_preview := on\<rparr> | None \<Rightarrow> state) in
      case quality of Some q \<Rightarrow> s1\<lparr>ps_quality := q\<rparr> | None \<Rightarrow> s1)"
| "apply_item (MTally tally) state = state\<lparr>ps_tally := tally\<rparr>"
| "apply_item _ state = state"

definition apply_metadata :: "rox \<Rightarrow> string \<Rightarrow> peer_state \<Rightarrow> peer_state" where
  "apply_metadata rox xml state = fold apply_item (parse_metadata rox xml) state"

definition frame_effect :: "rox \<Rightarrow> assembled_frame \<Rightarrow> peer_state \<Rightarrow> peer_state" where
  "frame_effect rox frame state =
     (if ft_contains (fh_frame_type (af_header frame)) FT_METADATA then
        (case decode_metadata_xml (af_data frame) of Inr xml \<Rightarrow> apply_metadata rox xml state | Inl _ \<Rightarrow> state)
      else
        (case decode_metadata_xml (af_metadata frame) of Inr xml \<Rightarrow> apply_metadata rox xml state | Inl _ \<Rightarrow> state))"

definition ingest_frame :: "rox \<Rightarrow> bytes \<Rightarrow> peer_state \<Rightarrow> peer_state" where
  "ingest_frame rox frame_bytes state =
     (case assembled_from_bytes frame_bytes of Inr frame \<Rightarrow> frame_effect rox frame state | Inl _ \<Rightarrow> state)"

function ingest_loop :: "rox \<Rightarrow> peer_state \<Rightarrow> bytes \<Rightarrow> peer_state \<times> bytes" where
  "ingest_loop rox state inbound =
     (if length inbound < HEADER_SIZE then (state, inbound)
      else
        case frame_header_from_bytes inbound of
          Inl _ \<Rightarrow> (state, [])
        | Inr header \<Rightarrow>
            if sint (fh_data_length header) < 0 then (state, [])
            else
              let total = HEADER_SIZE + nat (sint (fh_data_length header)) in
              if length inbound < total then (state, inbound)
              else ingest_loop rox (ingest_frame rox (take total inbound) state) (drop total inbound))"
  by pat_completeness auto
termination
  by (relation "measure (\<lambda>(rox, state, inbound). length inbound)") (auto simp: HEADER_SIZE_def)

declare ingest_loop.simps [simp del]

definition ingest_peer_bytes :: "rox \<Rightarrow> peer_state \<Rightarrow> bytes \<Rightarrow> bytes \<Rightarrow> peer_state \<times> bytes" where
  "ingest_peer_bytes rox state inbound data =
     (let inbound' = inbound @ data in
      if length inbound' > PEER_INBOUND_CAP then (state, [])
      else ingest_loop rox state inbound')"

text \<open>One peer in \<open>poll_peer_metadata\<close>, with the outcome of its \<open>read\<close>: \<open>None\<close> when the peer is dead.\<close>

definition poll_peer :: "rox \<Rightarrow> read_result \<Rightarrow> peer \<Rightarrow> peer option" where
  "poll_peer rox r p =
     (case r of
        ReadOk bs \<Rightarrow>
          if bs = [] then None
          else (case ingest_peer_bytes rox (pe_state p) (pe_inbound p) bs of
                  (state, inbound) \<Rightarrow> Some (p\<lparr>pe_state := state, pe_inbound := inbound\<rparr>))
      | ReadErr k _ \<Rightarrow> if k = WouldBlock \<or> k = TimedOut then Some p else None)"

definition poll_peers :: "rox \<Rightarrow> (nat \<Rightarrow> read_result) \<Rightarrow> peers \<Rightarrow> peers" where
  "poll_peers rox reads ps =
     concat (map (\<lambda>(id, p). case poll_peer rox (reads id) p of Some p' \<Rightarrow> [(id, p')] | None \<Rightarrow> []) ps)"

subsection \<open>The combined subscription\<close>

definition combine_peer :: "peer \<Rightarrow> peer_state \<times> quality \<Rightarrow> peer_state \<times> quality" where
  "combine_peer p acc =
     (case acc of (agg, best_q) \<Rightarrow>
        let s = pe_state p in
        (agg\<lparr>ps_video := ps_video agg \<or> ps_video s, ps_audio := ps_audio agg \<or> ps_audio s,
             ps_metadata := ps_metadata agg \<or> ps_metadata s, ps_preview := ps_preview agg \<or> ps_preview s,
             ps_tally := \<lparr>t_preview = t_preview (ps_tally agg) OR t_preview (ps_tally s),
                          t_program = t_program (ps_tally agg) OR t_program (ps_tally s)\<rparr>\<rparr>,
         if sint (quality_i32 (ps_quality s)) > sint (quality_i32 best_q) then ps_quality s else best_q))"

definition combined_subscription :: "quality \<Rightarrow> peers \<Rightarrow> peer_state" where
  "combined_subscription policy ps =
     (case fold combine_peer (map snd ps) (peer_state_default, QDefault) of
        (agg, best_q) \<Rightarrow> agg\<lparr>ps_quality := (if policy = QDefault then best_q else policy)\<rparr>)"

subsection \<open>Outbound frames\<close>

record wire_bytes =
  wb_ft :: frame_type
  wb_full :: bytes
  wb_preview :: "bytes option"

definition peer_wants :: "peer_state \<Rightarrow> frame_type \<Rightarrow> bool" where
  "peer_wants state ft =
     (if ft_contains ft FT_METADATA \<and> \<not> ft_contains ft FT_VIDEO \<and> \<not> ft_contains ft FT_AUDIO then True
      else if ft_contains ft FT_VIDEO then ps_video state
      else if ft_contains ft FT_AUDIO then ps_audio state
      else True)"

definition bytes_for :: "wire_bytes \<Rightarrow> peer_state \<Rightarrow> bytes" where
  "bytes_for wire state =
     (if ft_contains (wb_ft wire) FT_VIDEO \<and> ps_preview state then
        (case wb_preview wire of Some b \<Rightarrow> b | None \<Rightarrow> wb_full wire)
      else wb_full wire)"

text \<open>Milliseconds a write to one peer may take; the time-out shows in the outcome of the write.\<close>

definition PEER_VIDEO_WRITE_TIMEOUT :: nat where "PEER_VIDEO_WRITE_TIMEOUT = 40"
definition PEER_AUDIO_WRITE_TIMEOUT :: nat where "PEER_AUDIO_WRITE_TIMEOUT = 8"

definition peer_write_timeout :: "wire_bytes \<Rightarrow> nat" where
  "peer_write_timeout wire =
     (if ft_contains (wb_ft wire) FT_AUDIO \<and> \<not> ft_contains (wb_ft wire) FT_VIDEO then PEER_AUDIO_WRITE_TIMEOUT
      else PEER_VIDEO_WRITE_TIMEOUT)"

text \<open>One peer in \<open>write_peers\<close> with the outcomes of its \<open>write\<close> calls: \<open>None\<close> when the peer is dead.\<close>

definition write_peer :: "wire_bytes \<Rightarrow> write_result list \<Rightarrow> peer \<Rightarrow> peer option" where
  "write_peer wire ws p =
     (if \<not> peer_wants (pe_state p) (wb_ft wire) then Some p
      else
        case write_all (bytes_for wire (pe_state p)) ws of
          (Inr _, out, _) \<Rightarrow> Some (p\<lparr>pe_wire := pe_wire p @ out\<rparr>)
        | (Inl (Io k _), out, _) \<Rightarrow>
            if k = TimedOut \<or> k = WouldBlock \<or> k = Interrupted then Some (p\<lparr>pe_wire := pe_wire p @ out\<rparr>) else None
        | (Inl _, _, _) \<Rightarrow> None)"

definition write_peers :: "wire_bytes \<Rightarrow> (nat \<Rightarrow> write_result list) \<Rightarrow> peers \<Rightarrow> peers" where
  "write_peers wire ws ps =
     concat (map (\<lambda>(id, p). case write_peer wire (ws id) p of Some p' \<Rightarrow> [(id, p')] | None \<Rightarrow> []) ps)"

text \<open>The preview variant of a VMX1 frame; \<open>preview_len\<close> stands for \<open>vmx::preview_bitstream_length(..).ok()\<close>.\<close>

definition preview_video_bytes :: "(bytes \<Rightarrow> nat option) \<Rightarrow> assembled_frame \<Rightarrow> bytes option" where
  "preview_video_bytes preview_len frame =
     (case af_video frame of
        None \<Rightarrow> None
      | Some video \<Rightarrow>
          if vh_codec video \<noteq> Vmx1 then None
          else
            case preview_len (af_data frame) of
              None \<Rightarrow> None
            | Some n \<Rightarrow>
                if n = 0 \<or> n > length (af_data frame) then None
                else
                  let video' = video\<lparr>vh_flags := vh_flags video OR VF_PREVIEW\<rparr>;
                      header = (af_header frame)\<lparr>fh_data_length :=
                        word_of_nat (VIDEO_EXT_HEADER_SIZE + n + length (af_metadata frame))\<rparr> in
                  Some (frame_header_to_bytes header @ video_header_to_bytes video' @ take n (af_data frame) @
                        af_metadata frame))"

text \<open>The bounded channel to a writer thread; it is disconnected when the thread could not be started.\<close>

record write_queue =
  wq_depth :: nat
  wq_items :: "wire_bytes list"
  wq_connected :: bool

definition spawn_typed_writer :: "bool \<Rightarrow> nat \<Rightarrow> write_queue option" where
  "spawn_typed_writer spawned depth =
     (if depth = 0 then None else Some \<lparr>wq_depth = depth, wq_items = [], wq_connected = spawned\<rparr>)"

datatype try_send_result = Sent | Full | Disconnected

definition try_send :: "wire_bytes \<Rightarrow> write_queue \<Rightarrow> try_send_result \<times> write_queue" where
  "try_send wire q =
     (if \<not> wq_connected q then (Disconnected, q)
      else if length (wq_items q) \<ge> wq_depth q then (Full, q)
      else (Sent, q\<lparr>wq_items := wq_items q @ [wire]\<rparr>))"

text \<open>One turn of the writer thread: the next frame, if one is queued, is written to the peers.\<close>

definition writer_turn :: "(nat \<Rightarrow> write_result list) \<Rightarrow> write_queue \<Rightarrow> peers \<Rightarrow> write_queue \<times> peers" where
  "writer_turn ws q ps =
     (case wq_items q of
        [] \<Rightarrow> (q, ps)
      | wire # rest \<Rightarrow> (q\<lparr>wq_items := rest\<rparr>, write_peers wire ws ps))"

definition plain_wire :: "assembled_frame \<Rightarrow> wire_bytes" where
  "plain_wire frame = \<lparr>wb_ft = fh_frame_type (af_header frame), wb_full = assembled_to_bytes frame, wb_preview = None\<rparr>"

definition enqueue_wire :: "write_queue option \<Rightarrow> (nat \<Rightarrow> write_result list) \<Rightarrow> peers \<Rightarrow> assembled_frame \<Rightarrow>
    unit result \<times> write_queue option \<times> peers" where
  "enqueue_wire outbound ws ps frame =
     (case outbound of
        Some tx \<Rightarrow> (Inr (), Some (snd (try_send (plain_wire frame) tx)), ps)
      | None \<Rightarrow> (Inr (), None, write_peers (plain_wire frame) ws ps))"

text \<open>The frame that carries an XML document, as \<open>send_metadata\<close> and \<open>add_peer\<close> build it.\<close>

definition control_frame :: "i64 \<Rightarrow> string \<Rightarrow> assembled_frame" where
  "control_frame ts xml =
     (let data = encode_metadata_xml xml in
      \<lparr>af_header = \<lparr>fh_version = PROTOCOL_VERSION, fh_frame_type = FT_METADATA, fh_timestamp = ts,
         fh_metadata_length = 0, fh_data_length = word_of_nat (length data)\<rparr>,
       af_video = None, af_audio = None, af_data = data, af_metadata = []\<rparr>)"

section \<open>Control bytes in any chunking\<close>

text \<open>The loop's view of the buffer as a framing: a frame is taken off the front as soon as it is complete.\<close>

definition control_pop :: "bytes \<Rightarrow> assembled_frame option result \<times> bytes" where
  "control_pop buf =
     (if length buf < HEADER_SIZE then (Inr None, buf)
      else case frame_header_from_bytes buf of
        Inl e \<Rightarrow> (Inl e, [])
      | Inr header \<Rightarrow>
          if sint (fh_data_length header) < 0 then (Inl (Protocol ''negative data_length''), [])
          else
            let total = HEADER_SIZE + nat (sint (fh_data_length header)) in
            if length buf < total then (Inr None, buf)
            else (map_sum id Some (assembled_from_bytes (take total buf)), drop total buf))"

lemma control_pop_frame:
  assumes "wf_frame f"
  shows "control_pop (assembled_to_bytes f @ rest) = (Inr (Some f), rest)"
proof -
  have "assembled_from_bytes (assembled_to_bytes f) = Inr f" using assembled_roundtrip [OF assms, of "[]"] by simp
  moreover have "HEADER_SIZE + nat (sint (fh_data_length (af_header f))) \<le> length (assembled_to_bytes f @ rest)"
    using wf_frame_total [OF assms] by simp
  ultimately show ?thesis
    using assms by (simp add: control_pop_def header_of_assembled take_assembled drop_assembled wf_frame_nonneg Let_def
        del: length_append length_assembled take_append drop_append)
qed

lemma control_pop_prefix:
  assumes "wf_frame f" "n < length (assembled_to_bytes f)"
  shows "control_pop (take n (assembled_to_bytes f)) = (Inr None, take n (assembled_to_bytes f))"
proof (cases "n < HEADER_SIZE")
  case False
  then have "frame_header_from_bytes (take n (assembled_to_bytes f)) = Inr (af_header f)"
    using header_of_prefix [OF assms(1), of n] by simp
  moreover have "length (take n (assembled_to_bytes f)) < HEADER_SIZE + nat (sint (fh_data_length (af_header f)))"
    using assms(2) wf_frame_total [OF assms(1)] by simp
  ultimately show ?thesis using assms(1) by (simp add: control_pop_def wf_frame_nonneg Let_def del: length_take)
qed (simp add: control_pop_def)

interpretation ctrl: framing control_pop assembled_to_bytes wf_frame
proof
  fix f :: assembled_frame
  show "assembled_to_bytes f \<noteq> []" by (simp add: assembled_to_bytes_eq frame_header_to_bytes_def)
qed (simp_all add: control_pop_frame control_pop_prefix, simp add: control_pop_def HEADER_SIZE_def)

lemma ingest_loop_pop:
  "ingest_loop rox state buf =
     (case control_pop buf of
        (Inr None, buf') \<Rightarrow> (state, buf')
      | (Inr (Some f), buf') \<Rightarrow> ingest_loop rox (frame_effect rox f state) buf'
      | (Inl _, buf') \<Rightarrow> ingest_loop rox state buf')"
proof -
  have "ingest_loop rox state [] = (state, [])" by (simp add: ingest_loop.simps HEADER_SIZE_def)
  then show ?thesis
    by (subst ingest_loop.simps) (auto simp: control_pop_def ingest_frame_def Let_def split: sum.splits)
qed

lemma ingest_loop_stream:
  assumes "\<forall>f \<in> set fs. wf_frame f" "buf @ future = ctrl.stream fs"
  shows "\<exists>dn rest buf'. fs = dn @ rest \<and> ingest_loop rox state buf = (fold (frame_effect rox) dn state, buf') \<and>
    buf' @ future = ctrl.stream rest \<and> (rest = [] \<and> buf' = [] \<or> rest \<noteq> [] \<and> length buf' < length (assembled_to_bytes (hd rest)))"
  using assms
proof (induction fs arbitrary: buf state)
  case Nil
  then show ?case by (auto simp: ingest_loop.simps HEADER_SIZE_def)
next
  case (Cons f fs)
  from Cons.prems show ?case
  proof (cases rule: ctrl.pop_stream)
    case (waits g gs)
    then have "ingest_loop rox state buf = (state, buf)" by (subst ingest_loop_pop) simp
    with waits Cons.prems show ?thesis
      by - (rule exI [where x = "[]"], rule exI [where x = "f # fs"], rule exI [where x = buf], auto)
  next
    case (pops g gs rest)
    then obtain dn rest' buf' where "fs = dn @ rest'"
      "ingest_loop rox (frame_effect rox f state) rest = (fold (frame_effect rox) dn (frame_effect rox f state), buf')"
      "buf' @ future = ctrl.stream rest'"
      "rest' = [] \<and> buf' = [] \<or> rest' \<noteq> [] \<and> length buf' < length (assembled_to_bytes (hd rest'))"
      using Cons.IH [of rest "frame_effect rox f state"] Cons.prems by auto
    moreover have "ingest_loop rox state buf = ingest_loop rox (frame_effect rox f state) rest"
      using pops by (subst ingest_loop_pop) simp
    ultimately show ?thesis using pops
      by - (rule exI [where x = "f # dn"], rule exI [where x = rest'], rule exI [where x = buf'], simp)
  qed auto
qed

definition ingest_chunk :: "rox \<Rightarrow> bytes \<Rightarrow> peer_state \<times> bytes \<Rightarrow> peer_state \<times> bytes" where
  "ingest_chunk rox c st = ingest_peer_bytes rox (fst st) (snd st) c"

lemma ingest_chunks:
  assumes "\<forall>f \<in> set fs. wf_frame f" "buf @ concat chunks = ctrl.stream fs"
    "fs = [] \<and> buf = [] \<or> fs \<noteq> [] \<and> length buf < length (assembled_to_bytes (hd fs))"
    "\<forall>c \<in> set chunks. \<forall>f \<in> set fs. length c + length (assembled_to_bytes f) \<le> PEER_INBOUND_CAP"
  shows "fold (ingest_chunk rox) chunks (state, buf) = (fold (frame_effect rox) fs state, [])"
  using assms
proof (induction chunks arbitrary: fs buf state)
  case Nil
  then have "fs = []"
    by (cases fs) (auto dest: arg_cong [of _ _ length])
  with Nil show ?case by simp
next
  case (Cons c chunks)
  have cap: "length (buf @ c) \<le> PEER_INBOUND_CAP"
  proof (cases fs)
    case Nil
    with Cons.prems(2,3) show ?thesis by simp
  next
    case (Cons f gs)
    with Cons.prems(3,4) have "length buf < length (assembled_to_bytes f)" "length c + length (assembled_to_bytes f) \<le> PEER_INBOUND_CAP"
      by auto
    then show ?thesis by simp
  qed
  have "(buf @ c) @ concat chunks = ctrl.stream fs" using Cons.prems(2) by simp
  from ingest_loop_stream [OF Cons.prems(1) this, of rox state]
  obtain dn rest buf' where r: "fs = dn @ rest"
    "ingest_loop rox state (buf @ c) = (fold (frame_effect rox) dn state, buf')"
    "buf' @ concat chunks = ctrl.stream rest"
    "rest = [] \<and> buf' = [] \<or> rest \<noteq> [] \<and> length buf' < length (assembled_to_bytes (hd rest))" by blast
  have "fold (ingest_chunk rox) chunks (fold (frame_effect rox) dn state, buf') =
      (fold (frame_effect rox) rest (fold (frame_effect rox) dn state), [])"
    using Cons.prems(1,4) r by (intro Cons.IH) (simp_all del: length_assembled)
  moreover have "ingest_chunk rox c (state, buf) = (fold (frame_effect rox) dn state, buf')"
    using cap r by (simp add: ingest_chunk_def ingest_peer_bytes_def)
  ultimately show ?case using r(1) by simp
qed

text \<open>C16: However the reads cut the control bytes of a peer into chunks, the sender ends with exactly the state that
  applying the peer's frames in order gives, and with nothing left over, as long as a chunk and a frame
  together stay within the inbound limit.\<close>

theorem control_any_chunking:
  assumes "\<forall>f \<in> set fs. wf_frame f" "concat chunks = concat (map assembled_to_bytes fs)"
    "\<forall>c \<in> set chunks. \<forall>f \<in> set fs. length c + length (assembled_to_bytes f) \<le> PEER_INBOUND_CAP"
  shows "fold (\<lambda>c (state, inbound). ingest_peer_bytes rox state inbound c) chunks (state, []) =
    (fold (frame_effect rox) fs state, [])"
proof -
  have "(\<lambda>c (state, inbound). ingest_peer_bytes rox state inbound c) = ingest_chunk rox"
    by (auto simp: ingest_chunk_def fun_eq_iff)
  moreover have "fs = [] \<and> [] = ([] :: bytes) \<or> fs \<noteq> [] \<and> length ([] :: bytes) < length (assembled_to_bytes (hd fs))"
    by (auto simp: HEADER_SIZE_def)
  ultimately show ?thesis using ingest_chunks [of fs "[]" chunks rox state] assms by simp
qed

lemma length_encode_xml [simp]: "length (encode_metadata_xml xml) = length xml"
  by (simp add: encode_metadata_xml_def as_bytes_def)

lemma control_frame_wf: "length xml < 2 ^ 31 \<Longrightarrow> wf_frame (control_frame ts xml)"
  using sint_of_nat_small [of "length xml", where 'a = 32]
  by (simp add: wf_frame_def control_frame_def Let_def ext_bytes_def)

lemma length_control_frame [simp]: "length (assembled_to_bytes (control_frame ts xml)) = HEADER_SIZE + length xml"
  by (simp add: control_frame_def Let_def ext_bytes_def)

theorem control_any_chunking_witness:
  "let b = assembled_to_bytes (control_frame 0 SUBSCRIBE_VIDEO) in
     fold (\<lambda>c (state, inbound). ingest_peer_bytes ref_xml state inbound c) [take 5 b, drop 5 b] (peer_state_default, []) =
     (frame_effect ref_xml (control_frame 0 SUBSCRIBE_VIDEO) peer_state_default, [])"
proof -
  let ?f = "control_frame 0 SUBSCRIBE_VIDEO"
  let ?b = "assembled_to_bytes ?f"
  have len: "length SUBSCRIBE_VIDEO < 100" by code_simp
  then have "\<forall>f \<in> set [?f]. wf_frame f" using control_frame_wf [of SUBSCRIBE_VIDEO 0] by simp
  moreover have "concat [take 5 ?b, drop 5 ?b] = concat (map assembled_to_bytes [?f])" by simp
  moreover have "\<forall>c \<in> set [take 5 ?b, drop 5 ?b]. \<forall>f \<in> set [?f]. length c + length (assembled_to_bytes f) \<le> PEER_INBOUND_CAP"
    using len length_control_frame [of 0 SUBSCRIBE_VIDEO] by (simp add: PEER_INBOUND_CAP_def HEADER_SIZE_def del: length_assembled)
  ultimately show ?thesis
    using control_any_chunking [of "[?f]" "[take 5 ?b, drop 5 ?b]" ref_xml peer_state_default] by (simp add: Let_def)
qed

section \<open>The combined subscription\<close>

lemma combine_peers:
  assumes "fold combine_peer qs (agg, best) = (agg', best')"
  shows "ps_video agg' = (ps_video agg \<or> (\<exists>p \<in> set qs. ps_video (pe_state p))) \<and>
    ps_audio agg' = (ps_audio agg \<or> (\<exists>p \<in> set qs. ps_audio (pe_state p))) \<and>
    ps_metadata agg' = (ps_metadata agg \<or> (\<exists>p \<in> set qs. ps_metadata (pe_state p))) \<and>
    ps_preview agg' = (ps_preview agg \<or> (\<exists>p \<in> set qs. ps_preview (pe_state p))) \<and>
    bit (t_preview (ps_tally agg')) n = (bit (t_preview (ps_tally agg)) n \<or> (\<exists>p \<in> set qs. bit (t_preview (ps_tally (pe_state p))) n)) \<and>
    bit (t_program (ps_tally agg')) n = (bit (t_program (ps_tally agg)) n \<or> (\<exists>p \<in> set qs. bit (t_program (ps_tally (pe_state p))) n)) \<and>
    best' = Max (insert best ((\<lambda>p. ps_quality (pe_state p)) ` set qs))"
  using assms
proof (induction qs arbitrary: agg best)
  case (Cons p qs)
  obtain agg1 best1 where c: "combine_peer p (agg, best) = (agg1, best1)" by fastforce
  with Cons.prems have r: "fold combine_peer qs (agg1, best1) = (agg', best')" by simp
  have "best1 = (if best < ps_quality (pe_state p) then ps_quality (pe_state p) else best)"
    using c by (simp add: combine_peer_def Let_def less_quality_def)
  then have q: "best1 = max best (ps_quality (pe_state p))" by (auto simp: max_def)
  have m: "Max (insert (max best (ps_quality (pe_state p))) ((\<lambda>p. ps_quality (pe_state p)) ` set qs)) =
      Max (insert best ((\<lambda>p. ps_quality (pe_state p)) ` set (p # qs)))"
    by (cases "qs = []") (simp_all add: max.assoc)
  have agg1: "agg1 = fst (combine_peer p (agg, best))" by (simp add: c)
  have "ps_video agg1 = (ps_video agg \<or> ps_video (pe_state p))" "ps_audio agg1 = (ps_audio agg \<or> ps_audio (pe_state p))"
    "ps_metadata agg1 = (ps_metadata agg \<or> ps_metadata (pe_state p))" "ps_preview agg1 = (ps_preview agg \<or> ps_preview (pe_state p))"
    "bit (t_preview (ps_tally agg1)) n = (bit (t_preview (ps_tally agg)) n \<or> bit (t_preview (ps_tally (pe_state p))) n)"
    "bit (t_program (ps_tally agg1)) n = (bit (t_program (ps_tally agg)) n \<or> bit (t_program (ps_tally (pe_state p))) n)"
    by (simp_all add: agg1 combine_peer_def Let_def bit_or_iff)
  with Cons.IH [OF r] show ?case unfolding m [symmetric] q [symmetric] by (simp add: disj_assoc)
qed simp

text \<open>C21: What a sender combines from its peers: each flag and each tally bit is on exactly when it is on for some
  peer, and the quality is the sender's own policy or, without one, the highest that any peer suggests. The
  result depends only on which peers there are, not on the order in which the hash map lists them.\<close>

theorem combined_subscription_spec:
  "let s = combined_subscription policy ps; states = (\<lambda>(id, p). pe_state p) ` set ps in
     ps_video s = (\<exists>q \<in> states. ps_video q) \<and> ps_audio s = (\<exists>q \<in> states. ps_audio q) \<and>
     ps_metadata s = (\<exists>q \<in> states. ps_metadata q) \<and> ps_preview s = (\<exists>q \<in> states. ps_preview q) \<and>
     (\<forall>n. bit (t_preview (ps_tally s)) n = (\<exists>q \<in> states. bit (t_preview (ps_tally q)) n)) \<and>
     (\<forall>n. bit (t_program (ps_tally s)) n = (\<exists>q \<in> states. bit (t_program (ps_tally q)) n)) \<and>
     ps_quality s = (if policy = QDefault then Max (insert QDefault (ps_quality ` states)) else policy)"
proof -
  obtain agg best where f: "fold combine_peer (map snd ps) (peer_state_default, QDefault) = (agg, best)" by fastforce
  have states: "(\<lambda>(id, p). pe_state p) ` set ps = pe_state ` set (map snd ps)" by force
  show ?thesis
    unfolding Let_def states
    using combine_peers [OF f] f
    by (simp add: combined_subscription_def peer_state_default_def tally_new_def image_image image_iff)
qed

section \<open>The write queues\<close>

definition write_queue_offer :: "wire_bytes \<Rightarrow> write_queue \<Rightarrow> wire_bytes list \<times> write_queue" where
  "write_queue_offer w q = (case try_send w q of (Sent, q') \<Rightarrow> ([], q') | (_, q') \<Rightarrow> ([w], q'))"

definition write_queue_poll :: "write_queue \<Rightarrow> wire_bytes option \<times> write_queue" where
  "write_queue_poll q = (case wq_items q of [] \<Rightarrow> (None, q) | w # r \<Rightarrow> (Some w, q\<lparr>wq_items := r\<rparr>))"

lemma writer_turn_poll:
  "writer_turn ws q ps =
     (case write_queue_poll q of (None, q') \<Rightarrow> (q', ps) | (Some w, q') \<Rightarrow> (q', write_peers w ws ps))"
  by (simp add: writer_turn_def write_queue_poll_def split: list.split)

interpretation wq: bounded_queue "\<lambda>_. True" wq_depth wq_items write_queue_offer write_queue_poll
proof
  fix q q' x ds
  assume "write_queue_offer x q = (ds, q')"
  then show "True \<and> wq_depth q' = wq_depth q" "subseq (wq_items q') (wq_items q @ [x])"
    "length (wq_items q') + length ds = Suc (length (wq_items q))"
    "length (wq_items q) \<le> wq_depth q \<Longrightarrow> length (wq_items q') \<le> wq_depth q"
    by (auto simp: write_queue_offer_def try_send_def split: if_splits)
qed (auto simp: write_queue_poll_def split: list.splits)



section \<open>The preview variant\<close>

text \<open>The preview variant of a well-formed VMX1 frame is itself a well-formed frame: a receiver parses it as the
  same frame with the preview flag set and the data cut to the preview prefix, header lengths included.\<close>

theorem preview_variant_parses:
  assumes "wf_frame f" "af_video f = Some v" "preview_video_bytes plen f = Some b" "plen (af_data f) = Some n"
  shows "assembled_from_bytes b =
    Inr (f\<lparr>af_header := (af_header f)\<lparr>fh_data_length := word_of_nat (VIDEO_EXT_HEADER_SIZE + n + length (af_metadata f))\<rparr>,
           af_video := Some (v\<lparr>vh_flags := vh_flags v OR VF_PREVIEW\<rparr>), af_data := take n (af_data f)\<rparr>) \<and>
    vf_contains (vh_flags v OR VF_PREVIEW) VF_PREVIEW \<and> length b \<le> length (assembled_to_bytes f)"
proof -
  let ?g = "f\<lparr>af_header := (af_header f)\<lparr>fh_data_length := word_of_nat (VIDEO_EXT_HEADER_SIZE + n + length (af_metadata f))\<rparr>,
    af_video := Some (v\<lparr>vh_flags := vh_flags v OR VF_PREVIEW\<rparr>), af_data := take n (af_data f)\<rparr>"
  have n: "n \<le> length (af_data f)" using assms by (auto simp: preview_video_bytes_def split: if_splits)
  have audio: "af_audio f = None" using assms(1,2) by (auto simp: wf_frame_def Let_def)
  have b: "b = assembled_to_bytes ?g"
    using assms audio by (auto simp: preview_video_bytes_def assembled_to_bytes_eq ext_bytes_def Let_def split: if_splits)
  have "int (VIDEO_EXT_HEADER_SIZE + length (af_data f) + length (af_metadata f)) < 2 ^ 31"
    using assms(1,2) audio sint_upper [of "fh_data_length (af_header f)"] by (simp add: wf_frame_def Let_def ext_bytes_def)
  then have "sint (word_of_nat (VIDEO_EXT_HEADER_SIZE + n + length (af_metadata f)) :: i32) =
      int (VIDEO_EXT_HEADER_SIZE + n + length (af_metadata f))"
    using n by (intro sint_of_nat_small) simp
  then have "wf_frame ?g"
    using assms(1,2) audio n by (simp add: wf_frame_def Let_def ext_bytes_def)
  then have "assembled_from_bytes b = Inr ?g" using assembled_roundtrip [of ?g "[]"] b by simp
  moreover have "vf_contains (vh_flags v OR VF_PREVIEW) VF_PREVIEW"
    by (simp add: vf_contains_def bit_eq_iff bit_and_iff bit_or_iff)
  moreover have "length b \<le> length (assembled_to_bytes f)"
    using n assms(2) by (simp add: b ext_bytes_def)
  ultimately show ?thesis by simp
qed

definition vmx_frame :: assembled_frame where
  "vmx_frame = sample_frame\<lparr>af_video := Some ((the (af_video sample_frame))\<lparr>vh_codec := Vmx1\<rparr>)\<rparr>"

theorem preview_variant_parses_witness:
  "\<exists>b g. preview_video_bytes (\<lambda>_. Some 1) vmx_frame = Some b \<and> assembled_from_bytes b = Inr g \<and>
     af_data g = take 1 (af_data vmx_frame)"
proof -
  obtain v where v: "af_video vmx_frame = Some v" "vh_codec v = Vmx1" by (simp add: vmx_frame_def)
  have wf: "wf_frame vmx_frame"
    by (simp add: wf_frame_def vmx_frame_def Let_def ext_bytes_def sample_frame_def frame_consts ft_contains_def ft_defs)
  have "af_data vmx_frame \<noteq> []" by (simp add: vmx_frame_def sample_frame_def)
  then obtain b where b: "preview_video_bytes (\<lambda>_. Some 1) vmx_frame = Some b"
    using v by (auto simp: preview_video_bytes_def Let_def)
  from preview_variant_parses [OF wf v(1) b refl] b show ?thesis by auto
qed

section \<open>A timed-out write\<close>

lemma write_all_whole: "write_all bs [Wrote (length bs)] = (Inr (), bs, if bs = [] then [Wrote 0] else [])"
  by (cases bs) simp_all

lemma write_all_cut:
  assumes "0 < n" "n < length bs"
  shows "write_all bs [Wrote n, WriteErr TimedOut m] = (Inl (Io TimedOut m), take n bs, [])"
proof -
  obtain b bs' where "bs = b # bs'" using assms by (cases bs) auto
  moreover obtain c cs where "drop n bs = c # cs" using assms by (cases "drop n bs") auto
  ultimately show ?thesis using assms by simp
qed

lemma torn_pop:
  assumes "HEADER_SIZE \<le> n" "n < HEADER_SIZE + length d" "length d \<le> METADATA_FRAME_SIZE"
    "HEADER_SIZE + length d - n \<le> length tail" "f = control_frame ts d"
  shows "channel_pop (take n (assembled_to_bytes f) @ tail) =
    (Inr (Some (f\<lparr>af_data := take (n - HEADER_SIZE) (af_data f) @ take (HEADER_SIZE + length d - n) tail\<rparr>)),
     drop (HEADER_SIZE + length d - n) tail)"
proof -
  let ?g = "f\<lparr>af_data := take (n - HEADER_SIZE) (af_data f) @ take (HEADER_SIZE + length d - n) tail\<rparr>"
  have f: "af_data f = encode_metadata_xml d" "ext_bytes f = []" "af_metadata f = []"
    "af_header f = \<lparr>fh_version = PROTOCOL_VERSION, fh_frame_type = FT_METADATA, fh_timestamp = ts, fh_metadata_length = 0,
       fh_data_length = word_of_nat (length d)\<rparr>" "af_video f = None" "af_audio f = None"
    by (simp_all add: assms(5) control_frame_def Let_def ext_bytes_def)
  have dl: "sint (word_of_nat (length d) :: i32) = int (length d)"
    using assms(3) by (intro sint_of_nat_small) (simp add: METADATA_FRAME_SIZE_def)
  have len: "length (af_data ?g) = length d" using assms(1-4) by (simp add: f)
  then have "sendable ?g"
    using assms(3) by (simp add: sendable_def wf_frame_def f dl ext_bytes_def max_payload_for_def is_valid_frame_type_def
        ft_contains_def ft_defs)
  then have "channel_pop (assembled_to_bytes ?g @ drop (HEADER_SIZE + length d - n) tail) =
      (Inr (Some ?g), drop (HEADER_SIZE + length d - n) tail)" by (rule chan.pop_enc)
  moreover have "take n (assembled_to_bytes f) @ tail = assembled_to_bytes ?g @ drop (HEADER_SIZE + length d - n) tail"
    using assms(1) by (simp add: assembled_to_bytes_eq f ext_bytes_def)
  ultimately show ?thesis by simp
qed

text \<open>C39: A write that times out in the middle of a frame keeps the peer, and the next frame is written right behind
  the torn one. The peer's receiver then takes the two for one frame: the header of the first, its data
  completed with the first bytes of the second, and goes on reading in the middle of the second.\<close>

theorem timed_out_write_tears_stream:
  assumes "HEADER_SIZE \<le> n" "n < HEADER_SIZE + length d" "length d \<le> METADATA_FRAME_SIZE"
    and "HEADER_SIZE + length d - n \<le> length (assembled_to_bytes f')" "fh_frame_type (af_header f') = FT_METADATA"
    and "f = control_frame ts d"
  shows "write_peers (plain_wire f') (\<lambda>_. [Wrote (length (assembled_to_bytes f'))])
      (write_peers (plain_wire f) (\<lambda>_. [Wrote n, WriteErr TimedOut m]) [(pid, p)]) =
      [(pid, p\<lparr>pe_wire := pe_wire p @ take n (assembled_to_bytes f) @ assembled_to_bytes f'\<rparr>)] \<and>
    channel_pop (take n (assembled_to_bytes f) @ assembled_to_bytes f') =
      (Inr (Some (f\<lparr>af_data := take (n - HEADER_SIZE) (af_data f) @
                       take (HEADER_SIZE + length d - n) (assembled_to_bytes f')\<rparr>)),
       drop (HEADER_SIZE + length d - n) (assembled_to_bytes f'))"
proof -
  have ft: "fh_frame_type (af_header f) = FT_METADATA" by (simp add: assms(6) control_frame_def Let_def)
  have "write_all (assembled_to_bytes f) [Wrote n, WriteErr TimedOut m] = (Inl (Io TimedOut m), take n (assembled_to_bytes f), [])"
    using assms(1,2) unfolding assms(6) by (intro write_all_cut) (simp_all add: HEADER_SIZE_def del: length_assembled)
  then have "write_peer (plain_wire f) [Wrote n, WriteErr TimedOut m] p = Some (p\<lparr>pe_wire := pe_wire p @ take n (assembled_to_bytes f)\<rparr>)"
    by (simp add: write_peer_def plain_wire_def peer_wants_def bytes_for_def ft)
  moreover have "write_peer (plain_wire f') [Wrote (length (assembled_to_bytes f'))] q =
      Some (q\<lparr>pe_wire := pe_wire q @ assembled_to_bytes f'\<rparr>)" for q
    by (simp add: write_peer_def plain_wire_def peer_wants_def bytes_for_def assms(5) write_all_whole del: length_assembled)
  ultimately show ?thesis
    using torn_pop [OF assms(1-4,6)] by (simp add: write_peers_def del: length_assembled)
qed

theorem timed_out_write_tears_stream_witness:
  "\<exists>g rest. channel_pop (take 20 (assembled_to_bytes (control_frame 0 ''<OMTTally />'')) @ assembled_to_bytes (control_frame 0 ''<B />'')) =
     (Inr (Some g), rest) \<and> af_data g \<noteq> as_bytes ''<OMTTally />''"
proof -
  let ?f = "control_frame 0 ''<OMTTally />''" and ?f' = "control_frame 0 ''<B />''"
  have 1: "HEADER_SIZE \<le> 20" "20 < HEADER_SIZE + length ''<OMTTally />''" "length ''<OMTTally />'' \<le> METADATA_FRAME_SIZE"
    by (simp_all add: HEADER_SIZE_def METADATA_FRAME_SIZE_def)
  have 2: "HEADER_SIZE + length ''<OMTTally />'' - 20 \<le> length (assembled_to_bytes ?f')" "fh_frame_type (af_header ?f') = FT_METADATA"
    by (simp_all add: HEADER_SIZE_def control_frame_def Let_def)
  have "take 4 (af_data ?f) @ take 8 (assembled_to_bytes ?f') \<noteq> as_bytes ''<OMTTally />''" by code_simp
  then show ?thesis
    using timed_out_write_tears_stream [OF 1 2 refl, of 0] by (auto simp: HEADER_SIZE_def)
qed

end
