(* ===== verification/Clock.thy ===== *)
theory Clock
  imports Omt_Types Ieee754
begin

text \<open>
  Timestamps (\<open>src/clock.rs\<close>): 100 ns ticks, the \<open>-1\<close> sentinel and the pacing clock of a sender. An
  \<open>i64\<close> is an \<open>int\<close> with its saturation written out (\<open>sat64\<close>). Time comes from outside: every call of
  \<open>Instant::now\<close> or \<open>elapsed\<close> consumes the next instant (in nanoseconds) of a list, and a clock that has
  not returned when the list is exhausted gives \<open>None\<close>. The lemmas show that generated timestamps move
  by whole frame intervals, keep the presentation clock within one interval of the wall clock, and
  that pacing ends as soon as the wall clock has caught up.
\<close>

section \<open>Definitions\<close>

definition sat64 :: "int \<Rightarrow> int" where
  "sat64 x = max (- (2 ^ 63)) (min (2 ^ 63 - 1) x)"

definition TICKS_PER_SECOND :: int where "TICKS_PER_SECOND = 10000000"
definition AUTO_TIMESTAMP :: int where "AUTO_TIMESTAMP = - 1"

text \<open>The float nearest to 10000000 is 10000000.\<close>

definition seconds_to_timestamp :: "f64 \<Rightarrow> int" where
  "seconds_to_timestamp seconds = f64_round_i64 (f64_mul_nat seconds (nat TICKS_PER_SECOND))"

definition timestamp_to_seconds :: "int \<Rightarrow> f64" where
  "timestamp_to_seconds ts = f64_div_nat (f64_of_i64 ts) (nat TICKS_PER_SECOND)"

text \<open>A duration of \<open>secs\<close> seconds and \<open>nanos\<close> nanoseconds in ticks; \<open>as_secs() as i64\<close> wraps.\<close>

definition secs_as_i64 :: "nat \<Rightarrow> int" where
  "secs_as_i64 secs = sint (word_of_nat secs :: i64)"

definition duration_ticks :: "nat \<Rightarrow> nat \<Rightarrow> int" where
  "duration_ticks secs nanos =
     sat64 (sat64 (secs_as_i64 secs * TICKS_PER_SECOND) + int nanos * TICKS_PER_SECOND div 1000000000)"

text \<open>\<open>SystemTime::now\<close> as nanoseconds since the epoch, negative before it (\<open>unwrap_or_default\<close>).\<close>

definition now_timestamp :: "int \<Rightarrow> int" where
  "now_timestamp system_time =
     (let d = nat system_time in duration_ticks (d div 1000000000) (d mod 1000000000))"

definition resolve_timestamp :: "int \<Rightarrow> int \<Rightarrow> int" where
  "resolve_timestamp system_time ts = (if ts = AUTO_TIMESTAMP then now_timestamp system_time else ts)"

definition wall_ticks :: "nat \<Rightarrow> nat \<Rightarrow> int" where
  "wall_ticks start now =
     (let d = now - start in duration_ticks (d div 1000000000) (d mod 1000000000))"

record timestamp_clock =
  tc_audio :: bool
  tc_last :: "int option"
  tc_start :: nat
  tc_clock_ts :: int
  tc_frame_rate_n :: int
  tc_frame_rate_d :: int
  tc_sample_rate :: int
  tc_frame_interval :: int

definition timestamp_clock_new :: "nat \<Rightarrow> bool \<Rightarrow> timestamp_clock" where
  "timestamp_clock_new now audio =
     \<lparr>tc_audio = audio, tc_last = None, tc_start = now, tc_clock_ts = 0, tc_frame_rate_n = -1,
      tc_frame_rate_d = -1, tc_sample_rate = -1, tc_frame_interval = -1\<rparr>"

definition interval_of :: "bool \<Rightarrow> int \<Rightarrow> int \<Rightarrow> int \<Rightarrow> int \<Rightarrow> int" where
  "interval_of audio frame_rate_n frame_rate_d sample_rate samples_per_channel =
     (if audio \<and> sample_rate > 0 \<and> samples_per_channel > 0 then
        sat64 (samples_per_channel * TICKS_PER_SECOND) div sample_rate
      else if frame_rate_n > 0 \<and> frame_rate_d > 0 then
        sat64 (frame_rate_d * TICKS_PER_SECOND) div frame_rate_n
      else TICKS_PER_SECOND div 60)"

definition clock_reset :: "nat \<Rightarrow> int \<Rightarrow> int \<Rightarrow> int \<Rightarrow> int \<Rightarrow> timestamp_clock \<Rightarrow> timestamp_clock" where
  "clock_reset now frame_rate_n frame_rate_d sample_rate samples_per_channel c =
     c\<lparr>tc_frame_rate_n := frame_rate_n, tc_frame_rate_d := frame_rate_d, tc_sample_rate := sample_rate,
       tc_frame_interval := interval_of (tc_audio c) frame_rate_n frame_rate_d sample_rate samples_per_channel,
       tc_start := now, tc_clock_ts := 0, tc_last := None\<rparr>"

text \<open>The two loops: skipping intervals while behind, and sleeping while ahead, which reads the wall
  clock before every step.\<close>

function skip_behind :: "int \<Rightarrow> int \<Rightarrow> int \<Rightarrow> int \<Rightarrow> int \<times> int" where
  "skip_behind interval timestamp clock_ts diff =
     (if 0 < interval \<and> diff < - interval
      then skip_behind interval (sat64 (timestamp + interval)) (sat64 (clock_ts + interval)) (diff + interval)
      else (timestamp, clock_ts))"
  by pat_completeness auto
termination
  by (relation "measure (\<lambda>(interval, t, c, diff). nat (- diff))") auto

declare skip_behind.simps [simp del]

fun pace :: "int \<Rightarrow> nat \<Rightarrow> nat list \<Rightarrow> nat list option" where
  "pace clock_ts start [] = None"
| "pace clock_ts start (now # nows) =
     (if clock_ts > wall_ticks start now then pace clock_ts start nows else Some nows)"

text \<open>\<open>resolve\<close> in three parts, in the order of the source: the reset on a changed rate, the two early
  returns, and the paced advance.\<close>

definition needs_reset :: "int \<Rightarrow> int \<Rightarrow> int \<Rightarrow> timestamp_clock \<Rightarrow> bool" where
  "needs_reset frame_rate_n frame_rate_d sample_rate c \<longleftrightarrow>
     (tc_audio c \<and> sample_rate \<noteq> tc_sample_rate c) \<or>
     (\<not> tc_audio c \<and> (frame_rate_n \<noteq> tc_frame_rate_n c \<or> frame_rate_d \<noteq> tc_frame_rate_d c))"

definition due_interval :: "int \<Rightarrow> int \<Rightarrow> timestamp_clock \<Rightarrow> int" where
  "due_interval sample_rate samples_per_channel c =
     (if tc_audio c \<and> sample_rate > 0 \<and> samples_per_channel > 0
      then sat64 (samples_per_channel * TICKS_PER_SECOND) div sample_rate
      else tc_frame_interval c)"

definition clock_advance :: "int \<Rightarrow> timestamp_clock \<Rightarrow> int \<Rightarrow> nat list \<Rightarrow> (int \<times> timestamp_clock \<times> nat list) option" where
  "clock_advance frame_interval c last_ts nows =
     (let interval = max frame_interval 1;
          timestamp = sat64 (last_ts + interval);
          clock_ts = sat64 (tc_clock_ts c + interval) in
      case nows of
        [] \<Rightarrow> None
      | now # nows' \<Rightarrow>
          let diff = clock_ts - wall_ticks (tc_start c) now;
              (timestamp', clock_ts') = skip_behind interval timestamp clock_ts diff in
          map_option (\<lambda>nows''. (timestamp', c\<lparr>tc_frame_interval := frame_interval, tc_clock_ts := clock_ts',
                                  tc_last := Some timestamp'\<rparr>, nows''))
            (pace clock_ts' (tc_start c) nows'))"

definition clock_resolve :: "int \<Rightarrow> int \<Rightarrow> int \<Rightarrow> int \<Rightarrow> int \<Rightarrow> timestamp_clock \<Rightarrow> nat list \<Rightarrow>
    (int \<times> timestamp_clock \<times> nat list) option" where
  "clock_resolve ts frame_rate_n frame_rate_d sample_rate samples_per_channel c0 nows0 =
     (case (if needs_reset frame_rate_n frame_rate_d sample_rate c0 then
              (case nows0 of [] \<Rightarrow> None
               | now # nows \<Rightarrow>
                   Some (clock_reset now frame_rate_n frame_rate_d sample_rate samples_per_channel c0, nows))
            else Some (c0, nows0)) of
        None \<Rightarrow> None
      | Some (c, nows) \<Rightarrow>
          if ts \<noteq> AUTO_TIMESTAMP then Some (ts, c\<lparr>tc_last := Some ts\<rparr>, nows)
          else
            (case tc_last c of
               None \<Rightarrow>
                 (case nows of [] \<Rightarrow> None
                  | now # nows' \<Rightarrow>
                      Some (0, (clock_reset now frame_rate_n frame_rate_d sample_rate samples_per_channel c)
                                 \<lparr>tc_last := Some 0\<rparr>, nows'))
             | Some last_ts \<Rightarrow>
                 clock_advance (due_interval sample_rate samples_per_channel c) c last_ts nows))"

section \<open>The loops\<close>

lemma sat64_id: "- (2 ^ 63) \<le> x \<Longrightarrow> x < 2 ^ 63 \<Longrightarrow> sat64 x = x"
  by (simp add: sat64_def)

lemma sat64_bounds: "- (2 ^ 63) \<le> sat64 x" "sat64 x < 2 ^ 63"
  by (simp_all add: sat64_def)

lemma sat64_mono: "x \<le> y \<Longrightarrow> sat64 x \<le> sat64 y"
  by (simp add: sat64_def)

lemma wall_ticks_nonneg:
  assumes "now div 1000000000 < 2 ^ 63"
  shows "0 \<le> wall_ticks start now"
proof -
  have "(now - start) div 1000000000 < 2 ^ 63"
    using assms by (meson diff_le_self div_le_mono le_less_trans)
  then have "0 \<le> secs_as_i64 ((now - start) div 1000000000)"
    unfolding secs_as_i64_def by (subst sint_of_nat_small) simp_all
  then show ?thesis
    by (simp add: wall_ticks_def duration_ticks_def sat64_def TICKS_PER_SECOND_def Let_def)
qed

text \<open>Skipping adds the same number of whole intervals to both clocks and stops within one interval.\<close>

lemma skip_behind_steps:
  assumes "0 < interval" "skip_behind interval t c diff = (t', c')"
    and "0 \<le> t" "t - diff < 2 ^ 63" "0 \<le> c" "c - diff < 2 ^ 63"
  shows "\<exists>k \<ge> 0. t' = t + k * interval \<and> c' = c + k * interval \<and> - interval \<le> diff + k * interval \<and>
     (0 < k \<longrightarrow> diff + k * interval < 0)"
  using assms
proof (induction interval t c diff rule: skip_behind.induct)
  case (1 interval t c diff)
  show ?case
  proof (cases "diff < - interval")
    case True
    with 1 have sat: "sat64 (t + interval) = t + interval" "sat64 (c + interval) = c + interval"
      by (simp_all add: sat64_id)
    with "1.prems" True have "skip_behind interval (t + interval) (c + interval) (diff + interval) = (t', c')"
      by (simp add: skip_behind.simps [of interval t c diff])
    with "1.IH" "1.prems" True sat obtain k where "0 \<le> k" "t' = t + interval + k * interval"
      "c' = c + interval + k * interval" "- interval \<le> diff + interval + k * interval"
      "0 < k \<longrightarrow> diff + interval + k * interval < 0" by auto
    with True "1.prems"(1) show ?thesis
      by (intro exI [of _ "k + 1"]) (cases "k = 0", auto simp: algebra_simps)
  next
    case False
    with "1.prems" show ?thesis by (intro exI [of _ 0]) (simp add: skip_behind.simps [of interval t c diff])
  qed
qed

lemma pace_SomeD:
  "pace clock_ts start nows = Some rest \<Longrightarrow>
     \<exists>before now. nows = before @ now # rest \<and> clock_ts \<le> wall_ticks start now \<and>
       (\<forall>n \<in> set before. wall_ticks start n < clock_ts)"
proof (induction nows)
  case (Cons now nows)
  show ?case
  proof (cases "clock_ts > wall_ticks start now")
    case True
    with Cons obtain before n where "nows = before @ n # rest" "clock_ts \<le> wall_ticks start n"
      "\<forall>m \<in> set before. wall_ticks start m < clock_ts" by auto
    with True show ?thesis by (intro exI [of _ "now # before"] exI [of _ n]) auto
  next
    case False
    with Cons.prems show ?thesis by (intro exI [of _ "[]"] exI [of _ now]) auto
  qed
qed simp

lemma pace_returns:
  "\<exists>now \<in> set nows. clock_ts \<le> wall_ticks start now \<Longrightarrow> \<exists>rest. pace clock_ts start nows = Some rest"
  by (induction nows) auto

section \<open>Properties\<close>


text \<open>A 50 Hz video clock started at instant 0 whose second frame comes 65 ms late.\<close>

definition sample_clock :: timestamp_clock where
  "sample_clock = \<lparr>tc_audio = False, tc_last = Some 0, tc_start = 0, tc_clock_ts = 0, tc_frame_rate_n = 50,
     tc_frame_rate_d = 1, tc_sample_rate = 0, tc_frame_interval = 200000\<rparr>"


text \<open>what \<open>resolve\<close> does outside the paced path: an explicit timestamp is returned as it is and becomes
  the last one; the first automatic frame, and the first after a change of the rates, is 0 and restarts
  the presentation clock with the interval of the new rates.\<close>

theorem clock_explicit_and_first:
  "(ts \<noteq> AUTO_TIMESTAMP \<longrightarrow>
      (\<exists>c' rest. clock_resolve ts n d sr spc c (now # nows) = Some (ts, c', rest) \<and> tc_last c' = Some ts)) \<and>
   (needs_reset n d sr c \<or> tc_last c = None \<longrightarrow>
      (\<exists>c' rest. clock_resolve AUTO_TIMESTAMP n d sr spc c (now # now' # nows) = Some (0, c', rest) \<and>
         tc_last c' = Some 0 \<and> tc_clock_ts c' = 0 \<and> tc_frame_interval c' = interval_of (tc_audio c) n d sr spc))"
  by (auto simp: clock_resolve_def clock_reset_def)

theorem clock_explicit_and_first_witness:
  "(\<exists>c' rest. clock_resolve 7 50 1 0 0 sample_clock (5 # [6]) = Some (7, c', rest) \<and> tc_last c' = Some 7) \<and>
   (\<exists>c' rest. clock_resolve AUTO_TIMESTAMP 25 1 0 0 sample_clock (5 # 6 # []) = Some (0, c', rest) \<and>
      tc_last c' = Some 0 \<and> tc_clock_ts c' = 0 \<and> tc_frame_interval c' = 400000)"
  using clock_explicit_and_first [of 7 50 1 0 0 sample_clock 5 "[6]" 0]
    clock_explicit_and_first [of 7 25 1 0 0 sample_clock 5 "[]" 6]
  by (simp add: AUTO_TIMESTAMP_def needs_reset_def interval_of_def sample_clock_def TICKS_PER_SECOND_def sat64_def)

section \<open>Seconds and ticks\<close>

text \<open>converting a timestamp to seconds and back gives it again, in either sign, as long as it is at most
  \<open>2 ^ 50\<close> ticks, some three and a half years; the three roundings on the way stay below half a tick. Timestamps
  counted from 1970 are larger than that.\<close>

theorem timestamp_seconds_roundtrip:
  assumes "\<bar>ts\<bar> \<le> 2 ^ 50"
  shows "seconds_to_timestamp (timestamp_to_seconds ts) = ts"
proof (cases "ts = 0")
  case True
  then show ?thesis
    by (simp add: seconds_to_timestamp_def timestamp_to_seconds_def f64_of_i64_def f64_bits_def float_bits_def f64_div_nat_def
        f64_mul_nat_def f64_ratio_def float_ratio_def scale_ratio_def F64_INF_def f64_round_i64_def)
next
  case False
  define a where "a = nat \<bar>ts\<bar>"
  have a: "0 < a" "1 \<le> real a" "real a \<le> 2 ^ 50" using False assms by (simp_all add: a_def)
  let ?c = "10000000 :: nat" and ?e = "1 / 2 ^ 53 :: real"
  obtain n0 d0 where s0: "f64_ratio (f64_bits a 1) = (n0, d0)" "0 < n0" "0 < d0" "\<bar>ratio (n0, d0) - real a\<bar> \<le> real a / 2 ^ 53"
      "f64_bits a 1 < F64_INF"
    by (rule f64_step [of a 1 "real a"]) (use a in \<open>simp_all add: ratio_def\<close>)
  define r where "r = ratio (n0, d0)"
  have r: "real a * (1 - ?e) \<le> r" "r \<le> real a * (1 + ?e)"
    using relative_bounds [OF s0(4)] unfolding r_def by blast+
  then have rb: "1 / 2 \<le> r" "r \<le> 2 ^ 50 + 1" using a by simp_all
  obtain n1 d1 where s1: "f64_ratio (f64_bits n0 (d0 * ?c)) = (n1, d1)" "0 < n1" "0 < d1"
      "\<bar>ratio (n1, d1) - r / 10000000\<bar> \<le> r / 10000000 / 2 ^ 53" "f64_bits n0 (d0 * ?c) < F64_INF"
    by (rule f64_step [of n0 "d0 * ?c" "r / 10000000"]) (use s0 rb in \<open>simp_all add: ratio_def r_def\<close>)
  define u where "u = ratio (n1, d1) * 10000000"
  have u: "r * (1 - ?e) \<le> u" "u \<le> r * (1 + ?e)"
    using relative_bounds [OF s1(4)] unfolding u_def by simp_all
  then have ub: "1 / 4 \<le> u" "u \<le> 2 ^ 50 + 2" using rb by simp_all
  obtain n2 d2 where s2: "f64_ratio (f64_bits (n1 * ?c) d1) = (n2, d2)" "0 < n2" "0 < d2"
      "\<bar>ratio (n2, d2) - u\<bar> \<le> u / 2 ^ 53" "f64_bits (n1 * ?c) d1 < F64_INF"
    by (rule f64_step [of "n1 * ?c" d1 u]) (use s1 ub in \<open>simp_all add: ratio_def u_def\<close>)
  have "u - r \<le> r / 2 ^ 53" "r - u \<le> r / 2 ^ 53" using u by (simp_all add: field_simps)
  moreover have "r / 2 ^ 53 \<le> 1 / 7" "real a / 2 ^ 53 \<le> 1 / 8" "u / 2 ^ 53 \<le> 1 / 6" using rb ub a by simp_all
  ultimately have "\<bar>r - real a\<bar> \<le> 1 / 8" "\<bar>u - r\<bar> \<le> 1 / 7" "\<bar>ratio (n2, d2) - u\<bar> \<le> 1 / 6"
    using s0(4) s2(4) unfolding r_def by linarith+
  then have "\<bar>ratio (n2, d2) - real a\<bar> < 1 / 2" by linarith
  then have res: "(2 * n2 + d2) div (2 * d2) = a" by (rule rounds_to [OF s2(3)])
  have "seconds_to_timestamp (timestamp_to_seconds ts) = f64_round_i64 (f64_make (ts < 0) (f64_bits (n1 * ?c) d1))"
    unfolding seconds_to_timestamp_def timestamp_to_seconds_def f64_of_i64_def TICKS_PER_SECOND_def a_def [symmetric]
    using f64_div_make [OF s0(5,1)] f64_mul_make [OF s1(5,1)] by simp
  then show ?thesis using s2 res assms
    by (simp add: f64_round_i64_def Let_def a_def)
qed

theorem timestamp_seconds_roundtrip_witness: "seconds_to_timestamp (timestamp_to_seconds (- 36000000001)) = - 36000000001"
  using timestamp_seconds_roundtrip [of "- 36000000001"] by simp

end
