(* ===== verification/Fpa1.thy ===== *)
theory Fpa1
  imports Omt_Types
begin

text \<open>
  The FPA1 planar audio codec (\<open>src/codec/fpa1.rs\<close>). A sample is the 32 bits of its \<open>f32\<close>; an index out
  of range, which panics in the source, is \<open>None\<close>. Encoding drops the channels whose samples are all
  zero bits, decoding puts them back; the decoder's loop is proved equal to the recursive description
  \<open>expand\<close>, from which follow the absence of panics and the round trip.
\<close>

section \<open>Definitions\<close>

definition channel_is_silent :: "f32 list \<Rightarrow> bool" where
  "channel_is_silent samples \<longleftrightarrow> list_all (\<lambda>s. s = 0) samples"

definition channel_bytes :: "f32 list \<Rightarrow> bytes" where
  "channel_bytes ch = concat (map (le_bytes 4) ch)"

fun encode_loop :: "nat \<Rightarrow> f32 list list \<Rightarrow> bytes \<times> u32 \<Rightarrow> bytes \<times> u32" where
  "encode_loop i [] st = st"
| "encode_loop i (ch # chs) (out, active) =
     (if channel_is_silent ch then encode_loop (Suc i) chs (out, active)
      else encode_loop (Suc i) chs (out @ channel_bytes ch, active OR push_bit i 1))"

definition encode_planar :: "f32 list list \<Rightarrow> (bytes \<times> u32) result" where
  "encode_planar channels =
     (if channels = [] then Inl (InvalidArgument ''FPA1 requires at least one channel'')
      else if length channels > 32 then Inl (InvalidArgument ''FPA1 supports at most 32 channels'')
      else
        let samples = length (channels ! 0) in
        if list_ex (\<lambda>ch. length ch \<noteq> samples) channels then
          Inl (InvalidArgument ''all FPA1 channels must have the same sample count'')
        else Inr (encode_loop 0 channels ([], 0)))"

definition count_ones :: "u32 \<Rightarrow> nat" where
  "count_ones w = length (filter (bit w) [0..<32])"

text \<open>\<open>out[a..a + n].copy_from_slice(&data[b..b + n])\<close>.\<close>

definition copy_slice :: "bytes \<Rightarrow> nat \<Rightarrow> bytes \<Rightarrow> nat \<Rightarrow> nat \<Rightarrow> bytes option" where
  "copy_slice out a data b n =
     (if a + n \<le> length out \<and> b + n \<le> length data
      then Some (take a out @ slice b (b + n) data @ drop (a + n) out) else None)"

definition has_flag :: "u32 \<Rightarrow> nat \<Rightarrow> bool" where
  "has_flag active_channels i \<longleftrightarrow> active_channels AND push_bit i 1 = push_bit i 1"

fun decode_loop :: "bytes \<Rightarrow> nat \<Rightarrow> u32 \<Rightarrow> nat list \<Rightarrow> nat \<Rightarrow> bytes \<Rightarrow> bytes option" where
  "decode_loop data samples_per_channel active_channels [] offset out = Some out"
| "decode_loop data samples_per_channel active_channels (i # is) offset out =
     (if has_flag active_channels i then
        (case copy_slice out (i * samples_per_channel * AUDIO_SAMPLE_SIZE) data offset
                (samples_per_channel * AUDIO_SAMPLE_SIZE) of
           None \<Rightarrow> None
         | Some out' \<Rightarrow>
             decode_loop data samples_per_channel active_channels is
               (offset + samples_per_channel * AUDIO_SAMPLE_SIZE) out')
      else decode_loop data samples_per_channel active_channels is offset out)"

text \<open>The result with the caller's output buffer, or \<open>None\<close> for a panic.\<close>

definition decode_planar_into :: "bytes \<Rightarrow> nat \<Rightarrow> nat \<Rightarrow> u32 \<Rightarrow> bytes \<Rightarrow> (unit result \<times> bytes) option" where
  "decode_planar_into data channels samples_per_channel active_channels out =
     (if channels = 0 \<or> channels > 32 then
        Some (Inl (InvalidArgument ''FPA1 channel count must be 1..=32''), out)
      else
        case Option.bind (usize_checked_mul (count_ones active_channels) samples_per_channel)
               (\<lambda>n. usize_checked_mul n AUDIO_SAMPLE_SIZE) of
          None \<Rightarrow> Some (Inl (InvalidArgument ''FPA1 size overflow''), out)
        | Some expected \<Rightarrow>
            if length data < expected then Some (Inl (Protocol ''FPA1 payload too short''), out)
            else
              case Option.bind (usize_checked_mul channels samples_per_channel)
                     (\<lambda>n. usize_checked_mul n AUDIO_SAMPLE_SIZE) of
                None \<Rightarrow> Some (Inl (InvalidArgument ''FPA1 size overflow''), out)
              | Some need \<Rightarrow>
                  map_option (Pair (Inr ()))
                    (decode_loop data samples_per_channel active_channels [0..<channels] 0
                       (replicate need 0)))"

definition read_f32 :: "bytes \<Rightarrow> nat \<Rightarrow> f32 option" where
  "read_f32 flat p = (if p + 4 \<le> length flat then Some (le_word (slice p (p + 4) flat)) else None)"

definition decode_planar :: "bytes \<Rightarrow> nat \<Rightarrow> nat \<Rightarrow> u32 \<Rightarrow> f32 list list result option" where
  "decode_planar data channels samples_per_channel active_channels =
     (case decode_planar_into data channels samples_per_channel active_channels [] of
        None \<Rightarrow> None
      | Some (Inl e, flat) \<Rightarrow> Some (Inl e)
      | Some (Inr _, flat) \<Rightarrow>
          map_option Inr (those (map (\<lambda>i. those (map (\<lambda>s.
            read_f32 flat (i * samples_per_channel * AUDIO_SAMPLE_SIZE + s * 4)) [0..<samples_per_channel]))
            [0..<channels])))"

section \<open>The decoder's loop\<close>

text \<open>What the loop computes: one plane of \<open>B\<close> bytes per channel, taken from the data when the channel's
  bit is set and zero otherwise.\<close>

fun expand :: "nat \<Rightarrow> u32 \<Rightarrow> nat \<Rightarrow> nat \<Rightarrow> bytes \<Rightarrow> bytes" where
  "expand B active i 0 data = []"
| "expand B active i (Suc n) data =
     (if bit active i then take B data @ expand B active (Suc i) n (drop B data)
      else replicate B 0 @ expand B active (Suc i) n data)"

definition active_in :: "u32 \<Rightarrow> nat \<Rightarrow> nat \<Rightarrow> nat" where
  "active_in active i n = length (filter (bit active) [i..<i + n])"

lemma upt_step: "[i..<i + Suc n] = i # [Suc i..<Suc i + n]"
  using upt_conv_Cons [of i "i + Suc n"] by simp

lemma active_in_Suc: "active_in active i (Suc n) = (if bit active i then 1 else 0) + active_in active (Suc i) n"
  by (simp only: active_in_def upt_step) simp

lemma active_in_le:
  assumes "n \<le> 32"
  shows "active_in active 0 n \<le> count_ones active"
proof -
  have "[0..<32] = [0..<n] @ [n..<32]"
    using upt_add_eq_append [of 0 n "32 - n"] assms by simp
  then show ?thesis by (simp only: active_in_def count_ones_def filter_append length_append) simp
qed

lemma has_flag_bit: "i < 32 \<Longrightarrow> has_flag a i = bit a i"
  unfolding has_flag_def bit_eq_iff [where 'a = u32] by (auto simp: bit_and_iff bit_exp_iff)

lemma length_expand:
  "active_in active i n * B \<le> length data \<Longrightarrow> length (expand B active i n data) = n * B"
  by (induction n arbitrary: i data) (auto simp: active_in_Suc)

lemma decode_loop_expand:
  assumes "B = samples * AUDIO_SAMPLE_SIZE" "i + n \<le> 32" "length pre = i * B"
    and "offset + active_in active i n * B \<le> length data"
  shows "decode_loop data samples active [i..<i + n] offset (pre @ replicate (n * B) 0) =
     Some (pre @ expand B active i n (drop offset data))"
  using assms(2-)
proof (induction n arbitrary: i offset pre)
  case (Suc n)
  have rep: "replicate (Suc n * B) (0 :: u8) = replicate B 0 @ replicate (n * B) 0"
    by (simp flip: replicate_add)
  have off: "i * samples * AUDIO_SAMPLE_SIZE = length pre" using Suc.prems(2) assms(1) by simp
  have i: "has_flag active i = bit active i" using Suc.prems(1) by (simp add: has_flag_bit)
  show ?case
  proof (cases "bit active i")
    case True
    with Suc.prems have lens: "offset + B \<le> length data"
      "offset + B + active_in active (Suc i) n * B \<le> length data"
      by (simp_all add: active_in_Suc)
    have copy: "copy_slice (pre @ replicate (Suc n * B) 0) (length pre) data offset B =
        Some ((pre @ take B (drop offset data)) @ replicate (n * B) 0)"
      using lens by (simp add: copy_slice_def slice_def rep)
    have "decode_loop data samples active [Suc i..<Suc i + n] (offset + B)
        ((pre @ take B (drop offset data)) @ replicate (n * B) 0) =
        Some ((pre @ take B (drop offset data)) @ expand B active (Suc i) n (drop (offset + B) data))"
      using Suc.prems lens by (intro Suc.IH) simp_all
    then show ?thesis
      unfolding upt_step decode_loop.simps i off assms(1) [symmetric] copy
      using True by (simp add: add.commute)
  next
    case False
    with Suc.prems have "offset + active_in active (Suc i) n * B \<le> length data"
      by (simp add: active_in_Suc)
    then have "decode_loop data samples active [Suc i..<Suc i + n] offset
        ((pre @ replicate B 0) @ replicate (n * B) 0) =
        Some ((pre @ replicate B 0) @ expand B active (Suc i) n (drop offset data))"
      using Suc.prems by (intro Suc.IH) simp_all
    then show ?thesis
      unfolding upt_step decode_loop.simps i rep using False by simp
  qed
qed simp

section \<open>The round trip\<close>

lemma length_channel_bytes [simp]: "length (channel_bytes ch) = 4 * length ch"
  by (induction ch) (simp_all add: channel_bytes_def)

lemma silent_bytes: "channel_is_silent ch \<Longrightarrow> channel_bytes ch = replicate (4 * length ch) 0"
proof (induction ch)
  case (Cons s ch)
  then have "channel_bytes (s # ch) = replicate 4 0 @ replicate (4 * length ch) 0"
    by (simp add: channel_is_silent_def channel_bytes_def numeral_eq_Suc)
  then show ?case by (simp flip: replicate_add)
qed (simp add: channel_bytes_def)

lemma encode_loop_bits:
  "encode_loop i chs (out, active) = (out', active') \<Longrightarrow> k < i \<Longrightarrow> bit active' k = bit active k"
proof (induction chs arbitrary: i out active)
  case (Cons ch chs)
  show ?case
  proof (cases "channel_is_silent ch")
    case False
    with Cons.prems Cons.IH [of "Suc i" "out @ channel_bytes ch" "active OR push_bit i 1"]
    show ?thesis by (auto simp: bit_or_iff bit_exp_iff)
  qed (use Cons in auto)
qed simp

text \<open>The encoder's output, seen from channel \<open>i\<close> on, expands to the channels.\<close>

lemma encode_loop_expand:
  assumes "encode_loop i chs (out, active) = (out', active')" "i + length chs \<le> 32"
    and "\<forall>k \<ge> i. \<not> bit active k" "\<forall>ch \<in> set chs. length ch = samples"
  shows "\<exists>payload. out' = out @ payload \<and> length payload = active_in active' i (length chs) * (4 * samples) \<and>
     (\<forall>more. expand (4 * samples) active' i (length chs) (payload @ more) = concat (map channel_bytes chs)) \<and>
     (\<forall>k \<ge> i + length chs. \<not> bit active' k)"
  using assms
proof (induction chs arbitrary: i out active)
  case (Cons ch chs)
  show ?case
  proof (cases "channel_is_silent ch")
    case True
    with Cons.prems have enc: "encode_loop (Suc i) chs (out, active) = (out', active')" by simp
    have "\<not> bit active' i" using encode_loop_bits [OF enc, of i] Cons.prems(3) by simp
    with Cons.IH [OF enc] Cons.prems True show ?thesis
      by (fastforce simp: active_in_Suc silent_bytes)
  next
    case False
    let ?a = "active OR push_bit i 1"
    from False Cons.prems have enc: "encode_loop (Suc i) chs (out @ channel_bytes ch, ?a) = (out', active')" by simp
    have bit: "bit active' i"
      using encode_loop_bits [OF enc, of i] Cons.prems(2) by (simp add: bit_or_iff bit_exp_iff)
    have "\<forall>k \<ge> Suc i. \<not> bit ?a k" using Cons.prems(3) by (simp add: bit_or_iff bit_exp_iff)
    with Cons.IH [OF enc] Cons.prems obtain payload where
      p: "out' = (out @ channel_bytes ch) @ payload" "length payload = active_in active' (Suc i) (length chs) * (4 * samples)"
        "\<forall>more. expand (4 * samples) active' (Suc i) (length chs) (payload @ more) = concat (map channel_bytes chs)"
        "\<forall>k \<ge> Suc i + length chs. \<not> bit active' k"
      by auto
    with bit Cons.prems(4) show ?thesis
      by (intro exI [of _ "channel_bytes ch @ payload"]) (simp add: active_in_Suc algebra_simps)
  qed
qed (simp add: active_in_def)

lemma those_Some: "those (map Some xs) = Some xs"
  by (induction xs) simp_all

lemma those_cong: "(\<And>x. x \<in> set xs \<Longrightarrow> f x = Some (g x)) \<Longrightarrow> those (map f xs) = Some (map g xs)"
  by (induction xs) simp_all

lemma slice_concat_nth:
  assumes "\<forall>x \<in> set xs. length x = B" "i < length xs"
  shows "slice (i * B) (i * B + B) (concat xs) = xs ! i"
  using assms
proof (induction xs arbitrary: i)
  case (Cons x xs)
  show ?case
  proof (cases i)
    case 0
    with Cons.prems show ?thesis by (simp add: slice_def)
  next
    case (Suc j)
    with Cons.IH [of j] Cons.prems show ?thesis by (simp add: slice_def)
  qed
qed simp

lemma slice_slice: "b \<le> d - c \<Longrightarrow> slice a b (slice c d xs) = slice (c + a) (c + b) xs"
  by (simp add: slice_def drop_take take_take min_def add.commute)

lemma channel_bytes_nth:
  "s < length ch \<Longrightarrow> le_word (slice (s * 4) (s * 4 + 4) (channel_bytes ch)) = ch ! s"
  using slice_concat_nth [of "map (le_bytes 4) ch" 4 s] by (simp add: channel_bytes_def)

text \<open>Reading the planes back from the flat buffer of all channels.\<close>

lemma read_planes:
  assumes "\<forall>ch \<in> set chs. length ch = samples"
  shows "those (map (\<lambda>i. those (map (\<lambda>s. read_f32 (concat (map channel_bytes chs)) (i * samples * AUDIO_SAMPLE_SIZE + s * 4))
     [0..<samples])) [0..<length chs]) = Some chs"
proof -
  let ?flat = "concat (map channel_bytes chs)"
  have len: "length ?flat = length chs * (4 * samples)"
    using assms by (induction chs) auto
  have rd: "read_f32 ?flat (i * samples * AUDIO_SAMPLE_SIZE + s * 4) = Some (chs ! i ! s)"
    if i: "i < length chs" and s: "s < samples" for i s
  proof -
    have "Suc i * (4 * samples) \<le> length chs * (4 * samples)" using i by (intro mult_le_mono1) simp
    with s have "i * (samples * 4) + s * 4 + 4 \<le> length ?flat" by (simp add: len)
    moreover have "slice (i * (4 * samples)) (i * (4 * samples) + 4 * samples) ?flat = channel_bytes (chs ! i)"
      using slice_concat_nth [of "map channel_bytes chs" "4 * samples" i] assms i by simp
    then have "slice (i * (4 * samples) + s * 4) (i * (4 * samples) + (s * 4 + 4)) ?flat =
        slice (s * 4) (s * 4 + 4) (channel_bytes (chs ! i))"
      using s slice_slice [of "s * 4 + 4" "i * (4 * samples) + 4 * samples" "i * (4 * samples)" "s * 4" ?flat] by simp
    moreover have "length (chs ! i) = samples" using assms i by simp
    ultimately show ?thesis
      using channel_bytes_nth [of s "chs ! i"] s
      by (simp add: read_f32_def AUDIO_SAMPLE_SIZE_def algebra_simps)
  qed
  have "those (map (\<lambda>s. read_f32 ?flat (i * samples * AUDIO_SAMPLE_SIZE + s * 4)) [0..<samples]) = Some (chs ! i)"
    if "i < length chs" for i
  proof -
    have "those (map (\<lambda>s. read_f32 ?flat (i * samples * AUDIO_SAMPLE_SIZE + s * 4)) [0..<samples]) =
        Some (map (\<lambda>s. chs ! i ! s) [0..<samples])"
      using rd that by (intro those_cong) simp
    moreover have "samples = length (chs ! i)" using assms that by simp
    ultimately show ?thesis by (simp only: map_nth)
  qed
  then have "those (map (\<lambda>i. those (map (\<lambda>s. read_f32 ?flat (i * samples * AUDIO_SAMPLE_SIZE + s * 4))
     [0..<samples])) [0..<length chs]) = Some (map (\<lambda>i. chs ! i) [0..<length chs])"
    by (intro those_cong) simp
  then show ?thesis by (simp only: map_nth)
qed

section \<open>Properties\<close>

lemma checked_mul2:
  "a * b * c \<le> usize_max \<Longrightarrow> 0 < c \<Longrightarrow>
     Option.bind (usize_checked_mul a b) (\<lambda>n. usize_checked_mul n c) = Some (a * b * c)"
  by (cases c) (auto simp: usize_checked_mul_def)

lemma checked_mul2_SomeD:
  "Option.bind (usize_checked_mul a b) (\<lambda>n. usize_checked_mul n c) = Some m \<Longrightarrow> m = a * b * c"
  by (auto simp: usize_checked_mul_def split: if_splits Option.bind_splits)

lemma decode_planar_into_cases:
  obtains (fails) e where "decode_planar_into data channels samples active out = Some (Inl e, out)"
  | (decodes) "decode_planar_into data channels samples active out =
        Some (Inr (), expand (samples * AUDIO_SAMPLE_SIZE) active 0 channels data)"
      "length (expand (samples * AUDIO_SAMPLE_SIZE) active 0 channels data) = channels * (samples * AUDIO_SAMPLE_SIZE)"
      "1 \<le> channels" "channels \<le> 32"
proof (cases "channels = 0 \<or> channels > 32")
  case True
  then show ?thesis using fails by (auto simp: decode_planar_into_def)
next
  case False
  let ?B = "samples * AUDIO_SAMPLE_SIZE"
  have dec: "decode_loop data samples active [0..<channels] 0 (replicate need 0) =
          Some (expand ?B active 0 channels data) \<and> length (expand ?B active 0 channels data) = channels * ?B"
    if "\<not> length data < expected"
      "Option.bind (usize_checked_mul (count_ones active) samples) (\<lambda>n. usize_checked_mul n AUDIO_SAMPLE_SIZE) = Some expected"
      "Option.bind (usize_checked_mul channels samples) (\<lambda>n. usize_checked_mul n AUDIO_SAMPLE_SIZE) = Some need"
    for expected need
  proof -
    have "active_in active 0 channels * ?B \<le> count_ones active * ?B"
      using active_in_le [of channels active] False by (intro mult_le_mono1) simp
    also have "\<dots> \<le> length data" using that(1) checked_mul2_SomeD [OF that(2)] by (simp add: mult.assoc)
    finally have "active_in active 0 channels * ?B \<le> length data" .
    moreover have "need = channels * ?B" using checked_mul2_SomeD [OF that(3)] by simp
    ultimately show ?thesis
      using decode_loop_expand [of ?B samples 0 channels "[]" 0 active data] False by (simp add: length_expand)
  qed
  show ?thesis
  proof (cases "\<exists>e. decode_planar_into data channels samples active out = Some (Inl e, out)")
    case ok: False
    then have "decode_planar_into data channels samples active out = Some (Inr (), expand ?B active 0 channels data) \<and>
        length (expand ?B active 0 channels data) = channels * ?B"
      using False dec by (auto simp: decode_planar_into_def split: option.splits if_splits)
    with decodes False show ?thesis by simp
  qed (use fails in blast)
qed

text \<open>C20: the decoder never panics, whatever payload, channel count, sample count and bit field the peer
  sends: every slice it takes is in range. On success the output has exactly \<open>channels\<close> planes.\<close>

theorem decode_planar_into_total:
  "case decode_planar_into data channels samples active out of
     None \<Rightarrow> False
   | Some (Inl e, out') \<Rightarrow> out' = out
   | Some (Inr _, out') \<Rightarrow> out' = expand (samples * AUDIO_SAMPLE_SIZE) active 0 channels data \<and>
       length out' = channels * (samples * AUDIO_SAMPLE_SIZE)"
  by (rule decode_planar_into_cases [of data channels samples active out]) simp_all

lemma decode_planar_into_encoded:
  assumes "encode_planar channels = Inr (payload, active)"
    and "length channels * length (hd channels) * AUDIO_SAMPLE_SIZE \<le> usize_max"
  shows "decode_planar_into (payload @ rest) (length channels) (length (hd channels)) active out =
    Some (Inr (), concat (map channel_bytes channels))"
    and "\<forall>c \<in> set channels. length c = length (hd channels)"
    and "length payload \<le> length channels * (4 * length (hd channels))"
proof -
  let ?s = "length (hd channels)" and ?n = "length channels"
  from assms(1) have ch12: "channels \<noteq> []" "?n \<le> 32"
    and ex: "\<not> list_ex (\<lambda>ch. length ch \<noteq> length (channels ! 0)) channels"
    and enc: "encode_loop 0 channels ([], 0) = (payload, active)"
    by (auto simp: encode_planar_def Let_def split: if_splits)
  show *: "\<forall>c \<in> set channels. length c = ?s"
    using ex unfolding list_ex_iff hd_conv_nth [OF ch12(1)] by blast
  from encode_loop_expand [OF enc _ _ *] ch12(2)
  have len: "length payload = active_in active 0 ?n * (4 * ?s)"
    and exp: "expand (4 * ?s) active 0 ?n (payload @ rest) = concat (map channel_bytes channels)"
    and bits: "\<forall>k \<ge> ?n. \<not> bit active k" by auto
  have "[0..<32] = [0..<?n] @ [?n..<32]" using upt_add_eq_append [of 0 ?n "32 - ?n"] ch12(2) by simp
  moreover have "filter (bit active) [?n..<32] = []" using bits by (simp add: filter_empty_conv)
  ultimately have cnt: "count_ones active = active_in active 0 ?n"
    by (simp only: count_ones_def active_in_def filter_append) simp
  have le: "active_in active 0 ?n \<le> ?n" by (simp add: active_in_def order_trans [OF length_filter_le])
  show "length payload \<le> ?n * (4 * ?s)" unfolding len using le by (rule mult_le_mono1)
  have "active_in active 0 ?n * ?s * AUDIO_SAMPLE_SIZE \<le> usize_max"
    using assms(2) le by (meson mult_le_mono1 order_trans)
  then have "Option.bind (usize_checked_mul (count_ones active) ?s) (\<lambda>n. usize_checked_mul n AUDIO_SAMPLE_SIZE) =
      Some (active_in active 0 ?n * ?s * AUDIO_SAMPLE_SIZE)"
    unfolding cnt by (rule checked_mul2) (simp add: AUDIO_SAMPLE_SIZE_def)
  moreover have "Option.bind (usize_checked_mul ?n ?s) (\<lambda>n. usize_checked_mul n AUDIO_SAMPLE_SIZE) =
      Some (?n * ?s * AUDIO_SAMPLE_SIZE)"
    using assms(2) by (rule checked_mul2) (simp add: AUDIO_SAMPLE_SIZE_def)
  moreover have "\<not> length (payload @ rest) < active_in active 0 ?n * ?s * AUDIO_SAMPLE_SIZE"
    by (simp add: len AUDIO_SAMPLE_SIZE_def)
  ultimately have "decode_planar_into (payload @ rest) ?n ?s active out =
      map_option (Pair (Inr ())) (decode_loop (payload @ rest) ?s active [0..<?n] 0 (replicate (?n * ?s * AUDIO_SAMPLE_SIZE) 0))"
    using ch12 by (simp add: decode_planar_into_def del: length_append)
  also have "\<dots> = Some (Inr (), concat (map channel_bytes channels))"
    using decode_loop_expand [of "4 * ?s" ?s 0 ?n "[]" 0 active "payload @ rest"] ch12(2) len exp
    by (simp add: AUDIO_SAMPLE_SIZE_def mult.commute mult.left_commute)
  finally show "decode_planar_into (payload @ rest) ?n ?s active out = Some (Inr (), concat (map channel_bytes channels))" .
qed

text \<open>C19: FPA1 is lossless. Whatever channels the encoder accepts, decoding its payload (with anything after
  it) and bit field gives back every sample bit for bit, the dropped silent channels included.\<close>

theorem fpa1_roundtrip:
  assumes "encode_planar channels = Inr (payload, active)"
    and "length channels * length (hd channels) * AUDIO_SAMPLE_SIZE \<le> usize_max"
  shows "decode_planar (payload @ rest) (length channels) (length (hd channels)) active = Some (Inr channels)"
  using decode_planar_into_encoded(1) [OF assms, of rest "[]"] read_planes [OF decode_planar_into_encoded(2) [OF assms]]
  by (simp add: decode_planar_def)

theorem fpa1_roundtrip_witness:
  "encode_planar [[1, 2], [0, 0], [3, 0x80000000]] =
     Inr ([1, 0, 0, 0, 2, 0, 0, 0, 3, 0, 0, 0, 0, 0, 0, 0x80], 5) \<and>
   decode_planar ([1, 0, 0, 0, 2, 0, 0, 0, 3, 0, 0, 0, 0, 0, 0, 0x80] @ [77]) 3 2 5 =
     Some (Inr [[1, 2], [0, 0], [3, 0x80000000]])"
proof -
  have e: "encode_planar [[1, 2], [0, 0], [3, 0x80000000]] =
     Inr ([1, 0, 0, 0, 2, 0, 0, 0, 3, 0, 0, 0, 0, 0, 0, 0x80], 5)"
    by code_simp
  have "24 \<le> usize_max" by (simp add: usize_max_def)
  with fpa1_roundtrip [OF e, of "[77]"] e show ?thesis
    by (simp add: AUDIO_SAMPLE_SIZE_def numeral_3_eq_3 numeral_2_eq_2)
qed

end
