(* ===== verification/Sender.thy ===== *)
theory Sender
  imports Sender_Peers Video_Encoder Clock Fpa1 Settings State_Machine
begin

text \<open>
  The sender (the first half of \<open>src/send.rs\<close>): its construction and port search, accepting peers, reading
  their control messages, building the frames of the wire and sending video, audio and metadata to the peers
  directly or through the write queues. Sockets, time and the VMX codec come from outside: every operation
  takes the outcomes of the calls it makes. \<open>None\<close> is a panic, or pacing that has not ended when the list of
  instants is used up.
\<close>

section \<open>State\<close>

record sender_config =
  sc_send_buffer :: nat
  sc_recv_buffer :: nat
  sc_send_queue_depth :: nat

definition sender_config_default :: sender_config where
  "sender_config_default = \<lparr>sc_send_buffer = NETWORK_SEND_BUFFER, sc_recv_buffer = NETWORK_SEND_RECEIVE_BUFFER,
     sc_send_queue_depth = NETWORK_ASYNC_COUNT\<rparr>"

text \<open>The audio share (clock, enabled flag, queue) is the part that audio ingress handles reach; \<open>sn_audio_open\<close>
  tells whether the sender's own handle of the audio queue is still there.\<close>

record audio_share =
  au_clock :: timestamp_clock
  au_outbound :: "write_queue option"
  au_enabled :: bool

record 'c sender =
  sn_name :: string
  sn_frame_types :: frame_type
  sn_quality :: quality
  sn_stats :: statistics
  sn_info :: sender_info
  sn_video_clock :: timestamp_clock
  sn_audio :: audio_share
  sn_listening :: bool
  sn_port :: u16
  sn_peers :: peers
  sn_next_peer_id :: nat
  sn_subscribed :: peer_state
  sn_config :: sender_config
  sn_outbound_video :: "write_queue option"
  sn_audio_open :: bool
  sn_video_encoder :: "'c video_encoder"

definition new_audio_share :: "nat \<Rightarrow> write_queue option \<Rightarrow> audio_share" where
  "new_audio_share now outbound = \<lparr>au_clock = timestamp_clock_new now True, au_outbound = outbound, au_enabled = False\<rparr>"

section \<open>Construction\<close>

text \<open>\<open>listens\<close> tells on which ports \<open>listen\<close> succeeds, \<open>into\<close> is the outcome of \<open>into_listener\<close> there.\<close>

fun bind_loop :: "(u16 \<Rightarrow> bool) \<Rightarrow> (u16 \<Rightarrow> unit result) \<Rightarrow> nat list \<Rightarrow> u16 result option" where
  "bind_loop listens into [] = None"
| "bind_loop listens into (port # ports) =
     (if listens (word_of_nat port) then
        Some (case into (word_of_nat port) of Inl e \<Rightarrow> Inl e | Inr _ \<Rightarrow> Inr (word_of_nat port))
      else bind_loop listens into ports)"

definition bind_port_range_between :: "(u16 \<Rightarrow> bool) \<Rightarrow> (u16 \<Rightarrow> unit result) \<Rightarrow> u16 \<Rightarrow> u16 \<Rightarrow> u16 result" where
  "bind_port_range_between listens into start stop =
     (case (if start \<le> stop then bind_loop listens into [unat start..<Suc (unat stop)] else None) of
        Some r \<Rightarrow> r
      | None \<Rightarrow> Inl (Network (''no free port in '' @ show_nat (unat start) @ ''..='' @ show_nat (unat stop))))"

definition bind_port_range :: "(u16 \<Rightarrow> bool) \<Rightarrow> (u16 \<Rightarrow> unit result) \<Rightarrow> settings \<Rightarrow> u16 result" where
  "bind_port_range listens into s =
     (case network_port_range s of (start, stop) \<Rightarrow> bind_port_range_between listens into start stop)"

text \<open>\<open>spawned\<close> tells for the video and the audio writer whether the thread could be started, \<open>nows\<close> when the
  video and the audio clock were created.\<close>

definition new_sender :: "bool \<times> bool \<Rightarrow> nat \<times> nat \<Rightarrow> string \<Rightarrow> frame_type \<Rightarrow> sender_config \<Rightarrow> bool \<Rightarrow> u16 \<Rightarrow> 'c sender" where
  "new_sender spawned nows name frame_types config listening port =
     (let outbound_video = spawn_typed_writer (fst spawned) (sc_send_queue_depth config);
          outbound_audio = spawn_typed_writer (snd spawned) (sc_send_queue_depth config) in
      \<lparr>sn_name = name, sn_frame_types = frame_types, sn_quality = QDefault, sn_stats = statistics_default,
       sn_info = sender_info_new [] [] [], sn_video_clock = timestamp_clock_new (fst nows) False,
       sn_audio = new_audio_share (snd nows) outbound_audio, sn_listening = listening, sn_port = port, sn_peers = [],
       sn_next_peer_id = 1, sn_subscribed = peer_state_default, sn_config = config, sn_outbound_video = outbound_video,
       sn_audio_open = (outbound_audio \<noteq> None), sn_video_encoder = video_encoder_new\<rparr>)"

definition create_with_config :: "(u16 \<Rightarrow> bool) \<Rightarrow> (u16 \<Rightarrow> unit result) \<Rightarrow> settings \<Rightarrow> bool \<times> bool \<Rightarrow> nat \<times> nat \<Rightarrow>
    string \<Rightarrow> frame_type \<Rightarrow> sender_config \<Rightarrow> 'c sender result" where
  "create_with_config listens into s spawned nows name frame_types config =
     (if name = [] then Inl (InvalidArgument ''sender name is empty'')
      else
        case bind_port_range listens into s of
          Inl e \<Rightarrow> Inl e
        | Inr port \<Rightarrow> Inr (new_sender spawned nows name frame_types config True port))"

definition sender_create :: "(u16 \<Rightarrow> bool) \<Rightarrow> (u16 \<Rightarrow> unit result) \<Rightarrow> settings \<Rightarrow> bool \<times> bool \<Rightarrow> nat \<times> nat \<Rightarrow>
    string \<Rightarrow> frame_type \<Rightarrow> 'c sender result" where
  "sender_create listens into s spawned nows name frame_types =
     create_with_config listens into s spawned nows name frame_types sender_config_default"

definition create_offline_with_config :: "bool \<times> bool \<Rightarrow> nat \<times> nat \<Rightarrow> string \<Rightarrow> frame_type \<Rightarrow> sender_config \<Rightarrow> 'c sender result" where
  "create_offline_with_config spawned nows name frame_types config =
     (if name = [] then Inl (InvalidArgument ''sender name is empty'')
      else Inr (new_sender spawned nows name frame_types config False 0))"

definition create_offline :: "bool \<times> bool \<Rightarrow> nat \<times> nat \<Rightarrow> string \<Rightarrow> frame_type \<Rightarrow> 'c sender result" where
  "create_offline spawned nows name frame_types = create_offline_with_config spawned nows name frame_types sender_config_default"

definition set_quality :: "quality \<Rightarrow> 'c sender \<Rightarrow> 'c sender" where
  "set_quality q s = s\<lparr>sn_quality := q\<rparr>"

definition set_sender_info :: "sender_info \<Rightarrow> 'c sender \<Rightarrow> 'c sender" where
  "set_sender_info info s = s\<lparr>sn_info := info\<rparr>"

section \<open>Peers\<close>

text \<open>An accepted connection with the outcomes of the calls made on it.\<close>

record connection =
  cn_configure :: "unit result"
  cn_writes :: "write_result list"
  cn_nonblocking :: "unit result"

datatype accepted = Connection connection | AcceptError io_kind string

definition add_peer :: "connection \<Rightarrow> 'c sender \<Rightarrow> unit result \<times> 'c sender" where
  "add_peer stream s =
     (case cn_configure stream of
        Inl e \<Rightarrow> (Inl e, s)
      | Inr _ \<Rightarrow>
          let info = sn_info s;
              wire = (if si_product_name info \<noteq> [] \<or> si_manufacturer info \<noteq> [] \<or> si_version info \<noteq> [] then
                        fst (snd (write_all (assembled_to_bytes (control_frame 0 (sender_info_to_xml info))) (cn_writes stream)))
                      else []) in
          (case cn_nonblocking stream of
             Inl e \<Rightarrow> (Inl e, s)
           | Inr _ \<Rightarrow>
               (Inr (), s\<lparr>sn_next_peer_id := sn_next_peer_id s + 1,
                          sn_peers := sn_peers s @ [(sn_next_peer_id s,
                            \<lparr>pe_state = peer_state_default, pe_inbound = [], pe_wire = wire\<rparr>)]\<rparr>)))"

text \<open>The backlog is drained up to the first \<open>WouldBlock\<close>; another error drops what was accepted.\<close>

fun accept_backlog :: "accepted list \<Rightarrow> connection list result" where
  "accept_backlog [] = Inr []"
| "accept_backlog (Connection c # as) = map_sum id (Cons c) (accept_backlog as)"
| "accept_backlog (AcceptError k m # as) = (if k = WouldBlock then Inr [] else Inl (Io k m))"

fun add_peers :: "connection list \<Rightarrow> 'c sender \<Rightarrow> unit result \<times> 'c sender" where
  "add_peers [] s = (Inr (), s)"
| "add_peers (c # cs) s = (case add_peer c s of (Inl e, s') \<Rightarrow> (Inl e, s') | (Inr _, s') \<Rightarrow> add_peers cs s')"

definition poll_accept :: "unit result \<Rightarrow> accepted list \<Rightarrow> 'c sender \<Rightarrow> bool result \<times> 'c sender" where
  "poll_accept nonblocking backlog s =
     (if \<not> sn_listening s then (Inr False, s)
      else
        case nonblocking of
          Inl e \<Rightarrow> (Inl e, s)
        | Inr _ \<Rightarrow>
            (case accept_backlog backlog of
               Inl e \<Rightarrow> (Inl e, s)
             | Inr incoming \<Rightarrow>
                 (case add_peers incoming s of
                    (Inl e, s') \<Rightarrow> (Inl e, s')
                  | (Inr _, s') \<Rightarrow> (Inr (incoming \<noteq> []), s'))))"

definition recompute_subscriptions :: "'c sender \<Rightarrow> 'c sender" where
  "recompute_subscriptions s =
     (let agg = combined_subscription (sn_quality s) (sn_peers s) in
      s\<lparr>sn_subscribed := agg, sn_audio := (sn_audio s)\<lparr>au_enabled := ps_audio agg\<rparr>\<rparr>)"

definition poll_peer_metadata :: "rox \<Rightarrow> (nat \<Rightarrow> read_result) \<Rightarrow> 'c sender \<Rightarrow> unit result \<times> 'c sender" where
  "poll_peer_metadata rox reads s = (Inr (), recompute_subscriptions (s\<lparr>sn_peers := poll_peers rox reads (sn_peers s)\<rparr>))"

definition video_subscribed :: "'c sender \<Rightarrow> bool" where "video_subscribed s = ps_video (sn_subscribed s)"
definition audio_subscribed :: "'c sender \<Rightarrow> bool" where "audio_subscribed s = ps_audio (sn_subscribed s)"
definition sender_tally :: "'c sender \<Rightarrow> tally" where "sender_tally s = ps_tally (sn_subscribed s)"
definition effective_quality :: "'c sender \<Rightarrow> quality" where "effective_quality s = ps_quality (sn_subscribed s)"
definition sender_preview :: "'c sender \<Rightarrow> bool" where "sender_preview s = ps_preview (sn_subscribed s)"

definition force_subscribe :: "bool \<Rightarrow> bool \<Rightarrow> bool \<Rightarrow> 'c sender \<Rightarrow> 'c sender" where
  "force_subscribe video audio metadata s =
     s\<lparr>sn_subscribed := (sn_subscribed s)\<lparr>ps_video := video, ps_audio := audio, ps_metadata := metadata\<rparr>,
       sn_audio := (sn_audio s)\<lparr>au_enabled := audio\<rparr>,
       sn_peers := map (\<lambda>(id, p). (id, p\<lparr>pe_state := (pe_state p)\<lparr>ps_video := video, ps_audio := audio, ps_metadata := metadata\<rparr>\<rparr>)) (sn_peers s)\<rparr>"

definition enable_audio_output :: "'c sender \<Rightarrow> 'c sender" where
  "enable_audio_output s =
     (if sn_peers s = [] then s
      else
        let has_idle = list_ex (\<lambda>(id, p). \<not> ps_video (pe_state p)) (sn_peers s);
            marks = (\<lambda>p. \<not> ps_video (pe_state p) \<or> \<not> has_idle);
            marked = list_ex (\<lambda>(id, p). marks p) (sn_peers s);
            s' = s\<lparr>sn_peers := map (\<lambda>(id, p). (id, if marks p then p\<lparr>pe_state := (pe_state p)\<lparr>ps_audio := True\<rparr>\<rparr> else p)) (sn_peers s)\<rparr> in
        if marked then s'\<lparr>sn_subscribed := (sn_subscribed s')\<lparr>ps_audio := True\<rparr>, sn_audio := (sn_audio s')\<lparr>au_enabled := True\<rparr>\<rparr>
        else s')"

definition enable_audio_on_idle_peers :: "'c sender \<Rightarrow> 'c sender" where
  "enable_audio_on_idle_peers s = enable_audio_output s"

definition force_preview :: "bool \<Rightarrow> 'c sender \<Rightarrow> 'c sender" where
  "force_preview preview s =
     s\<lparr>sn_subscribed := (sn_subscribed s)\<lparr>ps_preview := preview\<rparr>,
       sn_peers := map (\<lambda>(id, p). (id, p\<lparr>pe_state := (pe_state p)\<lparr>ps_preview := preview\<rparr>\<rparr>)) (sn_peers s)\<rparr>"

definition connection_count :: "'c sender \<Rightarrow> nat" where "connection_count s = length (sn_peers s)"
definition video_subscriber_count :: "'c sender \<Rightarrow> nat" where
  "video_subscriber_count s = length (filter (\<lambda>(id, p). ps_video (pe_state p)) (sn_peers s))"
definition audio_subscriber_count :: "'c sender \<Rightarrow> nat" where
  "audio_subscriber_count s = length (filter (\<lambda>(id, p). ps_audio (pe_state p)) (sn_peers s))"

definition sender_close :: "'c sender \<Rightarrow> 'c sender" where
  "sender_close s =
     s\<lparr>sn_listening := False, sn_outbound_video := None, sn_audio_open := False,
       sn_audio := (sn_audio s)\<lparr>au_enabled := False\<rparr>, sn_peers := [], sn_subscribed := peer_state_default\<rparr>"

definition drop_sender :: "'c sender \<Rightarrow> 'c sender" where "drop_sender s = sender_close s"

definition transport_config :: "'c sender \<Rightarrow> sender_config" where "transport_config s = sn_config s"
definition sender_name :: "'c sender \<Rightarrow> string" where "sender_name s = sn_name s"
definition sender_port :: "'c sender \<Rightarrow> u16" where "sender_port s = sn_port s"
definition sender_frame_types :: "'c sender \<Rightarrow> frame_type" where "sender_frame_types s = sn_frame_types s"
definition sender_statistics :: "'c sender \<Rightarrow> statistics" where "sender_statistics s = sn_stats s"

text \<open>An ingress handle is a reference to the sender's audio share.\<close>

definition audio_ingress :: "'c sender \<Rightarrow> audio_share" where "audio_ingress s = sn_audio s"
definition inner_enabled :: "audio_share \<Rightarrow> bool" where "inner_enabled a = au_enabled a"

section \<open>Building frames\<close>

definition metadata_bytes :: "media_frame \<Rightarrow> bytes" where
  "metadata_bytes frame = (case mf_frame_metadata frame of Some xml \<Rightarrow> encode_metadata_xml xml | None \<Rightarrow> [])"

text \<open>The samples of the planes, \<open>None\<close> when a slice is out of range.\<close>

definition pcm_planes :: "bytes \<Rightarrow> nat \<Rightarrow> nat \<Rightarrow> f32 list list option" where
  "pcm_planes data channels samples =
     those (map (\<lambda>ch. those (map (\<lambda>s. read_f32 data (ch * samples * 4 + s * 4)) [0..<samples])) [0..<channels])"

text \<open>The payload and the mask of active channels: passed through, or encoded as FPA1.\<close>

definition audio_payload :: "media_frame \<Rightarrow> (bytes \<times> u32) result option" where
  "audio_payload frame =
     (if mf_active_channels frame \<noteq> 0 then Some (Inr (mf_data frame, mf_active_channels frame))
      else
        let channels = nonneg (mf_channels frame); samples = nonneg (mf_samples_per_channel frame) in
        if channels = 0 \<or> samples = 0 then Some (Inl (InvalidArgument ''audio frame missing geometry''))
        else if length (mf_data frame) < channels * samples * 4 then Some (Inl (InvalidArgument ''audio frame data too short''))
        else map_option encode_planar (pcm_planes (mf_data frame) channels samples))"

definition assemble_audio :: "media_frame \<Rightarrow> timestamp_clock \<Rightarrow> nat list \<Rightarrow>
    (assembled_frame result \<times> timestamp_clock \<times> nat list) option" where
  "assemble_audio frame clock nows =
     (case clock_resolve (sint (mf_timestamp frame)) (sint (mf_frame_rate_n frame)) (sint (mf_frame_rate_d frame))
             (sint (mf_sample_rate frame)) (sint (mf_samples_per_channel frame)) clock nows of
        None \<Rightarrow> None
      | Some (ts, clock', nows') \<Rightarrow>
          let metadata = metadata_bytes frame in
          map_option (\<lambda>r. (case r of
              Inl e \<Rightarrow> Inl e
            | Inr (payload, active) \<Rightarrow>
                Inr \<lparr>af_header = \<lparr>fh_version = PROTOCOL_VERSION, fh_frame_type = FT_AUDIO, fh_timestamp = word_of_int ts,
                       fh_metadata_length = word_of_nat (length metadata),
                       fh_data_length = word_of_nat (AUDIO_EXT_HEADER_SIZE + length payload + length metadata)\<rparr>,
                     af_video = None,
                     af_audio = Some \<lparr>ah_codec = Fpa1, ah_sample_rate = mf_sample_rate frame,
                       ah_samples_per_channel = mf_samples_per_channel frame, ah_channels = mf_channels frame,
                       ah_active_channels = active, ah_reserved1 = 0\<rparr>,
                     af_data = payload, af_metadata = metadata\<rparr>, clock', nows'))
            (audio_payload frame))"

definition video_wire_frame :: "i64 \<Rightarrow> media_frame \<Rightarrow> assembled_frame" where
  "video_wire_frame ts frame =
     (let metadata = metadata_bytes frame in
      \<lparr>af_header = \<lparr>fh_version = PROTOCOL_VERSION, fh_frame_type = FT_VIDEO, fh_timestamp = ts,
         fh_metadata_length = word_of_nat (length metadata),
         fh_data_length = word_of_nat (VIDEO_EXT_HEADER_SIZE + length (mf_data frame) + length metadata)\<rparr>,
       af_video = Some \<lparr>vh_codec = (case codec_from_i32 (mf_codec frame) of Some c \<Rightarrow> c | None \<Rightarrow> Uyvy),
         vh_width = mf_width frame, vh_height = mf_height frame, vh_frame_rate_n = mf_frame_rate_n frame,
         vh_frame_rate_d = mf_frame_rate_d frame, vh_aspect_ratio = mf_aspect_ratio frame, vh_flags = mf_flags frame,
         vh_color_space = mf_color_space frame\<rparr>,
       af_audio = None, af_data = mf_data frame, af_metadata = metadata\<rparr>)"

definition metadata_wire_frame :: "i64 \<Rightarrow> media_frame \<Rightarrow> assembled_frame" where
  "metadata_wire_frame ts frame =
     (let data = (if mf_data frame = [] then metadata_bytes frame else mf_data frame) in
      \<lparr>af_header = \<lparr>fh_version = PROTOCOL_VERSION, fh_frame_type = FT_METADATA, fh_timestamp = ts, fh_metadata_length = 0,
         fh_data_length = word_of_nat (length data)\<rparr>,
       af_video = None, af_audio = None, af_data = data, af_metadata = []\<rparr>)"

definition build_frame :: "int \<Rightarrow> nat list \<Rightarrow> media_frame \<Rightarrow> 'c sender \<Rightarrow> (assembled_frame result \<times> 'c sender \<times> nat list) option" where
  "build_frame system_time nows frame s =
     (let is_audio = (ft_contains (mf_frame_type frame) FT_AUDIO \<and> \<not> ft_contains (mf_frame_type frame) FT_VIDEO) in
      if is_audio then
        map_option (\<lambda>(r, clock, nows'). (r, s\<lparr>sn_audio := (sn_audio s)\<lparr>au_clock := clock\<rparr>\<rparr>, nows'))
          (assemble_audio frame (au_clock (sn_audio s)) nows)
      else if ft_contains (mf_frame_type frame) FT_VIDEO then
        (case clock_resolve (sint (mf_timestamp frame)) (sint (mf_frame_rate_n frame)) (sint (mf_frame_rate_d frame)) 0 0
                (sn_video_clock s) nows of
           None \<Rightarrow> None
         | Some (ts, clock, nows') \<Rightarrow>
             Some (Inr (video_wire_frame (word_of_int ts) frame), s\<lparr>sn_video_clock := clock\<rparr>, nows'))
      else
        Some (Inr (metadata_wire_frame (word_of_int (resolve_timestamp system_time (sint (mf_timestamp frame)))) frame), s, nows))"

section \<open>Sending\<close>

text \<open>\<open>plen\<close> is the preview length of a bitstream, \<open>ws\<close> the write outcomes per peer of a direct write.\<close>

definition broadcast_wire :: "(bytes \<Rightarrow> nat option) \<Rightarrow> assembled_frame \<Rightarrow> wire_bytes" where
  "broadcast_wire plen frame =
     (let ft = fh_frame_type (af_header frame) in
      \<lparr>wb_ft = ft, wb_full = write_into frame [],
       wb_preview = (if ft_contains ft FT_VIDEO then preview_video_bytes plen frame else None)\<rparr>)"

definition broadcast :: "(bytes \<Rightarrow> nat option) \<Rightarrow> (nat \<Rightarrow> write_result list) \<Rightarrow> assembled_frame \<Rightarrow> 'c sender \<Rightarrow> unit result \<times> 'c sender" where
  "broadcast plen ws frame s =
     (let ft = fh_frame_type (af_header frame);
          wire = broadcast_wire plen frame;
          nbytes = (if ps_preview (sn_subscribed s)
                    then (case wb_preview wire of Some p \<Rightarrow> length p | None \<Rightarrow> length (wb_full wire))
                    else length (wb_full wire));
          direct = s\<lparr>sn_peers := write_peers wire ws (sn_peers s), sn_stats := record_sent nbytes (sn_stats s)\<rparr> in
      if ft_contains ft FT_METADATA \<and> \<not> ft_contains ft FT_VIDEO \<and> \<not> ft_contains ft FT_AUDIO then (Inr (), direct)
      else
        let audio = (ft_contains ft FT_AUDIO \<and> \<not> ft_contains ft FT_VIDEO);
            queue = (if audio then (if sn_audio_open s then au_outbound (sn_audio s) else None) else sn_outbound_video s) in
        case queue of
          Some tx \<Rightarrow>
            (case try_send wire tx of
               (r, tx') \<Rightarrow>
                 let s' = (if audio then s\<lparr>sn_audio := (sn_audio s)\<lparr>au_outbound := Some tx'\<rparr>\<rparr> else s\<lparr>sn_outbound_video := Some tx'\<rparr>) in
                 (Inr (), s'\<lparr>sn_stats := (case r of Sent \<Rightarrow> record_sent nbytes (sn_stats s) | _ \<Rightarrow> record_dropped (sn_stats s))\<rparr>))
        | None \<Rightarrow> (Inr (), direct))"

text \<open>\<open>elapsed\<close> is the time the encoder took and \<open>cap\<close> the capacity of the bitstream that is recycled.\<close>

definition send_video :: "'c vmx \<Rightarrow> (bytes \<Rightarrow> nat option) \<Rightarrow> (nat \<Rightarrow> write_result list) \<Rightarrow> int \<Rightarrow> nat list \<Rightarrow> nat \<Rightarrow> nat \<Rightarrow>
    media_frame \<Rightarrow> 'c sender \<Rightarrow> (unit result \<times> 'c sender) option" where
  "send_video V plen ws system_time nows elapsed cap frame s =
     (if \<not> ps_video (sn_subscribed s) then Some (Inr (), s)
      else
        let encoded =
          (if codec_from_i32 (mf_codec frame) \<noteq> Some Vmx1 then
             (case encode_raw V frame (effective_quality s) (sn_video_encoder s) of
                None \<Rightarrow> None
              | Some (Inl e, enc) \<Rightarrow> Some (Inl e, s\<lparr>sn_video_encoder := enc\<rparr>)
              | Some (Inr bits, enc) \<Rightarrow>
                  Some (Inr (frame\<lparr>mf_data := bits, mf_codec := codec_as_i32 Vmx1\<rparr>),
                        s\<lparr>sn_video_encoder := enc, sn_stats := record_codec elapsed (sn_stats s)\<rparr>))
           else Some (Inr frame, s)) in
        case encoded of
          None \<Rightarrow> None
        | Some (Inl e, s1) \<Rightarrow> Some (Inl e, s1)
        | Some (Inr frame', s1) \<Rightarrow>
            (case build_frame system_time nows frame' s1 of
               None \<Rightarrow> None
             | Some (Inl e, s2, _) \<Rightarrow> Some (Inl e, s2)
             | Some (Inr assembled, s2, _) \<Rightarrow>
                 (case broadcast plen ws assembled s2 of
                    (r, s3) \<Rightarrow> Some (r, s3\<lparr>sn_video_encoder := recycle_bitstream cap (sn_video_encoder s3)\<rparr>))))"

text \<open>\<open>AudioIngress::send\<close>; \<open>send_audio\<close> goes through it.\<close>

definition ingress_send :: "(nat \<Rightarrow> write_result list) \<Rightarrow> nat list \<Rightarrow> media_frame \<Rightarrow> 'c sender \<Rightarrow> (unit result \<times> 'c sender) option" where
  "ingress_send ws nows frame s =
     (if \<not> au_enabled (sn_audio s) then Some (Inr (), s)
      else
        case assemble_audio frame (au_clock (sn_audio s)) nows of
          None \<Rightarrow> None
        | Some (Inl e, clock, _) \<Rightarrow> Some (Inl e, s\<lparr>sn_audio := (sn_audio s)\<lparr>au_clock := clock\<rparr>\<rparr>)
        | Some (Inr assembled, clock, _) \<Rightarrow>
            (case enqueue_wire (au_outbound (sn_audio s)) ws (sn_peers s) assembled of
               (r, outbound, ps) \<Rightarrow>
                 Some (r, s\<lparr>sn_audio := (sn_audio s)\<lparr>au_clock := clock, au_outbound := outbound\<rparr>, sn_peers := ps\<rparr>)))"

definition send_audio :: "(nat \<Rightarrow> write_result list) \<Rightarrow> nat list \<Rightarrow> media_frame \<Rightarrow> 'c sender \<Rightarrow> (unit result \<times> 'c sender) option" where
  "send_audio ws nows frame s = ingress_send ws nows frame s"

definition send_metadata :: "(nat \<Rightarrow> write_result list) \<Rightarrow> int \<Rightarrow> int \<Rightarrow> string \<Rightarrow> 'c sender \<Rightarrow> unit result \<times> 'c sender" where
  "send_metadata ws system_time timestamp xml s =
     broadcast (\<lambda>_. None) ws (control_frame (word_of_int (resolve_timestamp system_time timestamp)) xml) s"

definition send_tally :: "(nat \<Rightarrow> write_result list) \<Rightarrow> int \<Rightarrow> 'c sender \<Rightarrow> unit result \<times> 'c sender" where
  "send_tally ws system_time s = send_metadata ws system_time 0 (tally_xml (sender_tally s)) s"

text \<open>One turn of the two writer threads.\<close>

definition video_writer_turn :: "(nat \<Rightarrow> write_result list) \<Rightarrow> 'c sender \<Rightarrow> 'c sender" where
  "video_writer_turn ws s =
     (case sn_outbound_video s of
        None \<Rightarrow> s
      | Some q \<Rightarrow> (case writer_turn ws q (sn_peers s) of (q', ps) \<Rightarrow> s\<lparr>sn_outbound_video := Some q', sn_peers := ps\<rparr>))"

definition audio_writer_turn :: "(nat \<Rightarrow> write_result list) \<Rightarrow> 'c sender \<Rightarrow> 'c sender" where
  "audio_writer_turn ws s =
     (case au_outbound (sn_audio s) of
        None \<Rightarrow> s
      | Some q \<Rightarrow> (case writer_turn ws q (sn_peers s) of
          (q', ps) \<Rightarrow> s\<lparr>sn_audio := (sn_audio s)\<lparr>au_outbound := Some q'\<rparr>, sn_peers := ps\<rparr>))"

section \<open>The frames built are well formed\<close>

lemma sint_data_length:
  "n < 2 ^ 31 \<Longrightarrow> sint (word_of_nat n :: i32) = int n"
  by (rule sint_of_nat_small) simp

lemma video_wire_frame_wf:
  assumes "f = video_wire_frame ts frame" "length (af_metadata f) < 2 ^ 16"
    "length (ext_bytes f) + length (af_data f) + length (af_metadata f) < 2 ^ 31"
  shows "wf_frame f"
proof -
  have "unat (word_of_nat (length (af_metadata f)) :: u16) = length (af_metadata f)"
    using assms(2) by (simp add: unat_of_nat)
  with assms show ?thesis
    using sint_data_length [of "length (ext_bytes f) + length (af_data f) + length (af_metadata f)"]
    by (simp add: wf_frame_def video_wire_frame_def Let_def ext_bytes_def)
qed

lemma metadata_wire_frame_wf:
  assumes "f = metadata_wire_frame ts frame" "length (af_data f) < 2 ^ 31"
  shows "wf_frame f"
  using assms sint_data_length [of "length (af_data f)"]
  by (simp add: wf_frame_def metadata_wire_frame_def Let_def ext_bytes_def)

lemma assemble_audio_wf:
  assumes "assemble_audio frame clock nows = Some (Inr f, clock', nows')" "length (af_metadata f) < 2 ^ 16"
    "length (ext_bytes f) + length (af_data f) + length (af_metadata f) < 2 ^ 31"
  shows "wf_frame f"
proof -
  have "unat (word_of_nat (length (af_metadata f)) :: u16) = length (af_metadata f)"
    using assms(2) by (simp add: unat_of_nat)
  moreover have "sint (word_of_nat (length (ext_bytes f) + length (af_data f) + length (af_metadata f)) :: i32) =
      int (length (ext_bytes f) + length (af_data f) + length (af_metadata f))"
    using assms(3) by (rule sint_data_length)
  ultimately show ?thesis
    using assms(1) by (auto simp: assemble_audio_def wf_frame_def Let_def ext_bytes_def split: option.splits sum.splits)
qed


definition sample_video :: media_frame where
  "sample_video = media_frame_default\<lparr>mf_frame_type := FT_VIDEO, mf_timestamp := 7, mf_codec := codec_as_i32 Vmx1,
     mf_width := 64, mf_height := 64, mf_data := [1, 2, 3], mf_frame_metadata := Some ''<a />''\<rparr>"

definition offline_sender :: "bytes sender" where
  "offline_sender = new_sender (True, True) (0, 0) ''Cam'' FT_VIDEO sender_config_default False 0"


text \<open>The length of per-frame metadata is sent as a \<open>u16\<close> without a check. A video frame whose metadata is
  longer than 64 KiB goes out with the length modulo 65536: the receiver takes the first part of the
  metadata for video data and only the last \<open>length mod 65536\<close> bytes for metadata.\<close>

theorem long_metadata_truncated:
  assumes "f = video_wire_frame ts frame" "m = af_metadata f" "k = length m mod 2 ^ 16"
    and "VIDEO_EXT_HEADER_SIZE + length (af_data f) + length m < 2 ^ 31"
  shows "assembled_from_bytes (assembled_to_bytes f) =
    Inr (f\<lparr>af_data := af_data f @ take (length m - k) m, af_metadata := drop (length m - k) m\<rparr>)"
proof -
  let ?g = "f\<lparr>af_data := af_data f @ take (length m - k) m, af_metadata := drop (length m - k) m\<rparr>"
  have k: "k \<le> length m" "k < 2 ^ 16" "unat (word_of_nat (length m) :: u16) = k"
    by (simp_all add: assms(3) unat_of_nat)
  have dl: "sint (word_of_nat (VIDEO_EXT_HEADER_SIZE + length (af_data f) + length m) :: i32) =
      int (VIDEO_EXT_HEADER_SIZE + length (af_data f) + length m)"
    using assms(4) by (rule sint_data_length)
  have "wf_frame ?g"
    using k dl assms(1,2) by (simp add: wf_frame_def video_wire_frame_def Let_def ext_bytes_def)
  then have "assembled_from_bytes (assembled_to_bytes ?g) = Inr ?g" using assembled_roundtrip [of ?g "[]"] by simp
  moreover have "assembled_to_bytes ?g = assembled_to_bytes f"
    using assms(2) by (simp add: assembled_to_bytes_eq ext_bytes_def)
  ultimately show ?thesis by simp
qed

theorem long_metadata_truncated_witness:
  "\<exists>g. assembled_from_bytes (assembled_to_bytes (video_wire_frame 0 (sample_video\<lparr>mf_frame_metadata := Some (replicate 65536 CHR ''x'')\<rparr>))) = Inr g \<and>
     af_metadata g = []"
proof -
  let ?f = "video_wire_frame 0 (sample_video\<lparr>mf_frame_metadata := Some (replicate 65536 CHR ''x'')\<rparr>)"
  have m: "length (af_metadata ?f) = 65536" by (simp add: video_wire_frame_def Let_def metadata_bytes_def sample_video_def)
  have "VIDEO_EXT_HEADER_SIZE + length (af_data ?f) + length (af_metadata ?f) < 2 ^ 31"
    unfolding m by (simp add: video_wire_frame_def Let_def sample_video_def VIDEO_EXT_HEADER_SIZE_def)
  from long_metadata_truncated [OF refl refl refl this] show ?thesis by (simp add: m)
qed

section \<open>Audio from samples to samples\<close>

lemma concat_slices:
  "a + n * k \<le> length data \<Longrightarrow> concat (map (\<lambda>i. slice (a + i * k) (a + i * k + k) data) [0..<n]) = slice a (a + n * k) data"
proof (induction n)
  case (Suc n)
  then have "concat (map (\<lambda>i. slice (a + i * k) (a + i * k + k) data) [0..<n]) = slice a (a + n * k) data" by simp
  moreover have "slice a (a + n * k) data @ slice (a + n * k) (a + n * k + k) data = slice a (a + n * k + k) data"
    by (rule slice_split) simp_all
  ultimately show ?case by (simp add: algebra_simps)
qed (simp add: slice_def)

lemma le_bytes_of_slice: "p + 4 \<le> length data \<Longrightarrow> le_bytes 4 (le_word (slice p (p + 4) data) :: f32) = slice p (p + 4) data"
  using le_bytes_le_word [of "slice p (p + 4) data", where 'a = 32] by simp

definition pcm_plane :: "bytes \<Rightarrow> nat \<Rightarrow> nat \<Rightarrow> f32 list" where
  "pcm_plane data samples ch = map (\<lambda>s. le_word (slice (ch * samples * 4 + s * 4) (ch * samples * 4 + s * 4 + 4) data)) [0..<samples]"

lemma pcm_bound:
  assumes "channels * samples * 4 \<le> length data" "ch < channels"
  shows "ch * samples * 4 + samples * 4 \<le> length data"
proof -
  have "Suc ch * (samples * 4) \<le> channels * (samples * 4)" using assms(2) by (intro mult_le_mono1) simp
  with assms(1) show ?thesis by (simp add: mult.assoc)
qed

lemma pcm_planes_Some:
  assumes "channels * samples * 4 \<le> length data"
  shows "pcm_planes data channels samples = Some (map (pcm_plane data samples) [0..<channels])"
proof -
  have "those (map (\<lambda>s. read_f32 data (ch * samples * 4 + s * 4)) [0..<samples]) = Some (pcm_plane data samples ch)"
    if "ch < channels" for ch
    unfolding pcm_plane_def
  proof (rule those_cong)
    fix s assume "s \<in> set [0..<samples]"
    then have "ch * samples * 4 + s * 4 + 4 \<le> length data" using pcm_bound [OF assms that] by simp
    then show "read_f32 data (ch * samples * 4 + s * 4) = Some (le_word (slice (ch * samples * 4 + s * 4) (ch * samples * 4 + s * 4 + 4) data))"
      by (simp add: read_f32_def)
  qed
  then show ?thesis unfolding pcm_planes_def by (intro those_cong) simp
qed

lemma pcm_planes_bytes:
  assumes "channels * samples * 4 \<le> length data"
  shows "concat (map channel_bytes (map (pcm_plane data samples) [0..<channels])) = take (channels * samples * 4) data"
proof -
  have "channel_bytes (pcm_plane data samples ch) = slice (0 + ch * (samples * 4)) (0 + ch * (samples * 4) + samples * 4) data"
    if "ch < channels" for ch
  proof -
    have b: "ch * samples * 4 + samples * 4 \<le> length data" using pcm_bound [OF assms that] .
    have "map (le_bytes 4) (pcm_plane data samples ch) =
        map (\<lambda>s. slice (ch * samples * 4 + s * 4) (ch * samples * 4 + s * 4 + 4) data) [0..<samples]"
      unfolding pcm_plane_def map_map using b by (intro map_cong refl) (simp add: le_bytes_of_slice)
    then have "channel_bytes (pcm_plane data samples ch) =
        concat (map (\<lambda>s. slice (ch * samples * 4 + s * 4) (ch * samples * 4 + s * 4 + 4) data) [0..<samples])"
      by (simp only: channel_bytes_def)
    also have "\<dots> = slice (ch * samples * 4) (ch * samples * 4 + samples * 4) data" using b by (rule concat_slices)
    finally show ?thesis by (simp add: mult.assoc)
  qed
  then have "map channel_bytes (map (pcm_plane data samples) [0..<channels]) =
      map (\<lambda>i. slice (0 + i * (samples * 4)) (0 + i * (samples * 4) + samples * 4) data) [0..<channels]" by simp
  moreover have "concat (map (\<lambda>i. slice (0 + i * (samples * 4)) (0 + i * (samples * 4) + samples * 4) data) [0..<channels]) =
      slice 0 (0 + channels * (samples * 4)) data"
    using assms by (intro concat_slices) (simp add: mult.assoc)
  ultimately have "concat (map channel_bytes (map (pcm_plane data samples) [0..<channels])) = slice 0 (0 + channels * (samples * 4)) data"
    by (simp only:)
  then show ?thesis by (simp add: slice_def mult.assoc)
qed

lemma nonneg_less: "nonneg (w :: i32) < 2 ^ 31"
  using sint_upper [of w] by (auto simp: nonneg_def)

text \<open>Samples in, samples out: the frame built of planar samples has a payload and a channel mask that the FPA1
  decoder turns back into exactly those samples, silent channels included.\<close>

lemma assemble_audio_samples:
  assumes "mf_active_channels frame = 0" "c = nonneg (mf_channels frame)" "n = nonneg (mf_samples_per_channel frame)"
    and "1 \<le> c" "c \<le> 32" "1 \<le> n" "c * n * 4 \<le> length (mf_data frame)"
    and "assemble_audio frame clock nows = Some (r, clock', nows')"
  obtains f a where "r = Inr f" "af_audio f = Some a" "ah_codec a = Fpa1"
    "ah_channels a = mf_channels frame" "ah_samples_per_channel a = mf_samples_per_channel frame" "ah_sample_rate a = mf_sample_rate frame"
    "fh_frame_type (af_header f) = FT_AUDIO" "af_metadata f = metadata_bytes frame" "length (af_data f) \<le> c * n * 4"
    "\<And>out. decode_planar_into (af_data f) c n (ah_active_channels a) out = Some (Inr (), take (c * n * 4) (mf_data frame))"
proof -
  let ?planes = "map (pcm_plane (mf_data frame) n) [0..<c]"
  have planes: "pcm_planes (mf_data frame) c n = Some ?planes" by (rule pcm_planes_Some [OF assms(7)])
  have hd: "length (hd ?planes) = n" using assms(4) by (simp add: hd_map pcm_plane_def)
  have "n < 2 ^ 31" using assms(3) nonneg_less by simp
  then have "c * n * AUDIO_SAMPLE_SIZE \<le> 32 * 2 ^ 31 * 4"
    using assms(5) by (intro mult_le_mono) (simp_all add: AUDIO_SAMPLE_SIZE_def)
  then have small: "length ?planes * length (hd ?planes) * AUDIO_SAMPLE_SIZE \<le> usize_max"
    unfolding hd by (simp add: usize_max_def)
  obtain payload active where enc: "encode_planar ?planes = Inr (payload, active)"
    using assms(4,5) by (cases "encode_loop 0 ?planes ([], 0)")
      (auto simp: encode_planar_def Let_def list_ex_iff pcm_plane_def)
  have dec: "decode_planar_into payload c n active out = Some (Inr (), take (c * n * 4) (mf_data frame))" for out
    using decode_planar_into_encoded(1) [OF enc small, of "[]" out] pcm_planes_bytes [OF assms(7)] unfolding hd by simp
  have len: "length payload \<le> c * n * 4"
    using decode_planar_into_encoded(3) [OF enc small] unfolding hd by (simp add: mult.commute mult.left_commute)
  have "audio_payload frame = Some (Inr (payload, active))"
    using assms(1,4,6,7) planes enc unfolding audio_payload_def assms(2,3) [symmetric] by simp
  with assms(8) obtain ts where "r = Inr \<lparr>af_header = \<lparr>fh_version = PROTOCOL_VERSION, fh_frame_type = FT_AUDIO, fh_timestamp = word_of_int ts,
        fh_metadata_length = word_of_nat (length (metadata_bytes frame)),
        fh_data_length = word_of_nat (AUDIO_EXT_HEADER_SIZE + length payload + length (metadata_bytes frame))\<rparr>,
      af_video = None,
      af_audio = Some \<lparr>ah_codec = Fpa1, ah_sample_rate = mf_sample_rate frame,
        ah_samples_per_channel = mf_samples_per_channel frame, ah_channels = mf_channels frame,
        ah_active_channels = active, ah_reserved1 = 0\<rparr>,
      af_data = payload, af_metadata = metadata_bytes frame\<rparr>"
    by (auto simp: assemble_audio_def Let_def split: option.splits)
  with that dec len show ?thesis by simp
qed

definition sample_audio :: media_frame where
  "sample_audio = media_frame_default\<lparr>mf_frame_type := FT_AUDIO, mf_timestamp := 7, mf_sample_rate := 48000, mf_channels := 2,
     mf_samples_per_channel := 1, mf_data := [1, 2, 3, 4, 0, 0, 0, 0]\<rparr>"

section \<open>The sender as a state machine\<close>

inductive sender_step :: "'c vmx \<Rightarrow> 'c sender \<Rightarrow> 'c sender \<Rightarrow> bool" for V where
  step_accept: "sender_step V s (snd (poll_accept nonblocking backlog s))"
| step_poll: "sender_step V s (snd (poll_peer_metadata rox reads s))"
| step_quality: "sender_step V s (set_quality q s)"
| step_info: "sender_step V s (set_sender_info info s)"
| step_video: "send_video V plen ws system_time nows elapsed cap frame s = Some (r, s') \<Longrightarrow> sender_step V s s'"
| step_audio: "send_audio ws nows frame s = Some (r, s') \<Longrightarrow> sender_step V s s'"
| step_metadata: "sender_step V s (snd (send_metadata ws system_time timestamp xml s))"
| step_tally: "sender_step V s (snd (send_tally ws system_time s))"
| step_subscribe: "sender_step V s (force_subscribe video audio metadata s)"
| step_enable: "sender_step V s (enable_audio_output s)"
| step_preview: "sender_step V s (force_preview preview s)"
| step_close: "sender_step V s (sender_close s)"
| step_video_writer: "sender_step V s (video_writer_turn ws s)"
| step_audio_writer: "sender_step V s (audio_writer_turn ws s)"

definition queue_ok :: "nat \<Rightarrow> write_queue option \<Rightarrow> bool" where
  "queue_ok depth q = (case q of None \<Rightarrow> True | Some q \<Rightarrow> wq_depth q = depth \<and> length (wq_items q) \<le> depth)"

text \<open>Peers have distinct numbers below the next one to be given out, both queues are within the configured depth,
  and audio is enabled exactly when it counts as subscribed.\<close>

definition ids_ok :: "nat \<Rightarrow> peers \<Rightarrow> bool" where
  "ids_ok n ps \<longleftrightarrow> distinct (map fst ps) \<and> (\<forall>i \<in> fst ` set ps. i < n)"

definition sender_inv :: "'c sender \<Rightarrow> bool" where
  "sender_inv s \<longleftrightarrow> ids_ok (sn_next_peer_id s) (sn_peers s) \<and>
     queue_ok (sc_send_queue_depth (sn_config s)) (sn_outbound_video s) \<and>
     queue_ok (sc_send_queue_depth (sn_config s)) (au_outbound (sn_audio s)) \<and>
     au_enabled (sn_audio s) = ps_audio (sn_subscribed s)"

lemma keep_numbers:
  "map fst (concat (map (\<lambda>(i, p). case g i p of Some p' \<Rightarrow> [(i, p')] | None \<Rightarrow> []) ps)) =
     map fst (filter (\<lambda>(i, p). g i p \<noteq> None) ps)"
  by (induction ps) (auto split: option.split)

lemma keep_ids: "ids_ok n ps \<Longrightarrow> ids_ok n (concat (map (\<lambda>(i, p). case g i p of Some p' \<Rightarrow> [(i, p')] | None \<Rightarrow> []) ps))"
  unfolding ids_ok_def set_map [symmetric] keep_numbers by (auto simp: distinct_map_filter)

lemma map_ids: "ids_ok n ps \<Longrightarrow> ids_ok n (map (\<lambda>(i, p). (i, g p)) ps)"
  by (auto simp: ids_ok_def case_prod_beta' comp_def)

lemma write_peers_ids: "ids_ok n ps \<Longrightarrow> ids_ok n (write_peers wire ws ps)"
  unfolding write_peers_def by (rule keep_ids)

lemma poll_peers_ids: "ids_ok n ps \<Longrightarrow> ids_ok n (poll_peers rox reads ps)"
  unfolding poll_peers_def by (rule keep_ids)

lemma queue_ok_try_send: "queue_ok d (Some q) \<Longrightarrow> try_send w q = (r, q') \<Longrightarrow> queue_ok d (Some q')"
  by (auto simp: queue_ok_def try_send_def split: if_splits)

lemma queue_ok_snd: "queue_ok d (Some q) \<Longrightarrow> queue_ok d (Some (snd (try_send w q)))"
  by (auto simp: queue_ok_def try_send_def)

lemma queue_ok_turn: "queue_ok d (Some q) \<Longrightarrow> writer_turn ws q ps = (q', ps') \<Longrightarrow> queue_ok d (Some q')"
  by (auto simp: queue_ok_def writer_turn_def split: list.splits)

lemma writer_turn_ids: "ids_ok n ps \<Longrightarrow> writer_turn ws q ps = (q', ps') \<Longrightarrow> ids_ok n ps'"
  by (auto simp: writer_turn_def write_peers_ids split: list.splits)

lemma broadcast_inv: "sender_inv s \<Longrightarrow> broadcast plen ws f s = (r, s') \<Longrightarrow> sender_inv s'"
  by (auto simp: sender_inv_def broadcast_def Let_def write_peers_ids split: if_splits option.splits prod.splits
      dest: queue_ok_try_send)

lemma build_frame_inv: "sender_inv s \<Longrightarrow> build_frame t nows frame s = Some (r, s', nows') \<Longrightarrow> sender_inv s'"
  by (auto simp: sender_inv_def build_frame_def Let_def split: if_splits option.splits)

lemma encoder_inv [simp]: "sender_inv (s\<lparr>sn_video_encoder := e\<rparr>) = sender_inv s" "sender_inv (s\<lparr>sn_stats := st\<rparr>) = sender_inv s"
  by (simp_all add: sender_inv_def)

lemma send_video_inv:
  "sender_inv s \<Longrightarrow> send_video V plen ws t nows el cap frame s = Some (r, s') \<Longrightarrow> sender_inv s'"
  by (auto simp: send_video_def Let_def split: if_splits option.splits sum.splits prod.splits
      dest!: build_frame_inv [rotated] broadcast_inv [rotated])

lemma ids_ok_new: "ids_ok n ps \<Longrightarrow> ids_ok (Suc n) (ps @ [(n, p)])"
  by (auto simp: ids_ok_def less_Suc_eq)

lemma add_peer_outcome:
  assumes "add_peer c s = (r, s')"
  obtains "s' = s" | p where "s' = s\<lparr>sn_next_peer_id := sn_next_peer_id s + 1, sn_peers := sn_peers s @ [(sn_next_peer_id s, p)]\<rparr>"
  using assms unfolding add_peer_def Let_def by (cases "cn_configure c"; cases "cn_nonblocking c") auto

lemma add_peer_inv:
  assumes "sender_inv s" "add_peer c s = (r, s')"
  shows "sender_inv s'"
  by (rule add_peer_outcome [OF assms(2)]) (use assms(1) in \<open>auto simp: sender_inv_def ids_ok_new\<close>)

lemma add_peers_inv: "sender_inv s \<Longrightarrow> add_peers cs s = (r, s') \<Longrightarrow> sender_inv s'"
  by (induction cs s arbitrary: r s' rule: add_peers.induct)
    (auto dest: add_peer_inv split: prod.splits sum.splits)

lemma recompute_inv: "sender_inv s \<Longrightarrow> sender_inv (recompute_subscriptions s)"
  by (simp add: sender_inv_def recompute_subscriptions_def Let_def)

lemma ingress_inv: "sender_inv s \<Longrightarrow> ingress_send ws nows frame s = Some (r, s') \<Longrightarrow> sender_inv s'"
  by (auto simp: sender_inv_def ingress_send_def enqueue_wire_def write_peers_ids queue_ok_snd split: if_splits option.splits sum.splits)

lemma poll_accept_inv: "sender_inv s \<Longrightarrow> poll_accept nb backlog s = (r, s') \<Longrightarrow> sender_inv s'"
  by (auto simp: poll_accept_def dest: add_peers_inv split: if_splits sum.splits prod.splits)

lemma marking_inv: "sender_inv s \<Longrightarrow> sender_inv (s\<lparr>sn_peers := map (\<lambda>(i, p). (i, g p)) (sn_peers s)\<rparr>)"
  by (simp add: sender_inv_def map_ids)

lemma enable_audio_inv: "sender_inv s \<Longrightarrow> sender_inv (enable_audio_output s)"
  using marking_inv [of s] by (auto simp: enable_audio_output_def Let_def sender_inv_def)

lemma writer_turns_inv:
  assumes "sender_inv s"
  shows "sender_inv (video_writer_turn ws s)" "sender_inv (audio_writer_turn ws s)"
  using assms by (auto simp: sender_inv_def video_writer_turn_def audio_writer_turn_def split: option.split prod.split
      intro: queue_ok_turn writer_turn_ids)

lemma new_sender_inv: "sender_inv (new_sender spawned nows name frame_types config listening port)"
  by (simp add: sender_inv_def new_sender_def Let_def ids_ok_def queue_ok_def spawn_typed_writer_def new_audio_share_def
      peer_state_default_def)

lemma sender_step_inv: "sender_step V s s' \<Longrightarrow> sender_inv s \<Longrightarrow> sender_inv s'"
proof (induction rule: sender_step.induct)
  case (step_accept s nb backlog)
  then show ?case using poll_accept_inv by (metis prod.collapse)
next
  case (step_poll s rox reads)
  then have "sender_inv (s\<lparr>sn_peers := poll_peers rox reads (sn_peers s)\<rparr>)" by (simp add: sender_inv_def poll_peers_ids)
  then show ?case by (simp add: poll_peer_metadata_def recompute_inv)
next
  case (step_audio ws nows frame s r s')
  then show ?case using ingress_inv by (metis send_audio_def)
next
  case (step_metadata s ws t ts xml)
  then show ?case unfolding send_metadata_def using broadcast_inv by (metis prod.collapse)
next
  case (step_tally s ws t)
  then show ?case unfolding send_tally_def send_metadata_def using broadcast_inv by (metis prod.collapse)
next
  case (step_subscribe s video audio metadata)
  then show ?case using map_ids by (auto simp: sender_inv_def force_subscribe_def)
next
  case (step_preview s preview)
  then show ?case using map_ids by (auto simp: sender_inv_def force_preview_def)
next
  case (step_close s)
  then show ?case by (simp add: sender_inv_def sender_close_def ids_ok_def queue_ok_def peer_state_default_def)
next
  case (step_quality s q)
  then show ?case by (simp add: sender_inv_def set_quality_def)
next
  case (step_info s info)
  then show ?case by (simp add: sender_inv_def set_sender_info_def)
qed (simp_all add: send_video_inv enable_audio_inv writer_turns_inv)

interpretation snd_machine: state_machine
  "\<lambda>s. \<exists>spawned nows name frame_types config listening port. s = new_sender spawned nows name frame_types config listening port"
  "sender_step V" sender_inv
  by unfold_locales (auto simp: new_sender_inv intro: sender_step_inv)

text \<open>C13: Whatever a sender goes through after its creation, accepting peers, reading their messages, sending, the
  writer threads taking their turns, forced settings, closing: its peers have distinct numbers below the next
  one, neither write queue exceeds the configured depth, and audio ingress handles are enabled exactly when
  the sender counts audio as subscribed.\<close>

theorem sender_invariant:
  assumes "(sender_step V)\<^sup>*\<^sup>* (new_sender spawned nows name frame_types config listening port) s"
  shows "distinct (map fst (sn_peers s)) \<and> (\<forall>(i, p) \<in> set (sn_peers s). i < sn_next_peer_id s) \<and>
    queue_ok (sc_send_queue_depth (sn_config s)) (sn_outbound_video s) \<and>
    queue_ok (sc_send_queue_depth (sn_config s)) (au_outbound (sn_audio s)) \<and>
    au_enabled (sn_audio s) = audio_subscribed s"
proof -
  have "sender_inv s" using snd_machine.reachable_inv [OF _ assms] by blast
  then show ?thesis by (auto simp: sender_inv_def ids_ok_def audio_subscribed_def)
qed

theorem sender_invariant_witness:
  "distinct (map fst (sn_peers (sender_close (enable_audio_output offline_sender))))"
proof -
  have "(sender_step plain_vmx)\<^sup>*\<^sup>* offline_sender (sender_close (enable_audio_output offline_sender))"
    by (meson converse_rtranclp_into_rtranclp rtranclp.rtrancl_refl step_close step_enable)
  then show ?thesis using sender_invariant [of plain_vmx] unfolding offline_sender_def by blast
qed

end
