(* ===== verification/Texture_Sender.thy ===== *)
theory Texture_Sender
  imports Sender
begin

text \<open>
  Sending GPU textures (feature \<open>wgpu\<close>: \<open>src/gpu.rs\<close>, the texture paths of \<open>src/send_video.rs\<close> and
  \<open>src/send.rs\<close>). The texture and the GPU half of the codec are parameters: a texture has a size, and the codec
  encodes it, or submits it and finishes later. The locks of the GPU protect nothing of the model's state. The
  lemmas show that pipelined encoding sends the same frames in the same order as synchronous encoding, each
  one call later, and what goes wrong when pipelining is switched off with a frame in flight.
\<close>

section \<open>Definitions\<close>

record video_texture_meta =
  tm_width :: u32
  tm_height :: u32
  tm_timestamp :: i64
  tm_frame_rate_n :: i32
  tm_frame_rate_d :: i32
  tm_color_space :: color_space
  tm_flags :: video_flags
  tm_frame_metadata :: "string option"

definition video_texture_meta_default :: video_texture_meta where
  "video_texture_meta_default = \<lparr>tm_width = 0, tm_height = 0, tm_timestamp = - 1, tm_frame_rate_n = 60, tm_frame_rate_d = 1,
     tm_color_space = Undefined, tm_flags = VF_NONE, tm_frame_metadata = None\<rparr>"

text \<open>The texture operations of the codec crate; the flag is whether alpha is encoded.\<close>

record ('c, 't) texture_codec =
  gx_size :: "'t \<Rightarrow> u32 \<times> u32"
  gx_encode :: "bool \<Rightarrow> 't \<Rightarrow> 'c \<Rightarrow> (vmx_error + unit) \<times> 'c"
  gx_submit :: "bool \<Rightarrow> 't \<Rightarrow> 'c \<Rightarrow> (vmx_error + unit) \<times> 'c"
  gx_finish :: "'c \<Rightarrow> (vmx_error + unit) \<times> 'c"

subsection \<open>The encoder\<close>

definition ensure_for_texture :: "'c vmx \<Rightarrow> video_texture_meta \<Rightarrow> quality \<Rightarrow> 'c video_encoder \<Rightarrow> unit result \<times> 'c video_encoder" where
  "ensure_for_texture V meta quality e =
     ensure_codec V (tm_width meta) (tm_height meta) (vmx_profile quality) (map_color_space (tm_color_space meta)) e"

definition encode_from_texture :: "'c vmx \<Rightarrow> ('c, 't) texture_codec \<Rightarrow> 't \<Rightarrow> video_texture_meta \<Rightarrow> quality \<Rightarrow> 'c video_encoder \<Rightarrow>
    (bytes result \<times> 'c video_encoder) option" where
  "encode_from_texture V G texture meta quality e =
     (case ensure_for_texture V meta quality e of
        (Inl err, e1) \<Rightarrow> Some (Inl err, e1)
      | (Inr _, e1) \<Rightarrow>
          (case ve_codec e1 of
             None \<Rightarrow> None
           | Some vmx \<Rightarrow>
               (case gx_encode G (vf_contains (tm_flags meta) VF_ALPHA) texture vmx of
                  (Inl err, vmx') \<Rightarrow> Some (Inl (Vmx err), e1\<lparr>ve_codec := Some vmx'\<rparr>)
                | (Inr _, vmx') \<Rightarrow> save_bitstream V (e1\<lparr>ve_codec := Some vmx'\<rparr>))))"

definition submit_from_texture :: "'c vmx \<Rightarrow> ('c, 't) texture_codec \<Rightarrow> 't \<Rightarrow> video_texture_meta \<Rightarrow> quality \<Rightarrow> 'c video_encoder \<Rightarrow>
    (unit result \<times> 'c video_encoder) option" where
  "submit_from_texture V G texture meta quality e =
     (case ensure_for_texture V meta quality e of
        (Inl err, e1) \<Rightarrow> Some (Inl err, e1)
      | (Inr _, e1) \<Rightarrow>
          (case ve_codec e1 of
             None \<Rightarrow> None
           | Some vmx \<Rightarrow>
               (case gx_submit G (vf_contains (tm_flags meta) VF_ALPHA) texture vmx of
                  (Inl err, vmx') \<Rightarrow> Some (Inl (Vmx err), e1\<lparr>ve_codec := Some vmx'\<rparr>)
                | (Inr _, vmx') \<Rightarrow> Some (Inr (), e1\<lparr>ve_codec := Some vmx'\<rparr>))))"

definition finish_submitted_texture :: "'c vmx \<Rightarrow> ('c, 't) texture_codec \<Rightarrow> 'c video_encoder \<Rightarrow> (bytes result \<times> 'c video_encoder) option" where
  "finish_submitted_texture V G e =
     (case ve_codec e of
        None \<Rightarrow> Some (Inl (InvalidArgument ''GPU encode is not in progress''), e)
      | Some vmx \<Rightarrow>
          (case gx_finish G vmx of
             (Inl err, vmx') \<Rightarrow> Some (Inl (Vmx err), e\<lparr>ve_codec := Some vmx'\<rparr>)
           | (Inr _, vmx') \<Rightarrow> save_bitstream V (e\<lparr>ve_codec := Some vmx'\<rparr>)))"

subsection \<open>The sender\<close>

text \<open>The sender with the two fields the feature adds to it.\<close>

record 'c texture_sender =
  tx_sender :: "'c sender"
  tx_pipeline :: bool
  tx_pending :: "video_texture_meta option"

definition texture_sender_new :: "'c sender \<Rightarrow> 'c texture_sender" where
  "texture_sender_new s = \<lparr>tx_sender = s, tx_pipeline = False, tx_pending = None\<rparr>"

definition set_gpu_encode_pipeline :: "bool \<Rightarrow> 'c texture_sender \<Rightarrow> 'c texture_sender" where
  "set_gpu_encode_pipeline enabled x = x\<lparr>tx_pipeline := enabled\<rparr>"

definition gpu_encode_pipeline :: "'c texture_sender \<Rightarrow> bool" where
  "gpu_encode_pipeline x = tx_pipeline x"

text \<open>What a call takes from outside, as for \<open>send_video\<close>: the writes, the clocks, the time the encoder took and
  the capacity of the recycled bitstream.\<close>

record send_env =
  en_writes :: "nat \<Rightarrow> write_result list"
  en_system_time :: int
  en_nows :: "nat list"
  en_elapsed :: nat
  en_cap :: nat

definition texture_aspect :: "video_texture_meta \<Rightarrow> f32" where
  "texture_aspect meta = (if tm_height meta = 0 then 0x3F800000 else f32_div_u32 (tm_width meta) (tm_height meta))"

definition texture_frame :: "video_texture_meta \<Rightarrow> bytes \<Rightarrow> media_frame" where
  "texture_frame meta bitstream = media_frame_default\<lparr>mf_frame_type := FT_VIDEO, mf_timestamp := tm_timestamp meta,
     mf_codec := codec_as_i32 Vmx1, mf_width := tm_width meta, mf_height := tm_height meta, mf_stride := 0,
     mf_flags := tm_flags meta, mf_frame_rate_n := tm_frame_rate_n meta, mf_frame_rate_d := tm_frame_rate_d meta,
     mf_aspect_ratio := texture_aspect meta, mf_color_space := tm_color_space meta, mf_data := bitstream,
     mf_frame_metadata := tm_frame_metadata meta\<rparr>"

definition send_encoded_texture :: "(bytes \<Rightarrow> nat option) \<Rightarrow> send_env \<Rightarrow> video_texture_meta \<Rightarrow> bytes \<Rightarrow> 'c sender \<Rightarrow>
    (unit result \<times> 'c sender) option" where
  "send_encoded_texture plen en meta bitstream s =
     (case build_frame (en_system_time en) (en_nows en) (texture_frame meta bitstream) s of
        None \<Rightarrow> None
      | Some (Inl e, s1, _) \<Rightarrow> Some (Inl e, s1)
      | Some (Inr assembled, s1, _) \<Rightarrow>
          (case broadcast plen (en_writes en) assembled s1 of
             (r, s2) \<Rightarrow> Some (r, s2\<lparr>sn_video_encoder := recycle_bitstream (en_cap en) (sn_video_encoder s2)\<rparr>)))"

text \<open>A bitstream or the error of the encoder, and what follows it in both modes.\<close>

definition send_encoder_result :: "(bytes \<Rightarrow> nat option) \<Rightarrow> send_env \<Rightarrow> video_texture_meta \<Rightarrow> (bytes result \<times> 'c video_encoder) option \<Rightarrow>
    'c sender \<Rightarrow> (unit result \<times> 'c sender) option" where
  "send_encoder_result plen en meta encoded s =
     (case encoded of
        None \<Rightarrow> None
      | Some (Inl e, enc) \<Rightarrow> Some (Inl e, s\<lparr>sn_video_encoder := enc\<rparr>)
      | Some (Inr bitstream, enc) \<Rightarrow>
          send_encoded_texture plen en meta bitstream
            (s\<lparr>sn_video_encoder := enc, sn_stats := record_codec (en_elapsed en) (sn_stats s)\<rparr>))"

definition finish_pending_gpu :: "'c vmx \<Rightarrow> ('c, 't) texture_codec \<Rightarrow> (bytes \<Rightarrow> nat option) \<Rightarrow> send_env \<Rightarrow> 'c texture_sender \<Rightarrow>
    (unit result \<times> 'c texture_sender) option" where
  "finish_pending_gpu V G plen en x =
     (case tx_pending x of
        None \<Rightarrow> Some (Inr (), x)
      | Some meta \<Rightarrow>
          map_option (\<lambda>(r, s). (r, x\<lparr>tx_sender := s, tx_pending := None\<rparr>))
            (send_encoder_result plen en meta (finish_submitted_texture V G (sn_video_encoder (tx_sender x))) (tx_sender x)))"

definition flush_gpu_encode :: "'c vmx \<Rightarrow> ('c, 't) texture_codec \<Rightarrow> (bytes \<Rightarrow> nat option) \<Rightarrow> send_env \<Rightarrow> 'c texture_sender \<Rightarrow>
    (unit result \<times> 'c texture_sender) option" where
  "flush_gpu_encode V G plen en x = finish_pending_gpu V G plen en x"

text \<open>The checks at the start of \<open>send_video_texture\<close>.\<close>

definition check_texture :: "('c, 't) texture_codec \<Rightarrow> 't \<Rightarrow> video_texture_meta \<Rightarrow> unit result" where
  "check_texture G texture meta =
     (case gx_size G texture of
        (w, h) \<Rightarrow>
          if w \<noteq> tm_width meta \<or> h \<noteq> tm_height meta then
            Inl (InvalidArgument (''texture size '' @ show_nat (unat w) @ ''x'' @ show_nat (unat h) @ '' != meta '' @
              show_nat (unat (tm_width meta)) @ ''x'' @ show_nat (unat (tm_height meta))))
          else if unat (tm_width meta) < 16 \<or> unat (tm_height meta) < 16 then
            Inl (InvalidArgument (''video frame too small: '' @ show_nat (unat (tm_width meta)) @ ''x'' @ show_nat (unat (tm_height meta))))
          else Inr ())"

definition send_video_texture :: "'c vmx \<Rightarrow> ('c, 't) texture_codec \<Rightarrow> (bytes \<Rightarrow> nat option) \<Rightarrow> send_env \<Rightarrow> 't \<Rightarrow> video_texture_meta \<Rightarrow>
    'c texture_sender \<Rightarrow> (unit result \<times> 'c texture_sender) option" where
  "send_video_texture V G plen en texture meta x =
     (if \<not> ps_video (sn_subscribed (tx_sender x)) then Some (Inr (), x)
      else
        case check_texture G texture meta of
          Inl e \<Rightarrow> Some (Inl e, x)
        | Inr _ \<Rightarrow>
            let quality = effective_quality (tx_sender x) in
            if tx_pipeline x then
              (case finish_pending_gpu V G plen en x of
                 None \<Rightarrow> None
               | Some (Inl e, x1) \<Rightarrow> Some (Inl e, x1)
               | Some (Inr _, x1) \<Rightarrow>
                   (case submit_from_texture V G texture meta quality (sn_video_encoder (tx_sender x1)) of
                      None \<Rightarrow> None
                    | Some (r, enc) \<Rightarrow>
                        let x2 = x1\<lparr>tx_sender := (tx_sender x1)\<lparr>sn_video_encoder := enc\<rparr>\<rparr> in
                        (case r of Inl e \<Rightarrow> Some (Inl e, x2) | Inr _ \<Rightarrow> Some (Inr (), x2\<lparr>tx_pending := Some meta\<rparr>))))
            else
              map_option (\<lambda>(r, s). (r, x\<lparr>tx_sender := s\<rparr>))
                (send_encoder_result plen en meta
                  (encode_from_texture V G texture meta quality (sn_video_encoder (tx_sender x))) (tx_sender x)))"

section \<open>Pipelined encoding\<close>

text \<open>What the codec documents: submitting a texture and finishing it later is encoding it, in two halves.\<close>

definition pipelined_codec :: "('c, 't) texture_codec \<Rightarrow> bool" where
  "pipelined_codec G \<longleftrightarrow>
     (\<forall>alpha texture c. case gx_submit G alpha texture c of
        (Inl e, c') \<Rightarrow> gx_encode G alpha texture c = (Inl e, c')
      | (Inr _, c') \<Rightarrow> gx_finish G c' = gx_encode G alpha texture c)"

lemma submit_finish:
  assumes "pipelined_codec G" "submit_from_texture V G texture meta q e = Some (Inr u, e')"
  shows "finish_submitted_texture V G e' = encode_from_texture V G texture meta q e"
  using assms
  by (auto simp: submit_from_texture_def finish_submitted_texture_def encode_from_texture_def pipelined_codec_def
      split: prod.splits sum.splits option.splits)

lemma submit_refused:
  assumes "pipelined_codec G" "encode_from_texture V G texture meta q e = Some (Inr bits, e')"
  shows "\<exists>e1. submit_from_texture V G texture meta q e = Some (Inr (), e1)"
  using assms
  by (auto simp: submit_from_texture_def encode_from_texture_def pipelined_codec_def
      split: prod.splits sum.splits option.splits)

lemma send_encoder_result_encoder [simp]:
  "send_encoder_result plen en meta encoded (s\<lparr>sn_video_encoder := e\<rparr>) = send_encoder_result plen en meta encoded s"
  by (simp add: send_encoder_result_def split: option.splits sum.splits)

lemma broadcast_subscribed: "broadcast plen ws f s = (r, s') \<Longrightarrow> sn_subscribed s' = sn_subscribed s"
  by (auto simp: broadcast_def Let_def split: if_splits option.splits prod.splits)

lemma build_frame_subscribed: "build_frame t nows f s = Some (r, s', nows') \<Longrightarrow> sn_subscribed s' = sn_subscribed s"
  by (auto simp: build_frame_def Let_def split: if_splits option.splits)

lemma send_encoder_result_subscribed:
  "send_encoder_result plen en meta encoded s = Some (r, s') \<Longrightarrow> sn_subscribed s' = sn_subscribed s"
  by (auto simp: send_encoder_result_def send_encoded_texture_def split: option.splits sum.splits prod.splits
      dest!: broadcast_subscribed build_frame_subscribed)

lemma encoder_subscribed [simp]:
  "effective_quality (s\<lparr>sn_video_encoder := e\<rparr>) = effective_quality s"
  by (simp add: effective_quality_def)

text \<open>A run of calls that all succeed.\<close>

fun send_textures :: "'c vmx \<Rightarrow> ('c, 't) texture_codec \<Rightarrow> (bytes \<Rightarrow> nat option) \<Rightarrow> (send_env \<times> 't \<times> video_texture_meta) list \<Rightarrow>
    'c texture_sender \<Rightarrow> 'c texture_sender option" where
  "send_textures V G plen [] x = Some x"
| "send_textures V G plen ((en, texture, meta) # fs) x =
     (case send_video_texture V G plen en texture meta x of
        Some (Inr _, x') \<Rightarrow> send_textures V G plen fs x'
      | _ \<Rightarrow> None)"

text \<open>What a successful synchronous call has done.\<close>

lemma sync_call:
  assumes "send_video_texture V G plen en texture meta y = Some (Inr u, y')" "\<not> tx_pipeline y"
    "ps_video (sn_subscribed (tx_sender y))"
  obtains s' bits enc where "check_texture G texture meta = Inr ()" "y' = y\<lparr>tx_sender := s'\<rparr>"
    "encode_from_texture V G texture meta (effective_quality (tx_sender y)) (sn_video_encoder (tx_sender y)) = Some (Inr bits, enc)"
    "send_encoder_result plen en meta (Some (Inr bits, enc)) (tx_sender y) = Some (Inr (), s')"
    "sn_subscribed s' = sn_subscribed (tx_sender y)"
proof -
  obtain s' where c: "check_texture G texture meta = Inr ()" "y' = y\<lparr>tx_sender := s'\<rparr>"
    and r: "send_encoder_result plen en meta
      (encode_from_texture V G texture meta (effective_quality (tx_sender y)) (sn_video_encoder (tx_sender y))) (tx_sender y) = Some (Inr (), s')"
    using assms by (auto simp: send_video_texture_def Let_def split: sum.splits)
  from r obtain bits enc where
    "encode_from_texture V G texture meta (effective_quality (tx_sender y)) (sn_video_encoder (tx_sender y)) = Some (Inr bits, enc)"
    by (auto simp: send_encoder_result_def split: option.splits sum.splits)
  with c r that send_encoder_result_subscribed [OF r] show ?thesis by auto
qed

text \<open>\<open>x\<close> has the texture in flight that \<open>s\<close> is about to encode.\<close>

definition in_flight :: "'c vmx \<Rightarrow> ('c, 't) texture_codec \<Rightarrow> 't \<Rightarrow> video_texture_meta \<Rightarrow> 'c sender \<Rightarrow> 'c texture_sender \<Rightarrow> bool" where
  "in_flight V G texture meta s x \<longleftrightarrow> tx_pipeline x \<and> tx_pending x = Some meta \<and>
     (\<exists>e. tx_sender x = s\<lparr>sn_video_encoder := e\<rparr> \<and>
        submit_from_texture V G texture meta (effective_quality s) (sn_video_encoder s) = Some (Inr (), e))"

lemma in_flight_finish:
  assumes "pipelined_codec G" "in_flight V G texture meta s x"
    "encode_from_texture V G texture meta (effective_quality s) (sn_video_encoder s) = Some (Inr bits, enc)"
    "send_encoder_result plen en meta (Some (Inr bits, enc)) s = Some (Inr (), s')"
  shows "finish_pending_gpu V G plen en x = Some (Inr (), x\<lparr>tx_sender := s', tx_pending := None\<rparr>)"
proof -
  obtain e where x: "tx_pending x = Some meta" "tx_sender x = s\<lparr>sn_video_encoder := e\<rparr>"
    "submit_from_texture V G texture meta (effective_quality s) (sn_video_encoder s) = Some (Inr (), e)"
    using assms(2) by (auto simp: in_flight_def)
  have "finish_submitted_texture V G e = Some (Inr bits, enc)" using submit_finish [OF assms(1) x(3)] assms(3) by simp
  with assms(4) show ?thesis by (simp add: finish_pending_gpu_def x)
qed

lemma pipelined_call:
  assumes "finish_pending_gpu V G plen en x = Some (Inr (), x\<lparr>tx_sender := s', tx_pending := None\<rparr>)"
    "check_texture G texture meta = Inr ()" "tx_pipeline x" "ps_video (sn_subscribed (tx_sender x))"
    "sn_subscribed s' = sn_subscribed (tx_sender x)"
    "submit_from_texture V G texture meta (effective_quality s') (sn_video_encoder s') = Some (Inr (), e)"
  shows "\<exists>x'. send_video_texture V G plen en texture meta x = Some (Inr (), x') \<and> in_flight V G texture meta s' x'"
  using assms by (auto simp: send_video_texture_def Let_def in_flight_def effective_quality_def)

lemma pipeline_run:
  assumes "pipelined_codec G" "length es = length fs" "in_flight V G t0 m0 s x" "ps_video (sn_subscribed s)"
    "tx_sender y = s" "\<not> tx_pipeline y" "send_textures V G plen (zip (es @ [ef]) ((t0, m0) # fs)) y = Some y'"
  shows "\<exists>x1 x2. send_textures V G plen (zip es fs) x = Some x1 \<and> flush_gpu_encode V G plen ef x1 = Some (Inr (), x2) \<and>
    tx_sender x2 = tx_sender y' \<and> tx_pending x2 = None"
  using assms(2-7)
proof (induction es fs arbitrary: t0 m0 s x y rule: list_induct2)
  case Nil
  from Nil.prems(5) obtain u where call: "send_video_texture V G plen ef t0 m0 y = Some (Inr u, y')"
    by (auto split: option.splits sum.splits)
  from sync_call [OF call Nil.prems(4)] Nil.prems(2,3) obtain s' bits enc where y': "y' = y\<lparr>tx_sender := s'\<rparr>"
    and enc: "encode_from_texture V G t0 m0 (effective_quality s) (sn_video_encoder s) = Some (Inr bits, enc)"
    and sent: "send_encoder_result plen ef m0 (Some (Inr bits, enc)) s = Some (Inr (), s')"
    by metis
  show ?case using in_flight_finish [OF assms(1) Nil.prems(1) enc sent] by (simp add: y' flush_gpu_encode_def)
next
  case (Cons en es f fs)
  obtain t1 m1 where f: "f = (t1, m1)" by fastforce
  from Cons.prems(5) obtain u y1 where call: "send_video_texture V G plen en t0 m0 y = Some (Inr u, y1)"
    and rest: "send_textures V G plen (zip (es @ [ef]) ((t1, m1) # fs)) y1 = Some y'"
    by (auto simp: f split: option.splits sum.splits)
  from sync_call [OF call Cons.prems(4)] Cons.prems(2,3) obtain s' bits enc where y1: "y1 = y\<lparr>tx_sender := s'\<rparr>"
    and enc: "encode_from_texture V G t0 m0 (effective_quality s) (sn_video_encoder s) = Some (Inr bits, enc)"
    and sent: "send_encoder_result plen en m0 (Some (Inr bits, enc)) s = Some (Inr (), s')" "sn_subscribed s' = sn_subscribed s"
    by metis
  have y1': "tx_sender y1 = s'" "\<not> tx_pipeline y1" "ps_video (sn_subscribed s')" using y1 sent(2) Cons.prems(2,4) by simp_all
  from rest obtain v y2 e1 where "send_video_texture V G plen e1 t1 m1 y1 = Some (Inr v, y2)"
    by (cases es) (auto split: option.splits sum.splits)
  from sync_call [OF this y1'(2)] y1' obtain bits1 enc1 where ok: "check_texture G t1 m1 = Inr ()"
    "encode_from_texture V G t1 m1 (effective_quality s') (sn_video_encoder s') = Some (Inr bits1, enc1)"
    by metis
  obtain e where sub: "submit_from_texture V G t1 m1 (effective_quality s') (sn_video_encoder s') = Some (Inr (), e)"
    using submit_refused [OF assms(1) ok(2)] by blast
  have x: "tx_pipeline x" "sn_subscribed (tx_sender x) = sn_subscribed s" using Cons.prems(1) by (auto simp: in_flight_def)
  obtain x' where x': "send_video_texture V G plen en t1 m1 x = Some (Inr (), x')" "in_flight V G t1 m1 s' x'"
    using pipelined_call [OF in_flight_finish [OF assms(1) Cons.prems(1) enc sent(1)] ok(1) x(1) _ _ sub] x(2) sent(2) Cons.prems(2)
    by auto
  show ?case using Cons.IH [OF x'(2) y1'(3,1,2) rest] x'(1) by (simp add: f)
qed

text \<open>C30: Pipelined encoding of textures refines synchronous encoding, one frame later. If the synchronous sender sends
  the textures \<open>fs\<close> successfully, each with what the outside world answers in \<open>es\<close>, then the pipelined sender,
  given the same answers one call later, succeeds as well, and after the flush it has the same state: the same
  frames on the same sockets in the same order, the same statistics, clocks and encoder, nothing in flight.\<close>

theorem pipelined_textures:
  assumes "pipelined_codec G" "tx_pending x = None" "length es = length fs"
    "send_textures V G plen (zip es fs) (set_gpu_encode_pipeline False x) = Some y"
  shows "\<exists>x1 x2. send_textures V G plen (zip (e0 # es) fs) (set_gpu_encode_pipeline True x) = Some x1 \<and>
    flush_gpu_encode V G plen (last es) x1 = Some (Inr (), x2) \<and> tx_sender x2 = tx_sender y \<and> tx_pending x2 = None"
proof (cases "ps_video (sn_subscribed (tx_sender x)) \<and> fs \<noteq> []")
  case False
  let ?on = "set_gpu_encode_pipeline True x" and ?off = "set_gpu_encode_pipeline False x"
  have noop: "send_textures V G plen ps z = Some z" if "\<not> ps_video (sn_subscribed (tx_sender z)) \<or> ps = []" for ps z
    using that by (induction ps) (auto simp: send_video_texture_def)
  have "send_textures V G plen (zip es fs) ?off = Some ?off" "send_textures V G plen (zip (e0 # es) fs) ?on = Some ?on"
    using False by (auto intro!: noop simp: set_gpu_encode_pipeline_def)
  then show ?thesis using assms(2,4) by (auto simp: flush_gpu_encode_def finish_pending_gpu_def set_gpu_encode_pipeline_def)
next
  case True
  then obtain t0 m0 fs' where fs: "fs = (t0, m0) # fs'" by (cases fs) auto
  then obtain es' ef where es: "es = es' @ [ef]" "length es' = length fs'"
    using assms(3) by (cases es rule: rev_cases) auto
  let ?on = "set_gpu_encode_pipeline True x" and ?off = "set_gpu_encode_pipeline False x" and ?s = "tx_sender x"
  have off: "tx_sender ?off = ?s" "\<not> tx_pipeline ?off" by (simp_all add: set_gpu_encode_pipeline_def)
  from assms(4) obtain u y1 en where "send_video_texture V G plen en t0 m0 ?off = Some (Inr u, y1)"
    unfolding es fs by (cases es') (auto split: option.splits sum.splits)
  from sync_call [OF this off(2)] True off(1) obtain bits enc where ok: "check_texture G t0 m0 = Inr ()"
    "encode_from_texture V G t0 m0 (effective_quality ?s) (sn_video_encoder ?s) = Some (Inr bits, enc)"
    by metis
  obtain e where sub: "submit_from_texture V G t0 m0 (effective_quality ?s) (sn_video_encoder ?s) = Some (Inr (), e)"
    using submit_refused [OF assms(1) ok(2)] by blast
  have "finish_pending_gpu V G plen e0 ?on = Some (Inr (), ?on\<lparr>tx_sender := ?s, tx_pending := None\<rparr>)"
    using assms(2) by (simp add: finish_pending_gpu_def set_gpu_encode_pipeline_def)
  moreover have "tx_pipeline ?on" "ps_video (sn_subscribed (tx_sender ?on))" "sn_subscribed ?s = sn_subscribed (tx_sender ?on)"
    using True by (simp_all add: set_gpu_encode_pipeline_def)
  ultimately obtain x' where
    x': "send_video_texture V G plen e0 t0 m0 ?on = Some (Inr (), x')" "in_flight V G t0 m0 ?s x'"
    using pipelined_call [OF _ ok(1) _ _ _ sub] by blast
  have run: "send_textures V G plen (zip (e0 # es) fs) ?on = send_textures V G plen (zip es' fs') x'"
    using x'(1) es(2) by (simp add: es fs zip_append1)
  show ?thesis
    unfolding run using pipeline_run [OF assms(1) es(2) x'(2) _ off] True assms(4) by (auto simp: es fs)
qed

text \<open>A GPU codec over \<open>plain_vmx\<close>: a texture is its size and the bitstream it is encoded to.\<close>

definition plain_texture_codec :: "(bytes, (u32 \<times> u32) \<times> bytes) texture_codec" where
  "plain_texture_codec = \<lparr>gx_size = fst, gx_encode = (\<lambda>_ t _. (Inr (), snd t)), gx_submit = (\<lambda>_ t _. (Inr (), snd t)),
     gx_finish = (\<lambda>c. (Inr (), c))\<rparr>"

lemma plain_pipelined: "pipelined_codec plain_texture_codec"
  by (simp add: pipelined_codec_def plain_texture_codec_def)

lemma plain_encode:
  assumes "length (snd t) \<le> SAVE_CAP"
  shows "\<exists>e'. encode_from_texture plain_vmx plain_texture_codec t meta q e = Some (Inr (snd t), e')"
proof -
  have "vx_new plain_vmx w h p c = Inr []" for w h p c by (simp add: plain_vmx_def)
  then have "\<exists>e1 c. ensure_for_texture plain_vmx meta q e = (Inr (), e1) \<and> ve_codec e1 = Some c"
    by (auto simp: ensure_for_texture_def ensure_codec_def Let_def)
  then obtain e1 c where ens: "ensure_for_texture plain_vmx meta q e = (Inr (), e1)" "ve_codec e1 = Some c" by blast
  obtain len' where "save_loop plain_vmx (max (ve_buf_len e1) (save_buf_min (ve_width e1) (ve_height e1))) (snd t) = (Inr (snd t), len', snd t)"
    using save_loop_returns [OF plain_holds assms] by blast
  with ens show ?thesis by (simp add: encode_from_texture_def plain_texture_codec_def save_bitstream_def Let_def)
qed

lemma broadcast_ok: "\<exists>s'. broadcast plen ws f s = (Inr (), s')"
  by (auto simp: broadcast_def Let_def split: if_splits option.splits prod.splits)

text \<open>With an explicit timestamp there is no pacing, so an encoded texture is always sent.\<close>

lemma texture_frame_built:
  assumes "sint (tm_timestamp meta) \<noteq> AUTO_TIMESTAMP" "nows \<noteq> []"
  shows "\<exists>f s' nows'. build_frame t nows (texture_frame meta bits) s = Some (Inr f, s', nows')"
proof -
  have "ft_contains (mf_frame_type (texture_frame meta bits)) FT_VIDEO" by (simp add: texture_frame_def)
  with assms show ?thesis
    by (cases nows) (auto simp: build_frame_def texture_frame_def clock_resolve_def clock_reset_def Let_def)
qed

lemma encoded_texture_sent:
  assumes "sint (tm_timestamp meta) \<noteq> AUTO_TIMESTAMP" "en_nows en \<noteq> []"
  shows "\<exists>s'. send_encoded_texture plen en meta bits s = Some (Inr (), s')"
proof -
  obtain f s1 nows where b: "build_frame (en_system_time en) (en_nows en) (texture_frame meta bits) s = Some (Inr f, s1, nows)"
    using texture_frame_built [OF assms] by blast
  obtain s2 where "broadcast plen (en_writes en) f s1 = (Inr (), s2)" using broadcast_ok by blast
  with b show ?thesis by (simp add: send_encoded_texture_def)
qed

lemma plain_call:
  assumes "check_texture plain_texture_codec t meta = Inr ()" "length (snd t) \<le> SAVE_CAP" "\<not> tx_pipeline y"
    "sint (tm_timestamp meta) \<noteq> AUTO_TIMESTAMP" "en_nows en \<noteq> []"
  shows "\<exists>y'. send_video_texture plain_vmx plain_texture_codec plen en t meta y = Some (Inr (), y') \<and> \<not> tx_pipeline y'"
proof -
  obtain e' where "encode_from_texture plain_vmx plain_texture_codec t meta (effective_quality (tx_sender y))
      (sn_video_encoder (tx_sender y)) = Some (Inr (snd t), e')"
    using plain_encode [OF assms(2)] by blast
  moreover obtain s' where "send_encoded_texture plen en meta (snd t)
      ((tx_sender y)\<lparr>sn_video_encoder := e', sn_stats := record_codec (en_elapsed en) (sn_stats (tx_sender y))\<rparr>) = Some (Inr (), s')"
    using encoded_texture_sent [OF assms(4,5)] by blast
  ultimately show ?thesis using assms(1,3) by (simp add: send_video_texture_def send_encoder_result_def Let_def)
qed

definition sample_texture_meta :: video_texture_meta where
  "sample_texture_meta = video_texture_meta_default\<lparr>tm_width := 64, tm_height := 32, tm_timestamp := 7\<rparr>"

definition sample_env :: send_env where
  "sample_env = \<lparr>en_writes = (\<lambda>_. []), en_system_time = 0, en_nows = [5], en_elapsed = 0, en_cap = 0\<rparr>"

definition sample_textures :: "(((u32 \<times> u32) \<times> bytes) \<times> video_texture_meta) list" where
  "sample_textures = [(((64, 32), [1, 2, 3]), sample_texture_meta), (((64, 32), [4]), sample_texture_meta)]"

theorem pipelined_textures_witness:
  "let x = texture_sender_new (force_subscribe True False False offline_sender); envs = [sample_env, sample_env];
       G = plain_texture_codec; V = plain_vmx in
   ps_video (sn_subscribed (tx_sender x)) \<and>
   (\<exists>y x1 x2. send_textures V G (\<lambda>_. None) (zip envs sample_textures) (set_gpu_encode_pipeline False x) = Some y \<and>
     send_textures V G (\<lambda>_. None) (zip (sample_env # envs) sample_textures) (set_gpu_encode_pipeline True x) = Some x1 \<and>
     flush_gpu_encode V G (\<lambda>_. None) sample_env x1 = Some (Inr (), x2) \<and> tx_sender x2 = tx_sender y)"
proof -
  let ?x = "texture_sender_new (force_subscribe True False False offline_sender)" and ?m = sample_texture_meta
  let ?send = "send_video_texture plain_vmx plain_texture_codec (\<lambda>_. None) sample_env"
  have m: "sint (tm_timestamp ?m) \<noteq> AUTO_TIMESTAMP" "en_nows sample_env \<noteq> []"
    "check_texture plain_texture_codec ((64, 32), bits) ?m = Inr ()" for bits
    by (simp_all add: sample_texture_meta_def AUTO_TIMESTAMP_def sample_env_def check_texture_def plain_texture_codec_def)
  obtain y1 where y1: "?send ((64, 32), [1, 2, 3]) ?m (set_gpu_encode_pipeline False ?x) = Some (Inr (), y1)" "\<not> tx_pipeline y1"
    using plain_call [OF m(3) _ _ m(1,2)] by (force simp: set_gpu_encode_pipeline_def SAVE_CAP_def)
  obtain y2 where "?send ((64, 32), [4]) ?m y1 = Some (Inr (), y2)"
    using plain_call [OF m(3) _ y1(2) m(1,2)] by (force simp: SAVE_CAP_def)
  with y1 have run: "send_textures plain_vmx plain_texture_codec (\<lambda>_. None) (zip [sample_env, sample_env] sample_textures)
      (set_gpu_encode_pipeline False ?x) = Some y2" by (simp add: sample_textures_def)
  have x: "tx_pending ?x = None" "ps_video (sn_subscribed (tx_sender ?x))" "length [sample_env, sample_env] = length sample_textures"
    by (simp_all add: texture_sender_new_def force_subscribe_def sample_textures_def)
  from pipelined_textures [OF plain_pipelined x(1,3) run, of sample_env] x(2) run show ?thesis
    unfolding Let_def last.simps by auto
qed

section \<open>Frames on the wire\<close>

text \<open>A texture that is sent becomes a well-formed VMX1 video frame with the texture's geometry, rate, flags and
  colour space, the bitstream as its payload and the metadata after it, as long as these fit the wire's
  length fields.\<close>

theorem texture_frame_typed:
  assumes "build_frame system_time nows (texture_frame meta bits) s = Some (r, s', nows')"
    and "length (metadata_bytes (texture_frame meta bits)) < 2 ^ 16" "length bits < 2 ^ 30"
  shows "\<exists>f. r = Inr f \<and> wf_frame f \<and> fh_frame_type (af_header f) = FT_VIDEO \<and> af_data f = bits \<and> af_audio f = None \<and>
    af_video f = Some \<lparr>vh_codec = Vmx1, vh_width = tm_width meta, vh_height = tm_height meta,
      vh_frame_rate_n = tm_frame_rate_n meta, vh_frame_rate_d = tm_frame_rate_d meta, vh_aspect_ratio = texture_aspect meta,
      vh_flags = tm_flags meta, vh_color_space = tm_color_space meta\<rparr>"
proof -
  let ?m = "texture_frame meta bits"
  have v: "ft_contains (mf_frame_type ?m) FT_VIDEO" by (simp add: texture_frame_def)
  obtain ts where r: "r = Inr (video_wire_frame ts ?m)" using assms(1) v by (auto simp: build_frame_def Let_def split: option.splits)
  let ?f = "video_wire_frame ts ?m"
  have parts: "af_data ?f = bits" "af_metadata ?f = metadata_bytes ?m" "fh_frame_type (af_header ?f) = FT_VIDEO" "af_audio ?f = None"
    by (simp_all add: video_wire_frame_def Let_def texture_frame_def)
  have "length (ext_bytes ?f) = VIDEO_EXT_HEADER_SIZE" by (simp add: ext_bytes_def video_wire_frame_def Let_def)
  then have "wf_frame ?f"
    using assms(2,3) by (intro video_wire_frame_wf [OF refl]) (simp_all add: parts VIDEO_EXT_HEADER_SIZE_def)
  moreover have "af_video ?f = Some \<lparr>vh_codec = Vmx1, vh_width = tm_width meta, vh_height = tm_height meta,
      vh_frame_rate_n = tm_frame_rate_n meta, vh_frame_rate_d = tm_frame_rate_d meta, vh_aspect_ratio = texture_aspect meta,
      vh_flags = tm_flags meta, vh_color_space = tm_color_space meta\<rparr>"
    by (simp add: video_wire_frame_def Let_def texture_frame_def del: codec_as_i32.simps)
  ultimately show ?thesis using parts r by blast
qed

theorem texture_frame_typed_witness:
  "\<exists>f s' nows'. build_frame 0 [5] (texture_frame sample_texture_meta [1, 2, 3]) offline_sender = Some (Inr f, s', nows') \<and>
     wf_frame f \<and> af_data f = [1, 2, 3]"
proof -
  let ?m = "texture_frame sample_texture_meta [1, 2, 3]"
  obtain f s' nows' where b: "build_frame 0 [5] ?m offline_sender = Some (Inr f, s', nows')"
    using texture_frame_built [of sample_texture_meta "[5]"] by (force simp: sample_texture_meta_def AUTO_TIMESTAMP_def)
  have "length (metadata_bytes ?m) < 2 ^ 16"
    by (simp add: metadata_bytes_def texture_frame_def sample_texture_meta_def video_texture_meta_default_def)
  from texture_frame_typed [OF b this] b show ?thesis by auto
qed

section \<open>Switching pipelining off\<close>

text \<open>Sending and switching leave the wire and the invariant of the sender in order, whatever the GPU answers.\<close>

lemma send_encoder_result_inv:
  "sender_inv s \<Longrightarrow> send_encoder_result plen en meta encoded s = Some (r, s') \<Longrightarrow> sender_inv s'"
  by (auto simp: send_encoder_result_def send_encoded_texture_def split: option.splits sum.splits prod.splits
      dest!: build_frame_inv [rotated] broadcast_inv [rotated])

lemma finish_pending_inv:
  "sender_inv (tx_sender x) \<Longrightarrow> finish_pending_gpu V G plen en x = Some (r, x') \<Longrightarrow> sender_inv (tx_sender x')"
  by (auto simp: finish_pending_gpu_def split: option.splits dest: send_encoder_result_inv)

lemma send_video_texture_inv:
  "sender_inv (tx_sender x) \<Longrightarrow> send_video_texture V G plen en texture meta x = Some (r, x') \<Longrightarrow> sender_inv (tx_sender x')"
  by (auto simp: send_video_texture_def Let_def split: if_splits option.splits sum.splits prod.splits
      dest: send_encoder_result_inv finish_pending_inv)

text \<open>A frame in flight when pipelining is switched off stays in flight: every texture sent from then on overtakes it,
  until a flush sends the old frame after the newer ones.\<close>

lemma switched_off_overtakes:
  assumes "tx_pending x = Some meta0" "send_video_texture V G plen en texture meta (set_gpu_encode_pipeline False x) = Some (r, x')"
  shows "tx_pending x' = Some meta0"
  using assms by (auto simp: send_video_texture_def set_gpu_encode_pipeline_def Let_def split: if_splits sum.splits)

end
