(* ===== verification/Receiver_Queues.thy ===== *)
theory Receiver_Queues
  imports Sender_Peers State_Machine Pool
begin

text \<open>
  The hand-offs between the threads of a receiver (the first part of \<open>src/receive.rs\<close>): the bounded channels of
  \<open>std::sync::mpsc\<close>, the queue of decoded frames that discards the oldest, the latest-wins capture of
  bitstreams, the counters of the session statistics and the gauge of the wire queue. The queue of decoded
  frames is polymorphic: the queues for pixels and for textures are the same code. Instants are in nanoseconds.
\<close>

section \<open>Definitions\<close>

definition VIDEO_WIRE_Q :: nat where "VIDEO_WIRE_Q = 3"
definition VIDEO_DECODED_Q :: nat where "VIDEO_DECODED_Q = 1"
definition AUDIO_Q :: nat where "AUDIO_Q = 10"
definition METADATA_Q :: nat where "METADATA_Q = 60"

record wire_video =
  wv_timestamp :: i64
  wv_width :: i32
  wv_height :: i32
  wv_frame_rate_n :: i32
  wv_frame_rate_d :: i32
  wv_color_space :: color_space
  wv_preview :: bool
  wv_payload :: vec
  wv_metadata :: "string option"
  wv_enqueued_at :: nat

subsection \<open>Statistics\<close>

definition record_bytes :: "nat \<Rightarrow> session_statistics \<Rightarrow> session_statistics" where
  "record_bytes n g = g\<lparr>ss_bytes_received := sat_add_u (ss_bytes_received g) (word_of_nat n),
     ss_bytes_received_since_last := sat_add_u (ss_bytes_received_since_last g) (word_of_nat n)\<rparr>"

definition record_drop_wire :: "session_statistics \<Rightarrow> session_statistics" where
  "record_drop_wire g = g\<lparr>ss_frames_dropped_wire := sat_add_u (ss_frames_dropped_wire g) 1\<rparr>"

definition record_drop_decode :: "session_statistics \<Rightarrow> session_statistics" where
  "record_drop_decode g = g\<lparr>ss_frames_dropped_decode := sat_add_u (ss_frames_dropped_decode g) 1\<rparr>"

definition record_drop_audio :: "session_statistics \<Rightarrow> session_statistics" where
  "record_drop_audio g = g\<lparr>ss_frames_dropped_audio := sat_add_u (ss_frames_dropped_audio g) 1\<rparr>"

definition record_codec_time :: "u64 \<Rightarrow> u64 \<Rightarrow> session_statistics \<Rightarrow> session_statistics" where
  "record_codec_time ns age_us g0 =
     (let g1 = g0\<lparr>ss_codec_time_ns := sat_add_u (ss_codec_time_ns g0) ns,
                  ss_frames_decoded := sat_add_u (ss_frames_decoded g0) 1\<rparr>;
          g2 = (if ss_frames_decoded g1 \<le> 30 \<or> ns > ss_codec_time_ns_peak g1 then g1\<lparr>ss_codec_time_ns_peak := ns\<rparr> else g1) in
      if age_us > ss_frame_age_us_peak g2 then g2\<lparr>ss_frame_age_us_peak := age_us\<rparr> else g2)"

subsection \<open>Bounded channels\<close>

text \<open>\<open>sync_channel(cap)\<close> with the flags that its sending and its receiving side still exist.\<close>

record 'a sync_channel =
  sy_cap :: nat
  sy_items :: "'a list"
  sy_tx_alive :: bool
  sy_rx_alive :: bool

definition sync_channel_new :: "nat \<Rightarrow> 'a sync_channel" where
  "sync_channel_new cap = \<lparr>sy_cap = cap, sy_items = [], sy_tx_alive = True, sy_rx_alive = True\<rparr>"

definition chan_try_send :: "'a \<Rightarrow> 'a sync_channel \<Rightarrow> try_send_result \<times> 'a sync_channel" where
  "chan_try_send x c =
     (if \<not> sy_rx_alive c then (Disconnected, c)
      else if length (sy_items c) \<ge> sy_cap c then (Full, c)
      else (Sent, c\<lparr>sy_items := sy_items c @ [x]\<rparr>))"

datatype 'a recv_result = Received 'a | Empty | Hangup

text \<open>\<open>try_recv\<close>, and \<open>recv_timeout\<close> when its time is up.\<close>

definition chan_recv :: "'a sync_channel \<Rightarrow> 'a recv_result \<times> 'a sync_channel" where
  "chan_recv c =
     (case sy_items c of
        x # xs \<Rightarrow> (Received x, c\<lparr>sy_items := xs\<rparr>)
      | [] \<Rightarrow> (if sy_tx_alive c then Empty else Hangup, c))"

subsection \<open>The queue of decoded frames\<close>

record 'f decoded_queue =
  dq_slot :: "'f list"
  dq_depth :: u32
  dq_overwrites :: u64
  dq_cap :: nat

definition decoded_queue_new :: "nat \<Rightarrow> 'f decoded_queue" where
  "decoded_queue_new cap = \<lparr>dq_slot = [], dq_depth = 0, dq_overwrites = 0, dq_cap = max cap 1\<rparr>"

text \<open>The \<open>while\<close> loop of \<open>publish\<close>. It ends because the capacity is at least one.\<close>

fun evict_oldest :: "nat \<Rightarrow> 'f list \<Rightarrow> u64 \<Rightarrow> session_statistics \<Rightarrow> 'f list \<times> u64 \<times> session_statistics" where
  "evict_oldest cap [] overwrites stats = ([], overwrites, stats)"
| "evict_oldest cap (f # fs) overwrites stats =
     (if length (f # fs) \<ge> cap then evict_oldest cap fs (overwrites + 1) (record_drop_decode stats)
      else (f # fs, overwrites, stats))"

definition queue_publish :: "'f \<Rightarrow> 'f decoded_queue \<Rightarrow> session_statistics \<Rightarrow> 'f decoded_queue \<times> session_statistics" where
  "queue_publish frame q stats =
     (case evict_oldest (dq_cap q) (dq_slot q) (dq_overwrites q) stats of
        (slot, overwrites, stats') \<Rightarrow>
          (q\<lparr>dq_slot := slot @ [frame], dq_overwrites := overwrites, dq_depth := word_of_nat (length (slot @ [frame]))\<rparr>, stats'))"

definition try_take :: "'f decoded_queue \<Rightarrow> 'f option \<times> 'f decoded_queue" where
  "try_take q =
     (case dq_slot q of
        f # fs \<Rightarrow> (Some f, q\<lparr>dq_slot := fs, dq_depth := word_of_nat (length fs)\<rparr>)
      | [] \<Rightarrow> (None, q\<lparr>dq_depth := word_of_nat 0\<rparr>))"

text \<open>\<open>wait_take\<close> over its wake-ups: whether stop is set, whether the deadline has passed, and what the other
  threads do to the queue while this one waits. \<open>None\<close>: still waiting.\<close>

fun wait_take :: "(bool \<times> bool \<times> ('f decoded_queue \<Rightarrow> 'f decoded_queue)) list \<Rightarrow> 'f decoded_queue \<Rightarrow>
    ('f option \<times> 'f decoded_queue) option" where
  "wait_take wakes q =
     (case dq_slot q of
        f # fs \<Rightarrow> Some (Some f, q\<lparr>dq_slot := fs, dq_depth := word_of_nat (length fs)\<rparr>)
      | [] \<Rightarrow>
          (case wakes of
             [] \<Rightarrow> None
           | (stop, expired, others) # ws \<Rightarrow>
               if stop then Some (None, q) else if expired then Some (None, q) else wait_take ws (others q)))"

declare wait_take.simps [simp del]

subsection \<open>The capture of bitstreams\<close>

record compressed_video_frame =
  cv_pts_100ns :: i64
  cv_width :: u32
  cv_height :: u32
  cv_fps_num :: u32
  cv_fps_den :: u32
  cv_color_space :: color_space
  cv_preview :: bool
  cv_sequence :: u64
  cv_payload :: bytes

record encoded_capture =
  ec_slot :: "compressed_video_frame option"
  ec_capture :: bool
  ec_sequence :: u64
  ec_dropped :: u64

definition encoded_capture_default :: encoded_capture where
  "encoded_capture_default = \<lparr>ec_slot = None, ec_capture = False, ec_sequence = 0, ec_dropped = 0\<rparr>"

definition captured_frame :: "u64 \<Rightarrow> wire_video \<Rightarrow> compressed_video_frame" where
  "captured_frame sequence frame =
     \<lparr>cv_pts_100ns = wv_timestamp frame, cv_width = word_of_nat (nonneg (wv_width frame)),
      cv_height = word_of_nat (nonneg (wv_height frame)), cv_fps_num = word_of_nat (nonneg (wv_frame_rate_n frame)),
      cv_fps_den = word_of_nat (nonneg (wv_frame_rate_d frame)), cv_color_space = wv_color_space frame,
      cv_preview = wv_preview frame, cv_sequence = sequence, cv_payload = vec_data (wv_payload frame)\<rparr>"

definition capture_publish :: "wire_video \<Rightarrow> encoded_capture \<Rightarrow> encoded_capture" where
  "capture_publish frame e =
     (if \<not> ec_capture e then e
      else
        let sequence = ec_sequence e + 1 in
        e\<lparr>ec_sequence := sequence, ec_dropped := (if ec_slot e \<noteq> None then ec_dropped e + 1 else ec_dropped e),
          ec_slot := Some (captured_frame sequence frame)\<rparr>)"

definition capture_take :: "encoded_capture \<Rightarrow> compressed_video_frame option \<times> encoded_capture" where
  "capture_take e = (ec_slot e, e\<lparr>ec_slot := None\<rparr>)"

definition set_capture :: "bool \<Rightarrow> encoded_capture \<Rightarrow> encoded_capture" where
  "set_capture on e = (let e' = e\<lparr>ec_capture := on\<rparr> in if on then e' else snd (capture_take e'))"

section \<open>The gauge of the wire queue\<close>

text \<open>The reader thread adds to \<open>wire_depth\<close> after its \<open>try_send\<close>, the decoder thread subtracts, saturating, after
  its \<open>recv_timeout\<close>; the four actions interleave. \<open>wg_adding\<close> and \<open>wg_taking\<close> tell that a thread is between
  its two actions.\<close>

definition wire_depth_add :: "u32 \<Rightarrow> u32" where "wire_depth_add d = d + 1"
definition wire_depth_sub :: "u32 \<Rightarrow> u32" where "wire_depth_sub d = (if d = 0 then 0 else d - 1)"

record wire_gauge =
  wg_queue :: "wire_video sync_channel"
  wg_depth :: u32
  wg_adding :: bool
  wg_taking :: bool

definition wire_gauge_init :: wire_gauge where
  "wire_gauge_init = \<lparr>wg_queue = sync_channel_new VIDEO_WIRE_Q, wg_depth = 0, wg_adding = False, wg_taking = False\<rparr>"

inductive wire_gauge_step :: "wire_gauge \<Rightarrow> wire_gauge \<Rightarrow> bool" where
  reader_sends: "\<not> wg_adding g \<Longrightarrow> chan_try_send w (wg_queue g) = (Sent, c) \<Longrightarrow>
     wire_gauge_step g (g\<lparr>wg_queue := c, wg_adding := True\<rparr>)"
| reader_drops: "\<not> wg_adding g \<Longrightarrow> chan_try_send w (wg_queue g) = (r, c) \<Longrightarrow> r \<noteq> Sent \<Longrightarrow> wire_gauge_step g (g\<lparr>wg_queue := c\<rparr>)"
| reader_adds: "wg_adding g \<Longrightarrow> wire_gauge_step g (g\<lparr>wg_depth := wire_depth_add (wg_depth g), wg_adding := False\<rparr>)"
| decoder_takes: "\<not> wg_taking g \<Longrightarrow> chan_recv (wg_queue g) = (Received w, c) \<Longrightarrow>
     wire_gauge_step g (g\<lparr>wg_queue := c, wg_taking := True\<rparr>)"
| decoder_subs: "wg_taking g \<Longrightarrow> wire_gauge_step g (g\<lparr>wg_depth := wire_depth_sub (wg_depth g), wg_taking := False\<rparr>)"

section \<open>Lemmas on the queues\<close>

lemma evict_oldest_eq:
  assumes "0 < cap"
  shows "evict_oldest cap xs n st =
    (let k = Suc (length xs) - cap in (drop k xs, n + word_of_nat k, (record_drop_decode ^^ k) st))"
  using assms
proof (induction xs arbitrary: n st)
  case (Cons x xs)
  show ?case
  proof (cases "cap \<le> length (x # xs)")
    case True
    then have "Suc (length (x # xs)) - cap = Suc (Suc (length xs) - cap)" by simp
    moreover have "(record_drop_decode ^^ k) (record_drop_decode st) = (record_drop_decode ^^ Suc k) st" for k
      by (simp add: funpow_Suc_right del: funpow.simps)
    ultimately show ?thesis using True Cons by (simp add: Let_def del: funpow.simps)
  next
    case False
    then show ?thesis by simp
  qed
qed simp

definition decoded_queue_ok :: "'f decoded_queue \<Rightarrow> bool" where
  "decoded_queue_ok q \<longleftrightarrow> 0 < dq_cap q \<and> length (dq_slot q) \<le> dq_cap q \<and> dq_depth q = word_of_nat (length (dq_slot q))"

lemma decoded_queue_ok_new [simp]: "decoded_queue_ok (decoded_queue_new cap)"
  by (simp add: decoded_queue_ok_def decoded_queue_new_def)

lemma decoded_queue_new_sel [simp]:
  "dq_slot (decoded_queue_new cap) = []" "dq_cap (decoded_queue_new cap) = max cap 1" "dq_overwrites (decoded_queue_new cap) = 0"
  by (simp_all add: decoded_queue_new_def)

lemma queue_publish_eq:
  assumes "decoded_queue_ok q"
  shows "queue_publish x q st =
    (let k = Suc (length (dq_slot q)) - dq_cap q in
     (q\<lparr>dq_slot := drop k (dq_slot q) @ [x], dq_overwrites := dq_overwrites q + word_of_nat k,
        dq_depth := word_of_nat (length (drop k (dq_slot q) @ [x]))\<rparr>, (record_drop_decode ^^ k) st))"
  using assms by (simp add: queue_publish_def evict_oldest_eq decoded_queue_ok_def Let_def)

lemma queue_publish_ok: "decoded_queue_ok q \<Longrightarrow> queue_publish x q st = (q', st') \<Longrightarrow> decoded_queue_ok q'"
  by (frule queue_publish_eq [of q x st]) (auto simp: decoded_queue_ok_def Let_def)

lemma try_take_ok: "decoded_queue_ok q \<Longrightarrow> try_take q = (r, q') \<Longrightarrow> decoded_queue_ok q'"
  by (auto simp: decoded_queue_ok_def try_take_def split: list.splits)

text \<open>The queue with the statistics it counts in, as a bounded queue that drops the oldest.\<close>

definition decoded_offer :: "'f \<Rightarrow> 'f decoded_queue \<times> session_statistics \<Rightarrow> 'f list \<times> 'f decoded_queue \<times> session_statistics" where
  "decoded_offer x qs = (take (Suc (length (dq_slot (fst qs))) - dq_cap (fst qs)) (dq_slot (fst qs)),
     queue_publish x (fst qs) (snd qs))"

definition decoded_poll :: "'f decoded_queue \<times> session_statistics \<Rightarrow> 'f option \<times> 'f decoded_queue \<times> session_statistics" where
  "decoded_poll qs = (case try_take (fst qs) of (r, q) \<Rightarrow> (r, q, snd qs))"

interpretation dq: bounded_queue "\<lambda>qs. decoded_queue_ok (fst qs)" "\<lambda>qs. dq_cap (fst qs)" "\<lambda>qs. dq_slot (fst qs)"
  decoded_offer decoded_poll
proof
  fix qs qs' :: "'f decoded_queue \<times> session_statistics" and x ds
  assume inv: "decoded_queue_ok (fst qs)" and o: "decoded_offer x qs = (ds, qs')"
  let ?k = "Suc (length (dq_slot (fst qs))) - dq_cap (fst qs)"
  obtain q st where qs': "qs' = (q, st)" by fastforce
  have pub: "queue_publish x (fst qs) (snd qs) = (q, st)" "ds = take ?k (dq_slot (fst qs))"
    using o qs' by (simp_all add: decoded_offer_def)
  then have slot: "dq_slot q = drop ?k (dq_slot (fst qs)) @ [x]" "dq_cap q = dq_cap (fst qs)"
    using queue_publish_eq [OF inv, of x "snd qs"] by (auto simp: Let_def)
  have ok: "decoded_queue_ok q" using queue_publish_ok [OF inv pub(1)] .
  then show "decoded_queue_ok (fst qs') \<and> dq_cap (fst qs') = dq_cap (fst qs)" using slot qs' by simp
  show "length (dq_slot (fst qs')) \<le> dq_cap (fst qs)" using ok slot qs' by (simp add: decoded_queue_ok_def)
  show "subseq (dq_slot (fst qs')) (dq_slot (fst qs) @ [x])"
    using slot qs' suffix_drop [of ?k "dq_slot (fst qs)"] by (simp add: suffix_imp_subseq)
  show "length (dq_slot (fst qs')) + length ds = Suc (length (dq_slot (fst qs)))"
    using slot qs' pub(2) inv by (simp add: decoded_queue_ok_def)
next
  fix qs qs' :: "'f decoded_queue \<times> session_statistics" and x
  assume inv: "decoded_queue_ok (fst qs)"
  { assume "decoded_poll qs = (Some x, qs')"
    then show "dq_slot (fst qs) = x # dq_slot (fst qs') \<and> decoded_queue_ok (fst qs') \<and> dq_cap (fst qs') = dq_cap (fst qs)"
      using inv by (auto simp: decoded_poll_def try_take_def decoded_queue_ok_def split: list.splits prod.splits) }
  { assume "decoded_poll qs = (None, qs')"
    then show "dq_slot (fst qs) = [] \<and> dq_slot (fst qs') = [] \<and> decoded_queue_ok (fst qs') \<and> dq_cap (fst qs') = dq_cap (fst qs)"
      using inv by (auto simp: decoded_poll_def try_take_def decoded_queue_ok_def split: list.splits prod.splits) }
qed

text \<open>What only the drop-oldest policy gives: the queue is always the newest part of what was published, and
  the overwrite counter counts the dropped frames.\<close>

lemma decoded_run_newest:
  assumes "decoded_queue_ok (fst qs)" "suffix (dq_slot (fst qs)) before" "dq.run ops qs = (out, dropped, qs')"
  shows "suffix (dq_slot (fst qs')) (before @ dq.offered ops) \<and>
    dq_overwrites (fst qs') = dq_overwrites (fst qs) + word_of_nat (length dropped)"
  using assms
proof (induction ops qs arbitrary: before out dropped qs' rule: dq.run.induct)
  case (2 x ops qs)
  let ?k = "Suc (length (dq_slot (fst qs))) - dq_cap (fst qs)"
  obtain ds qs1 where o: "decoded_offer x qs = (ds, qs1)" by (cases "decoded_offer x qs")
  obtain out1 dropped1 qs2 where r: "dq.run ops qs1 = (out1, dropped1, qs2)" by (metis prod_cases3)
  have pub: "queue_publish x (fst qs) (snd qs) = qs1" "ds = take ?k (dq_slot (fst qs))"
    using o by (simp_all add: decoded_offer_def)
  have len: "length ds = ?k" using pub(2) 2(2) by (auto simp: decoded_queue_ok_def)
  have q1: "dq_slot (fst qs1) = drop ?k (dq_slot (fst qs)) @ [x]"
    "dq_overwrites (fst qs1) = dq_overwrites (fst qs) + word_of_nat (length ds)"
    using queue_publish_eq [OF 2(2), of x "snd qs"] pub(1) len by (auto simp: Let_def)
  have "suffix (drop ?k (dq_slot (fst qs))) before" using 2(3) suffix_drop suffix_order.trans by blast
  then have "suffix (dq_slot (fst qs1)) (before @ [x])" unfolding q1(1) by simp
  moreover have "decoded_queue_ok (fst qs1)" using queue_publish_ok [OF 2(2)] pub(1) by (metis prod.collapse)
  ultimately show ?case
    using 2(1) [OF o [symmetric], of "before @ [x]" out1 dropped1 qs2] 2(4) o r q1(2) by auto
next
  case (3 ops qs)
  obtain r qs1 where p: "decoded_poll qs = (r, qs1)" by (cases "decoded_poll qs")
  obtain out1 dropped1 qs2 where r1: "dq.run ops qs1 = (out1, dropped1, qs2)" by (metis prod_cases3)
  have q1: "dq_overwrites (fst qs1) = dq_overwrites (fst qs)" "dq_slot (fst qs1) = tl (dq_slot (fst qs))"
    "decoded_queue_ok (fst qs1)" "r = None \<longleftrightarrow> dq_slot (fst qs) = []"
    using p 3(3) by (auto simp: decoded_poll_def try_take_def decoded_queue_ok_def split: list.splits prod.splits)
  have s1: "suffix (dq_slot (fst qs1)) before"
    using 3(4) q1(2) suffix_tl [of "dq_slot (fst qs)"] suffix_order.trans by metis
  show ?case
  proof (cases r)
    case None
    with 3(1) [OF p [symmetric] None q1(3) s1 r1] 3(5) p r1 q1(1) show ?thesis by simp
  next
    case (Some y)
    with 3(2) [OF p [symmetric] Some q1(3) s1 r1] 3(5) p r1 q1(1) show ?thesis by auto
  qed
qed (simp add: suffix_appendI)

text \<open>C23: The queue of decoded video under every interleaving of the decoder publishing frames and the application
  taking them: frames come out in the order they were decoded with nothing duplicated, the queue never holds
  more than its capacity and always holds the newest frames, every frame is taken, still queued or dropped,
  the overwrite counter counts exactly the dropped ones and the depth counter is the length of the queue.\<close>

theorem decoded_queue_accounting:
  assumes "dq.run ops (decoded_queue_new cap, st) = (out, dropped, (q, st'))"
  shows "length (dq_slot q) \<le> max cap 1 \<and> dq_depth q = word_of_nat (length (dq_slot q)) \<and>
    subseq (out @ dq_slot q) (map the (filter (\<lambda>opn. opn \<noteq> None) ops)) \<and>
    suffix (dq_slot q) (map the (filter (\<lambda>opn. opn \<noteq> None) ops)) \<and>
    length out + length dropped + length (dq_slot q) = length (filter (\<lambda>opn. opn \<noteq> None) ops) \<and>
    dq_overwrites q = word_of_nat (length dropped)"
proof -
  have ok: "decoded_queue_ok (fst (decoded_queue_new cap, st))"
    "length (dq_slot (fst (decoded_queue_new cap, st))) \<le> dq_cap (fst (decoded_queue_new cap, st))"
    "suffix (dq_slot (fst (decoded_queue_new cap, st))) []" by simp_all
  from dq.run_facts [OF ok(1,2) assms] decoded_run_newest [OF ok(1,3) assms] show ?thesis
    by (simp add: decoded_queue_ok_def)
qed

theorem decoded_queue_accounting_witness:
  "let (out, dropped, (q, st')) = dq.run [Some (1 :: nat), Some 2, None, Some 3, Some 4] (decoded_queue_new 1, session_statistics_default) in
     dq_slot q = [4] \<and> out = [2] \<and> dropped = [1, 3] \<and> dq_overwrites q = 2 \<and> dq_depth q = 1"
proof -
  let ?ops = "[Some (1 :: nat), Some 2, None, Some 3, Some 4]"
  have run: "dq.run ?ops (decoded_queue_new 1, session_statistics_default) =
      ([2], [1, 3], \<lparr>dq_slot = [4], dq_depth = 1, dq_overwrites = 2, dq_cap = 1\<rparr>,
       record_drop_decode (record_drop_decode session_statistics_default))"
    by (simp add: decoded_offer_def decoded_poll_def queue_publish_def try_take_def decoded_queue_new_def)
  from decoded_queue_accounting [OF this] show ?thesis by (simp only: run Let_def prod.case) simp
qed

section \<open>The bounded channels\<close>

definition chan_offer :: "'a \<Rightarrow> 'a sync_channel \<Rightarrow> 'a list \<times> 'a sync_channel" where
  "chan_offer x c = (case chan_try_send x c of (Sent, c') \<Rightarrow> ([], c') | (_, c') \<Rightarrow> ([x], c'))"

definition chan_poll :: "'a sync_channel \<Rightarrow> 'a option \<times> 'a sync_channel" where
  "chan_poll c = (case chan_recv c of (Received x, c') \<Rightarrow> (Some x, c') | (_, c') \<Rightarrow> (None, c'))"

interpretation sc: bounded_queue "\<lambda>_. True" sy_cap sy_items chan_offer chan_poll
proof
  fix c c' :: "'a sync_channel" and x ds
  assume "chan_offer x c = (ds, c')"
  then show "True \<and> sy_cap c' = sy_cap c" "subseq (sy_items c') (sy_items c @ [x])"
    "length (sy_items c') + length ds = Suc (length (sy_items c))"
    "length (sy_items c) \<le> sy_cap c \<Longrightarrow> length (sy_items c') \<le> sy_cap c"
    by (auto simp: chan_offer_def chan_try_send_def split: if_splits)
qed (auto simp: chan_poll_def chan_recv_def split: list.splits if_splits)

section \<open>The gauge\<close>

text \<open>Up to the action a thread still has to make, the gauge is the length of the queue, or one more.\<close>

definition wire_gauge_ok :: "wire_gauge \<Rightarrow> bool" where
  "wire_gauge_ok g \<longleftrightarrow> sy_cap (wg_queue g) = VIDEO_WIRE_Q \<and> length (sy_items (wg_queue g)) \<le> VIDEO_WIRE_Q \<and>
     (\<exists>drift \<in> {0, 1}. unat (wg_depth g) + of_bool (wg_adding g) = length (sy_items (wg_queue g)) + of_bool (wg_taking g) + drift)"

lemma unat_add1: "unat (d :: u32) < 100 \<Longrightarrow> unat (d + 1) = unat d + 1"
  by (subst unat_word_ariths) simp

lemma unat_sub1: "d \<noteq> (0 :: u32) \<Longrightarrow> unat (d - 1) = unat d - 1"
  by (metis unat_minus_one)

interpretation gauge: state_machine "\<lambda>g. g = wire_gauge_init" wire_gauge_step wire_gauge_ok
proof
  fix g :: wire_gauge assume "g = wire_gauge_init"
  then show "wire_gauge_ok g" by (simp add: wire_gauge_ok_def wire_gauge_init_def sync_channel_new_def)
next
  fix g g'
  assume "wire_gauge_step g g'" "wire_gauge_ok g"
  then show "wire_gauge_ok g'"
  proof (cases rule: wire_gauge_step.cases)
    case (reader_sends w c)
    then show ?thesis using \<open>wire_gauge_ok g\<close> by (auto simp: wire_gauge_ok_def chan_try_send_def split: if_splits)
  next
    case (reader_drops w r c)
    then show ?thesis using \<open>wire_gauge_ok g\<close> by (auto simp: wire_gauge_ok_def chan_try_send_def split: if_splits)
  next
    case reader_adds
    with \<open>wire_gauge_ok g\<close> have "unat (wg_depth g) < 100"
      by (cases "wg_taking g") (auto simp: wire_gauge_ok_def VIDEO_WIRE_Q_def)
    with reader_adds \<open>wire_gauge_ok g\<close> show ?thesis by (auto simp: wire_gauge_ok_def wire_depth_add_def unat_add1)
  next
    case (decoder_takes w c)
    then show ?thesis using \<open>wire_gauge_ok g\<close> by (auto simp: wire_gauge_ok_def chan_recv_def split: list.splits if_splits)
  next
    case decoder_subs
    show ?thesis
    proof (cases "wg_depth g = 0")
      case True
      with decoder_subs \<open>wire_gauge_ok g\<close> show ?thesis by (cases "wg_adding g") (auto simp: wire_gauge_ok_def wire_depth_sub_def)
    next
      case False
      then have "unat (wg_depth g) \<noteq> 0" by (simp add: unat_eq_0)
      with False decoder_subs \<open>wire_gauge_ok g\<close> show ?thesis
        by (auto simp: wire_gauge_ok_def wire_depth_sub_def unat_sub1)
    qed
  qed
qed

text \<open>The wire-queue gauge against the real queue, whatever order the reader and the decoder act in: when
  neither thread is between its two actions, the gauge is the length of the queue or one more, so it never
  exceeds four. The extra one is a real outcome: if the decoder takes a frame before the reader has counted it,
  the saturating subtraction is lost and the gauge reads one on an empty queue.\<close>

theorem wire_gauge_accuracy:
  "(wire_gauge_step\<^sup>*\<^sup>* wire_gauge_init g \<longrightarrow> \<not> wg_adding g \<longrightarrow> \<not> wg_taking g \<longrightarrow>
      unat (wg_depth g) \<in> {length (sy_items (wg_queue g)), length (sy_items (wg_queue g)) + 1} \<and>
      length (sy_items (wg_queue g)) \<le> 3) \<and>
   (\<exists>g'. wire_gauge_step\<^sup>*\<^sup>* wire_gauge_init g' \<and> \<not> wg_adding g' \<and> \<not> wg_taking g' \<and>
      sy_items (wg_queue g') = [] \<and> wg_depth g' = 1)"
proof (intro conjI impI)
  assume "wire_gauge_step\<^sup>*\<^sup>* wire_gauge_init g" "\<not> wg_adding g" "\<not> wg_taking g"
  with gauge.reachable_inv [OF refl, of g] show
    "unat (wg_depth g) \<in> {length (sy_items (wg_queue g)), length (sy_items (wg_queue g)) + 1}"
    "length (sy_items (wg_queue g)) \<le> 3" by (auto simp: wire_gauge_ok_def VIDEO_WIRE_Q_def)
next
  fix w :: wire_video
  let ?g0 = wire_gauge_init
  let ?g1 = "?g0\<lparr>wg_queue := (sync_channel_new VIDEO_WIRE_Q)\<lparr>sy_items := [w]\<rparr>, wg_adding := True\<rparr>"
  let ?g2 = "?g1\<lparr>wg_queue := sync_channel_new VIDEO_WIRE_Q, wg_taking := True\<rparr>"
  let ?g3 = "?g2\<lparr>wg_depth := wire_depth_sub (wg_depth ?g2), wg_taking := False\<rparr>"
  let ?g4 = "?g3\<lparr>wg_depth := wire_depth_add (wg_depth ?g3), wg_adding := False\<rparr>"
  have "wire_gauge_step ?g0 ?g1"
    by (rule reader_sends) (simp_all add: wire_gauge_init_def chan_try_send_def sync_channel_new_def VIDEO_WIRE_Q_def)
  moreover have "wire_gauge_step ?g1 ?g2"
    by (rule decoder_takes) (simp_all add: wire_gauge_init_def chan_recv_def sync_channel_new_def)
  moreover have "wire_gauge_step ?g2 ?g3" by (rule decoder_subs) simp
  moreover have "wire_gauge_step ?g3 ?g4" by (rule reader_adds) simp
  ultimately have "wire_gauge_step\<^sup>*\<^sup>* ?g0 ?g4" by (meson rtranclp.rtrancl_into_rtrancl rtranclp.rtrancl_refl)
  moreover have "\<not> wg_adding ?g4 \<and> \<not> wg_taking ?g4 \<and> sy_items (wg_queue ?g4) = [] \<and> wg_depth ?g4 = 1"
    by (simp add: wire_gauge_init_def sync_channel_new_def wire_depth_add_def wire_depth_sub_def)
  ultimately show "\<exists>g'. wire_gauge_step\<^sup>*\<^sup>* wire_gauge_init g' \<and> \<not> wg_adding g' \<and> \<not> wg_taking g' \<and>
      sy_items (wg_queue g') = [] \<and> wg_depth g' = 1" by blast
qed

theorem wire_gauge_accuracy_witness: "unat (wg_depth wire_gauge_init) \<in> {0, 1} \<and> sy_items (wg_queue wire_gauge_init) = []"
proof -
  have "sy_items (wg_queue wire_gauge_init) = []" "\<not> wg_adding wire_gauge_init" "\<not> wg_taking wire_gauge_init"
    by (simp_all add: wire_gauge_init_def sync_channel_new_def)
  with wire_gauge_accuracy [of wire_gauge_init] show ?thesis by simp
qed

section \<open>The capture\<close>

text \<open>A run of the capture over operations, \<open>Some w\<close> publishing \<open>w\<close> and \<open>None\<close> taking: the frames taken.\<close>

fun capture_run :: "wire_video option list \<Rightarrow> encoded_capture \<Rightarrow> compressed_video_frame list \<times> encoded_capture" where
  "capture_run [] e = ([], e)"
| "capture_run (Some w # ops) e = capture_run ops (capture_publish w e)"
| "capture_run (None # ops) e =
     (case capture_take e of (r, e') \<Rightarrow> case capture_run ops e' of (out, e'') \<Rightarrow> (case r of Some c \<Rightarrow> c # out | None \<Rightarrow> out, e''))"

abbreviation published :: "'a option list \<Rightarrow> 'a list" where
  "published ops \<equiv> map the (filter (\<lambda>opn. opn \<noteq> None) ops)"

text \<open>The state of the capture after the frames \<open>ws\<close> were published: the sequence number counts them, and the slot
  is empty or holds the last of them.\<close>

definition capture_at :: "wire_video list \<Rightarrow> encoded_capture \<Rightarrow> bool" where
  "capture_at ws e \<longleftrightarrow> ec_capture e \<and> ec_sequence e = word_of_nat (length ws) \<and>
     (ec_slot e \<noteq> None \<longrightarrow> ws \<noteq> [] \<and> ec_slot e = Some (captured_frame (word_of_nat (length ws)) (last ws)))"

definition captured_from :: "wire_video list \<Rightarrow> compressed_video_frame \<Rightarrow> bool" where
  "captured_from ws c \<longleftrightarrow> (\<exists>k < length ws. c = captured_frame (word_of_nat (Suc k)) (ws ! k))"

lemma capture_run_facts:
  assumes "capture_at ws e" "capture_run ops e = (out, e')"
  shows "capture_at (ws @ published ops) e' \<and> (\<forall>c \<in> set out. captured_from (ws @ published ops) c) \<and>
    ec_dropped e' + word_of_nat (length out) + of_bool (ec_slot e' \<noteq> None) =
      ec_dropped e + word_of_nat (length (published ops)) + of_bool (ec_slot e \<noteq> None) \<and>
    length out + of_bool (ec_slot e' \<noteq> None) \<le> length (published ops) + of_bool (ec_slot e \<noteq> None)"
  using assms
proof (induction ops e arbitrary: ws out e' rule: capture_run.induct)
  case (2 w ops e)
  have c: "capture_at (ws @ [w]) (capture_publish w e)" "ec_slot (capture_publish w e) \<noteq> None"
    "ec_dropped (capture_publish w e) = ec_dropped e + of_bool (ec_slot e \<noteq> None)"
    using 2(2) by (simp_all add: capture_publish_def capture_at_def Let_def add.commute)
  from 2(3) have "capture_run ops (capture_publish w e) = (out, e')" by simp
  from 2(1) [OF c(1) this] c(2,3) show ?case by (simp add: algebra_simps)
next
  case (3 ops e)
  obtain out1 e1 where r: "capture_run ops (e\<lparr>ec_slot := None\<rparr>) = (out1, e1)" by fastforce
  have at: "capture_at ws (e\<lparr>ec_slot := None\<rparr>)" using 3(2) by (simp add: capture_at_def)
  have slot: "captured_from (ws @ xs) c" if "ec_slot e = Some c" for c xs
    unfolding captured_from_def
    by (rule exI [of _ "length ws - 1"]) (use 3(2) that in \<open>auto simp: capture_at_def last_conv_nth nth_append Suc_le_eq intro: trans_less_add1\<close>)
  from 3(1) [OF _ at r, of "ec_slot e"] 3(3) r slot show ?case
    by (cases "ec_slot e") (auto simp: capture_take_def algebra_simps)
qed simp

text \<open>The bitstream capture, once switched on, under every interleaving of frames arriving and the consumer taking
  them: what the consumer gets are frames that arrived, each with the number of its arrival as its sequence
  number, and the frames taken, the one waiting and the dropped counter add up to the frames that arrived, so
  that every gap is counted.\<close>

theorem capture_accounting:
  assumes "capture_run ops (set_capture True encoded_capture_default) = (out, e)" "length (published ops) < 2 ^ 64"
  shows "unat (ec_dropped e) + length out + of_bool (ec_slot e \<noteq> None) = length (published ops) \<and>
    (\<forall>c \<in> set out. captured_from (published ops) c)"
proof -
  have "capture_at [] (set_capture True encoded_capture_default)"
    by (simp add: capture_at_def set_capture_def encoded_capture_default_def)
  from capture_run_facts [OF this assms(1)]
  have f: "\<forall>c \<in> set out. captured_from (published ops) c"
    and d: "ec_dropped e + word_of_nat (length out + of_bool (ec_slot e \<noteq> None)) = word_of_nat (length (published ops))"
    and le: "length out + of_bool (ec_slot e \<noteq> None) \<le> length (published ops)"
    by (simp_all add: set_capture_def encoded_capture_default_def add.assoc)
  from d have "ec_dropped e = word_of_nat (length (published ops) - (length out + of_bool (ec_slot e \<noteq> None)))"
    using le by (simp only: of_nat_diff) (simp add: algebra_simps)
  then have "unat (ec_dropped e) = length (published ops) - (length out + of_bool (ec_slot e \<noteq> None))"
    using assms(2) by (simp only: unat_of_nat) simp
  with f le show ?thesis by simp
qed

definition sample_wire_video :: wire_video where
  "sample_wire_video = \<lparr>wv_timestamp = 7, wv_width = 64, wv_height = 64, wv_frame_rate_n = 60, wv_frame_rate_d = 1,
     wv_color_space = Bt709, wv_preview = False, wv_payload = \<lparr>vec_cap = 3, vec_data = [1, 2, 3]\<rparr>, wv_metadata = None, wv_enqueued_at = 0\<rparr>"

theorem capture_accounting_witness:
  "let (out, e) = capture_run [Some sample_wire_video, Some sample_wire_video, None] (set_capture True encoded_capture_default) in
     map cv_sequence out = [2] \<and> unat (ec_dropped e) = 1 \<and> (\<forall>c \<in> set out. captured_from [sample_wire_video, sample_wire_video] c)"
proof -
  let ?ops = "[Some sample_wire_video, Some sample_wire_video, None]"
  obtain out e where r: "capture_run ?ops (set_capture True encoded_capture_default) = (out, e)" by fastforce
  then have "map cv_sequence out = [2] \<and> ec_dropped e = 1 \<and> ec_slot e = None \<and> length out = 1"
    by (auto simp: capture_publish_def capture_take_def set_capture_def encoded_capture_default_def captured_frame_def Let_def)
  with capture_accounting [OF r] r show ?thesis by simp
qed

end
