(* ===== verification/Receiver_Threads.thy ===== *)
theory Receiver_Threads
  imports Receiver_Queues Fpa1 Video_Encoder
begin

text \<open>
  The threads of a receiver (the second part of \<open>src/receive.rs\<close>): the state they share, the subscription and
  metadata documents written to the sender, the reader loops of the video and the audio socket, the dispatch of
  a frame to the queues, and the decoder loop with its codec. A loop is a function over the list of its turns,
  each with what its system calls return and what the other threads did before it; the reads of a socket are a
  reader as in the channel theory. The decoder is a parameter \<open>'c vmx_decoder\<close>; a call of it can panic, which
  the source catches.
\<close>

section \<open>Shared state\<close>

datatype session_state = Connecting | Connected | Reconnecting | Stopping | Stopped

record receiver_config =
  rc_frame_types :: frame_type
  rc_quality :: quality
  rc_preview :: bool
  rc_connect_timeout :: nat
  rc_auto_reconnect :: bool

text \<open>Durations are in milliseconds.\<close>

definition receiver_config_default :: receiver_config where
  "receiver_config_default = \<lparr>rc_frame_types = ft_bitor (ft_bitor FT_VIDEO FT_AUDIO) FT_METADATA, rc_quality = QDefault,
     rc_preview = False, rc_connect_timeout = 5000, rc_auto_reconnect = True\<rparr>"

text \<open>Of the cloned sockets kept for the shutdown only their presence matters.\<close>

record rx_shared =
  rs_stop :: bool
  rs_stats :: session_statistics
  rs_state :: session_state
  rs_last_error :: "string option"
  rs_video :: "decoded_video_frame decoded_queue"
  rs_encoded :: encoded_capture
  rs_wire_depth :: u32
  rs_outbound_meta :: "string list"
  rs_preview :: bool
  rs_quality :: i32
  rs_video_io :: bool
  rs_audio_io :: bool

text \<open>The shared state with the three channels between the threads.\<close>

record receiver = rx_shared +
  rx_wire :: "wire_video sync_channel"
  rx_audio :: "decoded_audio_frame sync_channel"
  rx_meta :: "metadata_frame sync_channel"

definition receiver_new :: "receiver_config \<Rightarrow> receiver" where
  "receiver_new config =
     \<lparr>rs_stop = False, rs_stats = session_statistics_default, rs_state = Connected, rs_last_error = None,
      rs_video = decoded_queue_new VIDEO_DECODED_Q, rs_encoded = encoded_capture_default, rs_wire_depth = 0,
      rs_outbound_meta = [], rs_preview = rc_preview config, rs_quality = quality_i32 (rc_quality config),
      rs_video_io = False, rs_audio_io = False, rx_wire = sync_channel_new VIDEO_WIRE_Q,
      rx_audio = sync_channel_new AUDIO_Q, rx_meta = sync_channel_new METADATA_Q\<rparr>"

definition quality_from_i32 :: "i32 \<Rightarrow> quality" where
  "quality_from_i32 v = (if v = 1 then Low else if v = 50 then Medium else if v = 100 then High else QDefault)"

definition set_state :: "session_state \<Rightarrow> receiver \<Rightarrow> receiver" where
  "set_state st r = r\<lparr>rs_state := st\<rparr>"

definition set_error :: "string \<Rightarrow> receiver \<Rightarrow> receiver" where
  "set_error msg r = r\<lparr>rs_last_error := Some msg\<rparr>"

definition with_stats :: "(session_statistics \<Rightarrow> session_statistics) \<Rightarrow> receiver \<Rightarrow> receiver" where
  "with_stats f r = r\<lparr>rs_stats := f (rs_stats r)\<rparr>"

definition bump_reconnect :: "receiver \<Rightarrow> receiver" where
  "bump_reconnect r = with_stats (\<lambda>g. g\<lparr>ss_reconnects := sat_add_u (ss_reconnects g) 1\<rparr>) r"

definition install_io :: "bool \<Rightarrow> bool \<Rightarrow> receiver \<Rightarrow> receiver" where
  "install_io cloned video r =
     (if cloned then (if video then r\<lparr>rs_video_io := True\<rparr> else r\<lparr>rs_audio_io := True\<rparr>) else r)"

definition clear_io :: "bool \<Rightarrow> receiver \<Rightarrow> receiver" where
  "clear_io video r = (if video then r\<lparr>rs_video_io := False\<rparr> else r\<lparr>rs_audio_io := False\<rparr>)"

definition shutdown_io :: "receiver \<Rightarrow> receiver" where
  "shutdown_io r = r\<lparr>rs_video_io := False, rs_audio_io := False\<rparr>"

section \<open>Documents to the sender\<close>

definition write_metadata_frame :: "string \<Rightarrow> write_result list \<Rightarrow> unit result \<times> bytes \<times> write_result list" where
  "write_metadata_frame xml ws = write_all (assembled_to_bytes (control_frame 0 xml)) ws"

text \<open>Successive documents; the first error ends the sequence.\<close>

fun write_documents :: "string list \<Rightarrow> write_result list \<Rightarrow> unit result \<times> bytes \<times> write_result list" where
  "write_documents [] ws = (Inr (), [], ws)"
| "write_documents (xml # xmls) ws =
     (case write_metadata_frame xml ws of
        (Inl e, out, ws') \<Rightarrow> (Inl e, out, ws')
      | (Inr _, out, ws') \<Rightarrow> (case write_documents xmls ws' of (r, out', ws'') \<Rightarrow> (r, out @ out', ws'')))"

definition av_documents :: "frame_type \<Rightarrow> quality \<Rightarrow> bool \<Rightarrow> bool \<Rightarrow> string list" where
  "av_documents frame_types quality preview include_audio_on_av =
     (if ft_contains frame_types FT_VIDEO \<or> ft_contains frame_types FT_METADATA then [SUBSCRIBE_METADATA] else []) @
     (if ft_contains frame_types FT_VIDEO then
        [if preview then PREVIEW_ON else PREVIEW_OFF, SUBSCRIBE_VIDEO, suggested_quality_xml quality] else []) @
     (if include_audio_on_av \<and> ft_contains frame_types FT_AUDIO then [SUBSCRIBE_AUDIO] else [])"

definition meta_documents :: "frame_type \<Rightarrow> string list" where
  "meta_documents frame_types = (if ft_contains frame_types FT_AUDIO then [SUBSCRIBE_AUDIO] else [])"

text \<open>Each stream is the list of its write outcomes; the result with the bytes written to the two streams.
  \<open>flush\<close> on a TCP stream does nothing.\<close>

definition send_subscriptions :: "write_result list option \<Rightarrow> write_result list option \<Rightarrow> frame_type \<Rightarrow> quality \<Rightarrow> bool \<Rightarrow> bool \<Rightarrow>
    unit result \<times> bytes \<times> bytes" where
  "send_subscriptions av meta frame_types quality preview include_audio_on_av =
     (case (case av of
              Some ws \<Rightarrow> (case write_documents (av_documents frame_types quality preview include_audio_on_av) ws of
                            (r, out, _) \<Rightarrow> (r, out))
            | None \<Rightarrow> (Inr (), [])) of
        (Inl e, out) \<Rightarrow> (Inl e, out, [])
      | (Inr _, out) \<Rightarrow>
          (case meta of
             Some ws \<Rightarrow> (case write_documents (meta_documents frame_types) ws of (r, out', _) \<Rightarrow> (r, out, out'))
           | None \<Rightarrow> (Inr (), out, [])))"

definition flush_outbound_metadata :: "(vmx_error \<Rightarrow> string) \<Rightarrow> write_result list \<Rightarrow> receiver \<Rightarrow> bytes \<times> receiver" where
  "flush_outbound_metadata vd ws r =
     (let pending = rs_outbound_meta r; r' = r\<lparr>rs_outbound_meta := []\<rparr> in
      case write_documents pending ws of
        (Inr _, out, _) \<Rightarrow> (out, r')
      | (Inl e, out, _) \<Rightarrow> (out, set_error (''send metadata: '' @ error_display vd e) r'))"

section \<open>Dispatching frames\<close>

definition vec_store :: "(nat \<Rightarrow> nat) \<Rightarrow> bytes \<Rightarrow> vec \<Rightarrow> vec" where
  "vec_store grow bs v = \<lparr>vec_cap = (if length bs \<le> vec_cap v then vec_cap v else grow (length bs)), vec_data = bs\<rparr>"

text \<open>\<open>None\<close> is a panic; otherwise the decoded frame, if any, and the scratch buffer.\<close>

definition decode_audio_frame :: "(nat \<Rightarrow> nat) \<Rightarrow> assembled_frame \<Rightarrow> vec \<Rightarrow> (decoded_audio_frame option \<times> vec) option" where
  "decode_audio_frame grow frame scratch =
     (case af_audio frame of
        None \<Rightarrow> Some (None, scratch)
      | Some a \<Rightarrow>
          if ah_codec a \<noteq> Fpa1 then Some (None, scratch)
          else if length (af_data frame) > AUDIO_MAX_SIZE then Some (None, scratch)
          else
            (case decode_planar_into (af_data frame) (nonneg (ah_channels a)) (nonneg (ah_samples_per_channel a))
                    (ah_active_channels a) (vec_data scratch) of
               None \<Rightarrow> None
             | Some (Inl _, out) \<Rightarrow> Some (None, vec_store grow out scratch)
             | Some (Inr _, out) \<Rightarrow>
                 Some (Some \<lparr>da_timestamp = fh_timestamp (af_header frame), da_sample_rate = ah_sample_rate a,
                         da_channels = ah_channels a, da_samples_per_channel = ah_samples_per_channel a,
                         da_active_channels = ah_active_channels a, da_pcm_planar_f32 = out, da_frame_metadata = None\<rparr>,
                       vec_store grow out scratch)))"

definition frame_metadata_text :: "assembled_frame \<Rightarrow> string option" where
  "frame_metadata_text frame =
     (if af_metadata frame = [] then None
      else case decode_metadata_xml (af_metadata frame) of Inr xml \<Rightarrow> Some xml | Inl _ \<Rightarrow> None)"

definition wire_of :: "nat \<Rightarrow> assembled_frame \<Rightarrow> video_header \<Rightarrow> vec \<Rightarrow> wire_video" where
  "wire_of now frame v payload =
     \<lparr>wv_timestamp = fh_timestamp (af_header frame), wv_width = vh_width v, wv_height = vh_height v,
      wv_frame_rate_n = vh_frame_rate_n v, wv_frame_rate_d = (if sint (vh_frame_rate_d v) < 1 then 1 else vh_frame_rate_d v),
      wv_color_space = vh_color_space v, wv_preview = vf_contains (vh_flags v) VF_PREVIEW, wv_payload = payload,
      wv_metadata = frame_metadata_text frame, wv_enqueued_at = now\<rparr>"

definition dispatch_video :: "(nat \<Rightarrow> nat) \<Rightarrow> nat \<Rightarrow> assembled_frame \<Rightarrow> buffer_pool \<Rightarrow> receiver \<Rightarrow> buffer_pool \<times> receiver" where
  "dispatch_video grow now frame pool r =
     (case af_video frame of
        None \<Rightarrow> (pool, with_stats record_drop_wire r)
      | Some v \<Rightarrow>
          if vh_codec v \<noteq> Vmx1 then (pool, with_stats record_drop_wire r)
          else if vf_contains (vh_flags v) VF_ALPHA \<or> vf_contains (vh_flags v) VF_HIGH_BIT_DEPTH then
            (pool, with_stats record_drop_wire r)
          else if length (af_data frame) > VIDEO_MAX_SIZE then (pool, with_stats record_drop_wire r)
          else
            case pool_take grow (max (length (af_data frame)) 1) pool of
              (buf, pool') \<Rightarrow>
                let wire = wire_of now frame v (vec_store grow (af_data frame) (vec_clear buf)) in
                (case chan_try_send wire (rx_wire r) of
                   (Sent, q) \<Rightarrow> (pool', r\<lparr>rx_wire := q, rs_wire_depth := wire_depth_add (rs_wire_depth r)\<rparr>)
                 | (Full, q) \<Rightarrow> (pool_give (wv_payload wire) pool', with_stats record_drop_wire (r\<lparr>rx_wire := q\<rparr>))
                 | (Disconnected, q) \<Rightarrow> (pool_give (wv_payload wire) pool', r\<lparr>rx_wire := q\<rparr>)))"

definition dispatch_audio :: "(nat \<Rightarrow> nat) \<Rightarrow> assembled_frame \<Rightarrow> buffer_pool \<Rightarrow> receiver \<Rightarrow> (buffer_pool \<times> receiver) option" where
  "dispatch_audio grow frame pool r =
     (case take_audio grow pool of
        (scratch, pool') \<Rightarrow>
          (case decode_audio_frame grow frame scratch of
             None \<Rightarrow> None
           | Some (None, scratch') \<Rightarrow> Some (pool_give scratch' pool', with_stats record_drop_audio r)
           | Some (Some decoded, scratch') \<Rightarrow>
               Some (pool_give scratch' pool',
                 case chan_try_send decoded (rx_audio r) of
                   (Full, q) \<Rightarrow> with_stats record_drop_audio (r\<lparr>rx_audio := q\<rparr>)
                 | (_, q) \<Rightarrow> r\<lparr>rx_audio := q\<rparr>)))"

definition dispatch_metadata :: "assembled_frame \<Rightarrow> receiver \<Rightarrow> receiver" where
  "dispatch_metadata frame r =
     (let xml = (case frame_metadata_text frame of
                   Some m \<Rightarrow> m
                 | None \<Rightarrow> if af_data frame = [] then [] else of_bytes (utf8_lossy (af_data frame))) in
      case chan_try_send \<lparr>md_timestamp = fh_timestamp (af_header frame), md_xml = xml\<rparr> (rx_meta r) of
        (_, q) \<Rightarrow> r\<lparr>rx_meta := q\<rparr>)"

definition dispatch_av_frame :: "(nat \<Rightarrow> nat) \<Rightarrow> nat \<Rightarrow> bool \<Rightarrow> assembled_frame \<Rightarrow> buffer_pool \<Rightarrow> receiver \<Rightarrow>
    (buffer_pool \<times> receiver) option" where
  "dispatch_av_frame grow now decode_audio_here frame pool r =
     (let ft = fh_frame_type (af_header frame) in
      if ft_contains ft FT_VIDEO then Some (dispatch_video grow now frame pool r)
      else if ft_contains ft FT_AUDIO \<and> decode_audio_here then dispatch_audio grow frame pool r
      else if ft_contains ft FT_METADATA then Some (pool, dispatch_metadata frame r)
      else Some (pool, r))"

section \<open>The reader loops\<close>

text \<open>The local state of a reader: its reassembly channel, its pool, the reads still to come, and the bytes it has
  written. \<open>lp_scratch\<close> is the sample buffer of the audio reader. The pools and the read buffer are dropped when
  the loop ends.\<close>

record reader_loop =
  lp_channel :: channel
  lp_pool :: buffer_pool
  lp_reader :: reader
  lp_out :: bytes
  lp_scratch :: vec

text \<open>One turn: what the other threads did before it, the instant, and the outcomes of the writes.\<close>

record reader_turn =
  tn_others :: "receiver \<Rightarrow> receiver"
  tn_now :: nat
  tn_writes :: "write_result list"

definition video_loop_new :: "(nat \<Rightarrow> nat) \<Rightarrow> reader \<Rightarrow> reader_loop" where
  "video_loop_new grow rd = \<lparr>lp_channel = channel_new (ft_bitor (ft_bitor FT_VIDEO FT_AUDIO) FT_METADATA),
     lp_pool = snd (pool_take grow NETWORK_RECEIVE_MAX_TRANSFER pool_video), lp_reader = rd, lp_out = [],
     lp_scratch = \<lparr>vec_cap = 0, vec_data = []\<rparr>\<rparr>"

definition audio_loop_new :: "(nat \<Rightarrow> nat) \<Rightarrow> reader \<Rightarrow> reader_loop" where
  "audio_loop_new grow rd =
     (case take_audio grow (snd (pool_take grow NETWORK_RECEIVE_MAX_TRANSFER pool_audio)) of
        (scratch, pool) \<Rightarrow>
          \<lparr>lp_channel = channel_new FT_AUDIO, lp_pool = pool, lp_reader = rd, lp_out = [], lp_scratch = scratch\<rparr>)"

definition frame_wire_size :: "assembled_frame \<Rightarrow> nat" where
  "frame_wire_size frame = nonneg (fh_data_length (af_header frame)) + 16"

text \<open>The body of the \<open>while\<close> loops: whether the loop goes on, or \<open>None\<close> for a panic.\<close>

definition video_reader_body :: "(nat \<Rightarrow> nat) \<Rightarrow> (vmx_error \<Rightarrow> string) \<Rightarrow> bool \<Rightarrow> nat \<Rightarrow> write_result list \<Rightarrow> reader_loop \<Rightarrow> receiver \<Rightarrow>
    (bool \<times> reader_loop \<times> receiver) option" where
  "video_reader_body grow vd decode_audio_here now ws l r =
     (case flush_outbound_metadata vd ws r of
        (out, r1) \<Rightarrow>
          (case recv_frame_into NETWORK_RECEIVE_MAX_TRANSFER (lp_channel l) (lp_reader l) of
             (res, ch, rd) \<Rightarrow>
               let l1 = l\<lparr>lp_channel := ch, lp_reader := rd, lp_out := lp_out l @ out\<rparr> in
               (case res of
                  Inr (Some frame) \<Rightarrow>
                    (case dispatch_av_frame grow now decode_audio_here frame (lp_pool l1)
                            (with_stats (record_bytes (frame_wire_size frame)) r1) of
                       None \<Rightarrow> None
                     | Some (pool, r2) \<Rightarrow> Some (True, l1\<lparr>lp_pool := pool\<rparr>, r2))
                | Inr None \<Rightarrow> Some (False, l1, r1)
                | Inl (Io k m) \<Rightarrow>
                    if k = TimedOut \<or> k = WouldBlock then Some (True, l1, r1)
                    else Some (False, l1, set_error (''video I/O: '' @ error_display vd (Io k m)) r1)
                | Inl (Protocol msg) \<Rightarrow>
                    Some (True, l1\<lparr>lp_channel := channel_clear ch\<rparr>, with_stats record_drop_wire (set_error (''protocol: '' @ msg) r1))
                | Inl e \<Rightarrow> Some (False, l1, set_error (''video I/O: '' @ error_display vd e) r1))))"

definition audio_reader_body :: "(nat \<Rightarrow> nat) \<Rightarrow> (vmx_error \<Rightarrow> string) \<Rightarrow> reader_loop \<Rightarrow> receiver \<Rightarrow> (bool \<times> reader_loop \<times> receiver) option" where
  "audio_reader_body grow vd l r =
     (case recv_frame_into NETWORK_RECEIVE_MAX_TRANSFER (lp_channel l) (lp_reader l) of
        (res, ch, rd) \<Rightarrow>
          let l1 = l\<lparr>lp_channel := ch, lp_reader := rd\<rparr> in
          (case res of
             Inr (Some frame) \<Rightarrow>
               let r1 = with_stats (record_bytes (frame_wire_size frame)) r in
               (case decode_audio_frame grow frame (lp_scratch l1) of
                  None \<Rightarrow> None
                | Some (None, scratch) \<Rightarrow> Some (True, l1\<lparr>lp_scratch := scratch\<rparr>, with_stats record_drop_audio r1)
                | Some (Some decoded, scratch) \<Rightarrow>
                    (case chan_try_send decoded (rx_audio r1) of
                       (Sent, q) \<Rightarrow> Some (True, l1\<lparr>lp_scratch := scratch\<rparr>, r1\<lparr>rx_audio := q\<rparr>)
                     | (Full, q) \<Rightarrow> Some (True, l1\<lparr>lp_scratch := scratch\<rparr>, with_stats record_drop_audio (r1\<lparr>rx_audio := q\<rparr>))
                     | (Disconnected, q) \<Rightarrow> Some (False, l1\<lparr>lp_scratch := scratch\<rparr>, r1\<lparr>rx_audio := q\<rparr>)))
           | Inr None \<Rightarrow> Some (False, l1, r)
           | Inl (Io k m) \<Rightarrow>
               if k = TimedOut \<or> k = WouldBlock then Some (True, l1, r)
               else Some (False, l1, set_error (''audio I/O: '' @ error_display vd (Io k m)) r)
           | Inl e \<Rightarrow> Some (False, l1, set_error (''audio I/O: '' @ error_display vd e) r)))"

text \<open>The loops over their turns. The result is \<open>None\<close> after a panic; otherwise a flag that is true while the
  loop is still running, the local state and the receiver.\<close>

fun run_reader :: "(reader_turn \<Rightarrow> reader_loop \<Rightarrow> receiver \<Rightarrow> (bool \<times> reader_loop \<times> receiver) option) \<Rightarrow>
    reader_turn list \<Rightarrow> reader_loop \<Rightarrow> receiver \<Rightarrow> (bool \<times> reader_loop \<times> receiver) option" where
  "run_reader body [] l r = Some (True, l, r)"
| "run_reader body (t # ts) l r =
     (let r0 = tn_others t r in
      if rs_stop r0 then Some (False, l, r0)
      else
        case body t l r0 of
          None \<Rightarrow> None
        | Some (False, l', r') \<Rightarrow> Some (False, l', r')
        | Some (True, l', r') \<Rightarrow> run_reader body ts l' r')"

definition video_reader_loop :: "(nat \<Rightarrow> nat) \<Rightarrow> (vmx_error \<Rightarrow> string) \<Rightarrow> bool \<Rightarrow> reader_turn list \<Rightarrow> reader_loop \<Rightarrow> receiver \<Rightarrow>
    (bool \<times> reader_loop \<times> receiver) option" where
  "video_reader_loop grow vd decode_audio_here =
     run_reader (\<lambda>t l r. video_reader_body grow vd decode_audio_here (tn_now t) (tn_writes t) l r)"

definition audio_reader_loop :: "(nat \<Rightarrow> nat) \<Rightarrow> (vmx_error \<Rightarrow> string) \<Rightarrow> reader_turn list \<Rightarrow> reader_loop \<Rightarrow> receiver \<Rightarrow>
    (bool \<times> reader_loop \<times> receiver) option" where
  "audio_reader_loop grow vd = run_reader (\<lambda>t l r. audio_reader_body grow vd l r)"

section \<open>The decoder\<close>

text \<open>The decoding half of the codec crate. \<open>None\<close> as the first component is a panic; a decoding call writes
  into the buffer it is given.\<close>

record 'c vmx_decoder =
  vd_min_width :: i32
  vd_min_height :: i32
  vd_new :: "i32 \<Rightarrow> i32 \<Rightarrow> vmx_profile_kind \<Rightarrow> vmx_color_space \<Rightarrow> (vmx_error + 'c) option"
  vd_size :: "'c \<Rightarrow> i32 \<times> i32"
  vd_set_color_space :: "vmx_color_space \<Rightarrow> 'c \<Rightarrow> 'c"
  vd_load :: "bytes \<Rightarrow> 'c \<Rightarrow> (vmx_error + unit) option \<times> 'c"
  vd_preview_size :: "'c \<Rightarrow> i32 \<times> i32"
  vd_decode_bgra :: "nat \<Rightarrow> bytes \<Rightarrow> 'c \<Rightarrow> (vmx_error + unit) option \<times> bytes \<times> 'c"
  vd_decode_preview_bgra :: "nat \<Rightarrow> bytes \<Rightarrow> 'c \<Rightarrow> (vmx_error + unit) option \<times> bytes \<times> 'c"

definition map_vmx_color_space :: "color_space \<Rightarrow> vmx_color_space" where
  "map_vmx_color_space cs = (case cs of Bt601 \<Rightarrow> VmxBt601 | Bt709 \<Rightarrow> VmxBt709 | Undefined \<Rightarrow> VmxUndefined)"

definition vec_resize :: "nat \<Rightarrow> bytes \<Rightarrow> bytes" where
  "vec_resize n bs = take n bs @ replicate (n - length bs) 0"

text \<open>The closure given to \<open>catch_unwind\<close>: \<open>None\<close> for a panic, with the cached codec and the buffer after it.\<close>

definition cached_codec :: "'c vmx_decoder \<Rightarrow> i32 \<Rightarrow> i32 \<Rightarrow> vmx_color_space \<Rightarrow> 'c option \<Rightarrow> (vmx_error + 'c) option" where
  "cached_codec D width height cs cached =
     (case cached of
        Some c \<Rightarrow> if vd_size D c = (width, height) then Some (Inr (vd_set_color_space D cs c)) else vd_new D width height ProfileOmtSq cs
      | None \<Rightarrow> vd_new D width height ProfileOmtSq cs)"

definition output_size :: "'c vmx_decoder \<Rightarrow> wire_video \<Rightarrow> 'c \<Rightarrow> u32 \<times> u32" where
  "output_size D w c = (if wv_preview w then vd_preview_size D c else (wv_width w, wv_height w))"

definition decode_closure :: "'c vmx_decoder \<Rightarrow> wire_video \<Rightarrow> 'c option \<Rightarrow> bytes \<Rightarrow>
    decoded_video_frame result option \<times> 'c option \<times> bytes" where
  "decode_closure D w cached decode_buf =
     (case cached_codec D (wv_width w) (wv_height w) (map_vmx_color_space (wv_color_space w)) cached of
        None \<Rightarrow> (None, cached, decode_buf)
      | Some (Inl e) \<Rightarrow> (Some (Inl (Vmx e)), cached, decode_buf)
      | Some (Inr codec) \<Rightarrow>
          (case vd_load D (vec_data (wv_payload w)) codec of
             (None, c1) \<Rightarrow> (None, Some c1, decode_buf)
           | (Some (Inl e), c1) \<Rightarrow> (Some (Inl (Vmx e)), Some c1, decode_buf)
           | (Some (Inr _), c1) \<Rightarrow>
               (case output_size D w c1 of
                  (out_w, out_h) \<Rightarrow>
                    let stride = unat out_w * 4;
                        buf = vec_resize (stride * unat out_h) decode_buf in
                    (case (if wv_preview w then vd_decode_preview_bgra D stride buf c1 else vd_decode_bgra D stride buf c1) of
                       (None, buf', c2) \<Rightarrow> (None, Some c2, buf')
                     | (Some (Inl e), buf', c2) \<Rightarrow> (Some (Inl (Vmx e)), Some c2, buf')
                     | (Some (Inr _), buf', c2) \<Rightarrow>
                         (Some (Inr \<lparr>dv_width = out_w, dv_height = out_h, dv_stride = word_of_nat stride,
                            dv_timestamp = wv_timestamp w, dv_frame_rate_n = wv_frame_rate_n w,
                            dv_frame_rate_d = wv_frame_rate_d w, dv_color_space = wv_color_space w, dv_pixels = buf',
                            dv_frame_metadata = wv_metadata w\<rparr>), Some c2, buf')))))"

definition decode_vmx_bgra :: "'c vmx_decoder \<Rightarrow> wire_video \<Rightarrow> 'c option \<Rightarrow> bytes \<Rightarrow>
    decoded_video_frame result \<times> 'c option \<times> bytes" where
  "decode_vmx_bgra D w cached decode_buf =
     (if sint (wv_width w) < sint (vd_min_width D) \<or> sint (wv_height w) < sint (vd_min_height D) then
        (Inl (CodecError ''VMX dimensions below minimum''), cached, decode_buf)
      else
        case decode_closure D w cached decode_buf of
          (Some inner, cached', buf) \<Rightarrow> (inner, cached', buf)
        | (None, _, buf) \<Rightarrow> (Inl (CodecError ''VMX decode panicked''), None, buf))"

record 'c decoder_loop =
  dl_codec :: "'c option"
  dl_buf :: bytes
  dl_pool :: buffer_pool

definition decoder_loop_new :: "'c decoder_loop" where
  "decoder_loop_new = \<lparr>dl_codec = None, dl_buf = [], dl_pool = pool_video\<rparr>"

text \<open>A turn of the decoder: the instants at which the frame was taken and decoding ended.\<close>

definition video_decode_body :: "'c vmx_decoder \<Rightarrow> (vmx_error \<Rightarrow> string) \<Rightarrow> nat \<Rightarrow> nat \<Rightarrow> 'c decoder_loop \<Rightarrow> receiver \<Rightarrow>
    bool \<times> 'c decoder_loop \<times> receiver" where
  "video_decode_body D vd t0 t1 l r =
     (case chan_recv (rx_wire r) of
        (Empty, q) \<Rightarrow> (True, l, r)
      | (Hangup, q) \<Rightarrow> (False, l, r)
      | (Received w, q) \<Rightarrow>
          let r1 = r\<lparr>rx_wire := q, rs_wire_depth := wire_depth_sub (rs_wire_depth r), rs_encoded := capture_publish w (rs_encoded r)\<rparr>;
              age_us = word_of_nat ((t0 - wv_enqueued_at w) div 1000) in
          (case decode_vmx_bgra D w (dl_codec l) (dl_buf l) of
             (Inr frame, codec, buf) \<Rightarrow>
               (case queue_publish frame (rs_video r1) (record_codec_time (word_of_nat (t1 - t0)) age_us (rs_stats r1)) of
                  (video, stats) \<Rightarrow>
                    (True, l\<lparr>dl_codec := codec, dl_buf := buf, dl_pool := pool_give (wv_payload w) (dl_pool l)\<rparr>,
                     r1\<lparr>rs_video := video, rs_stats := stats\<rparr>))
           | (Inl e, codec, buf) \<Rightarrow>
               (True, l\<lparr>dl_codec := None, dl_buf := buf, dl_pool := pool_give (wv_payload w) (dl_pool l)\<rparr>,
                with_stats record_drop_decode (set_error (''decode: '' @ error_display vd e) r1))))"

fun video_decode_loop :: "'c vmx_decoder \<Rightarrow> (vmx_error \<Rightarrow> string) \<Rightarrow> ((receiver \<Rightarrow> receiver) \<times> nat \<times> nat) list \<Rightarrow>
    'c decoder_loop \<Rightarrow> receiver \<Rightarrow> bool \<times> 'c decoder_loop \<times> receiver" where
  "video_decode_loop D vd [] l r = (True, l, r)"
| "video_decode_loop D vd ((others, t0, t1) # ts) l r =
     (let r0 = others r in
      if rs_stop r0 then (False, l, r0)
      else
        case video_decode_body D vd t0 t1 l r0 of
          (False, l', r') \<Rightarrow> (False, l', r')
        | (True, l', r') \<Rightarrow> video_decode_loop D vd ts l' r')"

section \<open>What the readers need of a frame handler\<close>

text \<open>The interface between a reader loop and what it does with a frame: while the receiver is \<open>idle\<close> (not
  stopped, nothing else to write), the body of the loop handles a received frame and goes on, and goes on
  unchanged when a frame is incomplete. The locale's lemma is about a whole stream.\<close>

locale frame_reader =
  fixes body :: "reader_turn \<Rightarrow> reader_loop \<Rightarrow> receiver \<Rightarrow> (bool \<times> reader_loop \<times> receiver) option"
    and handle :: "nat \<Rightarrow> assembled_frame \<Rightarrow> (buffer_pool \<times> vec) \<times> receiver \<Rightarrow> (buffer_pool \<times> vec) \<times> receiver"
    and idle :: "receiver \<Rightarrow> bool"
  assumes body_frame: "idle r \<Longrightarrow>
      recv_frame_into NETWORK_RECEIVE_MAX_TRANSFER (lp_channel l) (lp_reader l) = (Inr (Some f), ch, rd) \<Longrightarrow>
      handle (tn_now t) f ((lp_pool l, lp_scratch l), r) = ((pool, scratch), r') \<Longrightarrow>
      body t l r = Some (True, l\<lparr>lp_channel := ch, lp_reader := rd, lp_pool := pool, lp_scratch := scratch\<rparr>, r')"
    and body_wait: "idle r \<Longrightarrow>
      recv_frame_into NETWORK_RECEIVE_MAX_TRANSFER (lp_channel l) (lp_reader l) = (Inl (Io TimedOut m), ch, rd) \<Longrightarrow>
      body t l r = Some (True, l\<lparr>lp_channel := ch, lp_reader := rd\<rparr>, r)"
    and handle_idle: "idle r \<Longrightarrow> idle (snd (handle now f (bufs, r)))"
    and idle_running: "idle r \<Longrightarrow> \<not> rs_stop r"
begin

definition consume :: "(nat \<times> assembled_frame) list \<Rightarrow> (buffer_pool \<times> vec) \<times> receiver \<Rightarrow> (buffer_pool \<times> vec) \<times> receiver" where
  "consume = fold (\<lambda>(now, f). handle now f)"

lemma consume_simps [simp]:
  "consume [] br = br" "consume ((now, f) # xs) br = consume xs (handle now f br)"
  by (simp_all add: consume_def)

lemma run_stream:
  assumes "stream_inv NETWORK_RECEIVE_MAX_TRANSFER fs chunks (lp_channel l)" "lp_reader l = map ReadOk chunks"
    "length fs + length chunks \<le> length turns" "\<forall>t \<in> set turns. tn_others t = (\<lambda>r. r)" "idle r"
  shows "\<exists>nows l'. length nows = length fs \<and> set nows \<subseteq> tn_now ` set turns \<and>
    (case consume (zip nows fs) ((lp_pool l, lp_scratch l), r) of
       (bufs, r') \<Rightarrow> run_reader body turns l r = Some (True, l', r') \<and> (lp_pool l', lp_scratch l') = bufs) \<and>
    ch_buf (lp_channel l') = [] \<and> lp_reader l' = []"
  using assms
proof (induction turns arbitrary: fs chunks l r)
  case Nil
  then show ?case by (auto simp: stream_inv_def)
next
  case (Cons t turns)
  have run: "run_reader body (t # turns) l r =
      (case body t l r of None \<Rightarrow> None | Some (False, l', r') \<Rightarrow> Some (False, l', r') | Some (True, l', r') \<Rightarrow> run_reader body turns l' r')"
    using Cons.prems(4,5) idle_running by (simp add: Let_def)
  from Cons.prems(1) show ?case
  proof (cases rule: recv_stream)
    case (frame f fs' chunks' rest)
    obtain pool scratch r1 where h: "handle (tn_now t) f ((lp_pool l, lp_scratch l), r) = ((pool, scratch), r1)" by (metis prod_cases3 surj_pair)
    let ?l = "l\<lparr>lp_channel := (lp_channel l)\<lparr>ch_buf := rest\<rparr>, lp_reader := map ReadOk chunks', lp_pool := pool, lp_scratch := scratch\<rparr>"
    have b: "body t l r = Some (True, ?l, r1)"
      using body_frame [OF Cons.prems(5) _ h] frame Cons.prems(2) by simp
    have "idle r1" using handle_idle [OF Cons.prems(5), of "tn_now t" f "(lp_pool l, lp_scratch l)"] h by simp
    with Cons.IH [of fs' chunks' ?l r1] frame Cons.prems(3,4) obtain nows l' where ih:
      "length nows = length fs'" "set nows \<subseteq> tn_now ` set turns" "ch_buf (lp_channel l') = []" "lp_reader l' = []"
      "case consume (zip nows fs') ((pool, scratch), r1) of
         (bufs, r') \<Rightarrow> run_reader body turns ?l r1 = Some (True, l', r') \<and> (lp_pool l', lp_scratch l') = bufs"
      by auto
    show ?thesis
      by (rule exI [of _ "tn_now t # nows"], rule exI [of _ l']) (use ih frame(1) h b run in auto)
  next
    case (again chunks' rest)
    let ?l = "l\<lparr>lp_channel := (lp_channel l)\<lparr>ch_buf := rest\<rparr>, lp_reader := map ReadOk chunks'\<rparr>"
    have b: "body t l r = Some (True, ?l, r)" using body_wait [OF Cons.prems(5)] again Cons.prems(2) by simp
    have "length fs + length chunks' \<le> length turns" using again(1) Cons.prems(3) by auto
    with Cons.IH [of fs chunks' ?l r] again Cons.prems(4,5) obtain nows l' where ih:
      "length nows = length fs" "set nows \<subseteq> tn_now ` set turns" "ch_buf (lp_channel l') = []" "lp_reader l' = []"
      "case consume (zip nows fs) ((lp_pool l, lp_scratch l), r) of
         (bufs, r') \<Rightarrow> run_reader body turns ?l r = Some (True, l', r') \<and> (lp_pool l', lp_scratch l') = bufs"
      by auto
    show ?thesis
      by (rule exI [of _ nows], rule exI [of _ l']) (use ih b run in auto)
  qed
qed

lemma run_stream_obtains:
  assumes "stream_inv NETWORK_RECEIVE_MAX_TRANSFER fs chunks (lp_channel l)" "lp_reader l = map ReadOk chunks"
    "length fs + length chunks \<le> length turns" "\<forall>t \<in> set turns. tn_others t = (\<lambda>r. r)" "idle r"
  obtains nows l' r' where "length nows = length fs" "consume (zip nows fs) ((lp_pool l, lp_scratch l), r) = ((lp_pool l', lp_scratch l'), r')"
    "run_reader body turns l r = Some (True, l', r')" "ch_buf (lp_channel l') = []" "lp_reader l' = []"
proof -
  from run_stream [OF assms] obtain nows l' where n: "length nows = length fs" "ch_buf (lp_channel l') = []" "lp_reader l' = []"
    and c: "case consume (zip nows fs) ((lp_pool l, lp_scratch l), r) of
       (bufs, r') \<Rightarrow> run_reader body turns l r = Some (True, l', r') \<and> (lp_pool l', lp_scratch l') = bufs" by auto
  obtain bufs r' where "consume (zip nows fs) ((lp_pool l, lp_scratch l), r) = (bufs, r')" by (rule prod.exhaust)
  with that [OF n(1) _ _ n(2,3)] c show ?thesis by simp
qed

end

section \<open>Audio\<close>

definition audio_frame_ok :: "decoded_audio_frame \<Rightarrow> bool" where
  "audio_frame_ok d \<longleftrightarrow> 1 \<le> nonneg (da_channels d) \<and> nonneg (da_channels d) \<le> 32 \<and>
     length (da_pcm_planar_f32 d) = nonneg (da_channels d) * (nonneg (da_samples_per_channel d) * AUDIO_SAMPLE_SIZE)"

lemma decode_audio_cases:
  obtains (rejected) scratch' where "decode_audio_frame grow frame scratch = Some (None, scratch')"
  | (decoded) d scratch' where "decode_audio_frame grow frame scratch = Some (Some d, scratch')" "audio_frame_ok d"
proof (cases "af_audio frame")
  case None
  then show ?thesis using rejected by (simp add: decode_audio_frame_def)
next
  case (Some a)
  consider "ah_codec a \<noteq> Fpa1 \<or> length (af_data frame) > AUDIO_MAX_SIZE" | "ah_codec a = Fpa1" "\<not> length (af_data frame) > AUDIO_MAX_SIZE"
    by blast
  then show ?thesis
  proof cases
    case 1
    then have "decode_audio_frame grow frame scratch = Some (None, scratch)" using Some by (auto simp: decode_audio_frame_def)
    then show ?thesis by (rule rejected)
  next
    case 2
    show ?thesis
      by (rule decode_planar_into_cases [of "af_data frame" "nonneg (ah_channels a)" "nonneg (ah_samples_per_channel a)"
            "ah_active_channels a" "vec_data scratch"])
         (use 2 Some rejected decoded in \<open>simp_all add: decode_audio_frame_def audio_frame_ok_def\<close>)
  qed
qed

lemma decode_audio_ok: "decode_audio_frame grow frame scratch = Some (Some d, v) \<Longrightarrow> audio_frame_ok d"
  by (rule decode_audio_cases [of grow frame scratch]) simp_all

lemma dispatch_Some:
  obtains pool' r' where "dispatch_av_frame grow now here frame pool r = Some (pool', r')"
proof -
  obtain scratch pool1 where t: "take_audio grow pool = (scratch, pool1)" by fastforce
  have "\<exists>pr. dispatch_audio grow frame pool r = Some pr"
    by (rule decode_audio_cases [of grow frame scratch]) (simp_all add: dispatch_audio_def t)
  then have "\<exists>pr. dispatch_av_frame grow now here frame pool r = Some pr" by (simp add: dispatch_av_frame_def Let_def)
  then show ?thesis using that by auto
qed

section \<open>The readers as frame readers\<close>

definition video_handle :: "(nat \<Rightarrow> nat) \<Rightarrow> bool \<Rightarrow> nat \<Rightarrow> assembled_frame \<Rightarrow> (buffer_pool \<times> vec) \<times> receiver \<Rightarrow> (buffer_pool \<times> vec) \<times> receiver" where
  "video_handle grow here now f br =
     (case dispatch_av_frame grow now here f (fst (fst br)) (with_stats (record_bytes (frame_wire_size f)) (snd br)) of
        Some (pool, r) \<Rightarrow> ((pool, snd (fst br)), r)
      | None \<Rightarrow> br)"

definition audio_handle :: "(nat \<Rightarrow> nat) \<Rightarrow> nat \<Rightarrow> assembled_frame \<Rightarrow> (buffer_pool \<times> vec) \<times> receiver \<Rightarrow> (buffer_pool \<times> vec) \<times> receiver" where
  "audio_handle grow now f br =
     (let r = with_stats (record_bytes (frame_wire_size f)) (snd br) in
      case decode_audio_frame grow f (snd (fst br)) of
        Some (Some d, scratch) \<Rightarrow>
          ((fst (fst br), scratch),
           (case chan_try_send d (rx_audio r) of
              (Full, q) \<Rightarrow> with_stats record_drop_audio (r\<lparr>rx_audio := q\<rparr>)
            | (_, q) \<Rightarrow> r\<lparr>rx_audio := q\<rparr>))
      | Some (None, scratch) \<Rightarrow> ((fst (fst br), scratch), with_stats record_drop_audio r)
      | None \<Rightarrow> br)"

definition video_idle :: "receiver \<Rightarrow> bool" where
  "video_idle r \<longleftrightarrow> \<not> rs_stop r \<and> rs_outbound_meta r = []"

definition audio_idle :: "receiver \<Rightarrow> bool" where
  "audio_idle r \<longleftrightarrow> \<not> rs_stop r \<and> sy_rx_alive (rx_audio r)"

lemma with_stats_sel [simp]:
  "rs_stop (with_stats f r) = rs_stop r" "rs_outbound_meta (with_stats f r) = rs_outbound_meta r"
  "rs_preview (with_stats f r) = rs_preview r" "rs_quality (with_stats f r) = rs_quality r"
  "rs_video (with_stats f r) = rs_video r" "rs_encoded (with_stats f r) = rs_encoded r" "rs_stats (with_stats f r) = f (rs_stats r)"
  "rx_wire (with_stats f r) = rx_wire r" "rx_audio (with_stats f r) = rx_audio r" "rx_meta (with_stats f r) = rx_meta r"
  "rs_state (with_stats f r) = rs_state r"
  by (simp_all add: with_stats_def)

lemma set_error_sel [simp]:
  "rs_stop (set_error m r) = rs_stop r" "rs_outbound_meta (set_error m r) = rs_outbound_meta r"
  "rs_preview (set_error m r) = rs_preview r" "rs_quality (set_error m r) = rs_quality r"
  "rs_video (set_error m r) = rs_video r" "rs_encoded (set_error m r) = rs_encoded r" "rs_stats (set_error m r) = rs_stats r"
  "rx_wire (set_error m r) = rx_wire r" "rx_audio (set_error m r) = rx_audio r" "rx_meta (set_error m r) = rx_meta r"
  "rs_state (set_error m r) = rs_state r" "rs_last_error (set_error m r) = Some m"
  by (simp_all add: set_error_def)

lemma chan_try_send_alive: "chan_try_send x c = (t, c') \<Longrightarrow> sy_rx_alive c' = sy_rx_alive c \<and> sy_cap c' = sy_cap c"
  by (auto simp: chan_try_send_def split: if_splits)

lemmas dispatch_defs = dispatch_av_frame_def dispatch_video_def dispatch_audio_def dispatch_metadata_def

text \<open>Dispatching touches the queues and the statistics only.\<close>

lemma dispatch_keeps:
  "dispatch_av_frame grow now here f pool r = Some (pool', r') \<Longrightarrow>
     rs_stop r' = rs_stop r \<and> rs_outbound_meta r' = rs_outbound_meta r \<and> rs_preview r' = rs_preview r \<and> rs_quality r' = rs_quality r"
  by (auto simp: dispatch_defs Let_def split: if_splits option.splits prod.splits try_send_result.splits)

interpretation vr: frame_reader "\<lambda>t l r. video_reader_body grow vd here (tn_now t) (tn_writes t) l r" "video_handle grow here" video_idle
  for grow vd here
proof
  fix r r' :: receiver and l :: reader_loop and t :: reader_turn and f ch rd pool scratch
  assume idle: "video_idle r"
    and rcv: "recv_frame_into NETWORK_RECEIVE_MAX_TRANSFER (lp_channel l) (lp_reader l) = (Inr (Some f), ch, rd)"
    and h: "video_handle grow here (tn_now t) f ((lp_pool l, lp_scratch l), r) = ((pool, scratch), r')"
  obtain pool1 r1 where d: "dispatch_av_frame grow (tn_now t) here f (lp_pool l) (with_stats (record_bytes (frame_wire_size f)) r) = Some (pool1, r1)"
    by (rule dispatch_Some)
  with idle rcv h show "video_reader_body grow vd here (tn_now t) (tn_writes t) l r =
      Some (True, l\<lparr>lp_channel := ch, lp_reader := rd, lp_pool := pool, lp_scratch := scratch\<rparr>, r')"
    by (cases l; cases r) (simp add: video_reader_body_def flush_outbound_metadata_def video_idle_def video_handle_def Let_def)
next
  fix r :: receiver and l :: reader_loop and t :: reader_turn and m ch rd
  assume "video_idle r" "recv_frame_into NETWORK_RECEIVE_MAX_TRANSFER (lp_channel l) (lp_reader l) = (Inl (Io TimedOut m), ch, rd)"
  then show "video_reader_body grow vd here (tn_now t) (tn_writes t) l r = Some (True, l\<lparr>lp_channel := ch, lp_reader := rd\<rparr>, r)"
    by (cases l; cases r) (simp add: video_reader_body_def flush_outbound_metadata_def video_idle_def Let_def)
next
  fix r :: receiver and now f bufs
  assume "video_idle r"
  then show "video_idle (snd (video_handle grow here now f (bufs, r)))"
    by (auto simp: video_idle_def video_handle_def split: option.splits dest!: dispatch_keeps)
qed (simp add: video_idle_def)

interpretation ar: frame_reader "\<lambda>t l r. audio_reader_body grow vd l r" "audio_handle grow" audio_idle
  for grow vd
proof
  fix r r' :: receiver and l :: reader_loop and t :: reader_turn and f ch rd pool scratch
  assume idle: "audio_idle r"
    and rcv: "recv_frame_into NETWORK_RECEIVE_MAX_TRANSFER (lp_channel l) (lp_reader l) = (Inr (Some f), ch, rd)"
    and h: "audio_handle grow (tn_now t) f ((lp_pool l, lp_scratch l), r) = ((pool, scratch), r')"
  show "audio_reader_body grow vd l r =
      Some (True, l\<lparr>lp_channel := ch, lp_reader := rd, lp_pool := pool, lp_scratch := scratch\<rparr>, r')"
  proof (rule decode_audio_cases [of grow f "lp_scratch l"])
    fix scratch'
    assume "decode_audio_frame grow f (lp_scratch l) = Some (None, scratch')"
    with idle rcv h show ?thesis by (cases l) (simp add: audio_reader_body_def audio_handle_def Let_def)
  next
    fix d scratch'
    assume "decode_audio_frame grow f (lp_scratch l) = Some (Some d, scratch')"
    with idle rcv h show ?thesis
      by (cases l) (auto simp: audio_reader_body_def audio_handle_def Let_def audio_idle_def chan_try_send_def split: if_splits)
  qed
next
  fix r :: receiver and l :: reader_loop and t :: reader_turn and m ch rd
  assume "audio_idle r" "recv_frame_into NETWORK_RECEIVE_MAX_TRANSFER (lp_channel l) (lp_reader l) = (Inl (Io TimedOut m), ch, rd)"
  then show "audio_reader_body grow vd l r = Some (True, l\<lparr>lp_channel := ch, lp_reader := rd\<rparr>, r)"
    by (simp add: audio_reader_body_def Let_def)
next
  fix r :: receiver and now f bufs
  assume "audio_idle r"
  then show "audio_idle (snd (audio_handle grow now f (bufs, r)))"
    by (auto simp: audio_idle_def audio_handle_def Let_def dest: chan_try_send_alive
        split: option.splits prod.splits try_send_result.splits)
qed (simp add: audio_idle_def)

section \<open>Streams through the readers\<close>

definition plays_video :: "assembled_frame \<Rightarrow> bool" where
  "plays_video f \<longleftrightarrow> ft_contains (fh_frame_type (af_header f)) FT_VIDEO \<and>
     (\<exists>v. af_video f = Some v \<and> vh_codec v = Vmx1 \<and> \<not> vf_contains (vh_flags v) VF_ALPHA \<and> \<not> vf_contains (vh_flags v) VF_HIGH_BIT_DEPTH) \<and>
     length (af_data f) \<le> VIDEO_MAX_SIZE"

definition carries_metadata :: "assembled_frame \<Rightarrow> bool" where
  "carries_metadata f \<longleftrightarrow> \<not> ft_contains (fh_frame_type (af_header f)) FT_VIDEO \<and> ft_contains (fh_frame_type (af_header f)) FT_METADATA"

definition metadata_of :: "assembled_frame \<Rightarrow> metadata_frame" where
  "metadata_of f = \<lparr>md_timestamp = fh_timestamp (af_header f),
     md_xml = (case frame_metadata_text f of Some m \<Rightarrow> m | None \<Rightarrow> of_bytes (utf8_lossy (af_data f)))\<rparr>"

text \<open>What is compared of a queued video frame: everything but the buffer it lies in and when it was queued.\<close>

definition wire_content :: "wire_video \<Rightarrow> wire_video \<times> bytes" where
  "wire_content w = (w\<lparr>wv_payload := \<lparr>vec_cap = 0, vec_data = []\<rparr>, wv_enqueued_at := 0\<rparr>, vec_data (wv_payload w))"

definition frame_content :: "assembled_frame \<Rightarrow> wire_video \<times> bytes" where
  "frame_content f = (wire_of 0 f (the (af_video f)) \<lparr>vec_cap = 0, vec_data = []\<rparr>, af_data f)"

lemma utf8_lossy_Nil [simp]: "utf8_lossy [] = []"
  using utf8_lossy_valid [of "[]"] utf8_valid_ascii [of "[]"] by simp

lemma vec_data_store [simp]: "vec_data (vec_store grow bs v) = bs"
  by (simp add: vec_store_def)

definition room :: "'a sync_channel \<Rightarrow> nat \<Rightarrow> bool" where
  "room c n \<longleftrightarrow> sy_rx_alive c \<and> length (sy_items c) + n \<le> sy_cap c"

lemma room_send: "room c (Suc n) \<Longrightarrow> chan_try_send x c = (Sent, c\<lparr>sy_items := sy_items c @ [x]\<rparr>) \<and> room (c\<lparr>sy_items := sy_items c @ [x]\<rparr>) n"
  by (simp add: room_def chan_try_send_def)

lemma handle_video_frame:
  assumes "plays_video f" "room (rx_wire r) (Suc n)" "video_handle grow here now f (bufs, r) = (bufs', r')"
  shows "\<exists>w. rx_wire r' = (rx_wire r)\<lparr>sy_items := sy_items (rx_wire r) @ [w]\<rparr> \<and> wire_content w = frame_content f \<and> room (rx_wire r') n"
    and "rx_meta r' = rx_meta r"
  using assms room_send [of "rx_wire r" n]
  by (auto simp: video_handle_def plays_video_def dispatch_av_frame_def dispatch_video_def Let_def wire_content_def frame_content_def wire_of_def
      split: prod.splits)

lemma dispatch_metadata_of: "dispatch_metadata f r = r\<lparr>rx_meta := snd (chan_try_send (metadata_of f) (rx_meta r))\<rparr>"
proof -
  have "(case frame_metadata_text f of Some m \<Rightarrow> m | None \<Rightarrow> if af_data f = [] then [] else of_bytes (utf8_lossy (af_data f))) =
      md_xml (metadata_of f)"
    by (simp add: metadata_of_def of_bytes_def split: option.split)
  then show ?thesis unfolding dispatch_metadata_def by (simp add: metadata_of_def case_prod_beta)
qed

lemma handle_metadata_frame:
  assumes "carries_metadata f" "room (rx_meta r) (Suc n)" "video_handle grow False now f (bufs, r) = (bufs', r')"
  shows "rx_meta r' = (rx_meta r)\<lparr>sy_items := sy_items (rx_meta r) @ [metadata_of f]\<rparr>" "room (rx_meta r') n" "rx_wire r' = rx_wire r"
  using assms room_send [of "rx_meta r" n "metadata_of f"]
  by (auto simp: video_handle_def carries_metadata_def dispatch_av_frame_def dispatch_metadata_of Let_def)

lemma handle_other_frame:
  assumes "\<not> plays_video f" "\<not> carries_metadata f" "video_handle grow False now f (bufs, r) = (bufs', r')"
  shows "rx_wire r' = rx_wire r" "rx_meta r' = rx_meta r"
  using assms
  by (auto simp: video_handle_def plays_video_def carries_metadata_def dispatch_av_frame_def dispatch_video_def Let_def split: if_splits option.splits)

lemma consume_video:
  assumes "length nows = length fs" "room (rx_wire r) (length (filter plays_video fs))" "room (rx_meta r) (length (filter carries_metadata fs))"
    "vr.consume grow False (zip nows fs) (bufs, r) = (bufs', r')"
  shows "map wire_content (sy_items (rx_wire r')) = map wire_content (sy_items (rx_wire r)) @ map frame_content (filter plays_video fs) \<and>
    sy_items (rx_meta r') = sy_items (rx_meta r) @ map metadata_of (filter carries_metadata fs)"
  using assms
proof (induction nows fs arbitrary: r bufs rule: list_induct2)
  case (Cons now nows f fs)
  obtain bufs1 r1 where h: "video_handle grow False now f (bufs, r) = (bufs1, r1)" by fastforce
  with Cons.prems(3) have rest: "vr.consume grow False (zip nows fs) (bufs1, r1) = (bufs', r')" by simp
  have excl: "plays_video f \<Longrightarrow> \<not> carries_metadata f" by (simp add: plays_video_def carries_metadata_def)
  consider (video) "plays_video f" | (meta) "carries_metadata f" "\<not> plays_video f" | (other) "\<not> plays_video f" "\<not> carries_metadata f" by blast
  then show ?case
  proof cases
    case video
    with Cons.prems(1) have "room (rx_wire r) (Suc (length (filter plays_video fs)))" by simp
    from handle_video_frame [OF video this h] Cons.IH [OF _ _ rest] Cons.prems(2) video excl show ?thesis by auto
  next
    case meta
    with Cons.prems(2) have "room (rx_meta r) (Suc (length (filter carries_metadata fs)))" by simp
    from handle_metadata_frame [OF meta(1) this h] Cons.IH [OF _ _ rest] Cons.prems(1) meta show ?thesis by simp
  next
    case other
    with handle_other_frame [OF other h] Cons.IH [OF _ _ rest] Cons.prems(1,2) show ?thesis by simp
  qed
qed simp

text \<open>The loop over a whole stream, for the theorem below and for the way from the sender.\<close>

lemma video_stream:
  assumes "\<forall>f \<in> set fs. sendable f \<and> length (assembled_to_bytes f) + NETWORK_RECEIVE_MAX_TRANSFER \<le> max_reassembly"
    "\<forall>c \<in> set chunks. c \<noteq> [] \<and> length c \<le> NETWORK_RECEIVE_MAX_TRANSFER" "concat chunks = concat (map assembled_to_bytes fs)"
    "length fs + length chunks \<le> length turns" "\<forall>t \<in> set turns. tn_others t = (\<lambda>r. r)"
    "\<not> rs_stop r" "rs_outbound_meta r = []"
    "room (rx_wire r) (length (filter plays_video fs))" "room (rx_meta r) (length (filter carries_metadata fs))"
  shows "\<exists>l r'. video_reader_loop grow vd False turns (video_loop_new grow (map ReadOk chunks)) r = Some (True, l, r') \<and>
    ch_buf (lp_channel l) = [] \<and> lp_reader l = [] \<and>
    map wire_content (sy_items (rx_wire r')) = map wire_content (sy_items (rx_wire r)) @ map frame_content (filter plays_video fs) \<and>
    sy_items (rx_meta r') = sy_items (rx_meta r) @ map metadata_of (filter carries_metadata fs)"
proof -
  let ?l = "video_loop_new grow (map ReadOk chunks)"
  have "stream_inv NETWORK_RECEIVE_MAX_TRANSFER fs chunks (lp_channel ?l)"
    using assms(1-3) by (simp add: stream_inv_def video_loop_new_def channel_new_def del: length_assembled)
  moreover have "lp_reader ?l = map ReadOk chunks" by (simp add: video_loop_new_def)
  moreover have "video_idle r" using assms(6,7) by (simp add: video_idle_def)
  ultimately obtain nows l r' where r: "length nows = length fs" "ch_buf (lp_channel l) = []" "lp_reader l = []"
    "vr.consume grow False (zip nows fs) ((lp_pool ?l, lp_scratch ?l), r) = ((lp_pool l, lp_scratch l), r')"
    "video_reader_loop grow vd False turns ?l r = Some (True, l, r')"
    unfolding video_reader_loop_def by (rule vr.run_stream_obtains [OF _ _ assms(4,5)])
  from consume_video [OF r(1) assms(8,9) r(4)] r(2,3,5) show ?thesis by auto
qed


lemma control_frame_sendable:
  assumes "length xml \<le> METADATA_FRAME_SIZE"
  shows "sendable (control_frame ts xml)"
proof -
  have "length xml < 2 ^ 31" using assms by (simp add: METADATA_FRAME_SIZE_def)
  then have "nat (sint (word_of_nat (length xml) :: i32)) = length xml" using sint_of_nat_small [of "length xml", where 'a = 32] by simp
  moreover have "is_valid_frame_type FT_METADATA" "max_payload_for FT_METADATA = METADATA_FRAME_SIZE"
    by (simp_all add: is_valid_frame_type_def max_payload_for_def) (simp_all add: ft_defs)
  ultimately show ?thesis
    using assms control_frame_wf [OF \<open>length xml < 2 ^ 31\<close>, of ts] by (simp add: sendable_def control_frame_def Let_def)
qed

definition quiet_turn :: reader_turn where
  "quiet_turn = \<lparr>tn_others = (\<lambda>r. r), tn_now = 0, tn_writes = []\<rparr>"


section \<open>Audio through the reader\<close>

lemma decode_audio_scratch:
  "decode_audio_frame grow f scratch = Some (Some d, v) \<Longrightarrow> \<exists>v'. decode_audio_frame grow' f scratch' = Some (Some d, v')"
  by (auto simp: decode_audio_frame_def decode_planar_into_def split: option.splits if_splits)

text \<open>The frame a payload decodes to, whatever the scratch buffer.\<close>

definition decodes_to :: "assembled_frame \<Rightarrow> decoded_audio_frame \<Rightarrow> bool" where
  "decodes_to f d \<longleftrightarrow> (\<exists>v. decode_audio_frame (\<lambda>n. n) f \<lparr>vec_cap = 0, vec_data = []\<rparr> = Some (Some d, v))"

lemma handle_audio_frame:
  assumes "decodes_to f d" "room (rx_audio r) (Suc n)" "audio_handle grow now f (bufs, r) = (bufs', r')"
  shows "rx_audio r' = (rx_audio r)\<lparr>sy_items := sy_items (rx_audio r) @ [d]\<rparr>" "room (rx_audio r') n"
    "ss_frames_dropped_audio (rs_stats r') = ss_frames_dropped_audio (rs_stats r)"
proof -
  obtain v where "decode_audio_frame grow f (snd bufs) = Some (Some d, v)"
    using assms(1) decode_audio_scratch unfolding decodes_to_def by blast
  with assms(2,3) room_send [of "rx_audio r" n d]
  show "rx_audio r' = (rx_audio r)\<lparr>sy_items := sy_items (rx_audio r) @ [d]\<rparr>" "room (rx_audio r') n"
    "ss_frames_dropped_audio (rs_stats r') = ss_frames_dropped_audio (rs_stats r)"
    by (auto simp: audio_handle_def record_bytes_def Let_def)
qed

lemma consume_audio:
  assumes "list_all2 decodes_to fs ds" "length nows = length fs" "room (rx_audio r) (length fs)"
    "ar.consume grow (zip nows fs) (bufs, r) = (bufs', r')"
  shows "sy_items (rx_audio r') = sy_items (rx_audio r) @ ds \<and>
    ss_frames_dropped_audio (rs_stats r') = ss_frames_dropped_audio (rs_stats r)"
  using assms
proof (induction fs ds arbitrary: nows r bufs rule: list_all2_induct)
  case (Cons f fs d ds)
  then obtain now nows' where nows: "nows = now # nows'" "length nows' = length fs" by (cases nows) auto
  obtain bufs1 r1 where h: "audio_handle grow now f (bufs, r) = (bufs1, r1)" by fastforce
  have rest: "ar.consume grow (zip nows' fs) (bufs1, r1) = (bufs', r')" using Cons.prems(3) h nows(1) by simp
  have "room (rx_audio r) (Suc (length fs))" using Cons.prems(2) by simp
  from handle_audio_frame [OF Cons.hyps(1) this h] Cons.IH [OF nows(2) _ rest] show ?case by simp
qed simp

lemma audio_reader_stream:
  assumes "\<forall>f \<in> set fs. sendable f \<and> length (assembled_to_bytes f) + NETWORK_RECEIVE_MAX_TRANSFER \<le> max_reassembly"
    "\<forall>c \<in> set chunks. c \<noteq> [] \<and> length c \<le> NETWORK_RECEIVE_MAX_TRANSFER" "concat chunks = concat (map assembled_to_bytes fs)"
    "length fs + length chunks \<le> length turns" "\<forall>t \<in> set turns. tn_others t = (\<lambda>r. r)"
    "\<not> rs_stop r" "room (rx_audio r) (length fs)" "list_all2 decodes_to fs ds"
  obtains l r' where "audio_reader_loop grow vd turns (audio_loop_new grow (map ReadOk chunks)) r = Some (True, l, r')"
    "ch_buf (lp_channel l) = []" "sy_items (rx_audio r') = sy_items (rx_audio r) @ ds"
    "ss_frames_dropped_audio (rs_stats r') = ss_frames_dropped_audio (rs_stats r)"
proof -
  let ?l = "audio_loop_new grow (map ReadOk chunks)"
  have "stream_inv NETWORK_RECEIVE_MAX_TRANSFER fs chunks (lp_channel ?l)"
    using assms(1-3) by (simp add: stream_inv_def audio_loop_new_def channel_new_def split: prod.split del: length_assembled)
  moreover have "lp_reader ?l = map ReadOk chunks" by (simp add: audio_loop_new_def split: prod.split)
  moreover have "audio_idle r" using assms(6,7) by (simp add: audio_idle_def room_def)
  ultimately obtain nows l r' where r: "length nows = length fs" "ch_buf (lp_channel l) = []"
    "ar.consume grow (zip nows fs) ((lp_pool ?l, lp_scratch ?l), r) = ((lp_pool l, lp_scratch l), r')"
    "audio_reader_loop grow vd turns ?l r = Some (True, l, r')"
    unfolding audio_reader_loop_def by (rule ar.run_stream_obtains [OF _ _ assms(4,5)])
  from consume_audio [OF assms(8) r(1) assms(7) r(3)] that [OF r(4,2)] show ?thesis by simp
qed

text \<open>An audio frame without payload: 32 channels, all silent, of as many samples as the header can say.\<close>

definition silent_frame :: assembled_frame where
  "silent_frame = \<lparr>af_header = \<lparr>fh_version = PROTOCOL_VERSION, fh_frame_type = FT_AUDIO, fh_timestamp = 0, fh_metadata_length = 0,
       fh_data_length = word_of_nat AUDIO_EXT_HEADER_SIZE\<rparr>, af_video = None,
     af_audio = Some \<lparr>ah_codec = Fpa1, ah_sample_rate = 48000, ah_samples_per_channel = 0x7FFFFFFF, ah_channels = 32,
       ah_active_channels = 0, ah_reserved1 = 0\<rparr>, af_data = [], af_metadata = []\<rparr>"

text \<open>The size of decoded audio is not bounded by what was received: a frame of 40 bytes that the channel accepts
  makes the audio reader allocate and fill \<open>32 * 4 * (2^31 - 1)\<close> bytes, since the samples of silent channels
  are not on the wire and only the payload is checked against the maximum audio size.\<close>

theorem silent_audio_amplification:
  "sendable silent_frame \<and> length (assembled_to_bytes silent_frame) = 40 \<and>
   (\<exists>d. decodes_to silent_frame d \<and> length (da_pcm_planar_f32 d) = 32 * 4 * (2 ^ 31 - 1))"
proof -
  let ?n = "2 ^ 31 - 1 :: nat"
  have wf: "wf_frame silent_frame"
    by (simp add: silent_frame_def wf_frame_def ext_bytes_def Let_def AUDIO_EXT_HEADER_SIZE_def)
  have s: "sendable silent_frame"
    using wf by (simp add: sendable_def silent_frame_def is_valid_frame_type_def max_payload_for_def AUDIO_EXT_HEADER_SIZE_def
        AUDIO_MAX_SIZE_def) (simp add: ft_defs)
  have len: "length (assembled_to_bytes silent_frame) = 40"
    by (simp add: silent_frame_def ext_bytes_def HEADER_SIZE_def AUDIO_EXT_HEADER_SIZE_def)
  have g: "nonneg (0x7FFFFFFF :: i32) = ?n" "nonneg (32 :: i32) = 32" by (simp_all add: nonneg_def)
  have "count_ones 0 = 0" by (simp add: count_ones_def)
  then have "Option.bind (usize_checked_mul (count_ones 0) ?n) (\<lambda>n. usize_checked_mul n AUDIO_SAMPLE_SIZE) = Some 0"
    using checked_mul2 [of 0 ?n AUDIO_SAMPLE_SIZE] by (simp add: AUDIO_SAMPLE_SIZE_def)
  moreover have "Option.bind (usize_checked_mul 32 ?n) (\<lambda>n. usize_checked_mul n AUDIO_SAMPLE_SIZE) = Some (32 * ?n * AUDIO_SAMPLE_SIZE)"
    by (rule checked_mul2) (simp_all add: usize_max_def AUDIO_SAMPLE_SIZE_def)
  ultimately have no_error: "decode_planar_into [] 32 ?n 0 [] \<noteq> Some (Inl e, [])" for e
    by (simp add: decode_planar_into_def)
  have "\<exists>out. decode_planar_into [] 32 ?n 0 [] = Some (Inr (), out) \<and> length out = 32 * (?n * AUDIO_SAMPLE_SIZE)"
    by (rule decode_planar_into_cases [of "[]" 32 ?n 0 "[]"]) (use no_error in auto)
  then obtain out where out: "decode_planar_into [] 32 ?n 0 [] = Some (Inr (), out)" "length out = 32 * 4 * ?n"
    by (auto simp: AUDIO_SAMPLE_SIZE_def)
  then have "\<exists>d. decodes_to silent_frame d \<and> da_pcm_planar_f32 d = out"
    unfolding decodes_to_def by (simp add: decode_audio_frame_def silent_frame_def g)
  with s len out(2) show ?thesis by auto
qed

section \<open>The decoder\<close>

text \<open>A decoder fills the buffer it is given: the type of a \<open>&mut [u8]\<close> keeps its length.\<close>

definition keeps_length :: "'c vmx_decoder \<Rightarrow> bool" where
  "keeps_length D \<longleftrightarrow> (\<forall>stride buf c. length (fst (snd (vd_decode_bgra D stride buf c))) = length buf \<and>
     length (fst (snd (vd_decode_preview_bgra D stride buf c))) = length buf)"

definition video_frame_ok :: "decoded_video_frame \<Rightarrow> bool" where
  "video_frame_ok f \<longleftrightarrow> length (dv_pixels f) = unat (dv_width f) * 4 * unat (dv_height f) \<and> dv_stride f = dv_width f * 4"

lemma length_resize [simp]: "length (vec_resize n bs) = n"
  by (simp add: vec_resize_def)

lemma decode_closure_ok:
  assumes "keeps_length D" "decode_closure D w cached buf = (Some (Inr f), cached', buf')"
  shows "video_frame_ok f \<and> cached' \<noteq> None \<and> dv_timestamp f = wv_timestamp w \<and>
    (\<not> wv_preview w \<longrightarrow> dv_width f = wv_width w \<and> dv_height f = wv_height w)"
proof -
  have len: "vd_decode_bgra D stride b c = (x, b', c') \<Longrightarrow> length b' = length b"
    "vd_decode_preview_bgra D stride b c = (x, b', c') \<Longrightarrow> length b' = length b" for stride b c x b' c'
    using assms(1) unfolding keeps_length_def by (metis fst_conv snd_conv)+
  show ?thesis
    using assms(2)
    by (auto simp: decode_closure_def output_size_def video_frame_ok_def Let_def dest!: len
        split: option.splits sum.splits prod.splits if_splits)
qed

section \<open>The invariant of the shared state\<close>

definition chan_ok :: "('a \<Rightarrow> bool) \<Rightarrow> nat \<Rightarrow> 'a sync_channel \<Rightarrow> bool" where
  "chan_ok P cap c \<longleftrightarrow> sy_cap c = cap \<and> length (sy_items c) \<le> cap \<and> list_all P (sy_items c)"

definition wire_video_ok :: "wire_video \<Rightarrow> bool" where
  "wire_video_ok w \<longleftrightarrow> length (vec_data (wv_payload w)) \<le> VIDEO_MAX_SIZE \<and> 1 \<le> sint (wv_frame_rate_d w)"

text \<open>Every queue within its bound, and what is queued is valid: payloads within the maximum with a positive frame
  rate denominator, audio with all its planes, pictures with all their rows.\<close>

definition receiver_inv :: "receiver \<Rightarrow> bool" where
  "receiver_inv r \<longleftrightarrow> chan_ok wire_video_ok VIDEO_WIRE_Q (rx_wire r) \<and> chan_ok audio_frame_ok AUDIO_Q (rx_audio r) \<and>
     chan_ok (\<lambda>_. True) METADATA_Q (rx_meta r) \<and> decoded_queue_ok (rs_video r) \<and> dq_cap (rs_video r) = VIDEO_DECODED_Q \<and>
     list_all video_frame_ok (dq_slot (rs_video r))"

lemma chan_ok_new [simp]: "chan_ok P n (sync_channel_new n)"
  by (simp add: chan_ok_def sync_channel_new_def)

lemma chan_ok_send: "chan_ok P n c \<Longrightarrow> P x \<Longrightarrow> chan_try_send x c = (t, c') \<Longrightarrow> chan_ok P n c'"
  by (auto simp: chan_ok_def chan_try_send_def split: if_splits)

lemma chan_ok_recv: "chan_ok P n c \<Longrightarrow> chan_recv c = (x, c') \<Longrightarrow> chan_ok P n c' \<and> (\<forall>y. x = Received y \<longrightarrow> P y)"
  by (auto simp: chan_ok_def chan_recv_def split: list.splits if_splits)

lemma chan_ok_poll: "chan_ok P n c \<Longrightarrow> chan_ok P n (snd (chan_poll c))"
  by (auto simp: chan_ok_def chan_poll_def chan_recv_def split: list.splits)

lemma receiver_inv_new: "receiver_inv (receiver_new config)"
  by (simp add: receiver_inv_def receiver_new_def VIDEO_DECODED_Q_def)

text \<open>The fields outside the queues do not matter.\<close>

lemma receiver_inv_fields [simp]:
  "receiver_inv (with_stats g r) = receiver_inv r" "receiver_inv (set_error m r) = receiver_inv r"
  "receiver_inv (set_state st r) = receiver_inv r" "receiver_inv (bump_reconnect r) = receiver_inv r"
  "receiver_inv (install_io c v r) = receiver_inv r" "receiver_inv (clear_io v r) = receiver_inv r"
  "receiver_inv (shutdown_io r) = receiver_inv r" "receiver_inv (r\<lparr>rs_outbound_meta := ms\<rparr>) = receiver_inv r"
  "receiver_inv (r\<lparr>rs_wire_depth := d\<rparr>) = receiver_inv r" "receiver_inv (r\<lparr>rs_encoded := e\<rparr>) = receiver_inv r"
  "receiver_inv (r\<lparr>rs_stats := st'\<rparr>) = receiver_inv r" "receiver_inv (r\<lparr>rs_stop := b\<rparr>) = receiver_inv r"
  "receiver_inv (r\<lparr>rs_preview := b\<rparr>) = receiver_inv r" "receiver_inv (r\<lparr>rs_quality := q\<rparr>) = receiver_inv r"
  by (simp_all add: receiver_inv_def set_state_def bump_reconnect_def install_io_def clear_io_def shutdown_io_def)

lemma receiver_inv_send:
  "receiver_inv r \<Longrightarrow> wire_video_ok w \<Longrightarrow> chan_try_send w (rx_wire r) = (t, q) \<Longrightarrow> receiver_inv (r\<lparr>rx_wire := q\<rparr>)"
  "receiver_inv r \<Longrightarrow> audio_frame_ok d \<Longrightarrow> chan_try_send d (rx_audio r) = (t, p) \<Longrightarrow> receiver_inv (r\<lparr>rx_audio := p\<rparr>)"
  "receiver_inv r \<Longrightarrow> chan_try_send m (rx_meta r) = (t, k) \<Longrightarrow> receiver_inv (r\<lparr>rx_meta := k\<rparr>)"
  by (auto simp: receiver_inv_def intro: chan_ok_send)

lemma wire_of_ok: "length (vec_data v) \<le> VIDEO_MAX_SIZE \<Longrightarrow> wire_video_ok (wire_of now f h v)"
  by (simp add: wire_video_ok_def wire_of_def)

lemma dispatch_video_inv:
  assumes "receiver_inv r" "dispatch_video grow now f pool r = (pool', r')"
  shows "receiver_inv r'"
proof -
  have "receiver_inv (r\<lparr>rx_wire := q\<rparr>)" if "chan_try_send (wire_of now f v (vec_store grow (af_data f) b)) (rx_wire r) = (t, q)"
    "length (af_data f) \<le> VIDEO_MAX_SIZE" for v b t q
    using receiver_inv_send(1) [OF assms(1) wire_of_ok that(1)] that(2) by simp
  moreover have "r\<lparr>rx_wire := q, rs_wire_depth := d\<rparr> = (r\<lparr>rx_wire := q\<rparr>)\<lparr>rs_wire_depth := d\<rparr>" for q d by simp
  ultimately show ?thesis
    using assms by (auto simp: dispatch_video_def Let_def split: option.splits if_splits prod.splits try_send_result.splits)
qed

lemma dispatch_inv:
  assumes "receiver_inv r" "dispatch_av_frame grow now here f pool r = Some (pool', r')"
  shows "receiver_inv r'"
proof -
  have "receiver_inv r'" if "dispatch_audio grow f pool r = Some (pool', r')"
    using that assms(1)
    by (auto simp: dispatch_audio_def dest!: decode_audio_ok intro: receiver_inv_send(2)
        split: prod.splits option.splits try_send_result.splits)
  moreover have "receiver_inv (dispatch_metadata f r)"
    unfolding dispatch_metadata_of
    using receiver_inv_send(3) [OF assms(1), of "metadata_of f"] by (cases "chan_try_send (metadata_of f) (rx_meta r)") simp
  ultimately show ?thesis
    using assms dispatch_video_inv by (auto simp: dispatch_av_frame_def Let_def split: if_splits)
qed

lemma flush_inv: "receiver_inv r \<Longrightarrow> flush_outbound_metadata vd ws r = (out, r') \<Longrightarrow> receiver_inv r'"
  by (auto simp: flush_outbound_metadata_def Let_def split: prod.splits sum.splits)

lemma video_body_inv:
  assumes "receiver_inv r" "video_reader_body grow vd here now ws l r = Some (b, l', r')"
  shows "receiver_inv r'"
proof -
  obtain out r1 where f: "flush_outbound_metadata vd ws r = (out, r1)" by fastforce
  obtain res ch rd where rcv: "recv_frame_into NETWORK_RECEIVE_MAX_TRANSFER (lp_channel l) (lp_reader l) = (res, ch, rd)"
    by (metis prod_cases3)
  have r1: "receiver_inv r1" using flush_inv [OF assms(1) f] .
  have "receiver_inv (with_stats (record_bytes n) r1)" for n using r1 by simp
  note disp = dispatch_inv [OF this]
  show ?thesis
  proof (cases res)
    case (Inl e)
    then show ?thesis using assms(2) f rcv r1 by (cases e) (auto simp: video_reader_body_def Let_def split: if_splits)
  next
    case (Inr fr)
    then show ?thesis
      using assms(2) f rcv r1 by (cases fr) (auto simp: video_reader_body_def Let_def split: option.splits dest: disp)
  qed
qed

lemma audio_body_inv:
  assumes "receiver_inv r" "audio_reader_body grow vd l r = Some (b, l', r')"
  shows "receiver_inv r'"
proof -
  obtain res ch rd where rcv: "recv_frame_into NETWORK_RECEIVE_MAX_TRANSFER (lp_channel l) (lp_reader l) = (res, ch, rd)"
    by (metis prod_cases3)
  show ?thesis
  proof (cases res)
    case (Inl e)
    then show ?thesis using assms rcv by (cases e) (auto simp: audio_reader_body_def Let_def split: if_splits)
  next
    case (Inr fr)
    have "receiver_inv (with_stats (record_bytes n) r)" for n using assms(1) by simp
    note send = receiver_inv_send(2) [OF this decode_audio_ok]
    from Inr show ?thesis
      using assms rcv by (cases fr) (auto simp: audio_reader_body_def Let_def split: option.splits prod.splits try_send_result.splits dest: send)
  qed
qed

lemma run_reader_inv:
  assumes "\<And>t l r b l' r'. P r \<Longrightarrow> body t l r = Some (b, l', r') \<Longrightarrow> P r'" "\<forall>t \<in> set ts. \<forall>r. P r \<longrightarrow> P (tn_others t r)"
    "P r" "run_reader body ts l r = Some (b, l', r')"
  shows "P r'"
  using assms(2-4)
proof (induction ts arbitrary: l r)
  case (Cons t ts)
  have r0: "P (tn_others t r)" using Cons.prems(1,2) by simp
  show ?case
  proof (cases "body t l (tn_others t r)")
    case None
    then show ?thesis using Cons.prems(3) r0 by (auto simp: Let_def split: if_splits)
  next
    case (Some x)
    obtain c l1 r1 where x: "x = (c, l1, r1)" by (metis prod_cases3)
    have "P r1" using assms(1) r0 Some x by blast
    with Cons Some x r0 show ?thesis by (cases c) (auto simp: Let_def split: if_splits)
  qed
qed simp

lemma decode_vmx_ok: "keeps_length D \<Longrightarrow> decode_vmx_bgra D w cached buf = (Inr f, cached', buf') \<Longrightarrow> video_frame_ok f"
  by (auto simp: decode_vmx_bgra_def dest: decode_closure_ok split: if_splits prod.splits option.splits)

lemma receiver_inv_publish:
  assumes "receiver_inv r" "video_frame_ok f" "queue_publish f (rs_video r) st = (q, st')"
  shows "receiver_inv (r\<lparr>rs_video := q, rs_stats := st'\<rparr>)"
proof -
  have ok: "decoded_queue_ok (rs_video r)" using assms(1) by (simp add: receiver_inv_def)
  let ?k = "Suc (length (dq_slot (rs_video r))) - dq_cap (rs_video r)"
  have "dq_slot q = drop ?k (dq_slot (rs_video r)) @ [f]" "dq_cap q = dq_cap (rs_video r)"
    using assms(3) queue_publish_eq [OF ok, of f st] by (auto simp: Let_def)
  moreover have "list_all video_frame_ok (drop ?k (dq_slot (rs_video r)))"
    using assms(1) by (auto simp: receiver_inv_def list_all_iff dest: in_set_dropD)
  ultimately show ?thesis using assms(1,2) queue_publish_ok [OF ok assms(3)] by (simp add: receiver_inv_def)
qed

lemma decode_body_inv:
  assumes "keeps_length D" "receiver_inv r" "video_decode_body D vd t0 t1 l r = (b, l', r')"
  shows "receiver_inv r'"
proof -
  obtain x q where rcv: "chan_recv (rx_wire r) = (x, q)" by fastforce
  show ?thesis
  proof (cases x)
    case (Received w)
    let ?r1 = "r\<lparr>rx_wire := q, rs_wire_depth := wire_depth_sub (rs_wire_depth r), rs_encoded := capture_publish w (rs_encoded r)\<rparr>"
    have "chan_ok wire_video_ok VIDEO_WIRE_Q q" using assms(2) chan_ok_recv [OF _ rcv] by (auto simp: receiver_inv_def)
    then have r1: "receiver_inv ?r1" using assms(2) by (simp add: receiver_inv_def)
    obtain res codec buf where d: "decode_vmx_bgra D w (dl_codec l) (dl_buf l) = (res, codec, buf)" by (metis prod_cases3)
    show ?thesis
    proof (cases res)
      case (Inl e)
      then show ?thesis using assms(3) rcv Received d r1 by (auto simp: video_decode_body_def Let_def)
    next
      case (Inr f)
      have "video_frame_ok f" using decode_vmx_ok [OF assms(1)] d Inr by blast
      from receiver_inv_publish [OF r1 this] show ?thesis
        using assms(3) rcv Received d Inr by (auto simp: video_decode_body_def Let_def split: prod.splits)
    qed
  qed (use assms rcv in \<open>auto simp: video_decode_body_def\<close>)
qed

end
