(* ===== verification/Endpoints.thy ===== *)
theory Endpoints
  imports Address
begin

text \<open>
  The TCP endpoints of a receiver (\<open>resolve_endpoints\<close>, \<open>endpoint_preference\<close> and \<open>connect_first\<close> of
  \<open>src/receive.rs\<close>), on socket addresses as \<open>std::net\<close> has them. The textual form of an IP address is read the
  way the standard library reads it (four decimal octets without leading zeros, or IPv6 groups with one
  \<open>::\<close> and an optional embedded IPv4 tail). Name resolution is the parameter \<open>lookup\<close>. The lemmas describe the
  endpoint list completely and show that connecting stops at the first endpoint that accepts.
\<close>

section \<open>IP addresses\<close>

datatype ip_addr = V4 u8 u8 u8 u8 | V6 "u16 list"

record endpoint =
  ep_ip :: ip_addr
  ep_port :: u16

definition to_digit :: "nat \<Rightarrow> char \<Rightarrow> nat option" where
  "to_digit radix c =
     (let n = of_char c :: nat;
          d = (if 48 \<le> n \<and> n \<le> 57 then n - 48
               else if 97 \<le> n \<and> n \<le> 122 then n - 87
               else if 65 \<le> n \<and> n \<le> 90 then n - 55
               else 36) in
      if d < radix then Some d else None)"

text \<open>The longest run of digits with the number it denotes, and the rest of the input.\<close>

fun read_digits :: "nat \<Rightarrow> nat \<Rightarrow> nat \<Rightarrow> string \<Rightarrow> nat \<times> nat \<times> string" where
  "read_digits radix count acc [] = (count, acc, [])"
| "read_digits radix count acc (c # s) =
     (case to_digit radix c of
        Some d \<Rightarrow> read_digits radix (Suc count) (acc * radix + d) s
      | None \<Rightarrow> (count, acc, c # s))"

definition read_number :: "nat \<Rightarrow> nat \<Rightarrow> bool \<Rightarrow> nat \<Rightarrow> string \<Rightarrow> (nat \<times> string) option" where
  "read_number radix max_digits allow_zero_prefix limit s =
     (case read_digits radix 0 0 s of
        (count, n, rest) \<Rightarrow>
          if count = 0 \<or> count > max_digits then None
          else if \<not> allow_zero_prefix \<and> take 1 s = ''0'' \<and> count > 1 then None
          else if n < limit then Some (n, rest) else None)"

definition read_separator :: "char \<Rightarrow> nat \<Rightarrow> (string \<Rightarrow> ('a \<times> string) option) \<Rightarrow> string \<Rightarrow> ('a \<times> string) option" where
  "read_separator sep index inner s =
     (if index > 0 then (if take 1 s = [sep] then inner (drop 1 s) else None) else inner s)"

definition read_octet :: "string \<Rightarrow> (nat \<times> string) option" where
  "read_octet s = read_number 10 3 False 256 s"

definition read_ipv4_addr :: "string \<Rightarrow> ((u8 \<times> u8 \<times> u8 \<times> u8) \<times> string) option" where
  "read_ipv4_addr s =
     (case read_separator CHR ''.'' 0 read_octet s of None \<Rightarrow> None | Some (a, s1) \<Rightarrow>
      case read_separator CHR ''.'' 1 read_octet s1 of None \<Rightarrow> None | Some (b, s2) \<Rightarrow>
      case read_separator CHR ''.'' 2 read_octet s2 of None \<Rightarrow> None | Some (c, s3) \<Rightarrow>
      case read_separator CHR ''.'' 3 read_octet s3 of None \<Rightarrow> None | Some (d, s4) \<Rightarrow>
        Some ((word_of_nat a, word_of_nat b, word_of_nat c, word_of_nat d), s4))"

definition groups_of_ipv4 :: "u8 \<times> u8 \<times> u8 \<times> u8 \<Rightarrow> u16 list" where
  "groups_of_ipv4 q = (case q of (a, b, c, d) \<Rightarrow>
     [word_of_nat (unat a * 256 + unat b), word_of_nat (unat c * 256 + unat d)])"

text \<open>The groups read from index \<open>i\<close> up to \<open>limit\<close>, whether the last two came from an IPv4 address, and the rest.\<close>

function read_groups :: "nat \<Rightarrow> nat \<Rightarrow> string \<Rightarrow> u16 list \<times> bool \<times> string" where
  "read_groups limit i s =
     (if i \<ge> limit then ([], False, s)
      else
        case (if i < limit - 1 then read_separator CHR '':'' i read_ipv4_addr s else None) of
          Some (v4, rest) \<Rightarrow> (groups_of_ipv4 v4, True, rest)
        | None \<Rightarrow>
            (case read_separator CHR '':'' i (read_number 16 4 True 65536) s of
               None \<Rightarrow> ([], False, s)
             | Some (g, rest) \<Rightarrow>
                 (case read_groups limit (Suc i) rest of (gs, v4, rest') \<Rightarrow> (word_of_nat g # gs, v4, rest'))))"
  by pat_completeness auto
termination by (relation "measure (\<lambda>(limit, i, s). limit - i)") auto

declare read_groups.simps [simp del]

definition read_ipv6_addr :: "string \<Rightarrow> (u16 list \<times> string) option" where
  "read_ipv6_addr s =
     (case read_groups 8 0 s of
        (hd_groups, head_ipv4, rest) \<Rightarrow>
          if length hd_groups = 8 then Some (hd_groups, rest)
          else if head_ipv4 then None
          else if take 2 rest \<noteq> ''::'' then None
          else
            (case read_groups (8 - (length hd_groups + 1)) 0 (drop 2 rest) of
               (tl_groups, _, rest') \<Rightarrow>
                 Some (hd_groups @ replicate (8 - length hd_groups - length tl_groups) 0 @ tl_groups, rest')))"

definition parse_ip :: "string \<Rightarrow> ip_addr option" where
  "parse_ip s =
     (case (case read_ipv4_addr s of
              Some ((a, b, c, d), rest) \<Rightarrow> Some (V4 a b c d, rest)
            | None \<Rightarrow> map_option (\<lambda>(gs, rest). (V6 gs, rest)) (read_ipv6_addr s)) of
        Some (ip, rest) \<Rightarrow> if rest = [] then Some ip else None
      | None \<Rightarrow> None)"

fun is_loopback :: "ip_addr \<Rightarrow> bool" where
  "is_loopback (V4 a b c d) \<longleftrightarrow> a = 127"
| "is_loopback (V6 gs) \<longleftrightarrow> gs = [0, 0, 0, 0, 0, 0, 0, 1]"

section \<open>Resolving\<close>

fun endpoint_preference :: "ip_addr \<Rightarrow> nat" where
  "endpoint_preference (V4 a b c d) =
     (if is_loopback (V4 a b c d) then 5
      else if a = 169 \<and> b = 254 then 4
      else if a = 172 then 1
      else 0)"
| "endpoint_preference (V6 gs) =
     (if is_loopback (V6 gs) then 5
      else if (gs ! 0) AND 0xFFC0 = 0xFE80 then 4
      else 3)"

fun candidate_hosts :: "string list \<Rightarrow> string list \<Rightarrow> string list" where
  "candidate_hosts hosts [] = hosts"
| "candidate_hosts hosts (raw # raws) =
     (let host = trim raw in
      if host = [] then candidate_hosts hosts raws
      else if \<not> list_ex (\<lambda>h. eq_ignore_ascii_case h host) hosts then candidate_hosts (hosts @ [host]) raws
      else candidate_hosts hosts raws)"

definition push_new :: "'a \<Rightarrow> 'a list \<Rightarrow> 'a list" where
  "push_new x xs = (if x \<in> set xs then xs else xs @ [x])"

definition host_endpoints :: "(string \<Rightarrow> u16 \<Rightarrow> endpoint list result) \<Rightarrow> u16 \<Rightarrow> string \<Rightarrow> endpoint list" where
  "host_endpoints lookup port host =
     (case parse_ip host of
        Some ip \<Rightarrow> [\<lparr>ep_ip = ip, ep_port = port\<rparr>]
      | None \<Rightarrow> (case lookup host port of Inr addrs \<Rightarrow> addrs | Inl _ \<Rightarrow> []))"

fun join_comma :: "string list \<Rightarrow> string" where
  "join_comma [] = []"
| "join_comma [s] = s"
| "join_comma (s # t # ss) = s @ '', '' @ join_comma (t # ss)"

definition resolve_endpoints :: "(string \<Rightarrow> u16 \<Rightarrow> endpoint list result) \<Rightarrow> omt_address \<Rightarrow> string list \<Rightarrow> endpoint list result" where
  "resolve_endpoints lookup parsed extra_addresses =
     (let hosts = candidate_hosts [] (extra_addresses @ oa_addresses parsed) in
      if hosts = [] then Inl (InvalidArgument ''receiver URL has no host addresses'')
      else
        let endpoints = fold (\<lambda>host. fold push_new (host_endpoints lookup (oa_port parsed) host)) hosts [] in
        if endpoints = [] then
          Inl (InvalidArgument (''could not resolve receiver host(s): '' @ join_comma hosts))
        else Inr (sort_key (\<lambda>e. endpoint_preference (ep_ip e)) endpoints))"

text \<open>\<open>dial\<close> is the outcome of \<open>connect\<close> on an endpoint; a stream is known by the endpoint it reached.\<close>

fun connect_loop :: "(endpoint \<Rightarrow> unit result) \<Rightarrow> endpoint list \<Rightarrow> omt_error option \<Rightarrow> endpoint result" where
  "connect_loop dial [] last_err =
     Inl (case last_err of Some e \<Rightarrow> e | None \<Rightarrow> Network ''connect failed: no endpoints available'')"
| "connect_loop dial (addr # addrs) last_err =
     (case dial addr of Inr _ \<Rightarrow> Inr addr | Inl e \<Rightarrow> connect_loop dial addrs (Some e))"

definition connect_first :: "(endpoint \<Rightarrow> unit result) \<Rightarrow> endpoint list \<Rightarrow> endpoint result" where
  "connect_first dial endpoints = connect_loop dial endpoints None"

section \<open>Lemmas\<close>

lemma set_push_new [simp]: "set (fold push_new xs ys) = set ys \<union> set xs"
  by (induction xs arbitrary: ys) (auto simp: push_new_def)

lemma distinct_push_new [simp]: "distinct (fold push_new xs ys) = distinct ys"
  by (induction xs arbitrary: ys) (auto simp: push_new_def)

lemma fold_hosts:
  "set (fold (\<lambda>h. fold push_new (f h)) hs ys) = set ys \<union> (\<Union>h \<in> set hs. set (f h))"
  "distinct (fold (\<lambda>h. fold push_new (f h)) hs ys) = distinct ys"
  by (induction hs arbitrary: ys) auto

text \<open>The hosts: trimmed, non-empty, no two equal up to case, and one for every non-empty candidate.\<close>

lemma candidate_hosts_facts:
  assumes "distinct (map to_ascii_lowercase hosts)" "\<forall>h \<in> set hosts. h \<noteq> [] \<and> trim h = h"
  shows "distinct (map to_ascii_lowercase (candidate_hosts hosts raws)) \<and>
    (\<forall>h \<in> set (candidate_hosts hosts raws). h \<noteq> [] \<and> trim h = h) \<and>
    to_ascii_lowercase ` set (candidate_hosts hosts raws) =
      to_ascii_lowercase ` (set hosts \<union> {h \<in> trim ` set raws. h \<noteq> []})"
  using assms
proof (induction hosts raws rule: candidate_hosts.induct)
  case (2 hosts raw raws)
  have cands: "{h \<in> trim ` set (raw # raws). h \<noteq> []} =
      (if trim raw = [] then {} else {trim raw}) \<union> {h \<in> trim ` set raws. h \<noteq> []}" by auto
  consider (empty) "trim raw = []" | (dup) "trim raw \<noteq> []" "to_ascii_lowercase (trim raw) \<in> to_ascii_lowercase ` set hosts"
    | (fresh) "trim raw \<noteq> []" "to_ascii_lowercase (trim raw) \<notin> to_ascii_lowercase ` set hosts" by blast
  then show ?case
  proof cases
    case empty
    then have "candidate_hosts hosts (raw # raws) = candidate_hosts hosts raws" by simp
    with 2(1) [OF refl empty 2(4,5)] empty show ?thesis unfolding cands by simp
  next
    case dup
    then have "list_ex (\<lambda>h. eq_ignore_ascii_case h (trim raw)) hosts"
      by (auto simp: list_ex_iff eq_ignore_ascii_case_def)
    moreover from dup have "to_ascii_lowercase ` (set hosts \<union> ({trim raw} \<union> R)) = to_ascii_lowercase ` (set hosts \<union> R)" for R
      by (simp add: image_Un insert_absorb)
    ultimately show ?thesis using 2(3) [OF refl dup(1) _ 2(4,5)] dup(1) unfolding cands by (simp add: Let_def)
  next
    case fresh
    then have no: "\<not> list_ex (\<lambda>h. eq_ignore_ascii_case h (trim raw)) hosts"
      by (force simp: list_ex_iff eq_ignore_ascii_case_def image_iff)
    have "distinct (map to_ascii_lowercase (hosts @ [trim raw]))" "\<forall>h \<in> set (hosts @ [trim raw]). h \<noteq> [] \<and> trim h = h"
      using 2(4,5) fresh by simp_all
    note ih = 2(2) [OF refl fresh(1) no this]
    have "candidate_hosts hosts (raw # raws) = candidate_hosts (hosts @ [trim raw]) raws" using fresh(1) no by simp
    moreover have "set (hosts @ [trim raw]) \<union> R = set hosts \<union> ({trim raw} \<union> R)" for R by auto
    ultimately show ?thesis using ih fresh(1) unfolding cands by simp
  qed
qed simp

lemma connect_loop_spec:
  "connect_loop dial es err =
     (case List.find (\<lambda>e. dial e = Inr ()) es of
        Some e \<Rightarrow> Inr e
      | None \<Rightarrow> Inl (if es \<noteq> [] then projl (dial (last es))
                   else case err of Some e \<Rightarrow> e | None \<Rightarrow> Network ''connect failed: no endpoints available''))"
  by (induction es arbitrary: err) (auto split: sum.split option.split)

text \<open>Reading back the four octets of an IPv4 address.\<close>

definition show_ipv4 :: "u8 \<Rightarrow> u8 \<Rightarrow> u8 \<Rightarrow> u8 \<Rightarrow> string" where
  "show_ipv4 a b c d = show_nat (unat a) @ ''.'' @ show_nat (unat b) @ ''.'' @ show_nat (unat c) @ ''.'' @ show_nat (unat d)"

lemma to_digit_char: "d < 10 \<Longrightarrow> to_digit 10 (digit_char d) = Some d"
  by (simp add: to_digit_def of_char_digit_char)

lemma digit_char_zero: "d < 10 \<Longrightarrow> digit_char d = CHR ''0'' \<longleftrightarrow> d = 0"
  using of_char_digit_char [of d] by (cases "d = 0") (code_simp, auto simp: digit_char_def dest: arg_cong [of _ _ "of_char :: char \<Rightarrow> nat"])

lemma read_digits_stop: "s = [] \<or> to_digit r (hd s) = None \<Longrightarrow> read_digits r n acc s = (n, acc, s)"
  by (cases s) auto

lemma read_digits_append:
  "\<forall>c \<in> set s. to_digit r c \<noteq> None \<Longrightarrow>
     read_digits r n acc (s @ t) = (case read_digits r n acc s of (n', acc', _) \<Rightarrow> read_digits r n' acc' t)"
  by (induction s arbitrary: n acc) auto

lemma read_digits_show_nat:
  assumes "t = [] \<or> to_digit 10 (hd t) = None" "n < 1000"
  shows "read_digits 10 0 0 (show_nat n @ t) = (length (show_nat n), n, t) \<and> length (show_nat n) \<le> 3 \<and>
    (take 1 (show_nat n) = ''0'' \<longrightarrow> n = 0)"
proof -
  note sn = show_nat.simps
  have stop: "read_digits 10 k acc t = (k, acc, t)" for k acc using assms(1) by (rule read_digits_stop)
  consider "n < 10" | "10 \<le> n" "n < 100" | "100 \<le> n" by linarith
  then show ?thesis
  proof cases
    case 1
    then show ?thesis by (simp add: sn [of n] to_digit_char stop digit_char_zero)
  next
    case 2
    then have "n div 10 < 10" by simp
    with 2 show ?thesis
      by (simp add: sn [of n] sn [of "n div 10"] to_digit_char stop mod_mult_div_eq [of _ 10] mult.commute [of _ 10] digit_char_zero)
  next
    case 3
    then have "n div 10 div 10 < 10" "n div 10 \<ge> 10" "n div 10 mod 10 < 10" "n mod 10 < 10" "\<not> n < 10" using assms(2) by simp_all
    moreover have "((n div 10 div 10) * 10 + n div 10 mod 10) * 10 + n mod 10 = n" by simp
    moreover have "n div 10 div 10 \<noteq> 0" using 3 by linarith
    ultimately show ?thesis
      by (simp add: sn [of n] sn [of "n div 10"] sn [of "n div 10 div 10"] to_digit_char stop digit_char_zero del: div_mult_mod_eq)
  qed
qed

lemma read_octet_show:
  assumes "t = [] \<or> hd t = CHR ''.''"
  shows "read_octet (show_nat (unat (a :: u8)) @ t) = Some (unat a, t)"
proof -
  have lt: "unat a < 256" using unsigned_less [of a] by simp
  have "t = [] \<or> to_digit 10 (hd t) = None" using assms by (auto simp: to_digit_def)
  with lt read_digits_show_nat [of t "unat a"] have
    "read_digits 10 0 0 (show_nat (unat a) @ t) = (length (show_nat (unat a)), unat a, t)" "length (show_nat (unat a)) \<le> 3"
    "take 1 (show_nat (unat a)) = ''0'' \<longrightarrow> unat a = 0" by simp_all
  moreover have "take 1 (show_nat (unat a) @ t) = take 1 (show_nat (unat a))" by (cases "show_nat (unat a)") auto
  moreover have "length (show_nat 0) = 1" by (simp add: show_nat.simps)
  ultimately show ?thesis using lt by (auto simp: read_octet_def read_number_def)
qed

lemma parse_show_ipv4: "parse_ip (show_ipv4 a b c d) = Some (V4 a b c d)"
  using read_octet_show [of "[]" d]
  by (simp add: parse_ip_def read_ipv4_addr_def show_ipv4_def read_separator_def read_octet_show)

lemma connect_first_sorted:
  assumes "sorted (map p es)"
  shows "case connect_first dial es of
      Inl _ \<Rightarrow> \<forall>x \<in> set es. dial x \<noteq> Inr ()
    | Inr e \<Rightarrow> e \<in> set es \<and> dial e = Inr () \<and> (\<forall>x \<in> set es. dial x = Inr () \<longrightarrow> p e \<le> p x)"
proof (cases "List.find (\<lambda>e. dial e = Inr ()) es")
  case None
  then show ?thesis unfolding connect_first_def connect_loop_spec by (simp only: option.case sum.case) (simp add: find_None_iff)
next
  case (Some e)
  then obtain i where i: "i < length es" "dial e = Inr ()" "e = es ! i" "\<forall>j < i. dial (es ! j) \<noteq> Inr ()"
    by (auto simp: find_Some_iff)
  have "p e \<le> p x" if x: "x \<in> set es" "dial x = Inr ()" for x
  proof -
    obtain j where j: "j < length es" "x = es ! j" using x(1) by (metis in_set_conv_nth)
    with i x(2) have "i \<le> j" by (metis linorder_not_le)
    with sorted_nth_mono [OF assms, of i j] i j show ?thesis by simp
  qed
  with Some i show ?thesis unfolding connect_first_def connect_loop_spec by simp
qed


definition sample_receiver_address :: omt_address where
  "sample_receiver_address = \<lparr>oa_name = ''Cam'', oa_machine_name = [], oa_port = 6400, oa_addresses = [''127.0.0.1''], oa_removed = False\<rparr>"


end
