(* ===== verification/Receiver.thy ===== *)
theory Receiver
  imports Receiver_Threads Endpoints
begin

text \<open>
  The receiver session (the third part of \<open>src/receive.rs\<close>): the supervisor of a socket with its reconnects,
  connecting a session, and the operations of the application on it. Every operation takes the outcomes of
  the system calls it makes; the other threads act between the steps. The state machine at the end composes
  everything that can happen to a session.
\<close>

section \<open>The supervisor of a socket\<close>

definition RECONNECT_MIN :: nat where "RECONNECT_MIN = 250"
definition RECONNECT_MAX :: nat where "RECONNECT_MAX = 2000"

text \<open>A role with its \<open>decode_audio\<close> flag; the channels it sends on are those of the receiver.\<close>

datatype socket_role = RoleVideo bool | RoleAudio

fun is_video_role :: "socket_role \<Rightarrow> bool" where
  "is_video_role (RoleVideo _) = True"
| "is_video_role RoleAudio = False"

definition subscribe_socket :: "unit result \<Rightarrow> write_result list \<Rightarrow> receiver_config \<Rightarrow> socket_role \<Rightarrow> receiver \<Rightarrow> unit result \<times> bytes" where
  "subscribe_socket clone ws config role r =
     (case clone of
        Inl e \<Rightarrow> (Inl e, [])
      | Inr _ \<Rightarrow>
          let quality = quality_from_i32 (rs_quality r); preview = rs_preview r in
          (case role of
             RoleVideo decode_audio \<Rightarrow>
               (case send_subscriptions (Some ws) None (rc_frame_types config) quality preview decode_audio of
                  (res, out, _) \<Rightarrow> (res, out))
           | RoleAudio \<Rightarrow>
               (case send_subscriptions None (Some ws) (rc_frame_types config) quality False False of
                  (res, _, out) \<Rightarrow> (res, out))))"

text \<open>The stop flag as it is found at each wake-up before the deadline, and at the end.\<close>

fun interruptible_sleep :: "bool list \<Rightarrow> bool \<Rightarrow> bool" where
  "interruptible_sleep [] at_end = (\<not> at_end)"
| "interruptible_sleep (stop # polls) at_end = (if stop then False else interruptible_sleep polls at_end)"

record supervisor =
  su_backoff :: nat
  su_use_primed :: bool
  su_primed :: bool

definition supervisor_new :: "bool \<Rightarrow> supervisor" where
  "supervisor_new primed = \<lparr>su_backoff = RECONNECT_MIN, su_use_primed = primed, su_primed = primed\<rparr>"

text \<open>The outcomes of the calls of one turn of the supervisor's loop.\<close>

record attempt =
  at_before :: "receiver \<Rightarrow> receiver"
  at_sleep :: "bool list"
  at_sleep_end :: bool
  at_dial :: "endpoint \<Rightarrow> unit result"
  at_clone :: "unit result"
  at_writes :: "write_result list"
  at_installed :: bool
  at_turns :: "reader_turn list"
  at_reads :: reader
  at_after :: "receiver \<Rightarrow> receiver"

datatype progress = Leave | Retry | Stream

definition obtain_stream :: "(vmx_error \<Rightarrow> string) \<Rightarrow> endpoint list \<Rightarrow> receiver_config \<Rightarrow> attempt \<Rightarrow> supervisor \<Rightarrow> receiver \<Rightarrow>
    progress \<times> supervisor \<times> receiver" where
  "obtain_stream vd endpoints config a s r =
     (if su_primed s then (Stream, s\<lparr>su_primed := False\<rparr>, r)
      else
        let reconnect = (\<not> su_use_primed s);
            r1 = (if reconnect then bump_reconnect (set_state Reconnecting r) else r) in
        if reconnect \<and> \<not> interruptible_sleep (at_sleep a) (at_sleep_end a) then (Leave, s, r1)
        else
          let s1 = (if reconnect then s\<lparr>su_backoff := min (su_backoff s * 2) RECONNECT_MAX\<rparr> else s);
              s2 = s1\<lparr>su_use_primed := False\<rparr>;
              r2 = set_state Connecting r1 in
          case connect_first (at_dial a) endpoints of
            Inr _ \<Rightarrow> (Stream, s2, r2)
          | Inl e \<Rightarrow>
              (if rc_auto_reconnect config then Retry else Leave, s2, set_error (''connect failed: '' @ error_display vd e) r2))"

definition role_reader :: "(nat \<Rightarrow> nat) \<Rightarrow> (vmx_error \<Rightarrow> string) \<Rightarrow> socket_role \<Rightarrow> reader_turn list \<Rightarrow> reader \<Rightarrow> receiver \<Rightarrow>
    (bool \<times> reader_loop \<times> receiver) option" where
  "role_reader grow vd role turns rd r =
     (case role of
        RoleVideo decode_audio \<Rightarrow> video_reader_loop grow vd decode_audio turns (video_loop_new grow rd) r
      | RoleAudio \<Rightarrow> audio_reader_loop grow vd turns (audio_loop_new grow rd) r)"

text \<open>One turn of the loop of \<open>socket_supervisor\<close>: how it ends, with the bytes written to the socket. \<open>None\<close>:
  the reader of this turn is still running (or has panicked).\<close>

definition supervisor_turn :: "(nat \<Rightarrow> nat) \<Rightarrow> (vmx_error \<Rightarrow> string) \<Rightarrow> endpoint list \<Rightarrow> receiver_config \<Rightarrow> socket_role \<Rightarrow> attempt \<Rightarrow>
    supervisor \<Rightarrow> receiver \<Rightarrow> (progress \<times> supervisor \<times> receiver \<times> bytes) option" where
  "supervisor_turn grow vd endpoints config role a s r =
     (let r0 = at_before a r; again = (if rc_auto_reconnect config then Retry else Leave) in
      if rs_stop r0 then Some (Leave, s, r0, [])
      else
        case obtain_stream vd endpoints config a s r0 of
          (Leave, s1, r1) \<Rightarrow> Some (Leave, s1, r1, [])
        | (Retry, s1, r1) \<Rightarrow> Some (Retry, s1, r1, [])
        | (Stream, s1, r1) \<Rightarrow>
            let is_reconnect = (\<not> su_use_primed s1); s2 = s1\<lparr>su_use_primed := False\<rparr> in
            (case (if is_reconnect then subscribe_socket (at_clone a) (at_writes a) config role r1 else (Inr (), [])) of
               (Inl e, out) \<Rightarrow> Some (again, s2, set_error (''subscribe failed: '' @ error_display vd e) r1, out)
             | (Inr _, out) \<Rightarrow>
                 let r2 = install_io (at_installed a) (is_video_role role) (set_state Connected r1);
                     s3 = s2\<lparr>su_backoff := RECONNECT_MIN\<rparr> in
                 (case role_reader grow vd role (at_turns a) (at_reads a) r2 of
                    None \<Rightarrow> None
                  | Some (True, _, _) \<Rightarrow> None
                  | Some (False, l, r3) \<Rightarrow>
                      let r4 = at_after a (clear_io (is_video_role role) r3) in
                      if rs_stop r4 then Some (Leave, s3, r4, out @ lp_out l)
                      else Some (again, s3, set_error (if is_video_role role then ''video socket closed'' else ''audio socket closed'') r4,
                                 out @ lp_out l))))"

text \<open>The loop over its turns, while they end with \<open>Retry\<close>.\<close>

fun socket_supervisor :: "(nat \<Rightarrow> nat) \<Rightarrow> (vmx_error \<Rightarrow> string) \<Rightarrow> endpoint list \<Rightarrow> receiver_config \<Rightarrow> socket_role \<Rightarrow> attempt list \<Rightarrow>
    supervisor \<Rightarrow> receiver \<Rightarrow> (progress \<times> supervisor \<times> receiver) option" where
  "socket_supervisor grow vd endpoints config role [] s r = Some (Retry, s, r)"
| "socket_supervisor grow vd endpoints config role (a # as) s r =
     (case supervisor_turn grow vd endpoints config role a s r of
        None \<Rightarrow> None
      | Some (Retry, s', r', _) \<Rightarrow> socket_supervisor grow vd endpoints config role as s' r'
      | Some (p, s', r', _) \<Rightarrow> Some (p, s', r'))"

section \<open>The session\<close>

record session =
  se_address :: string
  se_config :: receiver_config
  se_rx :: receiver
  se_can_send_metadata :: bool

text \<open>The outcomes of the calls made while connecting.\<close>

record connect_env =
  ce_lookup :: "string \<Rightarrow> u16 \<Rightarrow> endpoint list result"
  ce_dial_video :: "endpoint \<Rightarrow> unit result"
  ce_writes_video :: "write_result list"
  ce_dial_audio :: "endpoint \<Rightarrow> unit result"
  ce_writes_audio :: "write_result list"
  ce_spawn :: "string \<Rightarrow> string + unit"

definition want_video :: "frame_type \<Rightarrow> bool" where
  "want_video ft \<longleftrightarrow> ft_contains ft FT_VIDEO \<or> ft_contains ft FT_METADATA \<or> ft = FT_NONE"

definition want_audio :: "frame_type \<Rightarrow> bool" where
  "want_audio ft \<longleftrightarrow> ft_contains ft FT_AUDIO"

definition open_video :: "connect_env \<Rightarrow> endpoint list \<Rightarrow> receiver_config \<Rightarrow> bytes result" where
  "open_video env endpoints config =
     (case connect_first (ce_dial_video env) endpoints of
        Inl e \<Rightarrow> Inl e
      | Inr _ \<Rightarrow>
          (case send_subscriptions (Some (ce_writes_video env)) None (rc_frame_types config) (rc_quality config) (rc_preview config) False of
             (Inl e, _, _) \<Rightarrow> Inl e
           | (Inr _, out, _) \<Rightarrow> Inr out))"

definition open_audio :: "connect_env \<Rightarrow> endpoint list \<Rightarrow> receiver_config \<Rightarrow> bytes result" where
  "open_audio env endpoints config =
     (case connect_first (ce_dial_audio env) endpoints of
        Inl e \<Rightarrow> Inl e
      | Inr _ \<Rightarrow>
          (case send_subscriptions None (Some (ce_writes_audio env)) (rc_frame_types config) (rc_quality config) False False of
             (Inl e, _, _) \<Rightarrow> Inl e
           | (Inr _, _, out) \<Rightarrow> Inr out))"

text \<open>The threads to start, in order: the decoder, then a supervisor for each socket.\<close>

definition session_threads :: "receiver_config \<Rightarrow> (string \<times> (socket_role \<times> supervisor) option) list" where
  "session_threads config =
     [(''omt-rx-vmx-decode'', None)] @
     (if want_video (rc_frame_types config) then [(''omt-rx-video-io'', Some (RoleVideo False, supervisor_new True))] else []) @
     (if want_audio (rc_frame_types config) then [(''omt-rx-audio-io'', Some (RoleAudio, supervisor_new True))] else [])"

fun spawn_all :: "(string \<Rightarrow> string + unit) \<Rightarrow> (string \<times> 'a) list \<Rightarrow> unit result" where
  "spawn_all spawn [] = Inr ()"
| "spawn_all spawn ((name, _) # ts) = (case spawn name of Inl m \<Rightarrow> Inl (Network m) | Inr _ \<Rightarrow> spawn_all spawn ts)"

text \<open>The session with the bytes written to its video and audio sockets; \<open>None\<close> is a panic in the URL parser.\<close>

definition connect_with_addresses :: "connect_env \<Rightarrow> string \<Rightarrow> string list \<Rightarrow> receiver_config \<Rightarrow> (session \<times> bytes \<times> bytes) result option" where
  "connect_with_addresses env address extra_addresses config =
     (if address = [] then Some (Inl (InvalidArgument ''receiver address is empty''))
      else
        case from_url address of
          None \<Rightarrow> None
        | Some (Inl e) \<Rightarrow> Some (Inl e)
        | Some (Inr parsed) \<Rightarrow>
            Some (if oa_port parsed = 0 then Inl (InvalidArgument ''receiver URL must include a port'')
              else
                case resolve_endpoints (ce_lookup env) parsed extra_addresses of
                  Inl e \<Rightarrow> Inl e
                | Inr endpoints \<Rightarrow>
                    (case (if want_video (rc_frame_types config) then open_video env endpoints config else Inr []) of
                       Inl e \<Rightarrow> Inl e
                     | Inr out_video \<Rightarrow>
                         (case (if want_audio (rc_frame_types config) then open_audio env endpoints config else Inr []) of
                            Inl e \<Rightarrow> Inl e
                          | Inr out_audio \<Rightarrow>
                              (case spawn_all (ce_spawn env) (session_threads config) of
                                 Inl e \<Rightarrow> Inl e
                               | Inr _ \<Rightarrow>
                                   Inr (\<lparr>se_address = address, se_config = config, se_rx = receiver_new config,
                                         se_can_send_metadata = want_video (rc_frame_types config)\<rparr>, out_video, out_audio))))))"

definition session_connect :: "connect_env \<Rightarrow> string \<Rightarrow> receiver_config \<Rightarrow> (session \<times> bytes \<times> bytes) result option" where
  "session_connect env address config = connect_with_addresses env address [] config"

definition connect_from_address :: "connect_env \<Rightarrow> omt_address \<Rightarrow> receiver_config \<Rightarrow> (session \<times> bytes \<times> bytes) result option" where
  "connect_from_address env addr config = connect_with_addresses env (to_url addr) (oa_addresses addr) config"

subsection \<open>Operations of the application\<close>

definition try_recv_video :: "receiver \<Rightarrow> decoded_video_frame option \<times> receiver" where
  "try_recv_video r = (case try_take (rs_video r) of (f, q) \<Rightarrow> (f, r\<lparr>rs_video := q\<rparr>))"

definition recv_video_timeout :: "(bool \<times> bool \<times> (decoded_video_frame decoded_queue \<Rightarrow> decoded_video_frame decoded_queue)) list \<Rightarrow> receiver \<Rightarrow>
    (decoded_video_frame option \<times> receiver) option" where
  "recv_video_timeout wakes r = map_option (\<lambda>(f, q). (f, r\<lparr>rs_video := q\<rparr>)) (wait_take wakes (rs_video r))"

definition try_recv_audio :: "receiver \<Rightarrow> decoded_audio_frame option \<times> receiver" where
  "try_recv_audio r = (case chan_poll (rx_audio r) of (f, q) \<Rightarrow> (f, r\<lparr>rx_audio := q\<rparr>))"

definition receiver_try_recv_metadata :: "receiver \<Rightarrow> metadata_frame option \<times> receiver" where
  "receiver_try_recv_metadata r = (case chan_poll (rx_meta r) of (f, q) \<Rightarrow> (f, r\<lparr>rx_meta := q\<rparr>))"

definition set_encoded_capture :: "bool \<Rightarrow> receiver \<Rightarrow> receiver" where
  "set_encoded_capture on r = r\<lparr>rs_encoded := set_capture on (rs_encoded r)\<rparr>"

definition try_recv_vmx1 :: "receiver \<Rightarrow> compressed_video_frame option \<times> receiver" where
  "try_recv_vmx1 r = (case capture_take (rs_encoded r) of (f, e) \<Rightarrow> (f, r\<lparr>rs_encoded := e\<rparr>))"

definition receiver_send_metadata :: "string \<Rightarrow> session \<Rightarrow> unit result \<times> session" where
  "receiver_send_metadata xml s =
     (if \<not> se_can_send_metadata s then (Inl (InvalidArgument ''receiver has no metadata-capable socket''), s)
      else (Inr (), s\<lparr>se_rx := (se_rx s)\<lparr>rs_outbound_meta := rs_outbound_meta (se_rx s) @ [xml]\<rparr>\<rparr>))"

definition set_tally :: "tally \<Rightarrow> session \<Rightarrow> unit result \<times> session" where
  "set_tally tally s = receiver_send_metadata (tally_xml tally) s"

definition set_preview :: "bool \<Rightarrow> session \<Rightarrow> unit result \<times> session" where
  "set_preview preview s =
     receiver_send_metadata (if preview then PREVIEW_ON else PREVIEW_OFF) (s\<lparr>se_rx := (se_rx s)\<lparr>rs_preview := preview\<rparr>\<rparr>)"

definition set_suggested_quality :: "quality \<Rightarrow> session \<Rightarrow> unit result \<times> session" where
  "set_suggested_quality quality s =
     receiver_send_metadata (suggested_quality_xml quality) (s\<lparr>se_rx := (se_rx s)\<lparr>rs_quality := quality_i32 quality\<rparr>\<rparr>)"

definition session_preview :: "session \<Rightarrow> bool" where "session_preview s = rs_preview (se_rx s)"
definition suggested_quality :: "session \<Rightarrow> quality" where "suggested_quality s = quality_from_i32 (rs_quality (se_rx s))"

definition session_address :: "session \<Rightarrow> string" where "session_address s = se_address s"
definition session_frame_types :: "session \<Rightarrow> frame_type" where "session_frame_types s = rc_frame_types (se_config s)"

text \<open>The state and the last error read as \<open>Stopped\<close> and as nothing when their lock is poisoned.\<close>

definition session_state_of :: "bool \<Rightarrow> session \<Rightarrow> session_state" where
  "session_state_of poisoned s = (if poisoned then Stopped else rs_state (se_rx s))"

definition session_last_error :: "bool \<Rightarrow> session \<Rightarrow> string option" where
  "session_last_error poisoned s = (if poisoned then None else rs_last_error (se_rx s))"

definition session_encoded_capture :: "session \<Rightarrow> bool" where "session_encoded_capture s = ec_capture (rs_encoded (se_rx s))"
definition session_encoded_dropped :: "session \<Rightarrow> u64" where "session_encoded_dropped s = ec_dropped (rs_encoded (se_rx s))"

definition session_statistics_of :: "session \<Rightarrow> session_statistics" where
  "session_statistics_of s = (rs_stats (se_rx s))\<lparr>ss_wire_queue_depth := rs_wire_depth (se_rx s),
     ss_decoded_queue_depth := dq_depth (rs_video (se_rx s))\<rparr>"

text \<open>\<open>others\<close> is what the threads still do until they have been joined.\<close>

definition disconnect :: "(receiver \<Rightarrow> receiver) \<Rightarrow> receiver \<Rightarrow> receiver" where
  "disconnect others r = set_state Stopped (others (shutdown_io ((set_state Stopping r)\<lparr>rs_stop := True\<rparr>)))"

text \<open>Dropping the session joins the threads in the opposite order.\<close>

definition drop_session :: "(receiver \<Rightarrow> receiver) \<Rightarrow> receiver \<Rightarrow> receiver" where
  "drop_session others r = set_state Stopped (others (shutdown_io ((set_state Stopping r)\<lparr>rs_stop := True\<rparr>)))"

section \<open>The session as a state machine\<close>

text \<open>Everything that changes the shared state, one action of one thread at a time; the local states of the
  threads are arbitrary.\<close>

inductive receiver_step :: "'c vmx_decoder \<Rightarrow> receiver \<Rightarrow> receiver \<Rightarrow> bool" for D where
  step_video_reader: "video_reader_body grow vd here now ws l r = Some (b, l', r') \<Longrightarrow> receiver_step D r r'"
| step_audio_reader: "audio_reader_body grow vd l r = Some (b, l', r') \<Longrightarrow> receiver_step D r r'"
| step_decoder: "video_decode_body D vd t0 t1 dl r = (b, dl', r') \<Longrightarrow> receiver_step D r r'"
| step_obtain: "obtain_stream vd endpoints config a s r = (p, s', r') \<Longrightarrow> receiver_step D r r'"
| step_error: "receiver_step D r (set_error m r)"
| step_connected: "receiver_step D r (install_io cloned video (set_state Connected r))"
| step_closed: "receiver_step D r (clear_io video r)"
| step_take_video: "receiver_step D r (snd (try_recv_video r))"
| step_take_audio: "receiver_step D r (snd (try_recv_audio r))"
| step_take_metadata: "receiver_step D r (snd (receiver_try_recv_metadata r))"
| step_capture: "receiver_step D r (set_encoded_capture on r)"
| step_take_capture: "receiver_step D r (snd (try_recv_vmx1 r))"
| step_send: "se_rx s = r \<Longrightarrow> receiver_step D r (se_rx (snd (receiver_send_metadata xml s)))"
| step_preview: "se_rx s = r \<Longrightarrow> receiver_step D r (se_rx (snd (set_preview preview s)))"
| step_quality: "se_rx s = r \<Longrightarrow> receiver_step D r (se_rx (snd (set_suggested_quality q s)))"
| step_stop: "receiver_step D r (disconnect (\<lambda>r. r) r)"

lemma obtain_stream_inv: "receiver_inv r \<Longrightarrow> obtain_stream vd endpoints config a s r = (p, s', r') \<Longrightarrow> receiver_inv r'"
  by (auto simp: obtain_stream_def Let_def split: if_splits sum.splits)

lemma take_video_inv:
  assumes "receiver_inv r"
  shows "receiver_inv (snd (try_recv_video r))"
proof -
  obtain f q where t: "try_take (rs_video r) = (f, q)" by fastforce
  have "decoded_queue_ok q" using assms try_take_ok [OF _ t] by (simp add: receiver_inv_def)
  moreover have "dq_cap q = dq_cap (rs_video r)" "list_all video_frame_ok (dq_slot q)"
    using t assms by (auto simp: try_take_def receiver_inv_def split: list.splits)
  ultimately show ?thesis using t assms by (simp add: try_recv_video_def receiver_inv_def)
qed

lemma take_channel_inv:
  "receiver_inv r \<Longrightarrow> receiver_inv (snd (try_recv_audio r))" "receiver_inv r \<Longrightarrow> receiver_inv (snd (receiver_try_recv_metadata r))"
  using chan_ok_poll [of _ _ "rx_audio r"] chan_ok_poll [of _ _ "rx_meta r"]
  by (auto simp: try_recv_audio_def receiver_try_recv_metadata_def receiver_inv_def split: prod.splits)

lemma send_inv [simp]: "receiver_inv (se_rx (snd (receiver_send_metadata xml s))) = receiver_inv (se_rx s)"
  by (simp add: receiver_send_metadata_def)

lemma api_inv:
  "receiver_inv (set_encoded_capture on r) = receiver_inv r" "receiver_inv (snd (try_recv_vmx1 r)) = receiver_inv r"
  "receiver_inv (se_rx (snd (set_preview p s))) = receiver_inv (se_rx s)"
  "receiver_inv (se_rx (snd (set_suggested_quality q s))) = receiver_inv (se_rx s)"
  "receiver_inv (disconnect (\<lambda>r. r) r) = receiver_inv r"
  by (simp_all add: set_encoded_capture_def try_recv_vmx1_def set_preview_def set_suggested_quality_def disconnect_def split: prod.split)

lemma receiver_step_inv:
  assumes "keeps_length D" "receiver_step D r r'" "receiver_inv r"
  shows "receiver_inv r'"
  using assms(2)
proof (cases rule: receiver_step.cases)
  case step_video_reader
  then show ?thesis using video_body_inv [OF assms(3)] by blast
next
  case step_audio_reader
  then show ?thesis using audio_body_inv [OF assms(3)] by blast
next
  case step_decoder
  then show ?thesis using decode_body_inv [OF assms(1,3)] by blast
next
  case step_obtain
  then show ?thesis using obtain_stream_inv [OF assms(3)] by blast
qed (use assms(3) in \<open>simp_all add: take_video_inv take_channel_inv api_inv\<close>)

text \<open>The steps of a decoder that keeps the length of its buffer.\<close>

definition sound_step :: "'c vmx_decoder \<Rightarrow> receiver \<Rightarrow> receiver \<Rightarrow> bool" where
  "sound_step D r r' \<longleftrightarrow> keeps_length D \<and> receiver_step D r r'"

interpretation rcv_machine: state_machine "\<lambda>r. \<exists>config. r = receiver_new config" "sound_step D" receiver_inv for D
  by unfold_locales (auto simp: sound_step_def receiver_inv_new intro: receiver_step_inv)

lemma sound_steps: "keeps_length D \<Longrightarrow> (receiver_step D)\<^sup>*\<^sup>* r r' \<Longrightarrow> (sound_step D)\<^sup>*\<^sup>* r r'"
  by (simp add: sound_step_def [abs_def])

text \<open>C12: Whatever the sender transmits, the network does and the application calls, in any interleaving of the
  reader, decoder and supervisor threads: the compressed queue never holds more than 3 frames, the audio queue
  10, the metadata queue 60 and the decoded queue 1 with its depth counter exact; every queued bitstream is
  within the maximum size, every audio frame has 1 to 32 channels with all their samples, and every picture
  has all its pixels.\<close>

theorem receiver_invariant:
  assumes "keeps_length D" "(receiver_step D)\<^sup>*\<^sup>* (receiver_new config) r"
  shows "length (sy_items (rx_wire r)) \<le> 3 \<and> length (sy_items (rx_audio r)) \<le> 10 \<and> length (sy_items (rx_meta r)) \<le> 60 \<and>
    length (dq_slot (rs_video r)) \<le> 1 \<and> dq_depth (rs_video r) = word_of_nat (length (dq_slot (rs_video r))) \<and>
    list_all (\<lambda>w. length (vec_data (wv_payload w)) \<le> VIDEO_MAX_SIZE \<and> 1 \<le> sint (wv_frame_rate_d w)) (sy_items (rx_wire r)) \<and>
    list_all audio_frame_ok (sy_items (rx_audio r)) \<and> list_all video_frame_ok (dq_slot (rs_video r))"
proof -
  have "receiver_inv r"
    by (rule rcv_machine.reachable_inv [OF _ sound_steps [OF assms]]) blast
  then show ?thesis
    unfolding receiver_inv_def chan_ok_def decoded_queue_ok_def VIDEO_WIRE_Q_def AUDIO_Q_def METADATA_Q_def VIDEO_DECODED_Q_def
    by (simp add: list_all_iff wire_video_ok_def)
qed

text \<open>A decoder that paints every picture black.\<close>

definition black_decoder :: "(i32 \<times> i32) vmx_decoder" where
  "black_decoder = \<lparr>vd_min_width = 16, vd_min_height = 16, vd_new = (\<lambda>w h _ _. Some (Inr (w, h))), vd_size = (\<lambda>c. c),
     vd_set_color_space = (\<lambda>_ c. c), vd_load = (\<lambda>_ c. (Some (Inr ()), c)), vd_preview_size = (\<lambda>(w, h). (w div 8, h div 8)),
     vd_decode_bgra = (\<lambda>_ buf c. (Some (Inr ()), replicate (length buf) 0, c)),
     vd_decode_preview_bgra = (\<lambda>_ buf c. (Some (Inr ()), replicate (length buf) 0, c))\<rparr>"

lemma black_decoder_keeps: "keeps_length black_decoder"
  by (simp add: keeps_length_def black_decoder_def)

theorem receiver_invariant_witness:
  "let r = receiver_new receiver_config_default in
   (receiver_step black_decoder)\<^sup>*\<^sup>* r (set_encoded_capture True r) \<and> length (sy_items (rx_wire (set_encoded_capture True r))) \<le> 3"
proof -
  let ?r = "receiver_new receiver_config_default"
  have "(receiver_step black_decoder)\<^sup>*\<^sup>* ?r (set_encoded_capture True ?r)" by (intro r_into_rtranclp step_capture)
  with receiver_invariant [OF black_decoder_keeps this] show ?thesis by (simp add: Let_def)
qed

section \<open>Reconnecting\<close>

definition fails_to_connect :: "endpoint list \<Rightarrow> attempt \<Rightarrow> bool" where
  "fails_to_connect endpoints a \<longleftrightarrow> at_before a = (\<lambda>r. r) \<and> interruptible_sleep (at_sleep a) (at_sleep_end a) \<and>
     (\<forall>e \<in> set endpoints. at_dial a e \<noteq> Inr ())"

lemma connect_first_fails: "\<forall>e \<in> set es. dial e \<noteq> Inr () \<Longrightarrow> \<exists>e. connect_first dial es = Inl e"
proof -
  assume "\<forall>e \<in> set es. dial e \<noteq> Inr ()"
  then have "List.find (\<lambda>e. dial e = Inr ()) es = None" by (auto simp: find_None_iff)
  then show ?thesis unfolding connect_first_def connect_loop_spec by (simp only: option.case) blast
qed

lemma failed_turn:
  assumes "fails_to_connect endpoints a" "rc_auto_reconnect config" "\<not> su_primed s" "\<not> su_use_primed s" "\<not> rs_stop r"
  obtains r' where "supervisor_turn grow vd endpoints config role a s r = Some (Retry, s\<lparr>su_backoff := min (su_backoff s * 2) RECONNECT_MAX\<rparr>, r', [])"
    "\<not> rs_stop r'" "rs_stats r' = (rs_stats r)\<lparr>ss_reconnects := sat_add_u (ss_reconnects (rs_stats r)) 1\<rparr>" "rs_state r' = Connecting"
    "rs_last_error r' \<noteq> None"
proof -
  obtain e where e: "connect_first (at_dial a) endpoints = Inl e"
    using assms(1) connect_first_fails unfolding fails_to_connect_def by blast
  let ?r = "set_error (''connect failed: '' @ error_display vd e) (set_state Connecting (bump_reconnect (set_state Reconnecting r)))"
  have "obtain_stream vd endpoints config a s r = (Retry, s\<lparr>su_backoff := min (su_backoff s * 2) RECONNECT_MAX\<rparr>, ?r)"
    using assms e by (cases s) (simp add: obtain_stream_def fails_to_connect_def)
  then have "supervisor_turn grow vd endpoints config role a s r = Some (Retry, s\<lparr>su_backoff := min (su_backoff s * 2) RECONNECT_MAX\<rparr>, ?r, [])"
    using assms by (simp add: supervisor_turn_def fails_to_connect_def Let_def)
  then show ?thesis
    by (rule that) (use assms(5) in \<open>simp_all add: set_state_def bump_reconnect_def\<close>)
qed

lemma min_scaled: "1 \<le> k \<Longrightarrow> min (min x m * k) m = min (x * k) (m :: nat)"
proof (cases "x \<le> m")
  case False
  assume "1 \<le> k"
  then have "m \<le> m * k" "m \<le> x * k" using False mult_le_mono [of m x 1 k] by simp_all
  with False show ?thesis by (simp only: min_absorb2 min_absorb1 nat_le_linear not_le less_imp_le)
qed simp

lemma failed_turns:
  assumes "\<forall>a \<in> set as. fails_to_connect endpoints a" "rc_auto_reconnect config" "\<not> su_primed s" "\<not> su_use_primed s" "\<not> rs_stop r"
    "su_backoff s \<le> RECONNECT_MAX"
  shows "\<exists>r'. socket_supervisor grow vd endpoints config role as s r =
      Some (Retry, s\<lparr>su_backoff := min (su_backoff s * 2 ^ length as) RECONNECT_MAX\<rparr>, r') \<and> \<not> rs_stop r' \<and>
    unat (ss_reconnects (rs_stats r')) = min (2 ^ 64 - 1) (unat (ss_reconnects (rs_stats r)) + length as) \<and>
    (as \<noteq> [] \<longrightarrow> rs_state r' = Connecting \<and> rs_last_error r' \<noteq> None)"
  using assms
proof (induction as arbitrary: s r)
  case Nil
  have "unat (ss_reconnects (rs_stats r)) < 2 ^ 64" using unsigned_less [of "ss_reconnects (rs_stats r)"] by simp
  with Nil show ?case by (cases s) simp
next
  case (Cons a as)
  have fa: "fails_to_connect endpoints a" using Cons.prems(1) by simp
  obtain r1 where t: "supervisor_turn grow vd endpoints config role a s r =
      Some (Retry, s\<lparr>su_backoff := min (su_backoff s * 2) RECONNECT_MAX\<rparr>, r1, [])"
    "\<not> rs_stop r1" "rs_stats r1 = (rs_stats r)\<lparr>ss_reconnects := sat_add_u (ss_reconnects (rs_stats r)) 1\<rparr>" "rs_state r1 = Connecting"
    "rs_last_error r1 \<noteq> None"
    by (rule failed_turn [OF fa Cons.prems(2-5)])
  let ?s = "s\<lparr>su_backoff := min (su_backoff s * 2) RECONNECT_MAX\<rparr>"
  have "min (min (su_backoff s * 2) RECONNECT_MAX * 2 ^ length as) RECONNECT_MAX = min (su_backoff s * 2 ^ length (a # as)) RECONNECT_MAX"
    using min_scaled [of "2 ^ length as" "su_backoff s * 2" RECONNECT_MAX] by (simp add: mult.assoc)
  moreover obtain r' where ih: "socket_supervisor grow vd endpoints config role as ?s r1 =
      Some (Retry, ?s\<lparr>su_backoff := min (su_backoff ?s * 2 ^ length as) RECONNECT_MAX\<rparr>, r')" "\<not> rs_stop r'"
    "unat (ss_reconnects (rs_stats r')) = min (2 ^ 64 - 1) (unat (ss_reconnects (rs_stats r1)) + length as)"
    "as \<noteq> [] \<longrightarrow> rs_state r' = Connecting \<and> rs_last_error r' \<noteq> None"
    using Cons.IH [of ?s r1] Cons.prems t(2) by auto
  moreover have "rs_state r' = Connecting \<and> rs_last_error r' \<noteq> None"
    using ih(1,4) t(4,5) by (cases as) auto
  ultimately show ?case
    using t(1,3) by (auto simp: unat_sat_add_u)
qed


definition refused_attempt :: attempt where
  "refused_attempt = \<lparr>at_before = (\<lambda>r. r), at_sleep = [False, False], at_sleep_end = False, at_dial = (\<lambda>_. Inl (Network ''refused'')),
     at_clone = Inr (), at_writes = [], at_installed = True, at_turns = [], at_reads = [], at_after = (\<lambda>r. r)\<rparr>"


section \<open>Subscribing\<close>

lemma write_documents_out:
  "write_documents docs ws = (Inr u, out, ws') \<Longrightarrow> out = concat (map (\<lambda>xml. assembled_to_bytes (control_frame 0 xml)) docs)"
proof (induction docs arbitrary: ws out)
  case (Cons xml docs)
  obtain res o1 ws1 where w: "write_metadata_frame xml ws = (res, o1, ws1)" by (metis prod_cases3)
  then have "write_all (assembled_to_bytes (control_frame 0 xml)) ws = (res, o1, ws1)" by (simp add: write_metadata_frame_def)
  moreover have "res = Inr ()" using Cons.prems w by (auto split: sum.splits)
  ultimately have "o1 = assembled_to_bytes (control_frame 0 xml)" by (metis append_Nil2 write_all_prefix)
  with Cons w \<open>res = Inr ()\<close> show ?case by (auto split: prod.splits)
qed simp

lemma quality_from_as_i32 [simp]: "quality_from_i32 (quality_i32 q) = q"
  by (cases q) (simp_all add: quality_from_i32_def)

end
