(* ===== verification/Texture_Receiver.thy ===== *)
theory Texture_Receiver
  imports Receiver
begin

text \<open>
  Receiving into GPU textures (feature \<open>wgpu\<close> of \<open>src/receive.rs\<close>): a session whose configuration has a GPU
  context decodes every frame to a texture and keeps textures, not pixels, in the queue of decoded frames. The
  queue is the polymorphic one of the receiver's queues. The lemmas show that the texture decoder is, in
  everything but the frames themselves, the pixel decoder: the same counters, queue lengths, channels and pools.
\<close>

section \<open>Definitions\<close>

record 't decoded_gpu_frame =
  dg_width :: u32
  dg_height :: u32
  dg_timestamp :: i64
  dg_frame_rate_n :: i32
  dg_frame_rate_d :: i32
  dg_color_space :: color_space
  dg_texture :: 't
  dg_frame_metadata :: "string option"

text \<open>The texture operations of the decoder; \<open>None\<close> is a panic, which the source catches.\<close>

record ('c, 't) texture_decoder =
  td_decode :: "'c \<Rightarrow> (vmx_error + u32 \<times> u32 \<times> 't) option \<times> 'c"
  td_decode_preview :: "'c \<Rightarrow> (vmx_error + u32 \<times> u32 \<times> 't) option \<times> 'c"

definition texture_closure :: "'c vmx_decoder \<Rightarrow> ('c, 't) texture_decoder \<Rightarrow> wire_video \<Rightarrow> 'c option \<Rightarrow>
    't decoded_gpu_frame result option \<times> 'c option" where
  "texture_closure D T w cached =
     (case cached_codec D (wv_width w) (wv_height w) (map_vmx_color_space (wv_color_space w)) cached of
        None \<Rightarrow> (None, cached)
      | Some (Inl e) \<Rightarrow> (Some (Inl (Vmx e)), cached)
      | Some (Inr codec) \<Rightarrow>
          (case vd_load D (vec_data (wv_payload w)) codec of
             (None, c1) \<Rightarrow> (None, Some c1)
           | (Some (Inl e), c1) \<Rightarrow> (Some (Inl (Vmx e)), Some c1)
           | (Some (Inr _), c1) \<Rightarrow>
               (case (if wv_preview w then td_decode_preview T c1 else td_decode T c1) of
                  (None, c2) \<Rightarrow> (None, Some c2)
                | (Some (Inl e), c2) \<Rightarrow> (Some (Inl (Vmx e)), Some c2)
                | (Some (Inr (width, height, texture)), c2) \<Rightarrow>
                    (Some (Inr \<lparr>dg_width = width, dg_height = height, dg_timestamp = wv_timestamp w,
                       dg_frame_rate_n = wv_frame_rate_n w, dg_frame_rate_d = wv_frame_rate_d w,
                       dg_color_space = wv_color_space w, dg_texture = texture, dg_frame_metadata = wv_metadata w\<rparr>), Some c2))))"

definition decode_vmx_texture :: "'c vmx_decoder \<Rightarrow> ('c, 't) texture_decoder \<Rightarrow> wire_video \<Rightarrow> 'c option \<Rightarrow>
    't decoded_gpu_frame result \<times> 'c option" where
  "decode_vmx_texture D T w cached =
     (if sint (wv_width w) < sint (vd_min_width D) \<or> sint (wv_height w) < sint (vd_min_height D) then
        (Inl (CodecError ''VMX dimensions below minimum''), cached)
      else
        case texture_closure D T w cached of
          (Some inner, cached') \<Rightarrow> (inner, cached')
        | (None, _) \<Rightarrow> (Inl (CodecError ''VMX GPU decode panicked''), None))"

text \<open>The queue of decoded textures, which repeats the code of the queue of decoded pictures.\<close>

type_synonym 't decoded_gpu_queue = "'t decoded_gpu_frame decoded_queue"

definition gpu_queue_new :: "nat \<Rightarrow> 't decoded_gpu_queue" where
  [simp]: "gpu_queue_new cap = decoded_queue_new cap"

definition gpu_publish :: "'t decoded_gpu_frame \<Rightarrow> 't decoded_gpu_queue \<Rightarrow> session_statistics \<Rightarrow> 't decoded_gpu_queue \<times> session_statistics" where
  [simp]: "gpu_publish frame q stats = queue_publish frame q stats"

definition gpu_try_take :: "'t decoded_gpu_queue \<Rightarrow> 't decoded_gpu_frame option \<times> 't decoded_gpu_queue" where
  [simp]: "gpu_try_take q = try_take q"

definition gpu_wait_take :: "(bool \<times> bool \<times> ('t decoded_gpu_queue \<Rightarrow> 't decoded_gpu_queue)) list \<Rightarrow> 't decoded_gpu_queue \<Rightarrow>
    ('t decoded_gpu_frame option \<times> 't decoded_gpu_queue) option" where
  [simp]: "gpu_wait_take wakes q = wait_take wakes q"

text \<open>The shared state with the queue the feature adds; the configuration has a GPU context.\<close>

record 't texture_receiver =
  tr_rx :: receiver
  tr_video :: "'t decoded_gpu_queue"

definition texture_receiver_new :: "receiver_config \<Rightarrow> 't texture_receiver" where
  "texture_receiver_new config = \<lparr>tr_rx = receiver_new config, tr_video = gpu_queue_new VIDEO_DECODED_Q\<rparr>"

record 'c texture_loop =
  tl_codec :: "'c option"
  tl_pool :: buffer_pool

definition texture_loop_new :: "'c texture_loop" where
  "texture_loop_new = \<lparr>tl_codec = None, tl_pool = pool_video\<rparr>"

definition texture_decode_body :: "'c vmx_decoder \<Rightarrow> ('c, 't) texture_decoder \<Rightarrow> (vmx_error \<Rightarrow> string) \<Rightarrow> nat \<Rightarrow> nat \<Rightarrow>
    'c texture_loop \<Rightarrow> 't texture_receiver \<Rightarrow> bool \<times> 'c texture_loop \<times> 't texture_receiver" where
  "texture_decode_body D T vd t0 t1 l g =
     (let r = tr_rx g in
      case chan_recv (rx_wire r) of
        (Empty, q) \<Rightarrow> (True, l, g)
      | (Hangup, q) \<Rightarrow> (False, l, g)
      | (Received w, q) \<Rightarrow>
          let r1 = r\<lparr>rx_wire := q, rs_wire_depth := wire_depth_sub (rs_wire_depth r), rs_encoded := capture_publish w (rs_encoded r)\<rparr>;
              age_us = word_of_nat ((t0 - wv_enqueued_at w) div 1000) in
          (case decode_vmx_texture D T w (tl_codec l) of
             (Inr frame, codec) \<Rightarrow>
               (case gpu_publish frame (tr_video g) (record_codec_time (word_of_nat (t1 - t0)) age_us (rs_stats r1)) of
                  (video, stats) \<Rightarrow>
                    (True, l\<lparr>tl_codec := codec, tl_pool := pool_give (wv_payload w) (tl_pool l)\<rparr>,
                     g\<lparr>tr_rx := r1\<lparr>rs_stats := stats\<rparr>, tr_video := video\<rparr>))
           | (Inl e, codec) \<Rightarrow>
               (True, l\<lparr>tl_codec := None, tl_pool := pool_give (wv_payload w) (tl_pool l)\<rparr>,
                g\<lparr>tr_rx := with_stats record_drop_decode (set_error (''decode: '' @ error_display vd e) r1)\<rparr>)))"

fun video_decode_loop_gpu :: "'c vmx_decoder \<Rightarrow> ('c, 't) texture_decoder \<Rightarrow> (vmx_error \<Rightarrow> string) \<Rightarrow>
    (('t texture_receiver \<Rightarrow> 't texture_receiver) \<times> nat \<times> nat) list \<Rightarrow> 'c texture_loop \<Rightarrow> 't texture_receiver \<Rightarrow>
    bool \<times> 'c texture_loop \<times> 't texture_receiver" where
  "video_decode_loop_gpu D T vd [] l g = (True, l, g)"
| "video_decode_loop_gpu D T vd ((others, t0, t1) # ts) l g =
     (let g0 = others g in
      if rs_stop (tr_rx g0) then (False, l, g0)
      else
        case texture_decode_body D T vd t0 t1 l g0 of
          (False, l', g') \<Rightarrow> (False, l', g')
        | (True, l', g') \<Rightarrow> video_decode_loop_gpu D T vd ts l' g')"

subsection \<open>Operations of the application\<close>

text \<open>With a GPU context there are no pixels: the operations on decoded video return at once with nothing.\<close>

definition gpu_try_recv_video :: "'t texture_receiver \<Rightarrow> decoded_video_frame option \<times> 't texture_receiver" where
  "gpu_try_recv_video g = (None, g)"

definition gpu_recv_video_timeout :: "'t texture_receiver \<Rightarrow> decoded_video_frame option \<times> 't texture_receiver" where
  "gpu_recv_video_timeout g = (None, g)"

definition try_recv_video_gpu :: "'t texture_receiver \<Rightarrow> 't decoded_gpu_frame option \<times> 't texture_receiver" where
  "try_recv_video_gpu g = (case gpu_try_take (tr_video g) of (f, q) \<Rightarrow> (f, g\<lparr>tr_video := q\<rparr>))"

definition recv_video_gpu_timeout :: "(bool \<times> bool \<times> ('t decoded_gpu_queue \<Rightarrow> 't decoded_gpu_queue)) list \<Rightarrow>
    't texture_receiver \<Rightarrow> ('t decoded_gpu_frame option \<times> 't texture_receiver) option" where
  "recv_video_gpu_timeout wakes g = map_option (\<lambda>(f, q). (f, g\<lparr>tr_video := q\<rparr>)) (gpu_wait_take wakes (tr_video g))"

definition gpu_statistics :: "'t texture_receiver \<Rightarrow> session_statistics" where
  "gpu_statistics g = (rs_stats (tr_rx g))\<lparr>ss_wire_queue_depth := rs_wire_depth (tr_rx g),
     ss_decoded_queue_depth := dq_depth (tr_video g)\<rparr>"

section \<open>Equivalence with the pixel decoder\<close>

text \<open>Two decoding calls end in the same way, and leave the codec in the same state.\<close>

fun same_outcome :: "(vmx_error + 'a) option \<Rightarrow> (vmx_error + 'b) option \<Rightarrow> bool" where
  "same_outcome None y = (y = None)"
| "same_outcome (Some (Inl e)) y = (y = Some (Inl e))"
| "same_outcome (Some (Inr a)) y = (\<exists>b. y = Some (Inr b))"

definition same_decoding :: "'c vmx_decoder \<Rightarrow> ('c, 't) texture_decoder \<Rightarrow> bool" where
  "same_decoding D T \<longleftrightarrow>
     (\<forall>stride buf c. same_outcome (fst (vd_decode_bgra D stride buf c)) (fst (td_decode T c)) \<and>
        snd (snd (vd_decode_bgra D stride buf c)) = snd (td_decode T c) \<and>
        same_outcome (fst (vd_decode_preview_bgra D stride buf c)) (fst (td_decode_preview T c)) \<and>
        snd (snd (vd_decode_preview_bgra D stride buf c)) = snd (td_decode_preview T c))"

lemma same_outcome_cases:
  assumes "same_outcome x y"
  obtains (panic) "x = None" "y = None" | (error) e where "x = Some (Inl e)" "y = Some (Inl e)"
    | (frame) a b where "x = Some (Inr a)" "y = Some (Inr b)"
  using assms that by (elim same_outcome.elims) auto

text \<open>The decoding call for full or preview frames, on both sides.\<close>

lemma decoding_agrees:
  assumes "same_decoding D T"
  shows "\<exists>r b r' c'. (if p then vd_decode_preview_bgra D s buf c else vd_decode_bgra D s buf c) = (r, b, c') \<and>
    (if p then td_decode_preview T c else td_decode T c) = (r', c') \<and> same_outcome r r'"
  using assms unfolding same_decoding_def
  by (cases p; cases "vd_decode_preview_bgra D s buf c"; cases "vd_decode_bgra D s buf c"; cases "td_decode_preview T c";
      cases "td_decode T c") (metis fst_conv snd_conv)+

text \<open>What a closure returns, frames aside.\<close>

definition outcome_kind :: "'a result option \<Rightarrow> unit result option" where
  "outcome_kind r = map_option (map_sum id (\<lambda>_. ())) r"

lemma closure_outcome:
  assumes "same_decoding D T"
  shows "\<exists>r r' cached' buf'. decode_closure D w cached buf = (r, cached', buf') \<and> texture_closure D T w cached = (r', cached') \<and>
    outcome_kind r = outcome_kind r'"
proof (cases "cached_codec D (wv_width w) (wv_height w) (map_vmx_color_space (wv_color_space w)) cached")
  case None
  then show ?thesis by (simp add: decode_closure_def texture_closure_def outcome_kind_def)
next
  case (Some res)
  note codec = this
  show ?thesis
  proof (cases res)
    case (Inl e)
    with codec show ?thesis by (simp add: decode_closure_def texture_closure_def outcome_kind_def)
  next
    case (Inr c)
    obtain l c1 where load: "vd_load D (vec_data (wv_payload w)) c = (l, c1)" by fastforce
    obtain ow oh where size: "output_size D w c1 = (ow, oh)" by fastforce
    let ?stride = "unat ow * 4"
    let ?buf = "vec_resize (?stride * unat oh) buf"
    obtain r b r' c2 where dec: "(if wv_preview w then vd_decode_preview_bgra D ?stride ?buf c1 else vd_decode_bgra D ?stride ?buf c1) = (r, b, c2)"
      "(if wv_preview w then td_decode_preview T c1 else td_decode T c1) = (r', c2)" "same_outcome r r'"
      using decoding_agrees [OF assms] by blast
    consider "l = None" | e where "l = Some (Inl e)" | "l = Some (Inr ())" by (metis not_None_eq old.unit.exhaust sumE)
    then show ?thesis
    proof cases
      case 3
      from dec(3) show ?thesis
        by (cases rule: same_outcome_cases)
          (auto simp: decode_closure_def texture_closure_def outcome_kind_def codec Inr load 3 size dec(1,2) Let_def split: prod.splits)
    qed (simp_all add: decode_closure_def texture_closure_def outcome_kind_def codec Inr load)
  qed
qed

text \<open>Apart from the words of a caught panic, decoding a frame to a texture ends as decoding it to pixels does.\<close>

lemma decode_outcome:
  assumes "same_decoding D T"
  obtains (frame) f g cached' buf' where "decode_vmx_bgra D w cached buf = (Inr f, cached', buf')" "decode_vmx_texture D T w cached = (Inr g, cached')"
    | (error) e e' cached' buf' where "decode_vmx_bgra D w cached buf = (Inl e, cached', buf')" "decode_vmx_texture D T w cached = (Inl e', cached')"
proof -
  let ?small = "sint (wv_width w) < sint (vd_min_width D) \<or> sint (wv_height w) < sint (vd_min_height D)"
  obtain r r' cached' buf' where c: "decode_closure D w cached buf = (r, cached', buf')" "texture_closure D T w cached = (r', cached')"
    "outcome_kind r = outcome_kind r'"
    using closure_outcome [OF assms] by blast
  consider "?small" | "\<not> ?small" "r = None" "r' = None" | e where "\<not> ?small" "r = Some (Inl e)" "r' = Some (Inl e)"
    | f g where "\<not> ?small" "r = Some (Inr f)" "r' = Some (Inr g)"
    using c(3) by (cases r; cases r') (auto simp: outcome_kind_def map_sum_def split: sum.splits)
  then show ?thesis
  proof cases
    case (4 f g)
    then show ?thesis by (intro frame) (simp_all add: decode_vmx_bgra_def decode_vmx_texture_def c(1,2))
  qed (rule error; simp add: decode_vmx_bgra_def decode_vmx_texture_def c(1,2))+
qed

text \<open>The state as both decoders see it: without the decoded frames and the text of the last error.\<close>

definition queue_shape :: "'f decoded_queue \<Rightarrow> nat \<times> u32 \<times> u64 \<times> nat" where
  "queue_shape q = (length (dq_slot q), dq_depth q, dq_overwrites q, dq_cap q)"

definition shared_view :: "receiver \<Rightarrow> receiver" where
  "shared_view r = r\<lparr>rs_video := decoded_queue_new 1, rs_last_error := None\<rparr>"

definition texture_sim :: "'t texture_receiver \<Rightarrow> receiver \<Rightarrow> bool" where
  "texture_sim g r \<longleftrightarrow> queue_shape (tr_video g) = queue_shape (rs_video r) \<and> shared_view (tr_rx g) = shared_view r"

definition loop_sim :: "'c texture_loop \<Rightarrow> 'c decoder_loop \<Rightarrow> bool" where
  "loop_sim l l' \<longleftrightarrow> tl_codec l = dl_codec l' \<and> tl_pool l = dl_pool l'"

lemma shared_view_eq:
  "shared_view a = shared_view b \<longleftrightarrow>
     rs_stop a = rs_stop b \<and> rs_stats a = rs_stats b \<and> rs_state a = rs_state b \<and> rs_encoded a = rs_encoded b \<and>
     rs_wire_depth a = rs_wire_depth b \<and> rs_outbound_meta a = rs_outbound_meta b \<and> rs_preview a = rs_preview b \<and>
     rs_quality a = rs_quality b \<and> rs_video_io a = rs_video_io b \<and> rs_audio_io a = rs_audio_io b \<and> rx_wire a = rx_wire b \<and>
     rx_audio a = rx_audio b \<and> rx_meta a = rx_meta b"
  by (cases a, cases b) (auto simp: shared_view_def)

lemma evict_shape:
  assumes "length xs = length ys"
  shows "\<exists>a b n' st'. evict_oldest cap xs n st = (a, n', st') \<and> evict_oldest cap ys n st = (b, n', st') \<and> length a = length b"
  using assms by (induction xs ys arbitrary: n st rule: list_induct2) auto

lemma publish_shape:
  assumes "queue_shape q = queue_shape q'" "queue_publish x q st = (p, s)" "queue_publish y q' st = (p', s')"
  shows "queue_shape p = queue_shape p' \<and> s = s'"
  using assms evict_shape [of "dq_slot q" "dq_slot q'" "dq_cap q" "dq_overwrites q" st]
  by (auto simp: queue_shape_def queue_publish_def split: prod.splits)

lemma take_shape:
  assumes "queue_shape q = queue_shape q'" "try_take q = (a, p)" "try_take q' = (b, p')"
  shows "queue_shape p = queue_shape p' \<and> (a = None \<longleftrightarrow> b = None)"
  using assms by (auto simp: queue_shape_def try_take_def split: list.splits)

lemma body_sim:
  assumes "same_decoding D T" "loop_sim l l'" "texture_sim g r"
    "texture_decode_body D T vd t0 t1 l g = (b, l1, g1)" "video_decode_body D vd t0 t1 l' r = (b', l1', r1)"
  shows "b = b' \<and> loop_sim l1 l1' \<and> texture_sim g1 r1"
proof -
  note view = assms(3) [unfolded texture_sim_def shared_view_eq]
  obtain res q where recv: "chan_recv (rx_wire r) = (res, q)" by fastforce
  show ?thesis
  proof (cases res)
    case (Received w)
    note w = recv [unfolded Received]
    have codec: "tl_codec l = dl_codec l'" "tl_pool l = dl_pool l'" using assms(2) by (simp_all add: loop_sim_def)
    show ?thesis
    proof (cases rule: decode_outcome [OF assms(1), of w "dl_codec l'" "dl_buf l'"])
      case (1 f gf cached' buf')
      note frame = this
      let ?st = "record_codec_time (word_of_nat (t1 - t0)) (word_of_nat ((t0 - wv_enqueued_at w) div 1000)) (rs_stats r)"
      obtain vg sg where pg: "queue_publish gf (tr_video g) ?st = (vg, sg)" by fastforce
      obtain vr sr where pr: "queue_publish f (rs_video r) ?st = (vr, sr)" by fastforce
      have "queue_shape vg = queue_shape vr \<and> sg = sr" using publish_shape [OF _ pg pr] view by simp
      moreover have "(b, l1, g1) = (True, l\<lparr>tl_codec := cached', tl_pool := pool_give (wv_payload w) (tl_pool l)\<rparr>,
          g\<lparr>tr_rx := (tr_rx g)\<lparr>rx_wire := q, rs_wire_depth := wire_depth_sub (rs_wire_depth r),
              rs_encoded := capture_publish w (rs_encoded r), rs_stats := sg\<rparr>, tr_video := vg\<rparr>)"
        unfolding assms(4) [symmetric] by (simp add: texture_decode_body_def Let_def view codec w frame pg)
      moreover have "(b', l1', r1) = (True, l'\<lparr>dl_codec := cached', dl_buf := buf', dl_pool := pool_give (wv_payload w) (dl_pool l')\<rparr>,
          r\<lparr>rx_wire := q, rs_wire_depth := wire_depth_sub (rs_wire_depth r), rs_encoded := capture_publish w (rs_encoded r),
            rs_video := vr, rs_stats := sr\<rparr>)"
        unfolding assms(5) [symmetric] by (simp add: video_decode_body_def Let_def w frame pr)
      ultimately show ?thesis using view codec by (simp add: loop_sim_def texture_sim_def shared_view_eq)
    next
      case (2 e e' cached' buf')
      let ?err = "\<lambda>x r1. with_stats record_drop_decode (set_error (''decode: '' @ error_display vd x) r1)"
      have "(b, l1, g1) = (True, l\<lparr>tl_codec := None, tl_pool := pool_give (wv_payload w) (tl_pool l)\<rparr>,
          g\<lparr>tr_rx := ?err e' ((tr_rx g)\<lparr>rx_wire := q, rs_wire_depth := wire_depth_sub (rs_wire_depth r),
              rs_encoded := capture_publish w (rs_encoded r)\<rparr>)\<rparr>)"
        unfolding assms(4) [symmetric] by (simp add: texture_decode_body_def Let_def view codec w 2)
      moreover have "(b', l1', r1) = (True, l'\<lparr>dl_codec := None, dl_buf := buf', dl_pool := pool_give (wv_payload w) (dl_pool l')\<rparr>,
          ?err e (r\<lparr>rx_wire := q, rs_wire_depth := wire_depth_sub (rs_wire_depth r), rs_encoded := capture_publish w (rs_encoded r)\<rparr>))"
        unfolding assms(5) [symmetric] by (simp add: video_decode_body_def Let_def w 2)
      ultimately show ?thesis using view codec
        by (simp add: loop_sim_def texture_sim_def shared_view_eq with_stats_def set_error_def)
    qed
  qed (use assms(2-5) view recv in \<open>auto simp: texture_decode_body_def video_decode_body_def Let_def\<close>)
qed

text \<open>What the other threads do between two turns is the same on both sides.\<close>

definition same_turns :: "(('t texture_receiver \<Rightarrow> 't texture_receiver) \<times> nat \<times> nat) list \<Rightarrow> ((receiver \<Rightarrow> receiver) \<times> nat \<times> nat) list \<Rightarrow> bool" where
  "same_turns ts ts' \<longleftrightarrow>
     list_all2 (\<lambda>(og, t0, t1) (other, u0, u1). t0 = u0 \<and> t1 = u1 \<and> (\<forall>g r. texture_sim g r \<longrightarrow> texture_sim (og g) (other r))) ts ts'"


text \<open>The texture version of the decoder that paints every picture black.\<close>

definition black_textures :: "(i32 \<times> i32, unit) texture_decoder" where
  "black_textures = \<lparr>td_decode = (\<lambda>(w, h). (Some (Inr (w, h, ())), (w, h))),
     td_decode_preview = (\<lambda>(w, h). (Some (Inr (w div 8, h div 8, ())), (w, h)))\<rparr>"

lemma black_same: "same_decoding black_decoder black_textures"
  by (auto simp: same_decoding_def black_decoder_def black_textures_def)

definition one_frame :: receiver where
  "one_frame = (receiver_new receiver_config_default)\<lparr>rx_wire := (sync_channel_new VIDEO_WIRE_Q)\<lparr>sy_items := [sample_wire_video]\<rparr>\<rparr>"


text \<open>Taking a frame on both sides.\<close>

lemma take_sim:
  assumes "texture_sim g r"
  shows "texture_sim (snd (try_recv_video_gpu g)) (snd (try_recv_video r)) \<and>
    (fst (try_recv_video_gpu g) = None \<longleftrightarrow> fst (try_recv_video r) = None)"
proof -
  obtain a q where a: "try_take (tr_video g) = (a, q)" by fastforce
  obtain b q' where b: "try_take (rs_video r) = (b, q')" by fastforce
  have "queue_shape q = queue_shape q' \<and> (a = None \<longleftrightarrow> b = None)"
    using take_shape [OF _ a b] assms by (simp add: texture_sim_def)
  with assms show ?thesis by (simp add: try_recv_video_gpu_def try_recv_video_def a b texture_sim_def shared_view_eq)
qed

text \<open>The statistics the application reads are the same numbers.\<close>

lemma statistics_sim:
  "texture_sim g (se_rx s) \<Longrightarrow> gpu_statistics g = session_statistics_of s"
  by (simp add: gpu_statistics_def session_statistics_of_def texture_sim_def shared_view_eq queue_shape_def)

end
