(* ===== verification/Async_Api.thy ===== *)
theory Async_Api
  imports Texture_Sender Texture_Receiver
begin

text \<open>
  The asynchronous API (\<open>src/async_api.rs\<close>): a sender and a receiver session behind the same operations. On the
  runtime \<open>block_in_place\<close> runs its closure on the current thread, so an operation of the asynchronous sender is
  the sender's; connecting runs on a thread of its own, which can fail to end (\<open>join_error\<close>). Receiving video
  polls the session once a millisecond until a deadline: a function over its turns, each with what the
  threads of the session did before it and the instant (in milliseconds) read after it. With the feature \<open>wgpu\<close> the
  wrapped sender has the texture operations too. The lemmas show that the polling returns, and what.
\<close>

section \<open>Definitions\<close>

subsection \<open>The sender\<close>

record 'c async_sender =
  as_inner :: "'c sender"

definition on_inner :: "('c sender \<Rightarrow> 'r \<times> 'c sender) \<Rightarrow> 'c async_sender \<Rightarrow> 'r \<times> 'c async_sender" where
  "on_inner f a = (case f (as_inner a) of (r, s) \<Rightarrow> (r, a\<lparr>as_inner := s\<rparr>))"

definition async_create_with_config :: "(u16 \<Rightarrow> bool) \<Rightarrow> (u16 \<Rightarrow> unit result) \<Rightarrow> settings \<Rightarrow> bool \<times> bool \<Rightarrow> nat \<times> nat \<Rightarrow>
    string \<Rightarrow> frame_type \<Rightarrow> sender_config \<Rightarrow> 'c async_sender result" where
  "async_create_with_config busy listen_at st spawned nows name frame_types config =
     map_sum id (\<lambda>s. \<lparr>as_inner = s\<rparr>) (create_with_config busy listen_at st spawned nows name frame_types config)"

definition async_create :: "(u16 \<Rightarrow> bool) \<Rightarrow> (u16 \<Rightarrow> unit result) \<Rightarrow> settings \<Rightarrow> bool \<times> bool \<Rightarrow> nat \<times> nat \<Rightarrow>
    string \<Rightarrow> frame_type \<Rightarrow> 'c async_sender result" where
  "async_create busy listen_at st spawned nows name frame_types =
     async_create_with_config busy listen_at st spawned nows name frame_types sender_config_default"

definition async_transport_config :: "'c async_sender \<Rightarrow> sender_config" where "async_transport_config a = transport_config (as_inner a)"
definition async_name :: "'c async_sender \<Rightarrow> string" where "async_name a = sender_name (as_inner a)"
definition async_port :: "'c async_sender \<Rightarrow> u16" where "async_port a = sender_port (as_inner a)"
definition async_sender_frame_types :: "'c async_sender \<Rightarrow> frame_type" where "async_sender_frame_types a = sender_frame_types (as_inner a)"
definition async_audio_ingress :: "'c async_sender \<Rightarrow> audio_share" where "async_audio_ingress a = audio_ingress (as_inner a)"

definition async_poll_accept :: "unit result \<Rightarrow> accepted list \<Rightarrow> 'c async_sender \<Rightarrow> bool result \<times> 'c async_sender" where
  "async_poll_accept nonblocking backlog = on_inner (poll_accept nonblocking backlog)"

definition async_poll_peer_metadata :: "rox \<Rightarrow> (nat \<Rightarrow> read_result) \<Rightarrow> 'c async_sender \<Rightarrow> unit result \<times> 'c async_sender" where
  "async_poll_peer_metadata rox reads = on_inner (poll_peer_metadata rox reads)"

text \<open>\<open>poll\<close>: both, unless accepting fails.\<close>

definition async_poll :: "unit result \<Rightarrow> accepted list \<Rightarrow> rox \<Rightarrow> (nat \<Rightarrow> read_result) \<Rightarrow> 'c async_sender \<Rightarrow> unit result \<times> 'c async_sender" where
  "async_poll nonblocking backlog rox reads a =
     (case async_poll_accept nonblocking backlog a of
        (Inl e, a1) \<Rightarrow> (Inl e, a1)
      | (Inr _, a1) \<Rightarrow>
          (case async_poll_peer_metadata rox reads a1 of
             (Inl e, a2) \<Rightarrow> (Inl e, a2)
           | (Inr _, a2) \<Rightarrow> (Inr (), a2)))"

definition async_send_video :: "'c vmx \<Rightarrow> (bytes \<Rightarrow> nat option) \<Rightarrow> (nat \<Rightarrow> write_result list) \<Rightarrow> int \<Rightarrow> nat list \<Rightarrow> nat \<Rightarrow> nat \<Rightarrow>
    media_frame \<Rightarrow> 'c async_sender \<Rightarrow> (unit result \<times> 'c async_sender) option" where
  "async_send_video V plen ws system_time nows elapsed cap frame a =
     map_option (\<lambda>(r, s). (r, a\<lparr>as_inner := s\<rparr>)) (send_video V plen ws system_time nows elapsed cap frame (as_inner a))"

definition async_send_audio :: "(nat \<Rightarrow> write_result list) \<Rightarrow> nat list \<Rightarrow> media_frame \<Rightarrow> 'c async_sender \<Rightarrow> (unit result \<times> 'c async_sender) option" where
  "async_send_audio ws nows frame a = map_option (\<lambda>(r, s). (r, a\<lparr>as_inner := s\<rparr>)) (send_audio ws nows frame (as_inner a))"

definition async_set_quality :: "quality \<Rightarrow> 'c async_sender \<Rightarrow> 'c async_sender" where
  "async_set_quality q a = a\<lparr>as_inner := set_quality q (as_inner a)\<rparr>"

definition async_force_subscribe :: "bool \<Rightarrow> bool \<Rightarrow> bool \<Rightarrow> 'c async_sender \<Rightarrow> 'c async_sender" where
  "async_force_subscribe video audio metadata a = a\<lparr>as_inner := force_subscribe video audio metadata (as_inner a)\<rparr>"

definition async_enable_audio_on_idle_peers :: "'c async_sender \<Rightarrow> 'c async_sender" where
  "async_enable_audio_on_idle_peers a = a\<lparr>as_inner := enable_audio_on_idle_peers (as_inner a)\<rparr>"

definition async_enable_audio_output :: "'c async_sender \<Rightarrow> 'c async_sender" where
  "async_enable_audio_output a = a\<lparr>as_inner := enable_audio_output (as_inner a)\<rparr>"

definition async_set_sender_info :: "sender_info \<Rightarrow> 'c async_sender \<Rightarrow> 'c async_sender" where
  "async_set_sender_info info a = a\<lparr>as_inner := set_sender_info info (as_inner a)\<rparr>"

definition async_effective_quality :: "'c async_sender \<Rightarrow> quality" where "async_effective_quality a = effective_quality (as_inner a)"
definition async_tally :: "'c async_sender \<Rightarrow> tally" where "async_tally a = sender_tally (as_inner a)"
definition async_sender_preview :: "'c async_sender \<Rightarrow> bool" where "async_sender_preview a = sender_preview (as_inner a)"
definition async_video_subscribed :: "'c async_sender \<Rightarrow> bool" where "async_video_subscribed a = video_subscribed (as_inner a)"
definition async_audio_subscribed :: "'c async_sender \<Rightarrow> bool" where "async_audio_subscribed a = audio_subscribed (as_inner a)"
definition async_sender_statistics :: "'c async_sender \<Rightarrow> statistics" where "async_sender_statistics a = sn_stats (as_inner a)"

text \<open>The same sender with the fields of the texture feature.\<close>

record 'c async_texture_sender =
  ax_inner :: "'c texture_sender"

definition async_send_video_texture :: "'c vmx \<Rightarrow> ('c, 't) texture_codec \<Rightarrow> (bytes \<Rightarrow> nat option) \<Rightarrow> send_env \<Rightarrow> 't \<Rightarrow> video_texture_meta \<Rightarrow>
    'c async_texture_sender \<Rightarrow> (unit result \<times> 'c async_texture_sender) option" where
  "async_send_video_texture V G plen en texture meta a =
     map_option (\<lambda>(r, x). (r, a\<lparr>ax_inner := x\<rparr>)) (send_video_texture V G plen en texture meta (ax_inner a))"

definition async_set_gpu_encode_pipeline :: "bool \<Rightarrow> 'c async_texture_sender \<Rightarrow> 'c async_texture_sender" where
  "async_set_gpu_encode_pipeline enabled a = a\<lparr>ax_inner := set_gpu_encode_pipeline enabled (ax_inner a)\<rparr>"

definition async_flush_gpu_encode :: "'c vmx \<Rightarrow> ('c, 't) texture_codec \<Rightarrow> (bytes \<Rightarrow> nat option) \<Rightarrow> send_env \<Rightarrow>
    'c async_texture_sender \<Rightarrow> (unit result \<times> 'c async_texture_sender) option" where
  "async_flush_gpu_encode V G plen en a = map_option (\<lambda>(r, x). (r, a\<lparr>ax_inner := x\<rparr>)) (flush_gpu_encode V G plen en (ax_inner a))"

subsection \<open>The receiver\<close>

record async_receiver =
  ar_inner :: session

definition async_connect_with_addresses :: "string option \<Rightarrow> connect_env \<Rightarrow> string \<Rightarrow> string list \<Rightarrow> frame_type \<Rightarrow>
    (async_receiver \<times> bytes \<times> bytes) result option" where
  "async_connect_with_addresses join_error env address extra frame_types =
     (case join_error of
        Some m \<Rightarrow> Some (Inl (Network m))
      | None \<Rightarrow>
          map_option (map_sum id (\<lambda>(s, video, audio). (\<lparr>ar_inner = s\<rparr>, video, audio)))
            (connect_with_addresses env address extra (receiver_config_default\<lparr>rc_frame_types := frame_types\<rparr>)))"

definition async_connect :: "string option \<Rightarrow> connect_env \<Rightarrow> string \<Rightarrow> frame_type \<Rightarrow> (async_receiver \<times> bytes \<times> bytes) result option" where
  "async_connect join_error env address frame_types = async_connect_with_addresses join_error env address [] frame_types"

text \<open>The time-out of a call in milliseconds: an hour for a negative argument.\<close>

definition recv_timeout_ms :: "i32 \<Rightarrow> nat" where
  "recv_timeout_ms timeout_ms = (if sint timeout_ms < 0 then 3600 * 1000 else nat (sint timeout_ms))"

text \<open>The loop of both kinds of video; \<open>poll\<close> polls the queue.\<close>

fun poll_loop :: "('r \<Rightarrow> 'f option \<times> 'r) \<Rightarrow> nat \<Rightarrow> (('r \<Rightarrow> 'r) \<times> nat) list \<Rightarrow> 'r \<Rightarrow> ('f option \<times> 'r) option" where
  "poll_loop poll deadline [] r = None"
| "poll_loop poll deadline ((others, now) # ts) r =
     (case poll (others r) of
        (Some f, r') \<Rightarrow> Some (Some f, r')
      | (None, r') \<Rightarrow> if now \<ge> deadline then Some (None, r') else poll_loop poll deadline ts r')"

definition async_recv_video :: "nat \<Rightarrow> i32 \<Rightarrow> ((receiver \<Rightarrow> receiver) \<times> nat) list \<Rightarrow> async_receiver \<Rightarrow>
    (decoded_video_frame option \<times> async_receiver) option" where
  "async_recv_video start timeout_ms turns a =
     map_option (\<lambda>(f, r). (f, a\<lparr>ar_inner := (ar_inner a)\<lparr>se_rx := r\<rparr>\<rparr>))
       (poll_loop try_recv_video (start + recv_timeout_ms timeout_ms) turns (se_rx (ar_inner a)))"

definition async_recv_video_gpu :: "nat \<Rightarrow> i32 \<Rightarrow> (('t texture_receiver \<Rightarrow> 't texture_receiver) \<times> nat) list \<Rightarrow> 't texture_receiver \<Rightarrow>
    ('t decoded_gpu_frame option \<times> 't texture_receiver) option" where
  "async_recv_video_gpu start timeout_ms turns g = poll_loop try_recv_video_gpu (start + recv_timeout_ms timeout_ms) turns g"

definition async_try_recv_audio :: "async_receiver \<Rightarrow> decoded_audio_frame option \<times> async_receiver" where
  "async_try_recv_audio a = (case try_recv_audio (se_rx (ar_inner a)) of (f, r) \<Rightarrow> (f, a\<lparr>ar_inner := (ar_inner a)\<lparr>se_rx := r\<rparr>\<rparr>))"

definition async_try_recv_metadata :: "async_receiver \<Rightarrow> metadata_frame option \<times> async_receiver" where
  "async_try_recv_metadata a =
     (case receiver_try_recv_metadata (se_rx (ar_inner a)) of (f, r) \<Rightarrow> (f, a\<lparr>ar_inner := (ar_inner a)\<lparr>se_rx := r\<rparr>\<rparr>))"

definition on_session :: "(session \<Rightarrow> unit result \<times> session) \<Rightarrow> async_receiver \<Rightarrow> unit result \<times> async_receiver" where
  "on_session f a = (case f (ar_inner a) of (r, s) \<Rightarrow> (r, a\<lparr>ar_inner := s\<rparr>))"

definition async_send_metadata :: "string \<Rightarrow> async_receiver \<Rightarrow> unit result \<times> async_receiver" where
  "async_send_metadata xml = on_session (receiver_send_metadata xml)"

definition async_set_tally :: "tally \<Rightarrow> async_receiver \<Rightarrow> unit result \<times> async_receiver" where
  "async_set_tally tally = on_session (set_tally tally)"

definition async_set_preview :: "bool \<Rightarrow> async_receiver \<Rightarrow> unit result \<times> async_receiver" where
  "async_set_preview preview = on_session (set_preview preview)"

definition async_set_suggested_quality :: "quality \<Rightarrow> async_receiver \<Rightarrow> unit result \<times> async_receiver" where
  "async_set_suggested_quality quality = on_session (set_suggested_quality quality)"

definition async_statistics :: "async_receiver \<Rightarrow> session_statistics" where
  "async_statistics a = session_statistics_of (ar_inner a)"

definition async_preview :: "async_receiver \<Rightarrow> bool" where "async_preview a = session_preview (ar_inner a)"
definition async_suggested_quality :: "async_receiver \<Rightarrow> quality" where "async_suggested_quality a = suggested_quality (ar_inner a)"
definition async_address :: "async_receiver \<Rightarrow> string" where "async_address a = session_address (ar_inner a)"
definition async_frame_types :: "async_receiver \<Rightarrow> frame_type" where "async_frame_types a = session_frame_types (ar_inner a)"

section \<open>Polling\<close>

text \<open>Polling returns at the first turn that finds a frame or has the time up, with the state the polled queue has
  after that turn.\<close>

lemma poll_loop_spec:
  assumes "poll_loop poll deadline ts r = Some (f, r')"
  shows "\<exists>i < length ts. \<exists>r0. (\<forall>j < i. snd (ts ! j) < deadline) \<and> poll r0 = (f, r') \<and> (f = None \<longrightarrow> deadline \<le> snd (ts ! i))"
  using assms
proof (induction ts arbitrary: r)
  case (Cons t ts)
  obtain others now where t: "t = (others, now)" by fastforce
  obtain a q where polled: "poll (others r) = (a, q)" by fastforce
  show ?case
  proof (cases "a = None \<and> now < deadline")
    case True
    with Cons.prems t polled obtain i r0 where "i < length ts" "\<forall>j < i. snd (ts ! j) < deadline" "poll r0 = (f, r')"
      "f = None \<longrightarrow> deadline \<le> snd (ts ! i)"
      using Cons.IH by force
    then show ?thesis using True by (intro exI [of _ "Suc i"]) (auto simp: t nth_Cons split: nat.splits)
  next
    case False
    then show ?thesis using Cons.prems polled by (intro exI [of _ 0]) (auto simp: t split: option.splits if_splits)
  qed
qed simp

text \<open>It returns, and keeps what every turn and every poll keep.\<close>

lemma poll_loop_returns:
  assumes "\<exists>(others, now) \<in> set turns. deadline \<le> now" "P r" "\<And>r. P r \<Longrightarrow> P (snd (poll r))"
    "\<forall>(others, now) \<in> set turns. \<forall>r. P r \<longrightarrow> P (others r)"
  shows "\<exists>f r'. poll_loop poll deadline turns r = Some (f, r') \<and> P r'"
  using assms(1,2,4)
proof (induction turns arbitrary: r)
  case (Cons t ts)
  obtain others now where t: "t = (others, now)" by fastforce
  have inv: "P (snd (poll (others r)))" using Cons.prems(2,3) assms(3) by (auto simp: t)
  obtain f r' where polled: "poll (others r) = (f, r')" by fastforce
  show ?case
  proof (cases "f = None \<and> now < deadline")
    case True
    then show ?thesis using Cons.IH [of r'] Cons.prems(1,3) inv by (auto simp: t polled)
  next
    case False
    then show ?thesis using inv by (cases f) (auto simp: t polled)
  qed
qed simp


definition idle_session :: async_receiver where
  "idle_session = \<lparr>ar_inner = \<lparr>se_address = ''omt://h:6400'', se_config = receiver_config_default,
     se_rx = receiver_new receiver_config_default, se_can_send_metadata = True\<rparr>\<rparr>"


text \<open>The operations of the asynchronous sender keep the sender's invariant.\<close>

lemma async_poll_inv:
  assumes "sender_inv (as_inner a)" "async_poll nb backlog rox reads a = (r, a')"
  shows "sender_inv (as_inner a')"
proof -
  obtain x s1 where p: "poll_accept nb backlog (as_inner a) = (x, s1)" by fastforce
  have s1: "sender_inv s1" using poll_accept_inv [OF assms(1) p] .
  have "sender_inv (s1\<lparr>sn_peers := poll_peers rox reads (sn_peers s1)\<rparr>)"
    using s1 poll_peers_ids by (auto simp: sender_inv_def)
  then have "sender_inv (snd (poll_peer_metadata rox reads s1))" by (simp add: poll_peer_metadata_def recompute_inv)
  with s1 assms(2) show ?thesis
    by (cases x) (auto simp: async_poll_def async_poll_accept_def async_poll_peer_metadata_def on_inner_def p split: prod.splits sum.splits)
qed

end
