(* ===== verification/Colorbar_Sender.thy ===== *)
theory Colorbar_Sender
  imports Colorbar Async_Api "HOL-Library.Signed_Division"
begin

text \<open>
  The example sender of colour bars with a tone (\<open>examples/send_colorbar.rs\<close>, \<open>append_sine_planar\<close> and \<open>fps\<close> of
  \<open>examples/common/colorbar.rs\<close>): the pacing of both loops in \<open>f64\<close> and \<open>Duration\<close> (nanoseconds), the
  pictures, the tone, and the loops over the sender of the library. \<open>None\<close> is a panic. The sine is an argument (\<open>wave\<close>: the
  sample for a frequency, a position and a sample rate), as the standard library does not fix its bits; what is printed is left out.
  The lemmas show that the loop keeps sending legal pictures, that the tone is continuous from packet to packet, and that a frame
  rate of zero panics.
\<close>

section \<open>Arithmetic\<close>

text \<open>The bits of a NaN that an operation makes are not fixed; only being one matters here.\<close>

definition F64_NAN :: f64 where "F64_NAN = word_of_nat (2047 * 2 ^ 52 + 2 ^ 51)"

definition f64_is_nan :: "f64 \<Rightarrow> bool" where "f64_is_nan x \<longleftrightarrow> f64_magnitude x > F64_INF"

definition f64_divide :: "f64 \<Rightarrow> f64 \<Rightarrow> f64" where
  "f64_divide x y =
     (let neg = (f64_negative x \<noteq> f64_negative y); mx = f64_magnitude x; my = f64_magnitude y in
      if f64_is_nan x \<or> f64_is_nan y then F64_NAN
      else if mx = F64_INF then (if my = F64_INF then F64_NAN else f64_make neg F64_INF)
      else if my = F64_INF then f64_make neg 0
      else if my = 0 then (if mx = 0 then F64_NAN else f64_make neg F64_INF)
      else case (f64_ratio mx, f64_ratio my) of ((n, d), (n', d')) \<Rightarrow> f64_make neg (f64_bits (n * d') (d * n')))"

definition f64_times :: "f64 \<Rightarrow> f64 \<Rightarrow> f64" where
  "f64_times x y =
     (let neg = (f64_negative x \<noteq> f64_negative y); mx = f64_magnitude x; my = f64_magnitude y in
      if f64_is_nan x \<or> f64_is_nan y then F64_NAN
      else if mx = F64_INF \<or> my = F64_INF then (if mx = 0 \<or> my = 0 then F64_NAN else f64_make neg F64_INF)
      else case (f64_ratio mx, f64_ratio my) of ((n, d), (n', d')) \<Rightarrow> f64_make neg (f64_bits (n * n') (d * d')))"

definition f64_of_nat :: "nat \<Rightarrow> f64" where "f64_of_nat n = f64_make False (f64_bits n 1)"

text \<open>\<open>floor() as u64\<close>: the cast takes a NaN and negative values to zero and saturates.\<close>

definition f64_floor_u64 :: "f64 \<Rightarrow> nat" where
  "f64_floor_u64 x =
     (if f64_is_nan x \<or> f64_negative x then 0
      else if f64_magnitude x = F64_INF then 2 ^ 64 - 1
      else case f64_ratio (f64_magnitude x) of (n, d) \<Rightarrow> min (2 ^ 64 - 1) (n div d))"

text \<open>A \<open>Duration\<close> in nanoseconds; its seconds are a \<open>u64\<close>.\<close>

definition DURATION_END :: nat where "DURATION_END = 2 ^ 64 * 1000000000"

definition from_secs_f64 :: "f64 \<Rightarrow> nat option" where
  "from_secs_f64 x =
     (if f64_magnitude x \<ge> F64_INF \<or> f64_negative x \<and> f64_magnitude x \<noteq> 0 then None
      else case f64_ratio (f64_magnitude x) of
        (n, d) \<Rightarrow> let ns = round_half_even (n * 1000000000) d in if ns < DURATION_END then Some ns else None)"

definition as_secs_f64 :: "nat \<Rightarrow> f64" where
  "as_secs_f64 ns =
     (case (f64_ratio (f64_bits (ns div 1000000000) 1), f64_ratio (f64_bits (ns mod 1000000000) 1000000000)) of
        ((n, d), (n', d')) \<Rightarrow> f64_make False (f64_bits (n * d' + n' * d) (d * d')))"

definition duration_add :: "nat \<Rightarrow> nat \<Rightarrow> nat option" where
  "duration_add a b = (if a + b < DURATION_END then Some (a + b) else None)"

section \<open>Pacing\<close>

definition fps :: "send_options \<Rightarrow> f64" where
  "fps opts = f64_divide (f64_of_i64 (sint (op_fps_n opts))) (f64_of_i64 (max 1 (sint (op_fps_d opts))))"

definition samples_per_frame :: "send_options \<Rightarrow> i32" where
  "samples_per_frame opts = sat_signed (f64_round_i64 (f64_divide (f64_of_i64 (sint (op_sample_rate opts))) (fps opts)))"

text \<open>When frame \<open>idx\<close> is due, how long to sleep at \<open>now\<close>, and the frame to go on with when the loop is late.\<close>

definition pace_video :: "send_options \<Rightarrow> nat \<Rightarrow> nat \<Rightarrow> (nat \<times> nat) option" where
  "pace_video opts now idx =
     Option.bind (from_secs_f64 (f64_divide (f64_of_nat idx) (fps opts))) (\<lambda>target.
       if target > now then Some (target - now, idx)
       else
         Option.bind (from_secs_f64 (f64_divide (f64_of_nat 2) (fps opts))) (\<lambda>two.
           Option.bind (duration_add target two) (\<lambda>limit.
             Some (0, if now > limit then f64_floor_u64 (f64_times (as_secs_f64 now) (fps opts)) else idx))))"

text \<open>The same for the audio packet that starts at sample \<open>sent\<close>.\<close>

definition audio_samples :: "send_options \<Rightarrow> int" where "audio_samples opts = max 1 (sint (op_audio_samples opts))"
definition audio_rate :: "send_options \<Rightarrow> int" where "audio_rate opts = max 1 (sint (op_sample_rate opts))"

definition pace_audio :: "send_options \<Rightarrow> nat \<Rightarrow> int \<Rightarrow> (nat \<times> int) option" where
  "pace_audio opts now sent =
     Option.bind (from_secs_f64 (f64_divide (f64_of_i64 sent) (f64_of_i64 (audio_rate opts)))) (\<lambda>due.
       if due > now then Some (due - now, sent)
       else
         Option.bind (duration_add due 50000000) (\<lambda>limit.
           Some (0,
             if now > limit then
               let s = f64_round_i64 (f64_times (as_secs_f64 now) (f64_of_i64 (audio_rate opts))) in s - s smod audio_samples opts
             else sent)))"

section \<open>The tone\<close>

text \<open>The position is an \<open>f64\<close> in the source; it is always a whole number below the sample rate, which is exact.\<close>

fun sine_plane :: "(nat \<Rightarrow> f32) \<Rightarrow> nat \<Rightarrow> nat \<Rightarrow> nat \<Rightarrow> bytes" where
  "sine_plane wave rate p 0 = []"
| "sine_plane wave rate p (Suc n) = le_bytes 4 (wave p) @ sine_plane wave rate (if p + 1 \<ge> rate then p + 1 - rate else p + 1) n"

definition append_sine_planar :: "(f32 \<Rightarrow> nat \<Rightarrow> nat \<Rightarrow> f32) \<Rightarrow> bytes \<Rightarrow> i32 \<Rightarrow> i32 \<Rightarrow> i32 \<Rightarrow> f32 \<Rightarrow> nat \<Rightarrow> bytes \<times> nat" where
  "append_sine_planar wave dst channels samples sample_rate tone_hz phase =
     (let ch = nat (max 1 (sint channels)); n = nat (max 0 (sint samples)); rate = nat (max 1 (sint sample_rate));
          plane = sine_plane (\<lambda>p. wave tone_hz p rate) rate phase n;
          phase' = phase + n in
      (dst @ concat (replicate ch plane), if phase' \<ge> rate then phase' mod rate else phase'))"

section \<open>The video loop\<close>

definition sender_config_of :: "send_options \<Rightarrow> sender_config" where
  "sender_config_of opts =
     \<lparr>sc_send_buffer = op_send_buffer opts, sc_recv_buffer = op_recv_buffer opts, sc_send_queue_depth = op_send_queue opts\<rparr>"

definition bars_sender :: "(u16 \<Rightarrow> bool) \<Rightarrow> (u16 \<Rightarrow> unit result) \<Rightarrow> settings \<Rightarrow> bool \<times> bool \<Rightarrow> nat \<times> nat \<Rightarrow> string \<Rightarrow> send_options \<Rightarrow> 'c sender result" where
  "bars_sender busy listen_at st spawned nows version opts =
     map_sum id (\<lambda>s. set_quality (op_quality opts) (set_sender_info (sender_info_new ''openmediatransport-rs'' ''MikanseiLaboratory'' version) s))
       (create_with_config busy listen_at st spawned nows (op_name opts) (ft_bitor (ft_bitor FT_VIDEO FT_AUDIO) FT_METADATA) (sender_config_of opts))"

text \<open>The number of the frame, the buffer, the picture kept when it does not move, and the subscriptions last printed.\<close>

record bars_loop =
  bl_idx :: nat
  bl_uyvy :: "u8 list"
  bl_cached :: "u8 list option"
  bl_sub :: "bool \<times> bool"

definition i32_checked :: "int \<Rightarrow> int option" where
  "i32_checked i = (if - (2 ^ 31) \<le> i \<and> i < 2 ^ 31 then Some i else None)"

definition video_interval :: "send_options \<Rightarrow> int" where
  "video_interval opts = sat64 (sint (op_fps_d opts) * TICKS_PER_SECOND) sdiv max 1 (sint (op_fps_n opts))"

definition bars_loop_new :: "send_options \<Rightarrow> bars_loop option" where
  "bars_loop_new opts =
     Option.bind (i32_checked (sint (op_width opts) * 2)) (\<lambda>stride.
       Option.bind (i32_checked (stride * sint (op_height opts))) (\<lambda>size.
         if size < 0 then None
         else
           let uyvy = replicate (nat size) 0; l = \<lparr>bl_idx = 0, bl_uyvy = uyvy, bl_cached = None, bl_sub = (False, False)\<rparr> in
           if op_animate opts then Some l
           else map_option (\<lambda>pic. l\<lparr>bl_uyvy := pic, bl_cached := Some pic\<rparr>) (fill_colorbar_uyvy uyvy (op_width opts) (op_height opts) 0)))"

definition next_picture :: "send_options \<Rightarrow> nat \<Rightarrow> bars_loop \<Rightarrow> (u8 list \<times> bars_loop) option" where
  "next_picture opts idx l =
     (case bl_cached l of
        Some cached \<Rightarrow> Some (cached, l)
      | None \<Rightarrow>
          map_option (\<lambda>pic. (pic, l\<lparr>bl_uyvy := pic\<rparr>))
            (fill_colorbar_uyvy (bl_uyvy l) (op_width opts) (op_height opts) (f32_div_u32 (word_of_nat (idx mod 300)) 300)))"

text \<open>The aspect ratio divides two \<open>i32\<close>; a picture exists only for a width that is not negative.\<close>

definition bars_frame :: "send_options \<Rightarrow> nat \<Rightarrow> u8 list \<Rightarrow> media_frame" where
  "bars_frame opts idx data =
     media_frame_default\<lparr>mf_frame_type := FT_VIDEO, mf_timestamp := word_of_int (sat64 (sint (word_of_nat idx :: i64) * video_interval opts)),
       mf_codec := codec_as_i32 Uyvy, mf_width := op_width opts, mf_height := op_height opts, mf_stride := op_width opts * 2,
       mf_frame_rate_n := op_fps_n opts, mf_frame_rate_d := op_fps_d opts,
       mf_aspect_ratio := f32_div_u32 (op_width opts) (if sint (op_height opts) < 1 then 1 else op_height opts),
       mf_color_space := Undefined, mf_data := data\<rparr>"

text \<open>What the outside does in one turn of the loop.\<close>

record bars_env =
  be_nonblocking :: "unit result"
  be_backlog :: "accepted list"
  be_reads :: "nat \<Rightarrow> read_result"
  be_now :: nat
  be_writes :: "nat \<Rightarrow> write_result list"
  be_system_time :: int
  be_nows :: "nat list"
  be_elapsed :: nat
  be_cap :: nat

text \<open>One turn: an error of the library ends the program.\<close>

definition bars_body :: "'c vmx \<Rightarrow> (bytes \<Rightarrow> nat option) \<Rightarrow> rox \<Rightarrow> send_options \<Rightarrow> bars_env \<Rightarrow> bars_loop \<Rightarrow> 'c sender \<Rightarrow>
    (unit result \<times> bars_loop \<times> 'c sender) option" where
  "bars_body V plen rox opts en l s =
     (case poll_accept (be_nonblocking en) (be_backlog en) s of
        (Inl e, s1) \<Rightarrow> Some (Inl e, l, s1)
      | (Inr _, s1) \<Rightarrow>
          (case poll_peer_metadata rox (be_reads en) s1 of
             (Inl e, s2) \<Rightarrow> Some (Inl e, l, s2)
           | (Inr _, s2) \<Rightarrow>
               let l1 = l\<lparr>bl_sub := (video_subscribed s2, audio_subscribed s2)\<rparr> in
               if \<not> video_subscribed s2 then Some (Inr (), l1, s2)
               else
                 Option.bind (pace_video opts (be_now en) (bl_idx l1)) (\<lambda>(_, idx).
                   Option.bind (next_picture opts idx l1) (\<lambda>(data, l2).
                     Option.bind (send_video V plen (be_writes en) (be_system_time en) (be_nows en) (be_elapsed en) (be_cap en)
                         (bars_frame opts idx data) s2) (\<lambda>(r, s3).
                       case r of
                         Inl e \<Rightarrow> Some (Inl e, l2\<lparr>bl_idx := idx\<rparr>, s3)
                       | Inr _ \<Rightarrow> if idx + 1 < 2 ^ 64 then Some (Inr (), l2\<lparr>bl_idx := idx + 1\<rparr>, s3) else None)))))"

section \<open>The audio loop\<close>

record tone_loop =
  tl_phase :: nat
  tl_sent :: int

definition tone_loop_new :: tone_loop where "tone_loop_new = \<lparr>tl_phase = 0, tl_sent = 0\<rparr>"

definition tone_frame :: "send_options \<Rightarrow> int \<Rightarrow> bytes \<Rightarrow> media_frame" where
  "tone_frame opts sent data =
     media_frame_default\<lparr>mf_frame_type := FT_AUDIO, mf_timestamp := word_of_int (sat64 (sent * TICKS_PER_SECOND) sdiv audio_rate opts),
       mf_codec := codec_as_i32 Fpa1, mf_sample_rate := op_sample_rate opts, mf_channels := op_channels opts,
       mf_samples_per_channel := word_of_int (audio_samples opts), mf_active_channels := 0, mf_data := data\<rparr>"

text \<open>One turn; what \<open>send_audio\<close> answers is ignored.\<close>

definition tone_body :: "(f32 \<Rightarrow> nat \<Rightarrow> nat \<Rightarrow> f32) \<Rightarrow> send_options \<Rightarrow> nat \<Rightarrow> (nat \<Rightarrow> write_result list) \<Rightarrow> nat list \<Rightarrow> tone_loop \<Rightarrow> 'c sender \<Rightarrow>
    (tone_loop \<times> 'c sender) option" where
  "tone_body wave opts now ws nows l s =
     (if \<not> audio_subscribed s then Some (l, s)
      else
        Option.bind (pace_audio opts now (tl_sent l)) (\<lambda>(_, sent).
          case append_sine_planar wave [] (op_channels opts) (word_of_int (audio_samples opts)) (op_sample_rate opts) (op_tone_hz opts) (tl_phase l) of
            (data, phase) \<Rightarrow>
              if sent + audio_samples opts < 2 ^ 63 then
                map_option (\<lambda>(_, s'). (\<lparr>tl_phase = phase, tl_sent = sent + audio_samples opts\<rparr>, s')) (send_audio ws nows (tone_frame opts sent data) s)
              else None))"

text \<open>Both loops take turns on the sender; an error of the video loop ends the program.\<close>

fun bars_run :: "'c vmx \<Rightarrow> (bytes \<Rightarrow> nat option) \<Rightarrow> rox \<Rightarrow> (f32 \<Rightarrow> nat \<Rightarrow> nat \<Rightarrow> f32) \<Rightarrow> send_options \<Rightarrow>
    (bars_env + nat \<times> (nat \<Rightarrow> write_result list) \<times> nat list) list \<Rightarrow> bars_loop \<Rightarrow> tone_loop \<Rightarrow> 'c sender \<Rightarrow>
    (unit result \<times> bars_loop \<times> tone_loop \<times> 'c sender) option" where
  "bars_run V plen rox wave opts [] l t s = Some (Inr (), l, t, s)"
| "bars_run V plen rox wave opts (Inl en # turns) l t s =
     Option.bind (bars_body V plen rox opts en l s) (\<lambda>(r, l', s').
       case r of Inl e \<Rightarrow> Some (Inl e, l', t, s') | Inr _ \<Rightarrow> bars_run V plen rox wave opts turns l' t s')"
| "bars_run V plen rox wave opts (Inr (now, ws, nows) # turns) l t s =
     Option.bind (tone_body wave opts now ws nows t s) (\<lambda>(t', s'). bars_run V plen rox wave opts turns l t' s')"

section \<open>The example on the asynchronous API\<close>

text \<open>\<open>examples/send_colorbar_tokio.rs\<close>: the same loops over the asynchronous sender.\<close>

definition tokio_bars_body :: "'c vmx \<Rightarrow> (bytes \<Rightarrow> nat option) \<Rightarrow> rox \<Rightarrow> send_options \<Rightarrow> bars_env \<Rightarrow> bars_loop \<Rightarrow> 'c async_sender \<Rightarrow>
    (unit result \<times> bars_loop \<times> 'c async_sender) option" where
  "tokio_bars_body V plen rox opts en l a =
     (case async_poll_accept (be_nonblocking en) (be_backlog en) a of
        (Inl e, a1) \<Rightarrow> Some (Inl e, l, a1)
      | (Inr _, a1) \<Rightarrow>
          (case async_poll_peer_metadata rox (be_reads en) a1 of
             (Inl e, a2) \<Rightarrow> Some (Inl e, l, a2)
           | (Inr _, a2) \<Rightarrow>
               if \<not> async_video_subscribed a2 then Some (Inr (), l, a2)
               else
                 Option.bind (pace_video opts (be_now en) (bl_idx l)) (\<lambda>(_, idx).
                   Option.bind (next_picture opts idx l) (\<lambda>(data, l1).
                     Option.bind (async_send_video V plen (be_writes en) (be_system_time en) (be_nows en) (be_elapsed en) (be_cap en)
                         (bars_frame opts idx data) a2) (\<lambda>(r, a3).
                       case r of
                         Inl e \<Rightarrow> Some (Inl e, l1\<lparr>bl_idx := idx\<rparr>, a3)
                       | Inr _ \<Rightarrow> if idx + 1 < 2 ^ 64 then Some (Inr (), l1\<lparr>bl_idx := idx + 1\<rparr>, a3) else None)))))"

definition tokio_tone_body :: "(f32 \<Rightarrow> nat \<Rightarrow> nat \<Rightarrow> f32) \<Rightarrow> send_options \<Rightarrow> nat \<Rightarrow> (nat \<Rightarrow> write_result list) \<Rightarrow> nat list \<Rightarrow> tone_loop \<Rightarrow>
    'c async_sender \<Rightarrow> (tone_loop \<times> 'c async_sender) option" where
  "tokio_tone_body wave opts now ws nows l a =
     (if \<not> async_audio_subscribed a then Some (l, a)
      else
        Option.bind (pace_audio opts now (tl_sent l)) (\<lambda>(_, sent).
          case append_sine_planar wave [] (op_channels opts) (word_of_int (audio_samples opts)) (op_sample_rate opts) (op_tone_hz opts) (tl_phase l) of
            (data, phase) \<Rightarrow>
              if sent + audio_samples opts < 2 ^ 63 then
                map_option (\<lambda>(_, a'). (\<lparr>tl_phase = phase, tl_sent = sent + audio_samples opts\<rparr>, a')) (async_send_audio ws nows (tone_frame opts sent data) a)
              else None))"

section \<open>A frame rate of zero\<close>

lemma f64_zero: "f64_of_i64 0 = 0" "f64_of_nat 0 = 0"
  by (simp_all add: f64_of_i64_def f64_of_nat_def f64_make_def f64_bits_def float_bits_def)

lemma f64_zero_parts: "f64_magnitude 0 = 0" "\<not> f64_negative 0" "f64_ratio 0 = (0, 2 ^ 1074)"
  by (simp_all add: f64_magnitude_def f64_negative_def f64_ratio_def float_ratio_def scale_ratio_def)

text \<open>An integer that an \<open>i64\<close> or a \<open>u64\<close> can hold becomes a finite float, zero only for zero.\<close>

lemma f64_positive_parts:
  assumes "0 < a" "a < 2 ^ 64"
  shows "f64_magnitude (f64_make neg (f64_bits a 1)) < F64_INF" "f64_magnitude (f64_make neg (f64_bits a 1)) \<noteq> 0"
proof -
  have "(1 :: real) \<le> real a" "real a \<le> 2 ^ 64" using assms by simp_all
  then have r: "1 / 2 ^ 100 \<le> ratio (a, 1)" "ratio (a, 1) \<le> 2 ^ 100" by (simp_all add: ratio_def)
  have lt: "f64_bits a 1 < F64_INF" and e: "\<bar>ratio (f64_ratio (f64_bits a 1)) - ratio (a, 1)\<bar> \<le> ratio (a, 1) / 2 ^ 53"
    by (rule f64_bits_error [OF assms(1) _ r]; simp)+
  then show "f64_magnitude (f64_make neg (f64_bits a 1)) < F64_INF" by simp
  have "f64_bits a 1 \<noteq> 0"
  proof
    assume "f64_bits a 1 = 0"
    with e have "ratio (a, 1) \<le> ratio (a, 1) / 2 ^ 53" using f64_zero_parts(3) by (simp add: ratio_def)
    with assms(1) show False by (simp add: ratio_def)
  qed
  with lt show "f64_magnitude (f64_make neg (f64_bits a 1)) \<noteq> 0" by simp
qed

lemma f64_zero_divided:
  assumes "f64_magnitude y < F64_INF" "f64_magnitude y \<noteq> 0" "\<not> f64_negative y"
  shows "f64_divide 0 y = 0"
proof -
  have "f64_bits 0 n = 0" for n by (simp add: f64_bits_def float_bits_def)
  moreover have "0 < F64_INF" by (simp add: F64_INF_def)
  ultimately show ?thesis
    using assms by (cases "f64_ratio (f64_magnitude y)") (simp add: f64_divide_def f64_zero_parts f64_is_nan_def f64_make_def)
qed

lemma zero_rate: "op_fps_n opts = 0 \<Longrightarrow> fps opts = 0"
proof -
  assume n: "op_fps_n opts = 0"
  let ?d = "max 1 (sint (op_fps_d opts))"
  have d: "0 < nat \<bar>?d\<bar>" "nat \<bar>?d\<bar> < 2 ^ 64" "\<not> ?d < 0" using sint_lt [of "op_fps_d opts"] by simp_all
  have y: "f64_of_i64 ?d = f64_make False (f64_bits (nat \<bar>?d\<bar>) 1)" using d(3) by (simp add: f64_of_i64_def)
  have "f64_bits (nat \<bar>?d\<bar>) 1 \<le> F64_INF" by (simp add: f64_bits_def float_bits_def Let_def split: prod.split)
  then have "\<not> f64_negative (f64_of_i64 ?d)" unfolding y by simp
  then have "f64_divide 0 (f64_of_i64 ?d) = 0"
    using f64_positive_parts [OF d(1,2), of False] unfolding y [symmetric] by (intro f64_zero_divided)
  then show ?thesis by (simp add: fps_def n f64_zero)
qed

lemma no_due_time: "f64_magnitude x \<le> F64_INF \<Longrightarrow> from_secs_f64 (f64_divide x 0) = None"
  by (simp add: f64_divide_def from_secs_f64_def Let_def f64_zero_parts f64_is_nan_def) (simp add: F64_NAN_def f64_magnitude_def F64_INF_def)

text \<open>With \<open>--fps 0\<close> the example panics on the first frame a receiver subscribes to: the due time is not a number.\<close>

lemma zero_rate_panics:
  assumes "op_fps_n opts = 0" "idx < 2 ^ 64"
  shows "pace_video opts now idx = None"
proof (cases "idx = 0")
  case True
  then show ?thesis using no_due_time [of 0] by (simp add: pace_video_def zero_rate [OF assms(1)] f64_zero f64_zero_parts F64_INF_def)
next
  case False
  then have "from_secs_f64 (f64_divide (f64_of_nat idx) 0) = None"
    using f64_positive_parts(1) [of idx False] assms(2) by (intro no_due_time) (simp add: f64_of_nat_def)
  then show ?thesis by (simp add: pace_video_def zero_rate [OF assms(1)])
qed

section \<open>The tone is continuous\<close>

lemma sine_plane_append:
  "p < rate \<Longrightarrow> sine_plane wave rate p (m + n) = sine_plane wave rate p m @ sine_plane wave rate ((p + m) mod rate) n"
proof (induction m arbitrary: p)
  case (Suc m)
  let ?p = "if p + 1 \<ge> rate then p + 1 - rate else p + 1"
  have "?p < rate" using Suc.prems by simp
  moreover have "?p = (p + 1) mod rate" using Suc.prems by (auto simp: le_mod_geq)
  then have "(?p + m) mod rate = (p + Suc m) mod rate" by (simp add: mod_add_left_eq)
  ultimately have "?p < rate" "(?p + m) mod rate = (p + Suc m) mod rate" by blast+
  with Suc.IH [of ?p] show ?case by simp
qed simp

lemma length_sine_plane: "length (sine_plane wave rate p n) = 4 * n"
  by (induction wave rate p n rule: sine_plane.induct) simp_all

lemma append_sine_result:
  assumes "append_sine_planar wave [] channels samples sample_rate tone_hz phase = (data, phase')" "phase < nat (max 1 (sint sample_rate))"
  shows "length data = nat (max 1 (sint channels)) * (4 * nat (max 0 (sint samples)))"
    "phase' = (phase + nat (max 0 (sint samples))) mod nat (max 1 (sint sample_rate))"
    "data = concat (replicate (nat (max 1 (sint channels))) (sine_plane (\<lambda>p. wave tone_hz p (nat (max 1 (sint sample_rate))))
      (nat (max 1 (sint sample_rate))) phase (nat (max 0 (sint samples)))))"
  using assms by (auto simp: append_sine_planar_def Let_def length_concat sum_list_replicate length_sine_plane split: if_splits)

section \<open>The loops keep going\<close>

text \<open>Options with which a picture can be made, and a loop whose buffer has its size.\<close>

definition legal_size :: "send_options \<Rightarrow> bool" where
  "legal_size opts \<longleftrightarrow> 0 < sint (op_width opts) \<and> even (sint (op_width opts)) \<and> 0 < sint (op_height opts) \<and>
     sint (op_width opts) * 2 * sint (op_height opts) < 2 ^ 31"

definition picture_size :: "send_options \<Rightarrow> nat" where
  "picture_size opts = 2 * nat (sint (op_width opts)) * nat (sint (op_height opts))"

definition bars_inv :: "send_options \<Rightarrow> bars_loop \<Rightarrow> bool" where
  "bars_inv opts l \<longleftrightarrow> length (bl_uyvy l) = picture_size opts \<and>
     (case bl_cached l of Some pic \<Rightarrow> length pic = picture_size opts \<and> studio_bytes pic | None \<Rightarrow> True)"

lemma filled:
  assumes "legal_size opts" "length dst = picture_size opts"
  obtains pic where "fill_colorbar_uyvy dst (op_width opts) (op_height opts) phase = Some pic" "length pic = picture_size opts" "studio_bytes pic"
proof -
  have "even (nat (sint (op_width opts)))" using assms(1) by (simp add: legal_size_def even_nat_iff)
  then show ?thesis
    using colorbar_picture [of "op_width opts" "op_height opts" _ _ dst phase 0, OF _ _ refl refl] assms that
    by (auto simp: legal_size_def picture_size_def)
qed

lemma bars_loop_starts:
  assumes "legal_size opts"
  obtains l where "bars_loop_new opts = Some l" "bars_inv opts l" "bl_idx l = 0"
proof -
  let ?w = "sint (op_width opts)" and ?h = "sint (op_height opts)"
  have pos: "0 < ?w" "0 < ?h" "?w * 2 * ?h < 2 ^ 31" using assms by (simp_all add: legal_size_def)
  have "?w * 2 * 1 \<le> ?w * 2 * ?h" using pos by (intro mult_left_mono) simp_all
  then have checked: "i32_checked (?w * 2) = Some (?w * 2)" "i32_checked (?w * 2 * ?h) = Some (?w * 2 * ?h)" "\<not> ?w * 2 * ?h < 0"
    using pos unfolding i32_checked_def by (smt (verit))+
  have size: "nat (?w * 2 * ?h) = picture_size opts" using pos by (simp add: picture_size_def nat_mult_distrib)
  obtain pic where "fill_colorbar_uyvy (replicate (picture_size opts) 0) (op_width opts) (op_height opts) 0 = Some pic"
    "length pic = picture_size opts" "studio_bytes pic"
    by (rule filled [OF assms length_replicate])
  then show ?thesis using that by (cases "op_animate opts") (simp_all add: bars_loop_new_def checked size bars_inv_def Let_def)
qed

text \<open>Every picture is complete, of studio range, and one the encoder takes.\<close>

lemma next_picture_legal:
  assumes "legal_size opts" "bars_inv opts l"
  obtains data l' where "next_picture opts idx l = Some (data, l')" "length data = picture_size opts" "studio_bytes data" "bars_inv opts l'"
proof (cases "bl_cached l")
  case None
  have size: "length (bl_uyvy l) = picture_size opts" using assms(2) by (simp add: bars_inv_def)
  obtain pic where "fill_colorbar_uyvy (bl_uyvy l) (op_width opts) (op_height opts) (f32_div_u32 (word_of_nat (idx mod 300)) 300) = Some pic"
    "length pic = picture_size opts" "studio_bytes pic"
    by (rule filled [OF assms(1) size])
  with None show ?thesis by (intro that [of pic "l\<lparr>bl_uyvy := pic\<rparr>"]) (simp_all add: next_picture_def bars_inv_def)
next
  case (Some pic)
  with that assms(2) show ?thesis by (simp add: next_picture_def bars_inv_def)
qed

lemma bars_body_keeps:
  assumes "legal_size opts" "bars_inv opts l" "bars_body V plen rox opts en l s = Some (r, l', s')"
  shows "bars_inv opts l'"
proof -
  have same: "bars_inv opts (l\<lparr>bl_sub := x\<rparr>)" "bars_inv opts (g\<lparr>bl_idx := i\<rparr>) = bars_inv opts g" for x i g
    using assms(2) by (simp_all add: bars_inv_def)
  obtain r1 s1 where p1: "poll_accept (be_nonblocking en) (be_backlog en) s = (r1, s1)" by fastforce
  obtain r2 s2 where p2: "poll_peer_metadata rox (be_reads en) s1 = (r2, s2)" by fastforce
  show ?thesis
  proof (cases "isl r1 \<or> isl r2 \<or> \<not> video_subscribed s2")
    case True
    then show ?thesis
      using assms(3) same(1) [of "(video_subscribed s2, audio_subscribed s2)"] assms(2)
      by (cases r1; cases r2) (simp_all add: bars_body_def p1 p2 Let_def, auto)
  next
    case False
    let ?l1 = "l\<lparr>bl_sub := (video_subscribed s2, audio_subscribed s2)\<rparr>"
    let ?send = "\<lambda>idx data. send_video V plen (be_writes en) (be_system_time en) (be_nows en) (be_elapsed en) (be_cap en) (bars_frame opts idx data) s2"
    from False obtain u v where "r1 = Inr u" "r2 = Inr v" "video_subscribed s2" by (cases r1; cases r2) auto
    then have turn: "Option.bind (pace_video opts (be_now en) (bl_idx l)) (\<lambda>(_, idx). Option.bind (next_picture opts idx ?l1) (\<lambda>(data, l2).
        Option.bind (?send idx data) (\<lambda>(r, s3). case r of Inl e \<Rightarrow> Some (Inl e, l2\<lparr>bl_idx := idx\<rparr>, s3)
          | Inr _ \<Rightarrow> if idx + 1 < 2 ^ 64 then Some (Inr (), l2\<lparr>bl_idx := idx + 1\<rparr>, s3) else None))) = Some (r, l', s')"
      using assms(3) by (simp add: bars_body_def p1 p2 Let_def)
    then obtain wait idx where pace: "pace_video opts (be_now en) (bl_idx l) = Some (wait, idx)" by (cases "pace_video opts (be_now en) (bl_idx l)") auto
    then obtain data l2 where np: "next_picture opts idx ?l1 = Some (data, l2)" using turn by (cases "next_picture opts idx ?l1") auto
    then obtain r3 s3 where "?send idx data = Some (r3, s3)" using turn pace by (cases "?send idx data") auto
    then have sent: "(case r3 of Inl e \<Rightarrow> Some (Inl e, l2\<lparr>bl_idx := idx\<rparr>, s3)
        | Inr _ \<Rightarrow> if idx + 1 < 2 ^ 64 then Some (Inr (), l2\<lparr>bl_idx := idx + 1\<rparr>, s3) else None) = Some (r, l', s')"
      using turn pace np by simp
    have "bars_inv opts l2" by (rule next_picture_legal [OF assms(1) same(1), of idx "(video_subscribed s2, audio_subscribed s2)"]) (use np in simp)
    with sent show ?thesis by (cases r3) (auto simp: same(2) split: if_split_asm)
  qed
qed

text \<open>The audio packets start at multiples of the packet size, and the sender takes them.\<close>

lemma pace_audio_aligned:
  assumes "pace_audio opts now sent = Some (wait, sent')" "audio_samples opts dvd sent"
  shows "audio_samples opts dvd sent'"
proof -
  have "audio_samples opts dvd (x - x smod audio_samples opts)" for x
    by (simp add: minus_smod_eq_mult_sdiv)
  then show ?thesis using assms by (auto simp: pace_audio_def bind_eq_Some_conv Let_def split: if_splits)
qed

lemma tone_packet:
  assumes "append_sine_planar wave [] (op_channels opts) (word_of_int (audio_samples opts)) (op_sample_rate opts) (op_tone_hz opts) phase = (data, phase')"
    "phase < nat (audio_rate opts)" "1 \<le> sint (op_channels opts)"
  shows "length data = nonneg (mf_channels (tone_frame opts sent data)) * nonneg (mf_samples_per_channel (tone_frame opts sent data)) * 4"
    "phase' < nat (audio_rate opts)" "data \<noteq> []"
proof -
  have n: "sint (word_of_int (audio_samples opts) :: i32) = audio_samples opts" "1 \<le> audio_samples opts"
    using sint_lt [of "op_audio_samples opts"] by (simp_all add: audio_samples_def signed_take_bit_int_eq_self word_of_int_eq_iff sint_sbintrunc')
  note r = append_sine_result [OF assms(1) assms(2) [unfolded audio_rate_def]]
  show "length data = nonneg (mf_channels (tone_frame opts sent data)) * nonneg (mf_samples_per_channel (tone_frame opts sent data)) * 4"
    using r(1) assms(3) n by (simp add: tone_frame_def nonneg_def)
  show "phase' < nat (audio_rate opts)" using r(2) by (simp add: audio_rate_def)
  have "0 < length data" using r(1) n by simp
  then show "data \<noteq> []" by blast
qed

definition tone_inv :: "send_options \<Rightarrow> tone_loop \<Rightarrow> bool" where
  "tone_inv opts l \<longleftrightarrow> audio_samples opts dvd tl_sent l \<and> tl_phase l < nat (audio_rate opts)"

lemma tone_body_keeps:
  assumes "tone_inv opts l" "1 \<le> sint (op_channels opts)" "tone_body wave opts now ws nows l s = Some (l', s')"
  shows "tone_inv opts l'"
proof (cases "audio_subscribed s")
  case False
  with assms show ?thesis by (simp add: tone_body_def)
next
  case True
  obtain data phase where d: "append_sine_planar wave [] (op_channels opts) (word_of_int (audio_samples opts)) (op_sample_rate opts)
      (op_tone_hz opts) (tl_phase l) = (data, phase)" by fastforce
  obtain wait sent where p: "pace_audio opts now (tl_sent l) = Some (wait, sent)"
    using assms(3) True by (cases "pace_audio opts now (tl_sent l)") (auto simp: tone_body_def)
  have "l' = \<lparr>tl_phase = phase, tl_sent = sent + audio_samples opts\<rparr>"
    using assms(3) True by (auto simp: tone_body_def p d split: if_split_asm)
  then show ?thesis
    using assms(1) tone_packet(2) [OF d _ assms(2)] pace_audio_aligned [OF p] by (simp add: tone_inv_def)
qed

text \<open>Both loops, in any interleaving and whatever the network does, stay in these states.\<close>

lemma bars_run_keeps:
  assumes "legal_size opts" "1 \<le> sint (op_channels opts)"
  shows "bars_inv opts l \<Longrightarrow> tone_inv opts t \<Longrightarrow> bars_run V plen rox wave opts turns l t s = Some (r, l', t', s') \<Longrightarrow>
    bars_inv opts l' \<and> tone_inv opts t'"
proof (induction turns arbitrary: l t s)
  case Nil
  then show ?case by simp
next
  case (Cons turn turns)
  show ?case
  proof (cases turn)
    case (Inl en)
    obtain r1 l1 s1 where b: "bars_body V plen rox opts en l s = Some (r1, l1, s1)"
      using Cons.prems(3) Inl by (cases "bars_body V plen rox opts en l s") auto
    have "bars_inv opts l1" by (rule bars_body_keeps [OF assms(1) Cons.prems(1) b])
    with Cons.IH [of l1 t s1] Cons.prems(2,3) show ?thesis by (cases r1) (auto simp: Inl b)
  next
    case (Inr x)
    obtain now ws nows where x: "turn = Inr (now, ws, nows)" using Inr by (cases x) auto
    obtain t1 s1 where b: "tone_body wave opts now ws nows t s = Some (t1, s1)"
      using Cons.prems(3) x by (cases "tone_body wave opts now ws nows t s") auto
    have "tone_inv opts t1" by (rule tone_body_keeps [OF Cons.prems(2) assms(2) b])
    with Cons.IH [of l t1 s1] Cons.prems(1,3) show ?thesis by (simp add: x b)
  qed
qed

section \<open>The two examples do the same\<close>

definition same_turn :: "(unit result \<times> bars_loop \<times> 'c async_sender) option \<Rightarrow> (unit result \<times> bars_loop \<times> 'c sender) option \<Rightarrow> bool" where
  "same_turn x y \<longleftrightarrow> rel_option (\<lambda>(r, l, a) (r', l', s). r = r' \<and> l\<lparr>bl_sub := bl_sub l'\<rparr> = l' \<and> as_inner a = s) x y"

lemma next_picture_sub:
  "next_picture opts idx (l\<lparr>bl_sub := x\<rparr>) = map_option (\<lambda>(data, l'). (data, l'\<lparr>bl_sub := x\<rparr>)) (next_picture opts idx l)"
  by (cases l) (simp add: next_picture_def option.map_comp comp_def split: option.split)

lemma tokio_bars_same: "same_turn (tokio_bars_body V plen rox opts en l a) (bars_body V plen rox opts en l (as_inner a))"
proof -
  obtain r1 s1 where p1: "poll_accept (be_nonblocking en) (be_backlog en) (as_inner a) = (r1, s1)" by fastforce
  obtain r2 s2 where p2: "poll_peer_metadata rox (be_reads en) s1 = (r2, s2)" by fastforce
  have a: "async_poll_accept (be_nonblocking en) (be_backlog en) a = (r1, a\<lparr>as_inner := s1\<rparr>)"
    "async_poll_peer_metadata rox (be_reads en) (a\<lparr>as_inner := s1\<rparr>) = (r2, a\<lparr>as_inner := s2\<rparr>)"
    by (simp_all add: async_poll_accept_def async_poll_peer_metadata_def on_inner_def p1 p2)
  show ?thesis
    by (simp add: tokio_bars_body_def bars_body_def a p1 p2 same_turn_def async_video_subscribed_def next_picture_sub async_send_video_def Let_def
        split: sum.split option.split prod.split Option.bind_split)
qed

lemma tokio_tone_same:
  "map_option (\<lambda>(l', a'). (l', as_inner a')) (tokio_tone_body wave opts now ws nows l a) = tone_body wave opts now ws nows l (as_inner a)"
  by (simp add: tokio_tone_body_def tone_body_def async_audio_subscribed_def async_send_audio_def option.map_comp comp_def case_prod_unfold split: Option.bind_split)

end
