(* ===== verification/Examples.thy ===== *)
theory Examples
  imports Discovery Colorbar_Sender
begin

text \<open>
  The other example programs (\<open>examples/\<close>): sending one picture to a receiver of the same process, on the blocking and on the
  asynchronous API, listing the sources found, saving received pictures as JPEG files, and the announcement of the asynchronous colour-bar sender. What
  is printed is left out. The lemmas show that the loopback programs reach the sending of a frame the encoder takes, that every
  decoded picture can be converted to RGB, and that the asynchronous colour-bar sender withdraws its announcement at once.
\<close>

section \<open>One picture over the loopback\<close>

text \<open>What the outside does in one turn of the loop that waits for the subscription.\<close>

record wait_env =
  we_nonblocking :: "unit result"
  we_backlog :: "accepted list"
  we_reads :: "nat \<Rightarrow> read_result"

text \<open>The loop of \<open>send_receive.rs\<close>, over its at most fifty turns.\<close>

fun wait_subscribed :: "rox \<Rightarrow> wait_env list \<Rightarrow> 'c sender \<Rightarrow> unit result \<times> 'c sender" where
  "wait_subscribed rox [] s = (Inr (), s)"
| "wait_subscribed rox (en # ens) s =
     (case poll_accept (we_nonblocking en) (we_backlog en) s of
        (Inl e, s1) \<Rightarrow> (Inl e, s1)
      | (Inr _, s1) \<Rightarrow>
          (case poll_peer_metadata rox (we_reads en) s1 of
             (Inl e, s2) \<Rightarrow> (Inl e, s2)
           | (Inr _, s2) \<Rightarrow> if video_subscribed s2 then (Inr (), s2) else wait_subscribed rox ens s2))"

text \<open>A grey picture of 64 by 64 pixels.\<close>

definition loopback_frame :: "i64 \<Rightarrow> media_frame" where
  "loopback_frame ts =
     media_frame_default\<lparr>mf_frame_type := FT_VIDEO, mf_timestamp := ts, mf_codec := codec_as_i32 Uyvy, mf_width := 64, mf_height := 64,
       mf_stride := 128, mf_frame_rate_n := 60, mf_frame_rate_d := 1, mf_aspect_ratio := 0x3F800000, mf_data := replicate (128 * 64) 128\<rparr>"

definition loopback_config :: receiver_config where
  "loopback_config = receiver_config_default\<lparr>rc_frame_types := ft_bitor FT_VIDEO FT_METADATA, rc_connect_timeout := 2000\<rparr>"

definition local_url :: "u16 \<Rightarrow> string" where
  "local_url port = ''omt://127.0.0.1:'' @ show_nat (unat port)"

text \<open>\<open>send_receive.rs\<close> from the created sender on: connecting, the subscription, sending. The outer \<open>None\<close> is a panic; an error
  ends the program. \<open>turns\<close> are the turns of the loop.\<close>

definition loopback_main :: "'c vmx \<Rightarrow> (bytes \<Rightarrow> nat option) \<Rightarrow> rox \<Rightarrow> connect_env \<Rightarrow> wait_env list \<Rightarrow> (nat \<Rightarrow> write_result list) \<Rightarrow> int \<Rightarrow>
    nat list \<Rightarrow> nat \<Rightarrow> nat \<Rightarrow> 'c sender result \<Rightarrow> ((session \<times> 'c sender) result) option" where
  "loopback_main V plen rox env turns ws system_time nows elapsed cap created =
     (case created of
        Inl e \<Rightarrow> Some (Inl e)
      | Inr s \<Rightarrow>
          Option.bind (session_connect env (local_url (sender_port s)) loopback_config) (\<lambda>connected.
            case connected of
              Inl e \<Rightarrow> Some (Inl e)
            | Inr (se, _, _) \<Rightarrow>
                (case wait_subscribed rox (take 50 turns) s of
                   (Inl e, _) \<Rightarrow> Some (Inl e)
                 | (Inr _, s1) \<Rightarrow>
                     let s2 = if video_subscribed s1 then s1 else force_subscribe True False True s1 in
                     Option.bind (send_video V plen ws system_time nows elapsed cap (loopback_frame 0) s2) (\<lambda>(r, s3).
                       case r of Inl e \<Rightarrow> Some (Inl e) | Inr _ \<Rightarrow> Some (Inr (se, s3))))))"

text \<open>The end of the program: one picture or none, then the session is closed.\<close>

definition loopback_receive :: "(bool \<times> bool \<times> (decoded_video_frame decoded_queue \<Rightarrow> decoded_video_frame decoded_queue)) list \<Rightarrow>
    (receiver \<Rightarrow> receiver) \<Rightarrow> session \<Rightarrow> (decoded_video_frame option \<times> receiver) option" where
  "loopback_receive wakes others se = map_option (\<lambda>(f, r). (f, disconnect others r)) (recv_video_timeout wakes (se_rx se))"

text \<open>\<open>send_receive_tokio.rs\<close>: all fifty turns are taken, the subscription is forced in any case, and the outcome of sending is ignored.\<close>

fun tokio_polls :: "rox \<Rightarrow> wait_env list \<Rightarrow> 'c async_sender \<Rightarrow> unit result \<times> 'c async_sender" where
  "tokio_polls rox [] a = (Inr (), a)"
| "tokio_polls rox (en # ens) a =
     (case async_poll_accept (we_nonblocking en) (we_backlog en) a of
        (Inl e, a1) \<Rightarrow> (Inl e, a1)
      | (Inr _, a1) \<Rightarrow>
          (case async_poll_peer_metadata rox (we_reads en) a1 of
             (Inl e, a2) \<Rightarrow> (Inl e, a2)
           | (Inr _, a2) \<Rightarrow> tokio_polls rox ens a2))"

definition tokio_loopback :: "'c vmx \<Rightarrow> (bytes \<Rightarrow> nat option) \<Rightarrow> rox \<Rightarrow> string option \<Rightarrow> connect_env \<Rightarrow> wait_env list \<Rightarrow>
    (nat \<Rightarrow> write_result list) \<Rightarrow> int \<Rightarrow> nat list \<Rightarrow> nat \<Rightarrow> nat \<Rightarrow> 'c async_sender result \<Rightarrow> ((async_receiver \<times> 'c async_sender) result) option" where
  "tokio_loopback V plen rox join_error env turns ws system_time nows elapsed cap created =
     (case created of
        Inl e \<Rightarrow> Some (Inl e)
      | Inr a0 \<Rightarrow>
          let a = async_set_quality Low a0 in
          Option.bind (async_connect join_error env (local_url (async_port a)) FT_VIDEO) (\<lambda>connected.
            case connected of
              Inl e \<Rightarrow> Some (Inl e)
            | Inr (receiver, _, _) \<Rightarrow>
                (case tokio_polls rox (take 50 turns) a of
                   (Inl e, _) \<Rightarrow> Some (Inl e)
                 | (Inr _, a1) \<Rightarrow>
                     map_option (\<lambda>(_, a2). Inr (receiver, a2))
                       (async_send_video V plen ws system_time nows elapsed cap (loopback_frame 1) (async_force_subscribe True False True a1)))))"

section \<open>Saving pictures\<close>

text \<open>\<open>discovery.rs\<close>: the sources after browsing for three seconds, the time in which \<open>events\<close> arrive.\<close>

definition discovery_example :: "mdns_env \<Rightarrow> (string \<Rightarrow> u16 \<Rightarrow> socket_addr list result) \<Rightarrow> (socket_addr \<Rightarrow> unit result) \<Rightarrow> string option \<Rightarrow>
    service_event list \<Rightarrow> surroundings \<Rightarrow> omt_address list result option" where
  "discovery_example env resolve dial server events w =
     (case discovery_new resolve dial server of
        Inl e \<Rightarrow> Some (Inl e)
      | Inr d \<Rightarrow> map_option (\<lambda>(r, w', d'). map_sum id (\<lambda>_. discovery_sources d') r) (refresh_for env events w d))"

text \<open>The address of the first source found.\<close>

definition discover_first :: "omt_address list \<Rightarrow> string + (string \<times> string list)" where
  "discover_first sources =
     (case sources of [] \<Rightarrow> Inl ''no OMT sources discovered'' | first # _ \<Rightarrow> Inr (to_url first, oa_addresses first))"

text \<open>\<open>bgra_to_rgb\<close>: the four bytes of a pixel, and the whole. \<open>from_raw\<close> makes the image of its size and bytes.\<close>

fun rgb_of :: "bytes \<Rightarrow> bytes" where
  "rgb_of (b # g # r # a # px) = r # g # b # rgb_of px"
| "rgb_of px = []"

definition bgra_to_rgb :: "(nat \<Rightarrow> nat \<Rightarrow> bytes \<Rightarrow> 'img option) \<Rightarrow> bytes \<Rightarrow> u32 \<Rightarrow> u32 \<Rightarrow> string + 'img" where
  "bgra_to_rgb from_raw bgra width height =
     (let expected = unat width * 4 * unat height in
      if length bgra < expected then
        Inl (''BGRA buffer too small: '' @ show_nat (length bgra) @ '' < '' @ show_nat expected)
      else
        case from_raw (unat width) (unat height) (rgb_of (take expected bgra)) of
          Some img \<Rightarrow> Inr img
        | None \<Rightarrow> Inl ''failed to build RGB image'')"

text \<open>The command line: the URL, or \<open>None\<close> to discover; \<open>Inl\<close> ends the program with code 2. Then the number of pictures.\<close>

definition jpeg_source :: "string list \<Rightarrow> string + string option" where
  "jpeg_source args =
     (case args of [] \<Rightarrow> Inr None | u # _ \<Rightarrow> if starts_with ''omt://'' u then Inr (Some u) else Inl u)"

definition jpeg_count :: "string list \<Rightarrow> nat" where
  "jpeg_count args = (case drop 2 args of a # _ \<Rightarrow> (case parse_usize a of Some n \<Rightarrow> n | None \<Rightarrow> 5) | [] \<Rightarrow> 5)"

text \<open>The loop: a turn tells whether the deadline is still ahead and how waiting for a picture goes; \<open>save\<close> is the outcome of writing a file. The
  result is an error of the loop, or the numbers of pictures saved and of attempts.\<close>

fun save_frames :: "(nat \<Rightarrow> nat \<Rightarrow> bytes \<Rightarrow> 'img option) \<Rightarrow> (nat \<Rightarrow> 'img \<Rightarrow> string + unit) \<Rightarrow> nat \<Rightarrow>
    (bool \<times> (bool \<times> bool \<times> (decoded_video_frame decoded_queue \<Rightarrow> decoded_video_frame decoded_queue)) list) list \<Rightarrow>
    nat \<Rightarrow> nat \<Rightarrow> receiver \<Rightarrow> ((string + nat \<times> nat) \<times> receiver) option" where
  "save_frames from_raw save max_frames [] saved attempts r = (if saved < max_frames then None else Some (Inr (saved, attempts), r))"
| "save_frames from_raw save max_frames ((ahead, wakes) # turns) saved attempts r =
     (if \<not> (saved < max_frames \<and> ahead) then Some (Inr (saved, attempts), r)
      else
        Option.bind (recv_video_timeout wakes r) (\<lambda>(frame, r').
          case frame of
            None \<Rightarrow> save_frames from_raw save max_frames turns saved (attempts + 1) r'
          | Some d \<Rightarrow>
              (case bgra_to_rgb from_raw (dv_pixels d) (dv_width d) (dv_height d) of
                 Inl e \<Rightarrow> Some (Inl e, r')
               | Inr img \<Rightarrow>
                   (case save saved img of
                      Inl e \<Rightarrow> Some (Inl e, r')
                    | Inr _ \<Rightarrow> save_frames from_raw save max_frames turns (saved + 1) (attempts + 1) r'))))"

text \<open>The loop of \<open>receive_to_jpeg_tokio.rs\<close>; a turn begins at an instant and has the turns of waiting for a picture.\<close>

fun tokio_save_frames :: "(nat \<Rightarrow> nat \<Rightarrow> bytes \<Rightarrow> 'img option) \<Rightarrow> (nat \<Rightarrow> 'img \<Rightarrow> string + unit) \<Rightarrow> nat \<Rightarrow>
    (bool \<times> nat \<times> ((receiver \<Rightarrow> receiver) \<times> nat) list) list \<Rightarrow> nat \<Rightarrow> nat \<Rightarrow> async_receiver \<Rightarrow>
    ((string + nat \<times> nat) \<times> async_receiver) option" where
  "tokio_save_frames from_raw save max_frames [] saved attempts a = (if saved < max_frames then None else Some (Inr (saved, attempts), a))"
| "tokio_save_frames from_raw save max_frames ((ahead, start, polls) # turns) saved attempts a =
     (if \<not> (saved < max_frames \<and> ahead) then Some (Inr (saved, attempts), a)
      else
        Option.bind (async_recv_video start 500 polls a) (\<lambda>(frame, a').
          case frame of
            None \<Rightarrow> tokio_save_frames from_raw save max_frames turns saved (attempts + 1) a'
          | Some d \<Rightarrow>
              (case bgra_to_rgb from_raw (dv_pixels d) (dv_width d) (dv_height d) of
                 Inl e \<Rightarrow> Some (Inl e, a')
               | Inr img \<Rightarrow>
                   (case save saved img of
                      Inl e \<Rightarrow> Some (Inl e, a')
                    | Inr _ \<Rightarrow> tokio_save_frames from_raw save max_frames turns (saved + 1) (attempts + 1) a'))))"

section \<open>The announcement of the asynchronous colour-bar sender\<close>

text \<open>The closure given to \<open>spawn_blocking\<close> in \<open>send_colorbar_tokio.rs\<close>: its instance of \<open>Discovery\<close> is dropped at its end.\<close>

definition tokio_announce :: "mdns_env \<Rightarrow> (string \<Rightarrow> u16 \<Rightarrow> socket_addr list result) \<Rightarrow> (socket_addr \<Rightarrow> unit result) \<Rightarrow> string option \<Rightarrow>
    string \<Rightarrow> string option \<Rightarrow> string \<Rightarrow> u16 \<Rightarrow> surroundings \<Rightarrow> (unit result \<times> surroundings) option" where
  "tokio_announce env resolve dial server machine route name port w =
     (case discovery_new resolve dial server of
        Inl e \<Rightarrow> Some (Inl e, w)
      | Inr d \<Rightarrow>
          map_option (\<lambda>(r, w', d'). (r, drop_discovery env w' d')) (discovery_register env machine route name port w d))"

section \<open>What the programs reach\<close>

lemma loopback_subscribed:
  "video_subscribed (if video_subscribed s then s else force_subscribe True False True s)"
  by (simp add: video_subscribed_def force_subscribe_def)

text \<open>The picture of the loopback programs is one the encoder takes.\<close>

lemma loopback_frame_encodes:
  "encode_input Uyvy flags (mf_data (loopback_frame ts)) 128 64 = Some (Inr (EncodeUyvy (mf_data (loopback_frame ts)) 128))"
  by (simp add: loopback_frame_def encode_input_def packed_input_def require_len_def)

text \<open>A decoded picture becomes an RGB image of its size, pixel by pixel.\<close>

lemma rgb_of_pixels:
  "length px = 4 * n \<Longrightarrow> length (rgb_of px) = 3 * n \<and>
     (\<forall>i < n. rgb_of px ! (3 * i) = px ! (4 * i + 2) \<and> rgb_of px ! (3 * i + 1) = px ! (4 * i + 1) \<and> rgb_of px ! (3 * i + 2) = px ! (4 * i))"
proof (induction px arbitrary: n rule: rgb_of.induct)
  case (1 b g r a px)
  then obtain m where m: "n = Suc m" "length px = 4 * m" by (cases n) auto
  from "1.IH" [OF m(2)] show ?case
    by (auto simp: m(1) nth_Cons' less_Suc_eq_0_disj)
qed auto

lemma decoded_to_rgb:
  assumes "video_frame_ok d" "\<And>w h bs. length bs = 3 * (w * h) \<Longrightarrow> \<exists>img. from_raw w h bs = Some img"
  obtains img where "bgra_to_rgb from_raw (dv_pixels d) (dv_width d) (dv_height d) = Inr img"
    "from_raw (unat (dv_width d)) (unat (dv_height d)) (rgb_of (dv_pixels d)) = Some img"
proof -
  have len: "length (dv_pixels d) = 4 * (unat (dv_width d) * unat (dv_height d))" using assms(1) by (simp add: video_frame_ok_def)
  obtain img where "from_raw (unat (dv_width d)) (unat (dv_height d)) (rgb_of (dv_pixels d)) = Some img"
    using assms(2) rgb_of_pixels [OF len] by blast
  with that len show ?thesis by (simp add: bgra_to_rgb_def Let_def)
qed

lemma save_frames_bound:
  "saved \<le> max_frames \<Longrightarrow> save_frames from_raw save max_frames turns saved attempts r = Some (Inr (n, k), r') \<Longrightarrow>
     n \<le> max_frames \<and> n - saved \<le> k - attempts \<and> attempts \<le> k \<and> saved \<le> n"
proof (induction turns arbitrary: saved attempts r)
  case Nil
  then show ?case by (auto split: if_splits)
next
  case (Cons turn turns)
  obtain ahead wakes where t: "turn = (ahead, wakes)" by (cases turn)
  show ?case
  proof (cases "saved < max_frames \<and> ahead")
    case False
    with Cons.prems show ?thesis by (auto simp: t)
  next
    case True
    then obtain frame r1 where rec: "recv_video_timeout wakes r = Some (frame, r1)"
      using Cons.prems(2) by (cases "recv_video_timeout wakes r") (auto simp: t)
    show ?thesis
    proof (cases frame)
      case None
      then show ?thesis using Cons.prems True Cons.IH [of saved "attempts + 1" r1] by (auto simp: t rec)
    next
      case (Some d)
      then have "save_frames from_raw save max_frames turns (saved + 1) (attempts + 1) r1 = Some (Inr (n, k), r')"
        using Cons.prems(2) True by (auto simp: t rec split: sum.split_asm)
      then show ?thesis using True Cons.IH [of "saved + 1" "attempts + 1" r1] by auto
    qed
  qed
qed

text \<open>C40: The asynchronous colour-bar sender takes its announcement back at once. Without a discovery server, when
  registering succeeds, the last two calls made to the DNS-SD daemon register the service and unregister it again, and the
  source is no longer among the registered ones: the instance of \<open>Discovery\<close> dies with the closure that registers it. The
  blocking example keeps its instance for the life of the program.\<close>

theorem tokio_source_withdrawn:
  assumes "tokio_announce env resolve dial None machine route name port w = Some (Inr (), w')"
  shows "\<exists>addr st fn host. address_local machine route name port = Some addr \<and> su_mdns w' = Some st \<and>
    ms_daemon st = (case su_mdns w of Some st0 \<Rightarrow> ms_daemon st0 | None \<Rightarrow> []) @ [RegisterService fn host port, UnregisterService fn] \<and>
    map_of (ms_registered st) (instance_name addr) = None"
proof -
  obtain addr where addr: "address_local machine route name port = Some addr"
    using assms by (auto simp: tokio_announce_def discovery_new_def Let_def discovery_register_def split: option.splits)
  obtain r mst where adv: "advertise env (instance_name addr) port (su_mdns w) = (r, mst)" by fastforce
  have "r = Inr ()" and w': "w' = drop_discovery env (w\<lparr>su_mdns := mst\<rparr>) \<lparr>dy_sources = [], dy_registered = [addr], dy_client = None\<rparr>"
    using assms by (auto simp: tokio_announce_def discovery_new_def Let_def discovery_register_def addr adv split: sum.split_asm)
  then obtain st fn host where "mst = Some (st\<lparr>ms_registered := hash_insert (instance_name addr) fn (ms_registered st),
      ms_daemon := ms_daemon st @ [RegisterService fn host port]\<rparr>)" "mdns_get_state env (su_mdns w) = Inr st"
    using adv by (auto simp: advertise_def Let_def split: sum.split_asm)
  moreover from this(2) have "ms_daemon st = (case su_mdns w of Some st0 \<Rightarrow> ms_daemon st0 | None \<Rightarrow> [])"
    by (auto simp: mdns_get_state_def split: option.split_asm sum.split_asm)
  ultimately show ?thesis
    using w' addr by (auto simp: drop_discovery_def deregister_all_def withdraw_address_def withdraw_def mdns_get_state_def)
qed

theorem tokio_source_withdrawn_witness:
  "\<exists>w' st. tokio_announce Discovery.sample_env (\<lambda>_ _. Inr []) (\<lambda>_. Inr ()) None ''HOST'' None ''Colorbars'' 6400 sample_surroundings = Some (Inr (), w') \<and>
     su_mdns w' = Some st \<and> length (ms_daemon st) = 2"
proof -
  have "map_option fst (tokio_announce Discovery.sample_env (\<lambda>_ _. Inr []) (\<lambda>_. Inr ()) None ''HOST'' None ''Colorbars'' 6400 sample_surroundings) = Some (Inr ())"
    by code_simp
  then obtain w' where w': "tokio_announce Discovery.sample_env (\<lambda>_ _. Inr []) (\<lambda>_. Inr ()) None ''HOST'' None ''Colorbars'' 6400 sample_surroundings = Some (Inr (), w')"
    by auto
  from tokio_source_withdrawn [OF this] obtain st fn host where "su_mdns w' = Some st"
    "ms_daemon st = [RegisterService fn host 6400, UnregisterService fn]"
    by (auto simp: sample_surroundings_def)
  with w' show ?thesis by (intro exI [of _ w'] exI [of _ st]) simp
qed

end
