(* ===== verification/Socket_Options.thy ===== *)
theory Socket_Options
  imports Endpoints
begin

text \<open>
  Sockets and their options (\<open>src/transport/socket.rs\<close>). A socket is the record of what has been set on it,
  with the system calls made so far; the system decides from them and the next call whether that succeeds. A
  call whose result the code propagates ends the operation with its error, a call whose result it discards
  does not. The lemmas show which options a socket that is handed out has for certain, and which only when the
  system was willing.
\<close>

section \<open>Definitions\<close>

datatype sock_call =
    Create bool
  | OnlyV6 bool
  | Nodelay bool
  | Keepalive bool
  | SendBuffer nat
  | RecvBuffer nat
  | WriteTimeout nat
  | Linger nat
  | Nonblocking bool
  | Bind endpoint
  | Listen nat
  | Dial endpoint "nat option"

record sock =
  so_calls :: "sock_call list"
  so_v6 :: bool
  so_only_v6 :: "bool option"
  so_nodelay :: bool
  so_keepalive :: bool
  so_send_buffer :: "nat option"
  so_recv_buffer :: "nat option"
  so_write_timeout :: "nat option"
  so_linger :: "nat option"
  so_nonblocking :: bool
  so_bound :: "endpoint option"
  so_listening :: bool
  so_peer :: "endpoint option"

type_synonym system = "sock_call list \<Rightarrow> sock_call \<Rightarrow> unit result"

definition sock_new :: sock where
  "sock_new = \<lparr>so_calls = [], so_v6 = False, so_only_v6 = None, so_nodelay = False, so_keepalive = False, so_send_buffer = None,
     so_recv_buffer = None, so_write_timeout = None, so_linger = None, so_nonblocking = False, so_bound = None, so_listening = False,
     so_peer = None\<rparr>"

primrec call_effect :: "sock_call \<Rightarrow> sock \<Rightarrow> sock" where
  "call_effect (Create v6) s = s\<lparr>so_v6 := v6\<rparr>"
| "call_effect (OnlyV6 b) s = s\<lparr>so_only_v6 := Some b\<rparr>"
| "call_effect (Nodelay b) s = s\<lparr>so_nodelay := b\<rparr>"
| "call_effect (Keepalive b) s = s\<lparr>so_keepalive := b\<rparr>"
| "call_effect (SendBuffer n) s = s\<lparr>so_send_buffer := Some n\<rparr>"
| "call_effect (RecvBuffer n) s = s\<lparr>so_recv_buffer := Some n\<rparr>"
| "call_effect (WriteTimeout ms) s = s\<lparr>so_write_timeout := Some ms\<rparr>"
| "call_effect (Linger ms) s = s\<lparr>so_linger := Some ms\<rparr>"
| "call_effect (Nonblocking b) s = s\<lparr>so_nonblocking := b\<rparr>"
| "call_effect (Bind a) s = s\<lparr>so_bound := Some a\<rparr>"
| "call_effect (Listen n) s = s\<lparr>so_listening := True\<rparr>"
| "call_effect (Dial a timeout) s = s\<lparr>so_peer := Some a\<rparr>"

text \<open>A call, a call with \<open>?\<close> and what follows it, and a call whose result is discarded (\<open>let _ =\<close>).\<close>

definition sock_call :: "system \<Rightarrow> sock_call \<Rightarrow> sock \<Rightarrow> unit result \<times> sock" where
  "sock_call os c s =
     (let s' = s\<lparr>so_calls := so_calls s @ [c]\<rparr> in
      case os (so_calls s) c of Inl e \<Rightarrow> (Inl e, s') | Inr _ \<Rightarrow> (Inr (), call_effect c s'))"

definition sock_then :: "unit result \<times> sock \<Rightarrow> (sock \<Rightarrow> unit result \<times> sock) \<Rightarrow> unit result \<times> sock" where
  "sock_then rs k = (case rs of (Inl e, s) \<Rightarrow> (Inl e, s) | (Inr _, s) \<Rightarrow> k s)"

definition sock_try :: "system \<Rightarrow> sock_call \<Rightarrow> sock \<Rightarrow> sock" where
  "sock_try os c s = snd (sock_call os c s)"

definition ip_is_v6 :: "ip_addr \<Rightarrow> bool" where
  "ip_is_v6 ip = (case ip of V4 _ _ _ _ \<Rightarrow> False | V6 _ \<Rightarrow> True)"

definition NETWORK_SEND_TIMEOUT :: nat where "NETWORK_SEND_TIMEOUT = 500"

definition configure_stream_buffers :: "system \<Rightarrow> nat \<Rightarrow> nat \<Rightarrow> sock \<Rightarrow> unit result \<times> sock" where
  "configure_stream_buffers os send_buffer recv_buffer s =
     sock_then (sock_call os (Nodelay True) s) (\<lambda>s.
       sock_then (sock_call os (Keepalive True) s) (\<lambda>s.
         (Inr (), sock_try os (RecvBuffer recv_buffer) (sock_try os (SendBuffer send_buffer) s))))"

definition configure_stream :: "system \<Rightarrow> sock \<Rightarrow> unit result \<times> sock" where
  "configure_stream os s = configure_stream_buffers os NETWORK_SEND_BUFFER NETWORK_RECEIVE_BUFFER s"

definition configure_sender_peer_stream :: "system \<Rightarrow> sock \<Rightarrow> unit result \<times> sock" where
  "configure_sender_peer_stream os s =
     sock_then (configure_stream_buffers os NETWORK_SEND_BUFFER NETWORK_SEND_RECEIVE_BUFFER s) (\<lambda>s.
       (Inr (), sock_try os (Linger 0) (sock_try os (WriteTimeout NETWORK_SEND_TIMEOUT) s)))"

definition create_tcp_socket :: "system \<Rightarrow> endpoint \<Rightarrow> unit result \<times> sock" where
  "create_tcp_socket os addr =
     sock_then (sock_call os (Create (ip_is_v6 (ep_ip addr))) sock_new) (\<lambda>s.
       let s = (if ip_is_v6 (ep_ip addr) then sock_try os (OnlyV6 False) s else s) in
       sock_then (sock_call os (Nodelay True) s) (\<lambda>s.
         sock_then (sock_call os (Keepalive True) s) (\<lambda>s.
           (Inr (), sock_try os (RecvBuffer NETWORK_RECEIVE_BUFFER) (sock_try os (SendBuffer NETWORK_SEND_BUFFER) s)))))"

definition socket_listen :: "system \<Rightarrow> endpoint \<Rightarrow> unit result \<times> sock" where
  "socket_listen os addr =
     sock_then (create_tcp_socket os addr) (\<lambda>s.
       sock_then (sock_call os (Bind addr) s) (\<lambda>s. sock_call os (Listen 128) s))"

text \<open>\<open>timeout\<close> is in milliseconds; \<open>into_listener\<close> only changes the type.\<close>

definition socket_connect :: "system \<Rightarrow> endpoint \<Rightarrow> nat option \<Rightarrow> unit result \<times> sock" where
  "socket_connect os addr timeout =
     sock_then (create_tcp_socket os addr) (\<lambda>s.
       sock_then (sock_call os (Dial addr timeout) s) (\<lambda>s.
         sock_then (configure_stream os (sock_try os (Nonblocking False) s)) (\<lambda>s.
           (Inr (), sock_try os (Linger 0) s))))"

definition into_listener :: "sock \<Rightarrow> sock result" where "into_listener s = Inr s"

section \<open>What a socket has for certain\<close>

lemma sock_then_Inr: "sock_then rs k = (Inr (), s') \<longleftrightarrow> (\<exists>s. rs = (Inr (), s) \<and> k s = (Inr (), s'))"
  by (auto simp: sock_then_def split: prod.splits sum.splits)

lemma sock_call_Inr: "sock_call os c s = (Inr (), s') \<longleftrightarrow> os (so_calls s) c = Inr () \<and> s' = call_effect c (s\<lparr>so_calls := so_calls s @ [c]\<rparr>)"
  by (auto simp: sock_call_def Let_def split: sum.splits)

text \<open>A call whose result is discarded changes only what it is about, and the history.\<close>

definition certain :: "sock \<Rightarrow> bool \<times> bool \<times> bool \<times> endpoint option \<times> bool \<times> endpoint option" where
  "certain s = (so_v6 s, so_nodelay s, so_keepalive s, so_bound s, so_listening s, so_peer s)"

lemma sock_try_certain:
  assumes "c \<in> range OnlyV6 \<union> range SendBuffer \<union> range RecvBuffer \<union> range WriteTimeout \<union> range Linger \<union> range Nonblocking"
  shows "certain (sock_try os c s) = certain s" "so_calls (sock_try os c s) = so_calls s @ [c]"
  using assms by (auto simp: certain_def sock_try_def sock_call_def Let_def split: sum.split)

lemma configure_certain:
  assumes "configure_stream_buffers os sb rb s = (Inr (), s')"
  shows "certain s' = (so_v6 s, True, True, so_bound s, so_listening s, so_peer s)"
    "so_calls s' = so_calls s @ [Nodelay True, Keepalive True, SendBuffer sb, RecvBuffer rb]"
  using assms by (auto simp: configure_stream_buffers_def sock_then_Inr sock_call_Inr sock_try_certain) (auto simp: certain_def)

lemma create_certain:
  assumes "create_tcp_socket os addr = (Inr (), s)"
  shows "certain s = (ip_is_v6 (ep_ip addr), True, True, None, False, None)"
    "so_calls s = Create (ip_is_v6 (ep_ip addr)) # (if ip_is_v6 (ep_ip addr) then [OnlyV6 False] else []) @
      [Nodelay True, Keepalive True, SendBuffer NETWORK_SEND_BUFFER, RecvBuffer NETWORK_RECEIVE_BUFFER]"
  using assms
  by (auto simp: create_tcp_socket_def sock_then_Inr sock_call_Inr sock_try_certain Let_def split: if_splits)
    (auto simp: certain_def sock_new_def sock_try_def sock_call_def Let_def split: sum.splits)

text \<open>A connection is to the address asked for, without delay and kept alive, whatever the system made of the other
  options. A listening socket is bound to the address; the order of its calls shows that the port is never
  shared.\<close>

lemma connect_certain:
  assumes "socket_connect os addr timeout = (Inr (), s)"
  shows "certain s = (ip_is_v6 (ep_ip addr), True, True, None, False, Some addr)"
proof -
  obtain s1 s2 where c: "create_tcp_socket os addr = (Inr (), s1)"
    and f: "configure_stream_buffers os NETWORK_SEND_BUFFER NETWORK_RECEIVE_BUFFER
      (sock_try os (Nonblocking False) (s1\<lparr>so_calls := so_calls s1 @ [Dial addr timeout], so_peer := Some addr\<rparr>)) = (Inr (), s2)"
    and s: "s = sock_try os (Linger 0) s2"
    using assms by (auto simp: socket_connect_def configure_stream_def sock_then_Inr sock_call_Inr)
  let ?d = "s1\<lparr>so_calls := so_calls s1 @ [Dial addr timeout], so_peer := Some addr\<rparr>"
  have "certain (sock_try os (Nonblocking False) ?d) = certain ?d" by (rule sock_try_certain) blast
  moreover have "certain (sock_try os (Linger 0) s2) = certain s2" by (rule sock_try_certain) blast
  ultimately show ?thesis using create_certain(1) [OF c] configure_certain(1) [OF f] by (auto simp: s certain_def)
qed

lemma listen_certain:
  assumes "socket_listen os addr = (Inr (), s)"
  shows "certain s = (ip_is_v6 (ep_ip addr), True, True, Some addr, True, None)"
    "so_calls s = so_calls (snd (create_tcp_socket os addr)) @ [Bind addr, Listen 128]"
proof -
  obtain s1 where c: "create_tcp_socket os addr = (Inr (), s1)"
    and s: "s = call_effect (Listen 128) (call_effect (Bind addr) (s1\<lparr>so_calls := so_calls s1 @ [Bind addr]\<rparr>)
      \<lparr>so_calls := so_calls s1 @ [Bind addr, Listen 128]\<rparr>)"
    using assms by (auto simp: socket_listen_def sock_then_Inr sock_call_Inr)
  from create_certain(1) [OF c] show "certain s = (ip_is_v6 (ep_ip addr), True, True, Some addr, True, None)"
    by (simp add: s certain_def)
  show "so_calls s = so_calls (snd (create_tcp_socket os addr)) @ [Bind addr, Listen 128]" by (simp add: s c)
qed

text \<open>The write time-out of a peer, by which a dead peer cannot stall the others, is there exactly when the system
  was willing to set it: the sender does not learn that it is missing.\<close>

lemma peer_timeout:
  assumes "configure_sender_peer_stream os s = (Inr (), s')" "so_write_timeout s = None"
  shows "so_write_timeout s' = (case os (so_calls s @ [Nodelay True, Keepalive True, SendBuffer NETWORK_SEND_BUFFER,
      RecvBuffer NETWORK_SEND_RECEIVE_BUFFER]) (WriteTimeout NETWORK_SEND_TIMEOUT) of Inr _ \<Rightarrow> Some NETWORK_SEND_TIMEOUT | Inl _ \<Rightarrow> None)"
proof -
  obtain s1 where s1: "configure_stream_buffers os NETWORK_SEND_BUFFER NETWORK_SEND_RECEIVE_BUFFER s = (Inr (), s1)"
    and s': "s' = sock_try os (Linger 0) (sock_try os (WriteTimeout NETWORK_SEND_TIMEOUT) s1)"
    using assms(1) by (auto simp: configure_sender_peer_stream_def sock_then_Inr)
  have "so_write_timeout s1 = None"
    using s1 assms(2)
    by (auto simp: configure_stream_buffers_def sock_then_Inr sock_call_Inr sock_try_def sock_call_def Let_def split: sum.splits)
  then show ?thesis
    using configure_certain(2) [OF s1] by (auto simp: s' sock_try_def sock_call_def Let_def split: sum.split)
qed

end
