(* ===== verification/Redirect.thy ===== *)
theory Redirect
  imports Omt_Types
begin

text \<open>
  The redirect helper (\<open>src/redirect.rs\<close>), a stub: it holds two addresses and its loop answers that it is not
  implemented.
\<close>

record redirect =
  rd_source :: string
  rd_destination :: string

definition redirect_new :: "string \<Rightarrow> string \<Rightarrow> redirect" where
  "redirect_new source destination = \<lparr>rd_source = source, rd_destination = destination\<rparr>"

definition redirect_source :: "redirect \<Rightarrow> string" where
  "redirect_source rd = rd_source rd"

definition redirect_destination :: "redirect \<Rightarrow> string" where
  "redirect_destination rd = rd_destination rd"

definition redirect_run :: "redirect \<Rightarrow> unit result \<times> redirect" where
  "redirect_run rd = (Inl (NotImplemented ''Redirect::run''), rd)"

end
