(* ===== verification/Receiver_Pair.thy ===== *)
theory Receiver_Pair
  imports Receiver_Threads
begin

text \<open>
  The two reader threads of a receiver (\<open>video_reader_loop\<close> and \<open>audio_reader_loop\<close> of \<open>src/receive.rs\<close>) running at the
  same time on the state they share: a schedule says whose turn it is, and each turn may begin with what the
  remaining threads did. Every schedule with enough turns for both brings both streams to their queues.
\<close>

section \<open>Two threads on one receiver\<close>

text \<open>One turn of the loop of a thread that is running or has ended; \<open>None\<close> for a panic.\<close>

definition thread_turn :: "(reader_turn \<Rightarrow> reader_loop \<Rightarrow> receiver \<Rightarrow> (bool \<times> reader_loop \<times> receiver) option) \<Rightarrow>
    reader_turn \<Rightarrow> bool \<times> reader_loop \<Rightarrow> receiver \<Rightarrow> ((bool \<times> reader_loop) \<times> receiver) option" where
  "thread_turn body t thread r =
     (case thread of (running, l) \<Rightarrow>
        let r0 = tn_others t r in
        if \<not> running \<or> rs_stop r0 then Some ((False, l), r0)
        else map_option (\<lambda>(b, l', r'). ((b, l'), r')) (body t l r0))"

text \<open>A turn of the video reader is on the left of the sum, one of the audio reader on the right.\<close>

fun run_readers :: "(reader_turn \<Rightarrow> reader_loop \<Rightarrow> receiver \<Rightarrow> (bool \<times> reader_loop \<times> receiver) option) \<Rightarrow>
    (reader_turn \<Rightarrow> reader_loop \<Rightarrow> receiver \<Rightarrow> (bool \<times> reader_loop \<times> receiver) option) \<Rightarrow>
    (reader_turn + reader_turn) list \<Rightarrow> bool \<times> reader_loop \<Rightarrow> bool \<times> reader_loop \<Rightarrow> receiver \<Rightarrow>
    ((bool \<times> reader_loop) \<times> (bool \<times> reader_loop) \<times> receiver) option" where
  "run_readers video audio [] v a r = Some (v, a, r)"
| "run_readers video audio (Inl t # ts) v a r =
     (case thread_turn video t v r of None \<Rightarrow> None | Some (v', r') \<Rightarrow> run_readers video audio ts v' a r')"
| "run_readers video audio (Inr t # ts) v a r =
     (case thread_turn audio t a r of None \<Rightarrow> None | Some (a', r') \<Rightarrow> run_readers video audio ts v a' r')"

definition reader_threads :: "(nat \<Rightarrow> nat) \<Rightarrow> (vmx_error \<Rightarrow> string) \<Rightarrow> (reader_turn + reader_turn) list \<Rightarrow>
    bool \<times> reader_loop \<Rightarrow> bool \<times> reader_loop \<Rightarrow> receiver \<Rightarrow> ((bool \<times> reader_loop) \<times> (bool \<times> reader_loop) \<times> receiver) option" where
  "reader_threads grow vd =
     run_readers (\<lambda>t l r. video_reader_body grow vd False (tn_now t) (tn_writes t) l r) (\<lambda>t l r. audio_reader_body grow vd l r)"

section \<open>What a reader promises\<close>

text \<open>The interface of a reader that shares its receiver: \<open>promise fs r\<close> says that the receiver will be as the reader is to
  leave it once the frames \<open>fs\<close> have been handled. Handling a frame keeps the promise.\<close>

locale promising_reader = frame_reader body handle idle
  for body :: "reader_turn \<Rightarrow> reader_loop \<Rightarrow> receiver \<Rightarrow> (bool \<times> reader_loop \<times> receiver) option"
    and handle :: "nat \<Rightarrow> assembled_frame \<Rightarrow> (buffer_pool \<times> vec) \<times> receiver \<Rightarrow> (buffer_pool \<times> vec) \<times> receiver"
    and idle :: "receiver \<Rightarrow> bool" +
  fixes promise :: "assembled_frame list \<Rightarrow> receiver \<Rightarrow> bool"
  assumes promise_idle: "promise fs r \<Longrightarrow> idle r"
    and promise_handle: "promise (f # fs) r \<Longrightarrow> promise fs (snd (handle now f (bufs, r)))"
begin

definition expects :: "assembled_frame list \<Rightarrow> bytes list \<Rightarrow> reader_loop \<Rightarrow> receiver \<Rightarrow> bool" where
  "expects fs chunks l r \<longleftrightarrow> stream_inv NETWORK_RECEIVE_MAX_TRANSFER fs chunks (lp_channel l) \<and>
     lp_reader l = map ReadOk chunks \<and> promise fs r"

lemma expects_turn:
  assumes "expects fs chunks l r" "promise fs (tn_others t r)" "length fs + length chunks \<le> Suc n"
  obtains fs' chunks' l' r' where "thread_turn body t (True, l) r = Some ((True, l'), r')" "expects fs' chunks' l' r'"
    "length fs' + length chunks' \<le> n" "body t l (tn_others t r) = Some (True, l', r')"
proof -
  let ?r = "tn_others t r"
  have inv: "stream_inv NETWORK_RECEIVE_MAX_TRANSFER fs chunks (lp_channel l)" and rd: "lp_reader l = map ReadOk chunks"
    using assms(1) by (simp_all add: expects_def)
  have idle: "idle ?r" using assms(2) by (rule promise_idle)
  have turn: "thread_turn body t (True, l) r = map_option (\<lambda>(b, l', r'). ((b, l'), r')) (body t l ?r)"
    using idle_running [OF idle] by (simp add: thread_turn_def)
  from inv show ?thesis
  proof (cases rule: recv_stream)
    case (frame f fs' chunks' rest)
    obtain pool scratch r1 where h: "handle (tn_now t) f ((lp_pool l, lp_scratch l), ?r) = ((pool, scratch), r1)" by (metis prod_cases3 surj_pair)
    let ?l = "l\<lparr>lp_channel := (lp_channel l)\<lparr>ch_buf := rest\<rparr>, lp_reader := map ReadOk chunks', lp_pool := pool, lp_scratch := scratch\<rparr>"
    have b: "body t l ?r = Some (True, ?l, r1)" using body_frame [OF idle _ h] frame rd by simp
    have "promise fs' r1" using promise_handle [of f fs' ?r "tn_now t" "(lp_pool l, lp_scratch l)"] assms(2) frame(1) h by simp
    with frame have "expects fs' chunks' ?l r1" by (simp add: expects_def)
    with that [of ?l r1 fs' chunks'] b turn frame(1,2) assms(3) show ?thesis by simp
  next
    case (again chunks' rest)
    let ?l = "l\<lparr>lp_channel := (lp_channel l)\<lparr>ch_buf := rest\<rparr>, lp_reader := map ReadOk chunks'\<rparr>"
    have b: "body t l ?r = Some (True, ?l, ?r)" using body_wait [OF idle] again rd by simp
    have "expects fs chunks' ?l ?r" using again assms(2) by (simp add: expects_def)
    with that [of ?l ?r fs chunks'] b turn again(1) assms(3) show ?thesis by auto
  qed
qed

lemma expects_end:
  assumes "expects [] [] l r"
  shows "promise [] r" "ch_buf (lp_channel l) = []" "lp_reader l = []"
  using assms by (simp_all add: expects_def stream_inv_def)

end

section \<open>The promises of the two readers\<close>

definition video_promise :: "(wire_video \<times> bytes) list \<Rightarrow> metadata_frame list \<Rightarrow> assembled_frame list \<Rightarrow> receiver \<Rightarrow> bool" where
  "video_promise ws ds fs r \<longleftrightarrow> video_idle r \<and>
     room (rx_wire r) (length (filter plays_video fs)) \<and> room (rx_meta r) (length (filter carries_metadata fs)) \<and>
     map wire_content (sy_items (rx_wire r)) @ map frame_content (filter plays_video fs) = ws \<and>
     sy_items (rx_meta r) @ map metadata_of (filter carries_metadata fs) = ds"

text \<open>On the audio socket a frame without an audio header, which is how a document arrives, counts as a dropped
  audio frame.\<close>

definition plays_audio :: "assembled_frame \<Rightarrow> bool" where
  "plays_audio f \<longleftrightarrow> (\<exists>d. decodes_to f d)"

definition count_drops :: "nat \<Rightarrow> u64 \<Rightarrow> u64" where
  "count_drops n = (\<lambda>c. sat_add_u c 1) ^^ n"

definition audio_promise :: "decoded_audio_frame list \<Rightarrow> u64 \<Rightarrow> assembled_frame list \<Rightarrow> receiver \<Rightarrow> bool" where
  "audio_promise ds drops fs r \<longleftrightarrow> audio_idle r \<and> room (rx_audio r) (length (filter plays_audio fs)) \<and>
     (\<exists>new. ds = sy_items (rx_audio r) @ new \<and> list_all2 decodes_to (filter plays_audio fs) new) \<and>
     count_drops (length (filter (\<lambda>f. \<not> plays_audio f) fs)) (ss_frames_dropped_audio (rs_stats r)) = drops"

lemma count_drops_Suc: "count_drops (Suc n) c = count_drops n (sat_add_u c 1)"
  by (simp add: count_drops_def funpow_Suc_right del: funpow.simps)

lemma decodes_unique: "decodes_to f d \<Longrightarrow> decode_audio_frame grow f scratch = Some (Some d', v) \<Longrightarrow> d' = d"
  using decode_audio_scratch [of grow f scratch d' v "\<lambda>n. n" "\<lparr>vec_cap = 0, vec_data = []\<rparr>"] by (auto simp: decodes_to_def)

lemma not_plays_audio: "\<not> plays_audio f \<Longrightarrow> \<exists>v. decode_audio_frame grow f scratch = Some (None, v)"
  by (rule decode_audio_cases [of grow f scratch])
    (auto simp: plays_audio_def decodes_to_def dest: decode_audio_scratch [where grow' = "\<lambda>n. n" and scratch' = "\<lparr>vec_cap = 0, vec_data = []\<rparr>"])

interpretation pv: promising_reader "\<lambda>t l r. video_reader_body grow vd False (tn_now t) (tn_writes t) l r" "video_handle grow False" video_idle
    "video_promise ws ds"
  for grow vd ws ds
proof
  fix f fs r now bufs
  assume p: "video_promise ws ds (f # fs) r"
  obtain bufs' r' where h: "video_handle grow False now f (bufs, r) = (bufs', r')" by fastforce
  have idle: "video_idle r'" using vr.handle_idle [of r grow False now f bufs] p h by (simp add: video_promise_def)
  have excl: "plays_video f \<Longrightarrow> \<not> carries_metadata f" by (simp add: plays_video_def carries_metadata_def)
  have rooms: "room (rx_wire r) (length (filter plays_video (f # fs)))" "room (rx_meta r) (length (filter carries_metadata (f # fs)))"
    using p by (simp_all only: video_promise_def)
  consider (video) "plays_video f" | (meta) "carries_metadata f" "\<not> plays_video f" | (other) "\<not> plays_video f" "\<not> carries_metadata f" by blast
  then have "video_promise ws ds fs r'"
  proof cases
    case video
    then have "room (rx_wire r) (Suc (length (filter plays_video fs)))" using rooms(1) by simp
    from handle_video_frame [OF video this h] excl [OF video] video rooms(2) idle p show ?thesis by (auto simp: video_promise_def)
  next
    case meta
    then have "room (rx_meta r) (Suc (length (filter carries_metadata fs)))" using rooms(2) by simp
    from handle_metadata_frame [OF meta(1) this h] meta rooms(1) idle p show ?thesis by (simp add: video_promise_def)
  next
    case other
    from handle_other_frame [OF other h] other rooms idle p show ?thesis by (simp add: video_promise_def)
  qed
  then show "video_promise ws ds fs (snd (video_handle grow False now f (bufs, r)))" by (simp add: h)
qed (simp add: video_promise_def)

interpretation pa: promising_reader "\<lambda>t l r. audio_reader_body grow vd l r" "audio_handle grow" audio_idle "audio_promise ds drops"
  for grow vd ds drops
proof
  fix f fs r now bufs
  assume p: "audio_promise ds drops (f # fs) r"
  obtain bufs' r' where h: "audio_handle grow now f (bufs, r) = (bufs', r')" by fastforce
  have idle: "audio_idle r'" using ar.handle_idle [of r grow now f bufs] p h by (simp add: audio_promise_def)
  have "audio_promise ds drops fs r'"
  proof (cases "plays_audio f")
    case True
    then obtain d where d: "decodes_to f d" by (auto simp: plays_audio_def)
    have "room (rx_audio r) (Suc (length (filter plays_audio fs)))" using p True by (simp add: audio_promise_def)
    note step = handle_audio_frame [OF d this h]
    obtain d' new where new: "ds = sy_items (rx_audio r) @ d' # new" "decodes_to f d'" "list_all2 decodes_to (filter plays_audio fs) new"
      using p True by (auto simp: audio_promise_def list_all2_Cons1)
    have "d' = d" using new(2) decodes_unique [OF d] by (auto simp: decodes_to_def)
    with new step True p idle show ?thesis by (simp add: audio_promise_def)
  next
    case False
    obtain v where "decode_audio_frame grow f (snd bufs) = Some (None, v)" using not_plays_audio [OF False] by blast
    then have "r' = with_stats record_drop_audio (with_stats (record_bytes (frame_wire_size f)) r)"
      using h by (auto simp: audio_handle_def Let_def)
    then have "rx_audio r' = rx_audio r" "ss_frames_dropped_audio (rs_stats r') = sat_add_u (ss_frames_dropped_audio (rs_stats r)) 1"
      by (simp_all add: record_drop_audio_def record_bytes_def)
    with False p idle show ?thesis by (simp add: audio_promise_def count_drops_Suc)
  qed
  then show "audio_promise ds drops fs (snd (audio_handle grow now f (bufs, r)))" by (simp add: h)
qed (simp add: audio_promise_def)

section \<open>The readers do not disturb each other\<close>

definition for_video :: "receiver \<Rightarrow> bool \<times> string list \<times> wire_video sync_channel \<times> metadata_frame sync_channel" where
  "for_video r = (rs_stop r, rs_outbound_meta r, rx_wire r, rx_meta r)"

definition for_audio :: "receiver \<Rightarrow> bool \<times> decoded_audio_frame sync_channel \<times> u64" where
  "for_audio r = (rs_stop r, rx_audio r, ss_frames_dropped_audio (rs_stats r))"

text \<open>What the other threads may do: anything but stop the session, write to the sender, use the channels or touch the count
  of dropped audio frames.\<close>

definition leaves_readers :: "(receiver \<Rightarrow> receiver) \<Rightarrow> bool" where
  "leaves_readers f \<longleftrightarrow> (\<forall>r. for_video (f r) = for_video r \<and> for_audio (f r) = for_audio r)"

lemma video_promise_view: "for_video r = for_video r' \<Longrightarrow> video_promise ws ds fs r = video_promise ws ds fs r'"
  by (simp add: for_video_def video_promise_def video_idle_def)

lemma audio_promise_view: "for_audio r = for_audio r' \<Longrightarrow> audio_promise ds drops fs r = audio_promise ds drops fs r'"
  by (simp add: for_audio_def audio_promise_def audio_idle_def)

lemma dispatch_for_audio:
  "dispatch_av_frame grow now False f pool r = Some (pool', r') \<Longrightarrow> for_audio r' = for_audio r"
  by (auto simp: dispatch_defs for_audio_def record_drop_wire_def Let_def split: if_splits option.splits prod.splits try_send_result.splits)

lemma video_body_for_audio:
  assumes "video_reader_body grow vd False now ws l r = Some (b, l', r')"
  shows "for_audio r' = for_audio r"
proof -
  obtain out r1 where fl: "flush_outbound_metadata vd ws r = (out, r1)" by fastforce
  then have r1: "for_audio r1 = for_audio r"
    by (auto simp: flush_outbound_metadata_def for_audio_def Let_def split: prod.splits sum.splits)
  obtain res ch rd where rcv: "recv_frame_into NETWORK_RECEIVE_MAX_TRANSFER (lp_channel l) (lp_reader l) = (res, ch, rd)" by (metis prod_cases3)
  have stats: "for_audio (with_stats (record_bytes n) r) = for_audio r" "for_audio (with_stats record_drop_wire r) = for_audio r"
    "for_audio (set_error m r) = for_audio r" for n m r
    by (simp_all add: for_audio_def record_bytes_def record_drop_wire_def)
  show ?thesis
  proof (cases res)
    case (Inl e)
    then show ?thesis using assms r1 by (cases e) (auto simp: video_reader_body_def fl rcv stats Let_def split: if_splits)
  next
    case (Inr fr)
    then show ?thesis using assms r1
      by (cases fr) (auto simp: video_reader_body_def fl rcv stats Let_def split: option.splits dest!: dispatch_for_audio)
  qed
qed

lemma audio_body_for_video:
  assumes "audio_reader_body grow vd l r = Some (b, l', r')"
  shows "for_video r' = for_video r"
proof -
  obtain res ch rd where rcv: "recv_frame_into NETWORK_RECEIVE_MAX_TRANSFER (lp_channel l) (lp_reader l) = (res, ch, rd)" by (metis prod_cases3)
  show ?thesis
  proof (cases res)
    case (Inl e)
    then show ?thesis using assms by (cases e) (auto simp: audio_reader_body_def rcv for_video_def Let_def split: if_splits)
  next
    case (Inr fr)
    then show ?thesis using assms
      by (cases fr) (auto simp: audio_reader_body_def rcv for_video_def Let_def split: option.splits prod.splits try_send_result.splits)
  qed
qed

section \<open>Both streams arrive\<close>

definition turn_of :: "reader_turn + reader_turn \<Rightarrow> reader_turn" where
  "turn_of x = (case x of Inl t \<Rightarrow> t | Inr t \<Rightarrow> t)"

lemma readers_progress:
  assumes "pv.expects ws ds fs chunks lv r" "pa.expects as drops gs chunks' la r"
    "\<forall>x \<in> set schedule. leaves_readers (tn_others (turn_of x))"
    "length fs + length chunks \<le> length (filter isl schedule)"
    "length gs + length chunks' \<le> length (filter (\<lambda>x. \<not> isl x) schedule)"
  shows "\<exists>lv' la' r'. reader_threads grow vd schedule (True, lv) (True, la) r = Some ((True, lv'), (True, la'), r') \<and>
    pv.expects ws ds [] [] lv' r' \<and> pa.expects as drops [] [] la' r'"
  using assms
proof (induction schedule arbitrary: fs chunks gs chunks' lv la r)
  case Nil
  then show ?case by (auto simp: reader_threads_def)
next
  case (Cons x schedule)
  show ?case
  proof (cases x)
    case (Inl t)
    have quiet: "leaves_readers (tn_others t)" using Cons.prems(3) Inl by (simp add: turn_of_def)
    then have v: "video_promise ws ds fs (tn_others t r)" and a: "audio_promise as drops gs (tn_others t r)"
      using Cons.prems(1,2) video_promise_view [of "tn_others t r" r] audio_promise_view [of "tn_others t r" r]
      by (simp_all add: leaves_readers_def pv.expects_def pa.expects_def)
    obtain fs1 chunks1 lv1 r1 where t: "thread_turn (\<lambda>t l r. video_reader_body grow vd False (tn_now t) (tn_writes t) l r) t (True, lv) r = Some ((True, lv1), r1)"
      "pv.expects ws ds fs1 chunks1 lv1 r1" "length fs1 + length chunks1 \<le> length (filter isl schedule)"
      "video_reader_body grow vd False (tn_now t) (tn_writes t) lv (tn_others t r) = Some (True, lv1, r1)"
      by (rule pv.expects_turn [where grow = grow and vd = vd, OF Cons.prems(1) v]) (use Cons.prems(4) Inl in auto)
    have "audio_promise as drops gs r1" using a video_body_for_audio [OF t(4)] audio_promise_view by blast
    then have "pa.expects as drops gs chunks' la r1" using Cons.prems(2) by (simp add: pa.expects_def)
    from Cons.IH [OF t(2) this _ t(3)] Cons.prems(3,5) Inl t(1) show ?thesis by (simp add: reader_threads_def)
  next
    case (Inr t)
    have quiet: "leaves_readers (tn_others t)" using Cons.prems(3) Inr by (simp add: turn_of_def)
    then have v: "video_promise ws ds fs (tn_others t r)" and a: "audio_promise as drops gs (tn_others t r)"
      using Cons.prems(1,2) video_promise_view [of "tn_others t r" r] audio_promise_view [of "tn_others t r" r]
      by (simp_all add: leaves_readers_def pv.expects_def pa.expects_def)
    obtain gs1 chunks1 la1 r1 where t: "thread_turn (\<lambda>t l r. audio_reader_body grow vd l r) t (True, la) r = Some ((True, la1), r1)"
      "pa.expects as drops gs1 chunks1 la1 r1" "length gs1 + length chunks1 \<le> length (filter (\<lambda>x. \<not> isl x) schedule)"
      "audio_reader_body grow vd la (tn_others t r) = Some (True, la1, r1)"
      by (rule pa.expects_turn [where grow = grow and vd = vd, OF Cons.prems(2) a]) (use Cons.prems(5) Inr in auto)
    have "video_promise ws ds fs r1" using v audio_body_for_video [OF t(4)] video_promise_view by blast
    then have "pv.expects ws ds fs chunks lv r1" using Cons.prems(1) by (simp add: pv.expects_def)
    from Cons.IH [OF this t(2) _ _ t(3)] Cons.prems(3,4) Inr t(1) show ?thesis by (simp add: reader_threads_def)
  qed
qed

text \<open>Both threads over whole streams, from their start.\<close>

lemma readers_streams:
  assumes "\<forall>f \<in> set fs \<union> set gs. sendable f \<and> length (assembled_to_bytes f) + NETWORK_RECEIVE_MAX_TRANSFER \<le> max_reassembly"
    "\<forall>c \<in> set chunks \<union> set chunks'. c \<noteq> [] \<and> length c \<le> NETWORK_RECEIVE_MAX_TRANSFER"
    "concat chunks = concat (map assembled_to_bytes fs)" "concat chunks' = concat (map assembled_to_bytes gs)"
    "\<forall>x \<in> set schedule. leaves_readers (tn_others (turn_of x))"
    "length fs + length chunks \<le> length (filter isl schedule)"
    "length gs + length chunks' \<le> length (filter (\<lambda>x. \<not> isl x) schedule)"
    "\<not> rs_stop r" "rs_outbound_meta r = []" "list_all2 decodes_to (filter plays_audio gs) as"
    "room (rx_wire r) (length (filter plays_video fs))" "room (rx_meta r) (length (filter carries_metadata fs))"
    "room (rx_audio r) (length as)"
  obtains lv la r' where "reader_threads grow vd schedule (True, video_loop_new grow (map ReadOk chunks))
      (True, audio_loop_new grow (map ReadOk chunks')) r = Some ((True, lv), (True, la), r')"
    "ch_buf (lp_channel lv) = []" "ch_buf (lp_channel la) = []"
    "map wire_content (sy_items (rx_wire r')) = map wire_content (sy_items (rx_wire r)) @ map frame_content (filter plays_video fs)"
    "sy_items (rx_meta r') = sy_items (rx_meta r) @ map metadata_of (filter carries_metadata fs)"
    "sy_items (rx_audio r') = sy_items (rx_audio r) @ as"
    "ss_frames_dropped_audio (rs_stats r') =
      count_drops (length (filter (\<lambda>f. \<not> plays_audio f) gs)) (ss_frames_dropped_audio (rs_stats r))"
proof -
  let ?lv = "video_loop_new grow (map ReadOk chunks)" and ?la = "audio_loop_new grow (map ReadOk chunks')"
  let ?ws = "map wire_content (sy_items (rx_wire r)) @ map frame_content (filter plays_video fs)"
  let ?ds = "sy_items (rx_meta r) @ map metadata_of (filter carries_metadata fs)"
  let ?drops = "count_drops (length (filter (\<lambda>f. \<not> plays_audio f) gs)) (ss_frames_dropped_audio (rs_stats r))"
  have "pv.expects ?ws ?ds fs chunks ?lv r"
    using assms(1-3,8,9,11,12)
    by (simp add: pv.expects_def stream_inv_def video_loop_new_def channel_new_def video_promise_def video_idle_def del: length_assembled)
  moreover have "pa.expects (sy_items (rx_audio r) @ as) ?drops gs chunks' ?la r"
    using assms(1,2,4,8,10,13) list_all2_lengthD [OF assms(10)]
    by (simp add: pa.expects_def stream_inv_def audio_loop_new_def channel_new_def audio_promise_def audio_idle_def room_def
        split: prod.split del: length_assembled)
  ultimately obtain lv la r' where r': "reader_threads grow vd schedule (True, ?lv) (True, ?la) r = Some ((True, lv), (True, la), r')"
    "pv.expects ?ws ?ds [] [] lv r'" "pa.expects (sy_items (rx_audio r) @ as) ?drops [] [] la r'"
    using readers_progress [OF _ _ assms(5-7)] by blast
  from pv.expects_end [OF r'(2)] pa.expects_end [OF r'(3)] that [OF r'(1)] show ?thesis
    by (auto simp: video_promise_def audio_promise_def count_drops_def)
qed

end
