(* ===== verification/Playback.thy ===== *)
theory Playback
  imports Receiver_Pair Receiver
begin

text \<open>
  The way of video inside a receiver (\<open>src/receive.rs\<close>): the video reader dispatches frames to the wire queue, the decoder
  thread turns them into pictures for the decoded queue, the application takes pictures, and all three run at
  the same time with the rest of the session. The theorem accounts for every frame: it is taken, waiting in one of
  the two queues, or counted as dropped, and the order is kept.
\<close>

section \<open>Reader, decoder and application\<close>

text \<open>What the other threads see of a receiver without touching the video path.\<close>

definition video_path :: "receiver \<Rightarrow> wire_video sync_channel \<times> decoded_video_frame decoded_queue \<times> u64 \<times> u64" where
  "video_path r = (rx_wire r, rs_video r, ss_frames_dropped_wire (rs_stats r), ss_frames_dropped_decode (rs_stats r))"

text \<open>The runs from \<open>r0\<close>: the frames that were dispatched, the pictures that were taken, the decoder's state and the
  receiver.\<close>

inductive playing :: "'c vmx_decoder \<Rightarrow> (vmx_error \<Rightarrow> string) \<Rightarrow> (nat \<Rightarrow> nat) \<Rightarrow> receiver \<Rightarrow>
    assembled_frame list \<Rightarrow> decoded_video_frame list \<Rightarrow> 'c decoder_loop \<Rightarrow> receiver \<Rightarrow> bool"
  for D vd grow r0 where
  playing_start: "playing D vd grow r0 [] [] decoder_loop_new r0"
| playing_arrival: "playing D vd grow r0 (fs @ [f]) ds l r'"
    if "playing D vd grow r0 fs ds l r" "dispatch_video grow now f pool r = (pool', r')"
| playing_decode: "playing D vd grow r0 fs ds l' r'"
    if "playing D vd grow r0 fs ds l r" "video_decode_body D vd t0 t1 l r = (True, l', r')"
| playing_take: "playing D vd grow r0 fs (ds @ [d]) l r'"
    if "playing D vd grow r0 fs ds l r" "try_recv_video r = (Some d, r')"
| playing_other: "playing D vd grow r0 fs ds l r'"
    if "playing D vd grow r0 fs ds l r" "video_path r' = video_path r"

text \<open>A picture that shows a frame: the decoder made it of the frame's bitstream and header, all its rows are there, and it
  carries the frame's timestamp.\<close>

definition waits_for :: "assembled_frame \<Rightarrow> wire_video \<Rightarrow> bool" where
  "waits_for f w \<longleftrightarrow> wire_content w = frame_content f"

definition picture_of :: "'c vmx_decoder \<Rightarrow> assembled_frame \<Rightarrow> decoded_video_frame \<Rightarrow> bool" where
  "picture_of D f d \<longleftrightarrow> (\<exists>w cached buf cached' buf'. waits_for f w \<and> decode_vmx_bgra D w cached buf = (Inr d, cached', buf')) \<and>
     video_frame_ok d \<and> dv_timestamp d = fh_timestamp (af_header f)"

lemma picture_of_decoded:
  assumes "keeps_length D" "waits_for f w" "decode_vmx_bgra D w cached buf = (Inr d, cached', buf')"
  shows "picture_of D f d"
proof -
  have "dv_timestamp d = wv_timestamp w"
    using assms(3) by (auto simp: decode_vmx_bgra_def dest!: decode_closure_ok [OF assms(1)] split: if_splits prod.splits option.splits)
  moreover have "wv_timestamp w = fh_timestamp (af_header f)"
    using assms(2) by (cases w) (auto simp: waits_for_def wire_content_def frame_content_def wire_of_def)
  ultimately show ?thesis using assms(2,3) decode_vmx_ok [OF assms(1,3)] unfolding picture_of_def by metis
qed

lemma waits_wire: "af_video f = Some v \<Longrightarrow> vec_data p = af_data f \<Longrightarrow> waits_for f (wire_of now f v p)"
  by (simp add: waits_for_def wire_content_def frame_content_def wire_of_def)

lemma dispatch_video_outcome:
  assumes "dispatch_video grow now f pool r = (pool', r')" "sy_rx_alive (rx_wire r)"
  obtains (queued) w where "waits_for f w" "rx_wire r' = (rx_wire r)\<lparr>sy_items := sy_items (rx_wire r) @ [w]\<rparr>" "rs_video r' = rs_video r" "rs_stats r' = rs_stats r"
    | (dropped) "rx_wire r' = rx_wire r" "rs_video r' = rs_video r" "rs_stats r' = record_drop_wire (rs_stats r)"
proof (cases "r' = with_stats record_drop_wire r")
  case True
  with dropped show ?thesis by simp
next
  case False
  then obtain v buf pool1 where v: "af_video f = Some v" "pool_take grow (max (length (af_data f)) 1) pool = (buf, pool1)"
    "(case chan_try_send (wire_of now f v (vec_store grow (af_data f) (vec_clear buf))) (rx_wire r) of
        (Sent, q) \<Rightarrow> r\<lparr>rx_wire := q, rs_wire_depth := wire_depth_add (rs_wire_depth r)\<rparr>
      | (Full, q) \<Rightarrow> with_stats record_drop_wire (r\<lparr>rx_wire := q\<rparr>) | (Disconnected, q) \<Rightarrow> r\<lparr>rx_wire := q\<rparr>) = r'"
    using assms(1) by (auto simp: dispatch_video_def Let_def split: option.splits if_splits prod.splits try_send_result.splits)
  have "waits_for f (wire_of now f v (vec_store grow (af_data f) (vec_clear buf)))" by (rule waits_wire [OF v(1)]) simp
  from queued [OF this] show ?thesis
    using v(3) assms(2) dropped by (auto simp: chan_try_send_def split: if_splits)
qed

section \<open>The invariant\<close>

definition played :: "'c vmx_decoder \<Rightarrow> u64 \<Rightarrow> u64 \<Rightarrow> assembled_frame list \<Rightarrow> decoded_video_frame list \<Rightarrow> receiver \<Rightarrow> bool" where
  "played D wire0 decode0 fs ds r \<longleftrightarrow> sy_rx_alive (rx_wire r) \<and> decoded_queue_ok (rs_video r) \<and>
     (\<exists>gs hs nw nd. subseq (gs @ hs) fs \<and> list_all2 (picture_of D) gs (ds @ dq_slot (rs_video r)) \<and>
        list_all2 waits_for hs (sy_items (rx_wire r)) \<and> nw + nd + length gs + length hs = length fs \<and>
        ss_frames_dropped_wire (rs_stats r) = count_drops nw wire0 \<and> ss_frames_dropped_decode (rs_stats r) = count_drops nd decode0)"

lemma subseq_without_middle: "subseq (xs @ zs) (xs @ ys @ zs)"
  by (rule list_emb_append_mono [OF subseq_order.order_refl list_emb_append2]) (rule subseq_order.order_refl)

lemma count_drops_step: "sat_add_u (count_drops n c) 1 = count_drops (Suc n) c"
  by (simp add: count_drops_def)

lemma played_path: "played D wire0 decode0 fs ds r \<Longrightarrow> video_path r' = video_path r \<Longrightarrow> played D wire0 decode0 fs ds r'"
  by (simp add: played_def video_path_def)

lemma played_arrival:
  assumes "played D wire0 decode0 fs ds r" "dispatch_video grow now f pool r = (pool', r')"
  shows "played D wire0 decode0 (fs @ [f]) ds r'"
proof -
  obtain gs hs nw nd where p: "subseq (gs @ hs) fs" "list_all2 (picture_of D) gs (ds @ dq_slot (rs_video r))"
    "list_all2 waits_for hs (sy_items (rx_wire r))" "nw + nd + length gs + length hs = length fs"
    "ss_frames_dropped_wire (rs_stats r) = count_drops nw wire0" "ss_frames_dropped_decode (rs_stats r) = count_drops nd decode0"
    and alive: "sy_rx_alive (rx_wire r)" "decoded_queue_ok (rs_video r)"
    using assms(1) by (auto simp: played_def)
  from assms(2) alive(1) show ?thesis
  proof (cases rule: dispatch_video_outcome)
    case queued
    have "subseq (gs @ hs @ [f]) (fs @ [f])" using list_emb_append_mono [OF p(1), of "[f]" "[f]"] by simp
    moreover have "list_all2 waits_for (hs @ [f]) (sy_items (rx_wire r'))" using p(3) queued by (simp add: list_all2_appendI)
    ultimately show ?thesis
      using p alive queued unfolding played_def
      by (intro conjI exI [of _ gs] exI [of _ "hs @ [f]"] exI [of _ nw] exI [of _ nd]) simp_all
  next
    case dropped
    have "subseq (gs @ hs) (fs @ [f])" using p(1) by (rule subseq_rev_drop_many)
    then show ?thesis
      using p alive dropped unfolding played_def
      by (intro conjI exI [of _ gs] exI [of _ hs] exI [of _ "Suc nw"] exI [of _ nd]) (simp_all add: record_drop_wire_def count_drops_step)
  qed
qed

lemma played_decode:
  assumes "keeps_length D" "played D wire0 decode0 fs ds r" "video_decode_body D vd t0 t1 l r = (True, l', r')"
  shows "played D wire0 decode0 fs ds r'"
proof -
  obtain gs hs nw nd where p: "subseq (gs @ hs) fs" "list_all2 (picture_of D) gs (ds @ dq_slot (rs_video r))"
    "list_all2 waits_for hs (sy_items (rx_wire r))" "nw + nd + length gs + length hs = length fs"
    "ss_frames_dropped_wire (rs_stats r) = count_drops nw wire0" "ss_frames_dropped_decode (rs_stats r) = count_drops nd decode0"
    and alive: "sy_rx_alive (rx_wire r)" "decoded_queue_ok (rs_video r)"
    using assms(2) by (auto simp: played_def)
  show ?thesis
  proof (cases "sy_items (rx_wire r)")
    case Nil
    then have "r' = r" using assms(3) by (auto simp: video_decode_body_def chan_recv_def split: if_splits)
    with assms(2) show ?thesis by simp
  next
    case (Cons w ws)
    then obtain f hs' where hs: "hs = f # hs'" "waits_for f w" "list_all2 waits_for hs' ws" using p(3) by (auto simp: list_all2_Cons2)
    have recv: "chan_recv (rx_wire r) = (Received w, (rx_wire r)\<lparr>sy_items := ws\<rparr>)" using Cons by (simp add: chan_recv_def)
    obtain res codec buf where d: "decode_vmx_bgra D w (dl_codec l) (dl_buf l) = (res, codec, buf)" by (metis prod_cases3)
    show ?thesis
    proof (cases res)
      case (Inl e)
      have "subseq (gs @ hs') fs" using subseq_without_middle [of gs hs' "[f]"] p(1) by (auto simp: hs(1) intro: subseq_order.order_trans)
      moreover have "rx_wire r' = (rx_wire r)\<lparr>sy_items := ws\<rparr>" "rs_video r' = rs_video r" "rs_stats r' = record_drop_decode (rs_stats r)"
        using assms(3) recv d Inl by (auto simp: video_decode_body_def Let_def)
      ultimately show ?thesis
        using p alive hs unfolding played_def
        by (intro conjI exI [of _ gs] exI [of _ hs'] exI [of _ nw] exI [of _ "Suc nd"]) (simp_all add: record_drop_decode_def count_drops_step)
    next
      case (Inr pic)
      have pic: "picture_of D f pic" by (rule picture_of_decoded [OF assms(1) hs(2)]) (use d Inr in simp)
      let ?slot = "dq_slot (rs_video r)"
      let ?k = "Suc (length ?slot) - dq_cap (rs_video r)" and ?st = "record_codec_time (word_of_nat (t1 - t0)) (word_of_nat ((t0 - wv_enqueued_at w) div 1000)) (rs_stats r)"
      have r': "rx_wire r' = (rx_wire r)\<lparr>sy_items := ws\<rparr>" "queue_publish pic (rs_video r) ?st = (rs_video r', rs_stats r')"
        using assms(3) recv d Inr by (auto simp: video_decode_body_def Let_def split: prod.splits)
      have st: "ss_frames_dropped_wire ?st = ss_frames_dropped_wire (rs_stats r)" "ss_frames_dropped_decode ?st = ss_frames_dropped_decode (rs_stats r)"
        by (simp_all add: record_codec_time_def Let_def)
      have slot': "dq_slot (rs_video r') = drop ?k ?slot @ [pic]" "rs_stats r' = (record_drop_decode ^^ ?k) ?st"
        using r'(2) queue_publish_eq [OF alive(2), of pic ?st] by (auto simp: Let_def dest!: arg_cong [of _ "rs_video r'" dq_slot])
      have k: "?k \<le> length ?slot" using alive(2) unfolding decoded_queue_ok_def by linarith
      have drops: "ss_frames_dropped_wire ((record_drop_decode ^^ n) g) = ss_frames_dropped_wire g"
        "ss_frames_dropped_decode ((record_drop_decode ^^ n) g) = count_drops n (ss_frames_dropped_decode g)" for n g
        by (induction n) (simp_all add: record_drop_decode_def count_drops_def)
      obtain gs1 gs2 where gs: "gs = gs1 @ gs2" "list_all2 (picture_of D) gs1 ds" "list_all2 (picture_of D) gs2 ?slot"
        using p(2) by (auto simp: list_all2_append2)
      let ?gs = "gs1 @ drop ?k gs2 @ [f]"
      have "list_all2 (picture_of D) ?gs (ds @ dq_slot (rs_video r'))"
        using gs(2,3) pic by (simp add: slot'(1) list_all2_appendI list_all2_dropI)
      moreover have "gs @ hs = gs1 @ take ?k gs2 @ drop ?k gs2 @ f # hs'" unfolding gs(1) hs(1) by (simp flip: append_assoc)
      then have "subseq (?gs @ hs') fs"
        using subseq_without_middle [of gs1 "drop ?k gs2 @ f # hs'" "take ?k gs2"] p(1) by (auto intro: subseq_order.order_trans)
      moreover have "nw + (nd + ?k) + length ?gs + length hs' = length fs"
        using p(4) k list_all2_lengthD [OF gs(3)] by (simp add: hs(1) gs(1))
      moreover have "ss_frames_dropped_decode (rs_stats r') = count_drops (nd + ?k) decode0"
        unfolding slot'(2) drops(2) st p(6) by (simp add: count_drops_def funpow_add [symmetric, unfolded comp_def, THEN fun_cong] add.commute)
      moreover have "ss_frames_dropped_wire (rs_stats r') = count_drops nw wire0" unfolding slot'(2) drops(1) st p(5) ..
      moreover have "decoded_queue_ok (rs_video r')" using queue_publish_ok [OF alive(2) r'(2)] .
      ultimately show ?thesis
        using alive(1) hs(3) r'(1) unfolding played_def
        by (intro conjI exI [of _ ?gs] exI [of _ hs'] exI [of _ nw] exI [of _ "nd + ?k"]) simp_all
    qed
  qed
qed

lemma played_take:
  assumes "played D wire0 decode0 fs ds r" "try_recv_video r = (Some d, r')"
  shows "played D wire0 decode0 fs (ds @ [d]) r'"
proof -
  obtain slot where "dq_slot (rs_video r) = d # slot" "rs_video r' = (rs_video r)\<lparr>dq_slot := slot, dq_depth := word_of_nat (length slot)\<rparr>"
    "rx_wire r' = rx_wire r" "rs_stats r' = rs_stats r"
    using assms(2) by (auto simp: try_recv_video_def try_take_def split: list.splits)
  with assms(1) show ?thesis by (auto simp: played_def decoded_queue_ok_def)
qed

lemma playing_played:
  assumes "keeps_length D" "playing D vd grow r0 fs ds l r" "sy_rx_alive (rx_wire r0)" "sy_items (rx_wire r0) = []"
    "decoded_queue_ok (rs_video r0)" "dq_slot (rs_video r0) = []"
  shows "played D (ss_frames_dropped_wire (rs_stats r0)) (ss_frames_dropped_decode (rs_stats r0)) fs ds r"
  using assms(2)
proof induction
  case playing_start
  from assms(3-) show ?case unfolding played_def by (intro conjI exI [of _ "[]"] exI [of _ "0::nat"]) (simp_all add: count_drops_def)
next
  case (playing_arrival fs ds l r f now pool pool' r')
  show ?case by (rule played_arrival [OF playing_arrival(3,2)])
next
  case (playing_decode fs ds l r t0 t1 l' r')
  show ?case by (rule played_decode [OF assms(1) playing_decode(3,2)])
next
  case (playing_take fs ds l r d r')
  show ?case by (rule played_take [OF playing_take(3,2)])
next
  case (playing_other fs ds l r r')
  show ?case by (rule played_path [OF playing_other(3,2)])
qed

text \<open>C3: however the reader, the decoder thread and the application are scheduled, and whatever the other threads of the
  session do besides: no video frame is lost silently, doubled, or shown out of order. The frames dispatched since the
  receiver was opened divide into those whose pictures were taken or wait in the decoded queue, those that wait for the
  decoder, and those counted in one of the two drop counters. The pictures come in the frames' order, and each is the
  decoder's output for its frame, full size and with the frame's timestamp.\<close>

theorem video_pipeline_accounting:
  assumes "keeps_length D" "playing D vd grow r0 fs ds l r" "sy_rx_alive (rx_wire r0)" "sy_items (rx_wire r0) = []"
    "decoded_queue_ok (rs_video r0)" "dq_slot (rs_video r0) = []"
  shows "\<exists>shown waiting nw nd. subseq (shown @ waiting) fs \<and>
     list_all2 (picture_of D) shown (ds @ dq_slot (rs_video r)) \<and> list_all2 waits_for waiting (sy_items (rx_wire r)) \<and>
     nw + nd + length ds + length (dq_slot (rs_video r)) + length (sy_items (rx_wire r)) = length fs \<and>
     ss_frames_dropped_wire (rs_stats r) = count_drops nw (ss_frames_dropped_wire (rs_stats r0)) \<and>
     ss_frames_dropped_decode (rs_stats r) = count_drops nd (ss_frames_dropped_decode (rs_stats r0))"
proof -
  obtain gs hs nw nd where p: "subseq (gs @ hs) fs" "list_all2 (picture_of D) gs (ds @ dq_slot (rs_video r))"
    "list_all2 waits_for hs (sy_items (rx_wire r))" "nw + nd + length gs + length hs = length fs"
    "ss_frames_dropped_wire (rs_stats r) = count_drops nw (ss_frames_dropped_wire (rs_stats r0))"
    "ss_frames_dropped_decode (rs_stats r) = count_drops nd (ss_frames_dropped_decode (rs_stats r0))"
    using playing_played [OF assms] by (auto simp: played_def)
  then show ?thesis
    using list_all2_lengthD [OF p(2)] list_all2_lengthD [OF p(3)]
    by (intro exI [of _ gs] exI [of _ hs] exI [of _ nw] exI [of _ nd]) simp
qed

text \<open>A dispatched frame that can be played waits for the decoder while there is room for it.\<close>

lemma arrival_waits:
  assumes "plays_video f" "room (rx_wire r) 1" "dispatch_video grow now f pool r = (pool', r')"
  obtains v p where "af_video f = Some v" "vec_data p = af_data f"
    "r' = r\<lparr>rx_wire := (rx_wire r)\<lparr>sy_items := sy_items (rx_wire r) @ [wire_of now f v p]\<rparr>, rs_wire_depth := wire_depth_add (rs_wire_depth r)\<rparr>"
proof -
  obtain v where v: "af_video f = Some v" "vh_codec v = Vmx1" "\<not> vf_contains (vh_flags v) VF_ALPHA" "\<not> vf_contains (vh_flags v) VF_HIGH_BIT_DEPTH"
    "length (af_data f) \<le> VIDEO_MAX_SIZE"
    using assms(1) by (auto simp: plays_video_def)
  obtain buf pool1 where b: "pool_take grow (max (length (af_data f)) 1) pool = (buf, pool1)" by fastforce
  have "vec_data (vec_store grow (af_data f) (vec_clear buf)) = af_data f" by simp
  then show ?thesis
    by (rule that [OF v(1)])
      (use assms(3) room_send [of "rx_wire r" 0 "wire_of now f v (vec_store grow (af_data f) (vec_clear buf))"] assms(2) v b
        in \<open>simp add: dispatch_video_def Let_def\<close>)
qed

text \<open>Two frames arrive, the first is decoded and taken.\<close>

definition sample_arrival :: assembled_frame where
  "sample_arrival =
     \<lparr>af_header = \<lparr>fh_version = PROTOCOL_VERSION, fh_frame_type = FT_VIDEO, fh_timestamp = 7, fh_metadata_length = 0, fh_data_length = 35\<rparr>,
      af_video = Some \<lparr>vh_codec = Vmx1, vh_width = 64, vh_height = 64, vh_frame_rate_n = 60, vh_frame_rate_d = 1,
        vh_aspect_ratio = 0, vh_flags = VF_NONE, vh_color_space = Bt709\<rparr>,
      af_audio = None, af_data = [1, 2, 3], af_metadata = []\<rparr>"

theorem video_pipeline_accounting_witness:
  "\<exists>d l r. playing black_decoder (\<lambda>_. []) (\<lambda>n. n) (receiver_new receiver_config_default) [sample_arrival, sample_arrival] [d] l r \<and>
     picture_of black_decoder sample_arrival d \<and> length (sy_items (rx_wire r)) = 1 \<and> ss_frames_dropped_wire (rs_stats r) = 0"
proof -
  let ?r0 = "receiver_new receiver_config_default" and ?f = sample_arrival and ?D = black_decoder
  have plays: "plays_video ?f"
    by (simp add: plays_video_def sample_arrival_def ft_contains_def ft_defs vf_contains_def vf_defs VIDEO_MAX_SIZE_def)
  have rooms: "room (rx_wire ?r0) 2" by (simp add: room_def receiver_new_def sync_channel_new_def VIDEO_WIRE_Q_def)
  obtain pool1 r1 where d1: "dispatch_video (\<lambda>n. n) 3 ?f pool_video ?r0 = (pool1, r1)" by fastforce
  obtain pool2 r2 where d2: "dispatch_video (\<lambda>n. n) 4 ?f pool1 r1 = (pool2, r2)" by fastforce
  have "room (rx_wire ?r0) 1" using rooms by (simp add: room_def)
  from arrival_waits [OF plays this d1] obtain v p where v: "af_video ?f = Some v" "vec_data p = af_data ?f"
    "r1 = ?r0\<lparr>rx_wire := (rx_wire ?r0)\<lparr>sy_items := [wire_of 3 ?f v p]\<rparr>, rs_wire_depth := wire_depth_add 0\<rparr>"
    by (auto simp: receiver_new_def sync_channel_new_def)
  have "room (rx_wire r1) 1" using rooms by (simp add: v(3) room_def receiver_new_def sync_channel_new_def)
  from arrival_waits [OF plays this d2] obtain v' p' where
    r2: "r2 = r1\<lparr>rx_wire := (rx_wire r1)\<lparr>sy_items := sy_items (rx_wire r1) @ [wire_of 4 ?f v' p']\<rparr>, rs_wire_depth := wire_depth_add (rs_wire_depth r1)\<rparr>" .
  obtain b l r3 where d3: "video_decode_body ?D (\<lambda>_. []) 5 6 decoder_loop_new r2 = (b, l, r3)" by (metis prod_cases3)
  obtain d c buf where dec: "decode_vmx_bgra ?D (wire_of 3 ?f v p) None [] = (Inr d, c, buf)"
    using v(1) by (auto simp: decode_vmx_bgra_def decode_closure_def black_decoder_def cached_codec_def output_size_def wire_of_def sample_arrival_def vf_contains_def vf_defs Let_def)
  have r3: "b \<and> dq_slot (rs_video r3) = [d] \<and> length (sy_items (rx_wire r3)) = 1"
    using d3 dec by (auto simp: video_decode_body_def r2 v(3) chan_recv_def decoder_loop_new_def receiver_new_def decoded_queue_new_def
        sync_channel_new_def queue_publish_def VIDEO_DECODED_Q_def Let_def split: prod.splits)
  obtain r4 where r4: "try_recv_video r3 = (Some d, r4)" "rx_wire r4 = rx_wire r3" "rs_stats r4 = rs_stats r3" "dq_slot (rs_video r4) = []"
    using r3 by (auto simp: try_recv_video_def try_take_def)
  have run: "playing ?D (\<lambda>_. []) (\<lambda>n. n) ?r0 ([] @ [?f] @ [?f]) ([] @ [d]) l r4"
    using playing_take [OF playing_decode [OF playing_arrival [OF playing_arrival [OF playing_start d1] d2]] r4(1)] d3 r3 by simp
  have "sy_rx_alive (rx_wire ?r0)" "sy_items (rx_wire ?r0) = []" "decoded_queue_ok (rs_video ?r0)" "dq_slot (rs_video ?r0) = []"
    by (simp_all add: receiver_new_def sync_channel_new_def decoded_queue_new_def decoded_queue_ok_def VIDEO_DECODED_Q_def)
  from video_pipeline_accounting [OF black_decoder_keeps run this] obtain shown waiting nw nd where s:
    "subseq (shown @ waiting) [?f, ?f]" "list_all2 (picture_of ?D) shown [d]" "nw + nd + 1 + length (sy_items (rx_wire r4)) = 2"
    "ss_frames_dropped_wire (rs_stats r4) = count_drops nw (ss_frames_dropped_wire (rs_stats ?r0))"
    using r4 by auto
  have "nw = 0" using s(3) r3 r4(2) by simp
  moreover obtain f where "shown = [f]" "picture_of ?D f d" using s(2) by (auto simp: list_all2_Cons2)
  moreover from this s(1) have "f = ?f" by (auto simp: list_emb_Cons_iff1 split: if_splits)
  moreover have "ss_frames_dropped_wire (rs_stats ?r0) = 0" by (simp add: receiver_new_def session_statistics_default_def)
  ultimately show ?thesis
    using run r3 r4(2) s(4) by (intro exI [of _ d] exI [of _ l] exI [of _ r4]) (simp add: count_drops_def)
qed

end
