(* ===== verification/Media_Path.thy ===== *)
theory Media_Path
  imports Sender Receiver_Threads "HOL-Library.Sublist"
begin

text \<open>
  The whole way of video and metadata: the operations of a sender (\<open>src/send.rs\<close>), its queue and writer thread, the
  bytes a peer is written, the network, and the video reader of a receiver (\<open>src/receive.rs\<close>). A run of the sender
  is an inductive relation whose steps are calls of \<open>send_video\<close> and \<open>send_metadata\<close> and turns of the writer thread in
  any order, with writes of any size; documents overtake the frames that wait in the queue. The theorem says what
  the application at the other end receives, and that what it does not receive is counted.
\<close>

section \<open>Frames that fit the wire\<close>

definition plain_text :: "string \<Rightarrow> bool" where
  "plain_text xml \<longleftrightarrow> 0 \<notin> set (as_bytes xml) \<and> utf8_valid (as_bytes xml)"

text \<open>A compressed frame within the limits of the protocol, without the flags the receiver refuses. The receiver's
  buffer must hold it together with a whole read behind it.\<close>

definition fits_wire :: "media_frame \<Rightarrow> bool" where
  "fits_wire m \<longleftrightarrow> ft_contains (mf_frame_type m) FT_VIDEO \<and> codec_from_i32 (mf_codec m) = Some Vmx1 \<and>
     \<not> vf_contains (mf_flags m) VF_ALPHA \<and> \<not> vf_contains (mf_flags m) VF_HIGH_BIT_DEPTH \<and>
     (case mf_frame_metadata m of Some xml \<Rightarrow> xml \<noteq> [] \<and> plain_text xml \<and> length xml < 2 ^ 16 | None \<Rightarrow> True) \<and>
     VIDEO_EXT_HEADER_SIZE + length (mf_data m) + length (metadata_bytes m) + NETWORK_RECEIVE_MAX_TRANSFER \<le> VIDEO_MAX_SIZE"

definition fits_document :: "string \<Rightarrow> bool" where
  "fits_document xml \<longleftrightarrow> plain_text xml \<and> length xml \<le> METADATA_FRAME_SIZE"

text \<open>What the sender puts on the wire for a frame: itself when it is compressed, else what the encoder makes of it.\<close>

definition compressed :: "'c vmx \<Rightarrow> media_frame \<Rightarrow> 'c sender \<Rightarrow> media_frame option" where
  "compressed V m s =
     (if codec_from_i32 (mf_codec m) = Some Vmx1 then Some m
      else
        case encode_raw V m (effective_quality s) (sn_video_encoder s) of
          Some (Inr bits, _) \<Rightarrow> Some (m\<lparr>mf_data := bits, mf_codec := codec_as_i32 Vmx1\<rparr>)
        | _ \<Rightarrow> None)"

text \<open>The queued frame shows the application everything it was sent with; only an automatic timestamp is
  replaced by the clock's.\<close>

definition shows_frame :: "media_frame \<Rightarrow> wire_video \<Rightarrow> bool" where
  "shows_frame m w \<longleftrightarrow> vec_data (wv_payload w) = mf_data m \<and>
     (sint (mf_timestamp m) \<noteq> AUTO_TIMESTAMP \<longrightarrow> wv_timestamp w = mf_timestamp m) \<and>
     wv_width w = mf_width m \<and> wv_height w = mf_height m \<and> wv_frame_rate_n w = mf_frame_rate_n m \<and>
     wv_frame_rate_d w = (if sint (mf_frame_rate_d m) < 1 then 1 else mf_frame_rate_d m) \<and>
     wv_color_space w = mf_color_space m \<and> wv_preview w = vf_contains (mf_flags m) VF_PREVIEW \<and>
     wv_metadata w = mf_frame_metadata m"

definition frame_of :: "media_frame \<Rightarrow> assembled_frame \<Rightarrow> bool" where
  "frame_of m f \<longleftrightarrow> fits_wire m \<and>
     (\<exists>ts. f = video_wire_frame ts m \<and> (sint (mf_timestamp m) \<noteq> AUTO_TIMESTAMP \<longrightarrow> ts = mf_timestamp m))"

definition document_of :: "metadata_frame \<Rightarrow> assembled_frame \<Rightarrow> bool" where
  "document_of d f \<longleftrightarrow> fits_document (md_xml d) \<and> f = control_frame (md_timestamp d) (md_xml d)"

lemma plain_text_decodes: "plain_text xml \<Longrightarrow> decode_metadata_xml (encode_metadata_xml xml) = Inr xml"
  using metadata_text_roundtrip [of xml "[]"] by (simp add: plain_text_def)

text \<open>The frames of a run are taken whole by every receiver.\<close>

abbreviation travels :: "assembled_frame \<Rightarrow> bool" where
  "travels f \<equiv> sendable f \<and> length (assembled_to_bytes f) + NETWORK_RECEIVE_MAX_TRANSFER \<le> max_reassembly"

lemma frame_of_travels:
  assumes "frame_of m f"
  shows "travels f" "plays_video f" "\<not> carries_metadata f"
proof -
  obtain ts where f: "f = video_wire_frame ts m" and fit: "fits_wire m" using assms by (auto simp: frame_of_def)
  have md: "length (af_metadata f) < 2 ^ 16"
    using fit by (auto simp: f video_wire_frame_def fits_wire_def metadata_bytes_def Let_def split: option.splits)
  have ext: "length (ext_bytes f) = VIDEO_EXT_HEADER_SIZE" by (simp add: f video_wire_frame_def ext_bytes_def Let_def)
  have size: "length (ext_bytes f) + length (af_data f) + length (af_metadata f) + NETWORK_RECEIVE_MAX_TRANSFER \<le> VIDEO_MAX_SIZE"
    using fit by (simp add: ext) (simp add: f video_wire_frame_def fits_wire_def Let_def)
  have "VIDEO_MAX_SIZE < 2 ^ 31" by (simp add: VIDEO_MAX_SIZE_def)
  with size have wf: "wf_frame f" by (intro video_wire_frame_wf [OF f md]) simp
  have ft: "fh_frame_type (af_header f) = FT_VIDEO" by (simp add: f video_wire_frame_def Let_def)
  have v: "is_valid_frame_type FT_VIDEO" "max_payload_for FT_VIDEO = VIDEO_MAX_SIZE"
    by (simp_all add: is_valid_frame_type_def max_payload_for_def) (simp add: ft_defs)
  from wf have dl: "nat (sint (fh_data_length (af_header f))) = length (ext_bytes f) + length (af_data f) + length (af_metadata f)"
    by (simp add: wf_frame_def Let_def)
  show "travels f"
    using wf_frame_total [OF wf] size wf v
    by (simp add: sendable_def ft dl max_reassembly_def del: length_assembled)
  show "plays_video f" "\<not> carries_metadata f"
    using size fit by (simp_all add: plays_video_def carries_metadata_def ft) (simp add: f video_wire_frame_def fits_wire_def Let_def)
qed

lemma frame_of_shown:
  assumes "frame_of m f" "wire_content w = frame_content f"
  shows "shows_frame m w"
proof -
  obtain ts where f: "f = video_wire_frame ts m" and fit: "fits_wire m" "sint (mf_timestamp m) \<noteq> AUTO_TIMESTAMP \<longrightarrow> ts = mf_timestamp m"
    using assms by (auto simp: frame_of_def)
  have "frame_metadata_text f = mf_frame_metadata m"
  proof (cases "mf_frame_metadata m")
    case (Some xml)
    then have "xml \<noteq> []" "plain_text xml" using fit(1) by (auto simp: fits_wire_def)
    with Some plain_text_decodes [of xml] show ?thesis
      by (simp add: frame_metadata_text_def f video_wire_frame_def metadata_bytes_def Let_def)
        (simp add: encode_metadata_xml_def as_bytes_def)
  qed (simp add: frame_metadata_text_def f video_wire_frame_def metadata_bytes_def Let_def)
  then show ?thesis
    using assms(2) fit(2)
    by (cases w) (auto simp: shows_frame_def wire_content_def frame_content_def wire_of_def f video_wire_frame_def Let_def)
qed

lemma document_of_travels:
  assumes "document_of d f"
  shows "travels f" "\<not> plays_video f" "carries_metadata f" "metadata_of f = d"
proof -
  have f: "f = control_frame (md_timestamp d) (md_xml d)" and xml: "plain_text (md_xml d)" "length (md_xml d) \<le> METADATA_FRAME_SIZE"
    using assms by (auto simp: document_of_def fits_document_def)
  show "travels f" using control_frame_sendable [OF xml(2), of "md_timestamp d"] xml(2)
    by (simp add: f METADATA_FRAME_SIZE_def max_reassembly_def VIDEO_MAX_SIZE_def HEADER_SIZE_def NETWORK_RECEIVE_MAX_TRANSFER_def
        del: length_assembled)
  show "\<not> plays_video f" "carries_metadata f" by (simp_all add: f plays_video_def carries_metadata_def control_frame_def Let_def)
  have "utf8_lossy (as_bytes (md_xml d)) = as_bytes (md_xml d)" using xml(1) by (simp add: plain_text_def utf8_lossy_valid)
  then show "metadata_of f = d"
    by (cases d) (simp add: f metadata_of_def frame_metadata_text_def control_frame_def encode_metadata_xml_def Let_def)
qed

section \<open>A sender in service\<close>

definition delivers :: "bytes \<Rightarrow> write_result list \<Rightarrow> bool" where
  "delivers bs ws \<longleftrightarrow> fst (write_all bs ws) = Inr ()"

text \<open>The runs in which no write to the peer \<open>pid\<close> fails, with the compressed frames and the documents the sender was
  given.\<close>

inductive service :: "'c vmx \<Rightarrow> (bytes \<Rightarrow> nat option) \<Rightarrow> nat \<Rightarrow> 'c sender \<Rightarrow> media_frame list \<Rightarrow> metadata_frame list \<Rightarrow> 'c sender \<Rightarrow> bool"
  for V plen pid s0 where
  service_start: "service V plen pid s0 [] [] s0"
| service_video: "service V plen pid s0 (ms @ [m']) ds s'"
    if "service V plen pid s0 ms ds s" "compressed V m s = Some m'" "fits_wire m'"
      "send_video V plen ws t nows elapsed cap m s = Some (Inr (), s')"
| service_document: "service V plen pid s0 ms (ds @ [\<lparr>md_timestamp = word_of_int (resolve_timestamp t ts), md_xml = xml\<rparr>]) s'"
    if "service V plen pid s0 ms ds s" "fits_document xml"
      "delivers (assembled_to_bytes (control_frame (word_of_int (resolve_timestamp t ts)) xml)) (ws pid)"
      "send_metadata ws t ts xml s = (r, s')"
| service_writer: "service V plen pid s0 ms ds (video_writer_turn ws s)"
    if "service V plen pid s0 ms ds s"
      "\<forall>q w rest. sn_outbound_video s = Some q \<longrightarrow> wq_items q = w # rest \<longrightarrow> delivers (wb_full w) (ws pid)"

text \<open>What holds in such a run: \<open>ms'\<close> are the frames that were not dropped, \<open>fs\<close> what the peer has been written,
  \<open>pending\<close> what waits in the queue.\<close>

definition served :: "(bytes \<Rightarrow> nat option) \<Rightarrow> nat \<Rightarrow> peer \<Rightarrow> i64 \<Rightarrow> media_frame list \<Rightarrow> metadata_frame list \<Rightarrow> 'c sender \<Rightarrow>
    media_frame list \<Rightarrow> assembled_frame list \<Rightarrow> assembled_frame list \<Rightarrow> bool" where
  "served plen pid p0 n0 ms ds s ms' fs pending \<longleftrightarrow>
     (\<exists>q p. sn_outbound_video s = Some q \<and> wq_connected q \<and> wq_items q = map (broadcast_wire plen) pending \<and>
        map_of (sn_peers s) pid = Some p \<and> pe_state p = pe_state p0 \<and>
        pe_wire p = pe_wire p0 @ concat (map assembled_to_bytes fs)) \<and>
     distinct (map fst (sn_peers s)) \<and> ps_video (sn_subscribed s) \<and> subseq ms' ms \<and>
     st_frames_dropped (sn_stats s) = ((\<lambda>n. sat_add_s n 1) ^^ (length ms - length ms')) n0 \<and>
     list_all2 frame_of ms' (filter plays_video fs @ pending) \<and> list_all2 document_of ds (filter carries_metadata fs) \<and>
     (\<forall>f \<in> set fs. travels f \<and> (plays_video f \<or> carries_metadata f))"

lemma map_of_keep:
  assumes "distinct (map fst ps)"
  shows "map_of (concat (map (\<lambda>(i, p). case g i p of Some p' \<Rightarrow> [(i, p')] | None \<Rightarrow> []) ps)) i = Option.bind (map_of ps i) (g i)"
  using assms
proof (induction ps)
  case (Cons x ps)
  obtain j p where x: "x = (j, p)" by fastforce
  have "fst ` set (concat (map (\<lambda>(i, p). case g i p of Some p' \<Rightarrow> [(i, p')] | None \<Rightarrow> []) ps)) \<subseteq> fst ` set ps"
    by (force split: option.splits)
  moreover have "j \<notin> fst ` set ps" using Cons.prems by (simp add: x)
  ultimately have "j \<notin> fst ` set (concat (map (\<lambda>(i, p). case g i p of Some p' \<Rightarrow> [(i, p')] | None \<Rightarrow> []) ps))" by blast
  then have "map_of (concat (map (\<lambda>(i, p). case g i p of Some p' \<Rightarrow> [(i, p')] | None \<Rightarrow> []) ps)) j = None"
    by (simp only: map_of_eq_None_iff not_False_eq_True)
  moreover have "map_of ps j = None" using Cons.prems by (simp add: x map_of_eq_None_iff)
  ultimately show ?case using Cons by (cases "i = j") (auto simp: x split: option.split)
qed simp

lemma map_of_write_peers:
  assumes "distinct (map fst ps)"
  shows "map_of (write_peers wire ws ps) pid = Option.bind (map_of ps pid) (write_peer wire (ws pid))"
    "distinct (map fst (write_peers wire ws ps))"
  using map_of_keep [OF assms, of "\<lambda>i. write_peer wire (ws i)" pid] assms
  by (simp_all add: write_peers_def keep_numbers distinct_map_filter)

lemma peer_written:
  assumes "distinct (map fst ps)" "map_of ps pid = Some p" "peer_wants (pe_state p) (wb_ft wire)"
    "bytes_for wire (pe_state p) = bs" "delivers bs (ws pid)"
  shows "map_of (write_peers wire ws ps) pid = Some (p\<lparr>pe_wire := pe_wire p @ bs\<rparr>)"
proof -
  obtain out ws' where w: "write_all bs (ws pid) = (Inr (), out, ws')" using assms(5) by (auto simp: delivers_def prod_eq_iff)
  then have "out = bs" using write_all_prefix [OF w] by auto
  with w assms show ?thesis by (simp add: map_of_write_peers write_peer_def)
qed

lemma clock_keeps_explicit:
  "clock_resolve ts n d sr spc c nows = Some (ts', c', nows') \<Longrightarrow> ts \<noteq> AUTO_TIMESTAMP \<Longrightarrow> ts' = ts"
  by (auto simp: clock_resolve_def split: if_splits list.splits)

lemma send_video_queued:
  assumes "send_video V plen ws t nows elapsed cap m s = Some (Inr u, s')" "ps_video (sn_subscribed s)"
    "compressed V m s = Some m'" "fits_wire m'" "sn_outbound_video s = Some q" "wq_connected q"
  obtains f q' accepted where "frame_of m' f" "sn_outbound_video s' = Some q'" "wq_connected q'"
    "wq_items q' = wq_items q @ (if accepted then [broadcast_wire plen f] else [])"
    "st_frames_dropped (sn_stats s') = (if accepted then id else (\<lambda>n. sat_add_s n 1)) (st_frames_dropped (sn_stats s))"
    "sn_peers s' = sn_peers s" "sn_subscribed s' = sn_subscribed s"
proof -
  obtain s1 where s1: "sn_outbound_video s1 = Some q" "st_frames_dropped (sn_stats s1) = st_frames_dropped (sn_stats s)"
      "sn_peers s1 = sn_peers s" "sn_subscribed s1 = sn_subscribed s"
    and rest: "(case build_frame t nows m' s1 of
        None \<Rightarrow> None
      | Some (Inl e, s2, _) \<Rightarrow> Some (Inl e, s2)
      | Some (Inr assembled, s2, _) \<Rightarrow>
          (case broadcast plen ws assembled s2 of (r, s3) \<Rightarrow> Some (r, s3\<lparr>sn_video_encoder := recycle_bitstream cap (sn_video_encoder s3)\<rparr>))) =
        Some (Inr u, s')"
  proof (cases "codec_from_i32 (mf_codec m) = Some Vmx1")
    case True
    then show ?thesis using assms(1-3,5) that [of s] by (simp add: send_video_def compressed_def)
  next
    case False
    then obtain bits enc where e: "encode_raw V m (effective_quality s) (sn_video_encoder s) = Some (Inr bits, enc)"
      "m' = m\<lparr>mf_data := bits, mf_codec := codec_as_i32 Vmx1\<rparr>"
      using assms(3) by (auto simp: compressed_def split: option.splits prod.splits sum.splits)
    show ?thesis
      using assms(1,2,5) False e that [of "s\<lparr>sn_video_encoder := enc, sn_stats := record_codec elapsed (sn_stats s)\<rparr>"]
      by (simp add: send_video_def record_codec_def Let_def)
  qed
  have v: "ft_contains (mf_frame_type m') FT_VIDEO" using assms(4) by (simp add: fits_wire_def)
  then obtain ts clock nows' where c: "clock_resolve (sint (mf_timestamp m')) (sint (mf_frame_rate_n m')) (sint (mf_frame_rate_d m')) 0 0
        (sn_video_clock s1) nows = Some (ts, clock, nows')"
    using rest by (auto simp: build_frame_def Let_def split: option.splits)
  let ?f = "video_wire_frame (word_of_int ts) m'" and ?s2 = "s1\<lparr>sn_video_clock := clock\<rparr>"
  have f: "frame_of m' ?f" using clock_keeps_explicit [OF c] assms(4) by (force simp: frame_of_def)
  obtain s3 where b: "broadcast plen ws ?f ?s2 = (Inr (), s3)" "s' = s3\<lparr>sn_video_encoder := recycle_bitstream cap (sn_video_encoder s3)\<rparr>"
    using rest v c by (auto simp: build_frame_def Let_def split: prod.splits)
  obtain res q' where tried: "try_send (broadcast_wire plen ?f) q = (res, q')" by fastforce
  have ft: "fh_frame_type (af_header ?f) = FT_VIDEO" by (simp add: video_wire_frame_def Let_def)
  have kinds: "ft_contains FT_VIDEO FT_VIDEO" "\<not> ft_contains FT_VIDEO FT_METADATA" by (simp_all add: ft_contains_def ft_defs)
  have s3: "sn_outbound_video s3 = Some q'" "sn_peers s3 = sn_peers s" "sn_subscribed s3 = sn_subscribed s"
    "st_frames_dropped (sn_stats s3) = (if res = Sent then id else (\<lambda>n. sat_add_s n 1)) (st_frames_dropped (sn_stats s))"
    using b(1) s1 tried by (auto simp: broadcast_def ft kinds Let_def record_sent_def record_dropped_def split: try_send_result.splits)
  have "wq_items q' = wq_items q @ (if res = Sent then [broadcast_wire plen ?f] else [])" "wq_connected q'"
    using tried assms(6) by (auto simp: try_send_def split: if_splits)
  with f s3 b(2) show ?thesis by (intro that [of ?f q' "res = Sent"]) simp_all
qed

lemma served_start:
  assumes "sn_outbound_video s = Some q" "wq_items q = []" "wq_connected q" "map_of (sn_peers s) pid = Some p"
    "distinct (map fst (sn_peers s))" "ps_video (sn_subscribed s)"
  shows "served plen pid p (st_frames_dropped (sn_stats s)) [] [] s [] [] []"
  using assms by (simp add: served_def)

lemma served_video:
  assumes "served plen pid p0 n0 ms ds s ms' fs pending" "compressed V m s = Some m'" "fits_wire m'"
    "send_video V plen ws t nows elapsed cap m s = Some (Inr u, s')"
  shows "\<exists>ms'' pending'. served plen pid p0 n0 (ms @ [m']) ds s' ms'' fs pending'"
proof -
  obtain q p where q: "sn_outbound_video s = Some q" "wq_connected q" "wq_items q = map (broadcast_wire plen) pending"
    and p: "map_of (sn_peers s) pid = Some p" "pe_state p = pe_state p0" "pe_wire p = pe_wire p0 @ concat (map assembled_to_bytes fs)"
    and rest: "distinct (map fst (sn_peers s))" "ps_video (sn_subscribed s)" "subseq ms' ms"
      "st_frames_dropped (sn_stats s) = ((\<lambda>n. sat_add_s n 1) ^^ (length ms - length ms')) n0"
      "list_all2 frame_of ms' (filter plays_video fs @ pending)" "list_all2 document_of ds (filter carries_metadata fs)"
      "\<forall>f \<in> set fs. travels f \<and> (plays_video f \<or> carries_metadata f)"
    using assms(1) by (auto simp: served_def)
  obtain f q' accepted where f: "frame_of m' f" and q': "sn_outbound_video s' = Some q'" "wq_connected q'"
    "wq_items q' = wq_items q @ (if accepted then [broadcast_wire plen f] else [])"
    "st_frames_dropped (sn_stats s') = (if accepted then id else (\<lambda>n. sat_add_s n 1)) (st_frames_dropped (sn_stats s))"
    "sn_peers s' = sn_peers s" "sn_subscribed s' = sn_subscribed s"
    by (rule send_video_queued [OF assms(4) rest(2) assms(2,3) q(1,2)])
  have len: "length ms' \<le> length ms" using rest(3) by (rule list_emb_length)
  show ?thesis
  proof (cases accepted)
    case True
    have "list_all2 frame_of (ms' @ [m']) (filter plays_video fs @ pending @ [f])"
      using list_all2_appendI [OF rest(5), of "[m']" "[f]"] f by simp
    moreover have "subseq (ms' @ [m']) (ms @ [m'])" using rest(3) by (simp add: list_emb_append_mono)
    ultimately have "served plen pid p0 n0 (ms @ [m']) ds s' (ms' @ [m']) fs (pending @ [f])"
      using q q' p rest(1,2,4,6,7) True by (simp add: served_def)
    then show ?thesis by blast
  next
    case False
    have "subseq ms' (ms @ [m'])" using rest(3) by (rule subseq_rev_drop_many)
    then have "served plen pid p0 n0 (ms @ [m']) ds s' ms' fs pending"
      using q q' p rest(1,2,4-7) False len by (simp add: served_def Suc_diff_le)
    then show ?thesis by blast
  qed
qed

lemma served_document:
  assumes "served plen pid p0 n0 ms ds s ms' fs pending" "fits_document (md_xml d)"
    "delivers (assembled_to_bytes (control_frame (md_timestamp d) (md_xml d))) (ws pid)"
    "broadcast (\<lambda>_. None) ws (control_frame (md_timestamp d) (md_xml d)) s = (r, s')"
  shows "served plen pid p0 n0 ms (ds @ [d]) s' ms' (fs @ [control_frame (md_timestamp d) (md_xml d)]) pending"
proof -
  let ?f = "control_frame (md_timestamp d) (md_xml d)" and ?w = "broadcast_wire (\<lambda>_. None) (control_frame (md_timestamp d) (md_xml d))"
  have ft: "fh_frame_type (af_header ?f) = FT_METADATA" by (simp add: control_frame_def Let_def)
  have kinds: "ft_contains FT_METADATA FT_METADATA" "\<not> ft_contains FT_METADATA FT_VIDEO" "\<not> ft_contains FT_METADATA FT_AUDIO"
    by (simp_all add: ft_contains_def ft_defs)
  have s': "sn_peers s' = write_peers ?w ws (sn_peers s)" "sn_outbound_video s' = sn_outbound_video s" "sn_subscribed s' = sn_subscribed s"
    "st_frames_dropped (sn_stats s') = st_frames_dropped (sn_stats s)"
    using assms(4) by (auto simp: broadcast_def ft kinds Let_def record_sent_def)
  obtain p where p: "map_of (sn_peers s) pid = Some p" "distinct (map fst (sn_peers s))" using assms(1) by (auto simp: served_def)
  have "map_of (write_peers ?w ws (sn_peers s)) pid = Some (p\<lparr>pe_wire := pe_wire p @ assembled_to_bytes ?f\<rparr>)"
    by (rule peer_written [where ws = ws, OF p(2,1)])
      (simp_all add: peer_wants_def bytes_for_def broadcast_wire_def ft kinds Let_def assms(3) assembled_to_bytes_def [symmetric])
  moreover have "document_of d ?f" using assms(2) by (simp add: document_of_def)
  note this document_of_travels [OF this]
  ultimately show ?thesis
    using assms(1) p map_of_write_peers(2) [OF p(2), of ?w ws] s'
    by (auto simp: served_def list_all2_appendI)
qed

lemma served_writer:
  assumes "served plen pid p0 n0 ms ds s ms' fs pending" "ps_video (pe_state p0)" "\<not> ps_preview (pe_state p0)"
    "\<forall>q w rest. sn_outbound_video s = Some q \<longrightarrow> wq_items q = w # rest \<longrightarrow> delivers (wb_full w) (ws pid)"
  shows "\<exists>fs' pending'. served plen pid p0 n0 ms ds (video_writer_turn ws s) ms' fs' pending'"
proof (cases pending)
  case Nil
  then have "video_writer_turn ws s = s" using assms(1) by (auto simp: served_def video_writer_turn_def writer_turn_def)
  with assms(1) show ?thesis by auto
next
  case (Cons f later)
  obtain q p where q: "sn_outbound_video s = Some q" "wq_connected q" "wq_items q = broadcast_wire plen f # map (broadcast_wire plen) later"
    and p: "map_of (sn_peers s) pid = Some p" "distinct (map fst (sn_peers s))" "pe_state p = pe_state p0"
      "pe_wire p = pe_wire p0 @ concat (map assembled_to_bytes fs)"
    using assms(1) Cons by (auto simp: served_def)
  have "\<exists>m. frame_of m f" using assms(1) Cons by (auto simp: served_def list_all2_append2 list_all2_Cons2)
  then obtain m where m: "frame_of m f" ..
  then have ft: "fh_frame_type (af_header f) = FT_VIDEO" by (auto simp: frame_of_def video_wire_frame_def Let_def)
  have kinds: "ft_contains FT_VIDEO FT_VIDEO" by (simp add: ft_contains_def)
  let ?w = "broadcast_wire plen f"
  have full: "wb_full ?w = assembled_to_bytes f" "wb_ft ?w = FT_VIDEO" by (simp_all add: broadcast_wire_def ft Let_def assembled_to_bytes_def)
  have "delivers (assembled_to_bytes f) (ws pid)" using assms(4) q(1,3) full(1) by simp
  then have "map_of (write_peers ?w ws (sn_peers s)) pid = Some (p\<lparr>pe_wire := pe_wire p @ assembled_to_bytes f\<rparr>)"
    by (intro peer_written [where ws = ws, OF p(2,1)])
      (simp_all add: peer_wants_def bytes_for_def full kinds p(3) assms(2,3))
  moreover have "video_writer_turn ws s =
      s\<lparr>sn_outbound_video := Some (q\<lparr>wq_items := map (broadcast_wire plen) later\<rparr>), sn_peers := write_peers ?w ws (sn_peers s)\<rparr>"
    by (simp add: video_writer_turn_def writer_turn_def q)
  ultimately have "served plen pid p0 n0 ms ds (video_writer_turn ws s) ms' (fs @ [f]) later"
    using assms(1) Cons q(2) p map_of_write_peers(2) [OF p(2), of ?w ws] frame_of_travels [OF m] by (simp add: served_def)
  then show ?thesis by blast
qed

lemma service_served:
  assumes "service V plen pid s0 ms ds s" "sn_outbound_video s0 = Some q0" "wq_items q0 = []" "wq_connected q0"
    "map_of (sn_peers s0) pid = Some p0" "distinct (map fst (sn_peers s0))" "ps_video (sn_subscribed s0)"
    "ps_video (pe_state p0)" "\<not> ps_preview (pe_state p0)"
  shows "\<exists>ms' fs pending. served plen pid p0 (st_frames_dropped (sn_stats s0)) ms ds s ms' fs pending"
  using assms(1)
proof induction
  case service_start
  show ?case using served_start [OF assms(2-7)] by blast
next
  case (service_video ms ds s m m' ws t nows elapsed cap s')
  then show ?case using served_video by metis
next
  case (service_document ms ds s xml t ts ws s' r)
  then obtain ms' fs pending where "served plen pid p0 (st_frames_dropped (sn_stats s0)) ms ds s ms' fs pending" by blast
  from served_document [where ws = ws, OF this, of "\<lparr>md_timestamp = word_of_int (resolve_timestamp t ts), md_xml = xml\<rparr>" s' r]
    service_document.hyps show ?case by (auto simp: send_metadata_def)
next
  case (service_writer ms ds s ws)
  then show ?case using served_writer [where ws = ws] assms(8,9) by metis
qed

section \<open>From the sender to the receiver\<close>

lemma length_split_filter:
  "\<forall>x \<in> set xs. (P x \<or> Q x) \<and> (P x \<longrightarrow> \<not> Q x) \<Longrightarrow> length xs = length (filter P xs) + length (filter Q xs)"
  by (induction xs) auto

lemma list_all2_source: "list_all2 P xs ys \<Longrightarrow> y \<in> set ys \<Longrightarrow> \<exists>x. P x y"
  by (induction rule: list_all2_induct) auto

lemma frames_shown:
  assumes "map wire_content new = map frame_content fs" "list_all2 frame_of ms fs"
  shows "list_all2 shows_frame ms new"
proof -
  have "list_all2 (=) (map frame_content fs) (map wire_content new)" by (simp only: assms(1) list.rel_eq)
  then have shown: "list_all2 (\<lambda>f w. frame_content f = wire_content w) fs new" by (simp only: list.rel_map)
  show ?thesis by (rule list_all2_trans [OF _ assms(2) shown]) (simp add: frame_of_shown)
qed

lemma sent_video:
  assumes "served plen pid p0 n0 ms ds s ms' fs []"
  shows "subseq ms' ms" "list_all2 frame_of ms' (filter plays_video fs)" "map metadata_of (filter carries_metadata fs) = ds"
    "\<forall>f \<in> set fs. travels f" "length fs \<le> length ms + length ds" "length ms' \<le> length ms"
    "st_frames_dropped (sn_stats s) = ((\<lambda>n. sat_add_s n 1) ^^ (length ms - length ms')) n0"
proof -
  show v: "subseq ms' ms" "list_all2 frame_of ms' (filter plays_video fs)" "\<forall>f \<in> set fs. travels f"
    "st_frames_dropped (sn_stats s) = ((\<lambda>n. sat_add_s n 1) ^^ (length ms - length ms')) n0"
    using assms by (auto simp: served_def)
  have d: "list_all2 document_of ds (filter carries_metadata fs)" and kinds: "\<forall>f \<in> set fs. plays_video f \<or> carries_metadata f"
    using assms by (auto simp: served_def)
  show "map metadata_of (filter carries_metadata fs) = ds"
    using d by (induction rule: list_all2_induct) (simp_all add: document_of_travels(4))
  show "length ms' \<le> length ms" using v(1) by (rule list_emb_length)
  moreover have "length fs = length (filter plays_video fs) + length (filter carries_metadata fs)"
    using kinds by (intro length_split_filter) (auto simp: plays_video_def carries_metadata_def)
  ultimately show "length fs \<le> length ms + length ds"
    using list_all2_lengthD [OF v(2)] list_all2_lengthD [OF d] by simp
qed


lemma delivers_whole: "length bs \<le> n \<Longrightarrow> 0 < n \<Longrightarrow> delivers bs [Wrote n]"
  by (cases bs) (simp_all add: delivers_def)

definition serving_sender :: "bytes sender" where
  "serving_sender = force_subscribe True False True
     (offline_sender\<lparr>sn_peers := [(1, \<lparr>pe_state = peer_state_default, pe_inbound = [], pe_wire = []\<rparr>)]\<rparr>)"

lemma serving_sender_ready:
  obtains q0 p0 where "sn_outbound_video serving_sender = Some q0" "wq_items q0 = []" "wq_connected q0"
    "map_of (sn_peers serving_sender) 1 = Some p0" "distinct (map fst (sn_peers serving_sender))" "ps_video (sn_subscribed serving_sender)"
    "ps_video (pe_state p0)" "\<not> ps_preview (pe_state p0)" "pe_wire p0 = []"
  by (simp add: serving_sender_def force_subscribe_def peer_state_default_def offline_sender_def new_sender_def sender_config_default_def
      spawn_typed_writer_def NETWORK_ASYNC_COUNT_def Let_def)

lemma sample_fits:
  "fits_wire sample_video" "fits_document ''<a />''" "compressed plain_vmx sample_video s = Some sample_video"
proof -
  have "plain_text ''<a />''" unfolding plain_text_def by (intro conjI utf8_valid_ascii; simp add: as_bytes_def u8_of_char_def)
  then show "fits_wire sample_video" "fits_document ''<a />''" "compressed plain_vmx sample_video s = Some sample_video"
    by (simp_all add: fits_wire_def fits_document_def compressed_def sample_video_def media_frame_default_def METADATA_FRAME_SIZE_def metadata_bytes_def
        VIDEO_EXT_HEADER_SIZE_def NETWORK_RECEIVE_MAX_TRANSFER_def VIDEO_MAX_SIZE_def encode_metadata_xml_def as_bytes_def vf_contains_def vf_defs codec_from_i32_def)
qed

lemma sample_sent:
  obtains s1 where "send_video plain_vmx (\<lambda>_. None) (\<lambda>_. [Wrote 1000]) 0 [5] 0 0 sample_video serving_sender = Some (Inr (), s1)"
    "st_frames_dropped (sn_stats s1) = 0"
  by (simp add: send_video_def broadcast_def broadcast_wire_def try_send_def build_frame_def video_wire_frame_def sample_video_def serving_sender_def
      force_subscribe_def offline_sender_def new_sender_def sender_config_default_def spawn_typed_writer_def NETWORK_ASYNC_COUNT_def
      peer_state_default_def clock_resolve_def needs_reset_def timestamp_clock_new_def clock_reset_def media_frame_default_def
      AUTO_TIMESTAMP_def record_sent_def statistics_default_def ft_contains_def ft_defs codec_from_i32_def Let_def)


end
