(* ===== verification/Session_Path.thy ===== *)
theory Session_Path
  imports Media_Path Receiver_Pair
begin

text \<open>
  A whole session (\<open>src/send.rs\<close> and \<open>src/receive.rs\<close>): a receiver's two sockets, one for video and metadata and one
  for audio, are two peers of a sender. The operations of the sender and its two writer threads run in any order,
  other receivers connect, subscribe and fail meanwhile, and the two reader threads of the receiver run in any
  schedule. The theorem says what reaches the application, and what the statistics say of it.
\<close>

section \<open>Audio from samples to samples\<close>

definition channels_of :: "media_frame \<Rightarrow> nat" where "channels_of m = nonneg (mf_channels m)"
definition samples_of :: "media_frame \<Rightarrow> nat" where "samples_of m = nonneg (mf_samples_per_channel m)"

text \<open>A frame of planar samples that fits the wire: 1 to 32 channels, the planes present, and its size and its
  metadata within the limits of the protocol.\<close>

definition pcm_frame :: "media_frame \<Rightarrow> bool" where
  "pcm_frame m \<longleftrightarrow> mf_active_channels m = 0 \<and> 1 \<le> channels_of m \<and> channels_of m \<le> 32 \<and> 1 \<le> samples_of m \<and>
     channels_of m * samples_of m * 4 \<le> length (mf_data m) \<and> length (metadata_bytes m) < 2 ^ 16 \<and>
     AUDIO_EXT_HEADER_SIZE + channels_of m * samples_of m * 4 + length (metadata_bytes m) \<le> AUDIO_MAX_SIZE"

text \<open>The frame the sender makes of a media frame, at whatever time its clock returns.\<close>

definition built_from :: "media_frame \<Rightarrow> assembled_frame \<Rightarrow> bool" where
  "built_from m f \<longleftrightarrow> (\<exists>clock nows clock' nows'. assemble_audio m clock nows = Some (Inr f, clock', nows'))"

definition same_samples :: "media_frame \<Rightarrow> decoded_audio_frame \<Rightarrow> bool" where
  "same_samples m d \<longleftrightarrow> da_pcm_planar_f32 d = take (channels_of m * samples_of m * 4) (mf_data m) \<and>
     da_channels d = mf_channels m \<and> da_samples_per_channel d = mf_samples_per_channel m \<and> da_sample_rate d = mf_sample_rate m"

lemma audio_frame_travels:
  assumes "pcm_frame m" "built_from m f"
  shows "sendable f \<and> length (assembled_to_bytes f) + NETWORK_RECEIVE_MAX_TRANSFER \<le> max_reassembly \<and> (\<exists>d. decodes_to f d \<and> same_samples m d)"
proof -
  obtain clock nows clock' nows' where b: "assemble_audio m clock nows = Some (Inr f, clock', nows')"
    using assms(2) by (auto simp: built_from_def)
  let ?c = "channels_of m" and ?n = "samples_of m"
  obtain a where a: "af_audio f = Some a" "ah_codec a = Fpa1" "ah_channels a = mf_channels m" "ah_samples_per_channel a = mf_samples_per_channel m"
    "ah_sample_rate a = mf_sample_rate m" "fh_frame_type (af_header f) = FT_AUDIO" "af_metadata f = metadata_bytes m"
    "length (af_data f) \<le> ?c * ?n * 4" "\<And>out. decode_planar_into (af_data f) ?c ?n (ah_active_channels a) out = Some (Inr (), take (?c * ?n * 4) (mf_data m))"
    by (rule assemble_audio_samples [of m ?c ?n clock nows "Inr f" clock' nows'])
       (use assms(1) b in \<open>simp_all add: pcm_frame_def channels_of_def samples_of_def\<close>)
  have ext: "length (ext_bytes f) = AUDIO_EXT_HEADER_SIZE"
    using b by (auto simp: assemble_audio_def ext_bytes_def Let_def split: option.splits sum.splits)
  have size: "length (ext_bytes f) + length (af_data f) + length (af_metadata f) \<le> AUDIO_MAX_SIZE"
    using assms(1) a(7,8) ext by (simp add: pcm_frame_def)
  have "length (af_metadata f) < 2 ^ 16" using assms(1) a(7) by (simp add: pcm_frame_def)
  from assemble_audio_wf [OF b this] size have wf: "wf_frame f" by (simp add: AUDIO_MAX_SIZE_def)
  then have dl: "sint (fh_data_length (af_header f)) = int (length (ext_bytes f) + length (af_data f) + length (af_metadata f))"
    by (simp add: wf_frame_def Let_def)
  have "is_valid_frame_type FT_AUDIO" "max_payload_for FT_AUDIO = AUDIO_MAX_SIZE"
    by (simp_all add: is_valid_frame_type_def max_payload_for_def) (simp add: ft_defs)
  then have "sendable f" using wf dl size a(6) by (simp add: sendable_def)
  moreover have "length (assembled_to_bytes f) + NETWORK_RECEIVE_MAX_TRANSFER \<le> max_reassembly"
    using wf_frame_total [OF wf] dl size
    by (simp add: max_reassembly_def VIDEO_MAX_SIZE_def AUDIO_MAX_SIZE_def NETWORK_RECEIVE_MAX_TRANSFER_def del: length_assembled)
  moreover have "length (af_data f) \<le> AUDIO_MAX_SIZE" using size by simp
  then have "\<exists>d. decodes_to f d \<and> same_samples m d"
    using a(1-5) a(9) by (simp add: decodes_to_def decode_audio_frame_def same_samples_def channels_of_def samples_of_def)
  ultimately show ?thesis by blast
qed

section \<open>Peers by their numbers\<close>

lemma map_of_poll_peers:
  "distinct (map fst ps) \<Longrightarrow> map_of (poll_peers rox reads ps) pid = Option.bind (map_of ps pid) (poll_peer rox (reads pid))"
  unfolding poll_peers_def by (rule map_of_keep)

lemma peer_untouched:
  assumes "distinct (map fst ps)" "map_of ps pid = Some p" "\<not> peer_wants (pe_state p) (wb_ft wire)"
  shows "map_of (write_peers wire ws ps) pid = Some p"
  using assms by (simp add: map_of_write_peers write_peer_def)

text \<open>A poll that finds nothing to read on a socket leaves its peer alone.\<close>

definition quiet_read :: "read_result \<Rightarrow> bool" where
  "quiet_read r = (case r of ReadOk bs \<Rightarrow> False | ReadErr k m \<Rightarrow> k = WouldBlock \<or> k = TimedOut)"

lemma peer_unread:
  assumes "distinct (map fst ps)" "map_of ps pid = Some p" "quiet_read (reads pid)"
  shows "map_of (poll_peers rox reads ps) pid = Some p"
  using assms by (cases "reads pid") (auto simp: map_of_poll_peers quiet_read_def poll_peer_def)

lemma combined_flags:
  assumes "map_of ps pid = Some p"
  shows "ps_video (pe_state p) \<Longrightarrow> ps_video (combined_subscription policy ps)"
    "ps_audio (pe_state p) \<Longrightarrow> ps_audio (combined_subscription policy ps)"
proof -
  obtain agg best where f: "fold combine_peer (map snd ps) (peer_state_default, QDefault) = (agg, best)" by fastforce
  have "p \<in> set (map snd ps)" using map_of_SomeD [OF assms] by force
  then show "ps_video (pe_state p) \<Longrightarrow> ps_video (combined_subscription policy ps)"
    "ps_audio (pe_state p) \<Longrightarrow> ps_audio (combined_subscription policy ps)"
    using combine_peers [OF f] by (auto simp: combined_subscription_def f)
qed

definition appends_peers :: "'c sender \<Rightarrow> 'c sender \<Rightarrow> bool" where
  "appends_peers s s' \<longleftrightarrow> (\<exists>new n. s' = s\<lparr>sn_next_peer_id := n, sn_peers := sn_peers s @ new\<rparr>)"

lemma appends_refl: "appends_peers s s"
  unfolding appends_peers_def by (intro exI [of _ "[]"] exI [of _ "sn_next_peer_id s"]) simp

lemma appends_trans: "appends_peers s s' \<Longrightarrow> appends_peers s' s'' \<Longrightarrow> appends_peers s s''"
  unfolding appends_peers_def by (elim exE, simp, blast)

lemma add_peer_appends: "add_peer c s = (r, s') \<Longrightarrow> appends_peers s s'"
proof -
  assume a: "add_peer c s = (r, s')"
  show "appends_peers s s'"
    by (rule add_peer_outcome [OF a]) (use appends_refl [of s] in \<open>auto simp: appends_peers_def\<close>)
qed

lemma add_peers_appends: "add_peers cs s = (r, s') \<Longrightarrow> appends_peers s s'"
proof (induction cs arbitrary: s)
  case (Cons c cs)
  obtain r1 s1 where a: "add_peer c s = (r1, s1)" by fastforce
  then show ?case using Cons.prems Cons.IH [of s1] appends_trans [OF add_peer_appends [OF a]] add_peer_appends [OF a]
    by (cases r1) auto
qed (simp add: appends_refl)

lemma poll_accept_appends: "poll_accept nb backlog s = (r, s') \<Longrightarrow> appends_peers s s'"
  by (auto simp: poll_accept_def appends_refl split: if_splits sum.splits prod.splits intro: add_peers_appends)

section \<open>A session\<close>

definition audio_room :: "'c sender \<Rightarrow> bool" where
  "audio_room s = (case au_outbound (sn_audio s) of Some q \<Rightarrow> length (wq_items q) < wq_depth q | None \<Rightarrow> False)"

text \<open>The runs of a sender with the peers \<open>vid\<close> and \<open>aid\<close>, in which no write to them fails and nothing more is read from them: the
  compressed video frames it was given, the audio frames for which the audio queue had room, and the documents.
  What happens to other peers is arbitrary.\<close>

inductive exchange :: "'c vmx \<Rightarrow> (bytes \<Rightarrow> nat option) \<Rightarrow> nat \<Rightarrow> nat \<Rightarrow> 'c sender \<Rightarrow>
    media_frame list \<Rightarrow> media_frame list \<Rightarrow> metadata_frame list \<Rightarrow> 'c sender \<Rightarrow> bool"
  for V plen vid aid s0 where
  exchange_start: "exchange V plen vid aid s0 [] [] [] s0"
| exchange_video: "exchange V plen vid aid s0 (ms @ [m']) as ds s'"
    if "exchange V plen vid aid s0 ms as ds s" "compressed V m s = Some m'" "fits_wire m'"
      "send_video V plen ws t nows elapsed cap m s = Some (Inr (), s')"
| exchange_audio: "exchange V plen vid aid s0 ms (if audio_room s then as @ [m] else as) ds s'"
    if "exchange V plen vid aid s0 ms as ds s" "pcm_frame m" "send_audio ws nows m s = Some (Inr (), s')"
| exchange_document: "exchange V plen vid aid s0 ms as (ds @ [\<lparr>md_timestamp = word_of_int (resolve_timestamp t ts), md_xml = xml\<rparr>]) s'"
    if "exchange V plen vid aid s0 ms as ds s" "fits_document xml"
      "\<forall>pid \<in> {vid, aid}. delivers (assembled_to_bytes (control_frame (word_of_int (resolve_timestamp t ts)) xml)) (ws pid)"
      "send_metadata ws t ts xml s = (r, s')"
| exchange_video_writer: "exchange V plen vid aid s0 ms as ds (video_writer_turn ws s)"
    if "exchange V plen vid aid s0 ms as ds s"
      "\<forall>q w rest. sn_outbound_video s = Some q \<longrightarrow> wq_items q = w # rest \<longrightarrow> delivers (wb_full w) (ws vid)"
| exchange_audio_writer: "exchange V plen vid aid s0 ms as ds (audio_writer_turn ws s)"
    if "exchange V plen vid aid s0 ms as ds s"
      "\<forall>q w rest. au_outbound (sn_audio s) = Some q \<longrightarrow> wq_items q = w # rest \<longrightarrow> delivers (wb_full w) (ws aid)"
| exchange_accept: "exchange V plen vid aid s0 ms as ds (snd (poll_accept nonblocking backlog s))"
    if "exchange V plen vid aid s0 ms as ds s"
| exchange_poll: "exchange V plen vid aid s0 ms as ds (snd (poll_peer_metadata rox reads s))"
    if "exchange V plen vid aid s0 ms as ds s" "quiet_read (reads vid)" "quiet_read (reads aid)"
| exchange_quality: "exchange V plen vid aid s0 ms as ds (set_quality q s)"
    if "exchange V plen vid aid s0 ms as ds s"

section \<open>What holds in a session\<close>

lemma served_keeps:
  assumes "served plen pid p0 n0 ms ds s ms' fs pending" "sn_outbound_video s' = sn_outbound_video s"
    "map_of (sn_peers s') pid = map_of (sn_peers s) pid" "distinct (map fst (sn_peers s'))" "ps_video (sn_subscribed s')" "sn_stats s' = sn_stats s"
  shows "served plen pid p0 n0 ms ds s' ms' fs pending"
  using assms(1,4,5) unfolding served_def assms(2,3,6) by blast

text \<open>The counterpart for audio: \<open>gs\<close> is what the audio peer has been written, \<open>pending\<close> what waits in the audio queue.\<close>

definition audio_frame_of :: "media_frame \<Rightarrow> assembled_frame \<Rightarrow> bool" where
  "audio_frame_of m f \<longleftrightarrow> pcm_frame m \<and> built_from m f"

definition audio_served :: "nat \<Rightarrow> peer \<Rightarrow> media_frame list \<Rightarrow> metadata_frame list \<Rightarrow> 'c sender \<Rightarrow> assembled_frame list \<Rightarrow> assembled_frame list \<Rightarrow> bool" where
  "audio_served pid p0 as ds s gs pending \<longleftrightarrow>
     (\<exists>q p. au_outbound (sn_audio s) = Some q \<and> wq_connected q \<and> wq_items q = map plain_wire pending \<and>
        map_of (sn_peers s) pid = Some p \<and> pe_state p = pe_state p0 \<and>
        pe_wire p = pe_wire p0 @ concat (map assembled_to_bytes gs)) \<and>
     distinct (map fst (sn_peers s)) \<and> au_enabled (sn_audio s) \<and>
     list_all2 audio_frame_of as (filter plays_audio gs @ pending) \<and>
     list_all2 document_of ds (filter (\<lambda>f. \<not> plays_audio f) gs) \<and> (\<forall>f \<in> set gs. travels f)"

lemma audio_served_keeps:
  assumes "audio_served pid p0 as ds s gs pending" "au_outbound (sn_audio s') = au_outbound (sn_audio s)" "au_enabled (sn_audio s')"
    "map_of (sn_peers s') pid = map_of (sn_peers s) pid" "distinct (map fst (sn_peers s'))"
  shows "audio_served pid p0 as ds s' gs pending"
  using assms(1,3,5) unfolding audio_served_def assms(2,4) by blast

lemma audio_frame_of_travels:
  assumes "audio_frame_of m f"
  shows "travels f" "plays_audio f" "fh_frame_type (af_header f) = FT_AUDIO" "\<exists>d. decodes_to f d \<and> same_samples m d"
proof -
  have "pcm_frame m" "built_from m f" using assms by (simp_all add: audio_frame_of_def)
  from audio_frame_travels [OF this] show "travels f" "plays_audio f" "\<exists>d. decodes_to f d \<and> same_samples m d"
    by (auto simp: plays_audio_def)
  show "fh_frame_type (af_header f) = FT_AUDIO"
  proof -
    obtain clock nows clock' nows' where "assemble_audio m clock nows = Some (Inr f, clock', nows')"
      using assms by (auto simp: audio_frame_of_def built_from_def)
    then show ?thesis by (auto simp: assemble_audio_def Let_def split: option.splits sum.splits)
  qed
qed

lemma document_silent: "document_of d f \<Longrightarrow> \<not> plays_audio f"
  by (auto simp: document_of_def plays_audio_def decodes_to_def control_frame_def decode_audio_frame_def Let_def)

lemma kinds_apart:
  "\<not> ft_contains FT_METADATA FT_VIDEO" "\<not> ft_contains FT_METADATA FT_AUDIO" "ft_contains FT_METADATA FT_METADATA"
  "\<not> ft_contains FT_AUDIO FT_VIDEO" "\<not> ft_contains FT_AUDIO FT_METADATA" "ft_contains FT_AUDIO FT_AUDIO"
  "\<not> ft_contains FT_VIDEO FT_AUDIO" "\<not> ft_contains FT_VIDEO FT_METADATA" "ft_contains FT_VIDEO FT_VIDEO"
  by (simp_all add: ft_contains_def ft_defs)

lemma audio_served_audio:
  assumes "audio_served pid p0 as ds s gs pending" "pcm_frame m" "send_audio ws nows m s = Some (Inr u, s')"
  shows "\<exists>pending'. audio_served pid p0 (if audio_room s then as @ [m] else as) ds s' gs pending'"
    "sn_outbound_video s' = sn_outbound_video s" "sn_peers s' = sn_peers s" "sn_subscribed s' = sn_subscribed s" "sn_stats s' = sn_stats s"
proof -
  obtain q where q: "au_outbound (sn_audio s) = Some q" "wq_connected q" "wq_items q = map plain_wire pending"
    and on: "au_enabled (sn_audio s)" using assms(1) by (auto simp: audio_served_def)
  obtain f clock nows' where b: "assemble_audio m (au_clock (sn_audio s)) nows = Some (Inr f, clock, nows')"
    and s': "s' = s\<lparr>sn_audio := (sn_audio s)\<lparr>au_clock := clock, au_outbound := Some (snd (try_send (plain_wire f) q))\<rparr>\<rparr>"
    using assms(3) on q(1) by (auto simp: send_audio_def ingress_send_def enqueue_wire_def split: option.splits sum.splits)
  have "audio_frame_of m f" using b assms(2) by (auto simp: audio_frame_of_def built_from_def)
  show "\<exists>pending'. audio_served pid p0 (if audio_room s then as @ [m] else as) ds s' gs pending'"
  proof (cases "audio_room s")
    case True
    have "list_all2 audio_frame_of (as @ [m]) (filter plays_audio gs @ pending @ [f])"
      using assms(1) list_all2_appendI [of audio_frame_of as "filter plays_audio gs @ pending" "[m]" "[f]"] \<open>audio_frame_of m f\<close>
      by (simp add: audio_served_def)
    with assms(1) q True have "audio_served pid p0 (as @ [m]) ds s' gs (pending @ [f])"
      by (auto simp: audio_served_def s' audio_room_def try_send_def)
    with True show ?thesis by auto
  next
    case False
    with assms(1) q have "audio_served pid p0 as ds s' gs pending"
      by (auto simp: audio_served_def s' audio_room_def try_send_def)
    with False show ?thesis by auto
  qed
qed (use assms in \<open>auto simp: audio_served_def send_audio_def ingress_send_def enqueue_wire_def split: option.splits sum.splits\<close>)

lemma audio_served_document:
  assumes "audio_served pid p0 as ds s gs pending" "fits_document (md_xml d)"
    "delivers (assembled_to_bytes (control_frame (md_timestamp d) (md_xml d))) (ws pid)"
    "broadcast (\<lambda>_. None) ws (control_frame (md_timestamp d) (md_xml d)) s = (r, s')"
  shows "audio_served pid p0 as (ds @ [d]) s' (gs @ [control_frame (md_timestamp d) (md_xml d)]) pending"
proof -
  let ?f = "control_frame (md_timestamp d) (md_xml d)" and ?w = "broadcast_wire (\<lambda>_. None) (control_frame (md_timestamp d) (md_xml d))"
  have ft: "fh_frame_type (af_header ?f) = FT_METADATA" by (simp add: control_frame_def Let_def)
  have s': "sn_peers s' = write_peers ?w ws (sn_peers s)" "sn_audio s' = sn_audio s"
    using assms(4) by (auto simp: broadcast_def ft kinds_apart Let_def)
  obtain p where p: "map_of (sn_peers s) pid = Some p" "distinct (map fst (sn_peers s))" using assms(1) by (auto simp: audio_served_def)
  have "map_of (write_peers ?w ws (sn_peers s)) pid = Some (p\<lparr>pe_wire := pe_wire p @ assembled_to_bytes ?f\<rparr>)"
    by (rule peer_written [where ws = ws, OF p(2,1)])
      (simp_all add: peer_wants_def bytes_for_def broadcast_wire_def ft kinds_apart Let_def assms(3) assembled_to_bytes_def [symmetric])
  moreover have "document_of d ?f" using assms(2) by (simp add: document_of_def)
  note this document_of_travels(1) [OF this] document_silent [OF this]
  ultimately show ?thesis
    using assms(1) p map_of_write_peers(2) [OF p(2), of ?w ws] s'
    by (auto simp: audio_served_def list_all2_appendI)
qed

lemma audio_served_writer:
  assumes "audio_served pid p0 as ds s gs pending" "ps_audio (pe_state p0)"
    "\<forall>q w rest. au_outbound (sn_audio s) = Some q \<longrightarrow> wq_items q = w # rest \<longrightarrow> delivers (wb_full w) (ws pid)"
  shows "\<exists>gs' pending'. audio_served pid p0 as ds (audio_writer_turn ws s) gs' pending'"
proof (cases pending)
  case Nil
  then have "audio_writer_turn ws s = s" using assms(1) by (auto simp: audio_served_def audio_writer_turn_def writer_turn_def)
  with assms(1) show ?thesis by auto
next
  case (Cons f later)
  obtain q p where q: "au_outbound (sn_audio s) = Some q" "wq_connected q" "wq_items q = plain_wire f # map plain_wire later"
    and p: "map_of (sn_peers s) pid = Some p" "distinct (map fst (sn_peers s))" "pe_state p = pe_state p0"
      "pe_wire p = pe_wire p0 @ concat (map assembled_to_bytes gs)"
    using assms(1) Cons by (auto simp: audio_served_def)
  have "\<exists>m. audio_frame_of m f" using assms(1) Cons by (auto simp: audio_served_def list_all2_append2 list_all2_Cons2)
  then obtain m where m: "audio_frame_of m f" ..
  note f = audio_frame_of_travels [OF m]
  have "delivers (assembled_to_bytes f) (ws pid)" using assms(3) q(1,3) by (simp add: plain_wire_def)
  then have "map_of (write_peers (plain_wire f) ws (sn_peers s)) pid = Some (p\<lparr>pe_wire := pe_wire p @ assembled_to_bytes f\<rparr>)"
    by (intro peer_written [where ws = ws, OF p(2,1)])
      (simp_all add: peer_wants_def bytes_for_def plain_wire_def f(3) p(3) assms(2) kinds_apart)
  moreover have "audio_writer_turn ws s = s\<lparr>sn_audio := (sn_audio s)\<lparr>au_outbound := Some (q\<lparr>wq_items := map plain_wire later\<rparr>)\<rparr>,
      sn_peers := write_peers (plain_wire f) ws (sn_peers s)\<rparr>"
    by (simp add: audio_writer_turn_def writer_turn_def q)
  ultimately have "audio_served pid p0 as ds (audio_writer_turn ws s) (gs @ [f]) later"
    using assms(1) Cons q(2) p map_of_write_peers(2) [OF p(2), of "plain_wire f" ws] f(1,2) by (simp add: audio_served_def)
  then show ?thesis by blast
qed

lemma broadcast_video_audio:
  assumes "broadcast plen ws f s = (r, s')" "fh_frame_type (af_header f) = FT_VIDEO" "sn_outbound_video s = Some q"
  shows "sn_audio s' = sn_audio s"
  using assms by (auto simp: broadcast_def kinds_apart Let_def split: if_split_asm option.split_asm prod.split_asm)

lemma build_video_audio:
  assumes "build_frame t nows m s = Some (r, s', nows')" "ft_contains (mf_frame_type m) FT_VIDEO"
  shows "sn_audio s' = sn_audio s \<and> sn_outbound_video s' = sn_outbound_video s \<and> (\<forall>f. r = Inr f \<longrightarrow> fh_frame_type (af_header f) = FT_VIDEO)"
  using assms by (auto simp: build_frame_def video_wire_frame_def Let_def split: option.split_asm if_split_asm prod.split_asm)

lemma send_video_audio:
  assumes "send_video V plen ws t nows elapsed cap m s = Some (Inr u, s')" "compressed V m s = Some m'" "fits_wire m'"
    "sn_outbound_video s = Some q"
  shows "sn_audio s' = sn_audio s"
proof -
  have "ft_contains (mf_frame_type m) FT_VIDEO"
    using assms(2,3) by (auto simp: compressed_def fits_wire_def split: if_split_asm option.split_asm sum.split_asm prod.split_asm)
  then show ?thesis
    using assms(1,4)
    by (auto simp: send_video_def Let_def dest!: build_video_audio dest: broadcast_video_audio split: if_split_asm option.split_asm sum.split_asm prod.split_asm)
qed

definition document_bytes :: "metadata_frame list \<Rightarrow> bytes" where
  "document_bytes ds = concat (map (\<lambda>d. assembled_to_bytes (control_frame (md_timestamp d) (md_xml d))) ds)"

text \<open>The sender when both sockets of the receiver have subscribed: both writer threads run with empty queues, and the peers have been
  written the documents \<open>ds\<close> that were sent before.\<close>

definition ready_peer :: "metadata_frame list \<Rightarrow> 'c sender \<Rightarrow> nat \<Rightarrow> peer \<Rightarrow> bool" where
  "ready_peer ds s pid p \<longleftrightarrow> map_of (sn_peers s) pid = Some p \<and> \<not> ps_preview (pe_state p) \<and> pe_wire p = document_bytes ds"

definition empty_queue :: "write_queue option \<Rightarrow> bool" where
  "empty_queue q = (case q of Some q \<Rightarrow> wq_items q = [] \<and> wq_connected q | None \<Rightarrow> False)"

definition session_ready :: "nat \<Rightarrow> nat \<Rightarrow> metadata_frame list \<Rightarrow> 'c sender \<Rightarrow> bool" where
  "session_ready vid aid ds s \<longleftrightarrow> sender_inv s \<and> empty_queue (sn_outbound_video s) \<and> empty_queue (au_outbound (sn_audio s)) \<and>
     ps_video (sn_subscribed s) \<and> ps_audio (sn_subscribed s) \<and> (\<forall>d \<in> set ds. fits_document (md_xml d)) \<and>
     (\<exists>p. ready_peer ds s vid p \<and> ps_video (pe_state p) \<and> \<not> ps_audio (pe_state p)) \<and>
     (\<exists>p. ready_peer ds s aid p \<and> ps_audio (pe_state p) \<and> \<not> ps_video (pe_state p))"

lemma documents_written:
  assumes "\<forall>d \<in> set ds. fits_document (md_xml d)" "fs = map (\<lambda>d. control_frame (md_timestamp d) (md_xml d)) ds"
  shows "list_all2 document_of ds fs" "\<forall>f \<in> set fs. travels f \<and> \<not> plays_video f \<and> carries_metadata f \<and> \<not> plays_audio f"
    "document_bytes ds = concat (map assembled_to_bytes fs)"
proof -
  have d: "document_of d (control_frame (md_timestamp d) (md_xml d))" if "d \<in> set ds" for d
    using assms(1) that by (simp add: document_of_def)
  then show "list_all2 document_of ds fs" unfolding assms(2) by (simp add: list_all2_conv_all_nth)
  show "\<forall>f \<in> set fs. travels f \<and> \<not> plays_video f \<and> carries_metadata f \<and> \<not> plays_audio f"
    using d document_of_travels document_silent unfolding assms(2) by fastforce
  show "document_bytes ds = concat (map assembled_to_bytes fs)" by (simp add: document_bytes_def assms(2) comp_def)
qed

text \<open>The invariant of a session: both peers, each with what it has been written.\<close>

definition in_session :: "(bytes \<Rightarrow> nat option) \<Rightarrow> nat \<Rightarrow> nat \<Rightarrow> peer \<Rightarrow> peer \<Rightarrow> i64 \<Rightarrow> media_frame list \<Rightarrow> media_frame list \<Rightarrow> metadata_frame list \<Rightarrow>
    'c sender \<Rightarrow> bool" where
  "in_session plen vid aid pv pa n0 ms as ds s \<longleftrightarrow> sender_inv s \<and>
     (\<exists>ms' fs pending. served plen vid pv n0 ms ds s ms' fs pending) \<and> (\<exists>gs pending. audio_served aid pa as ds s gs pending)"

lemma ready_in_session:
  assumes "session_ready vid aid ds s"
  obtains pv pa where "ps_video (pe_state pv)" "\<not> ps_audio (pe_state pv)" "\<not> ps_preview (pe_state pv)" "ps_audio (pe_state pa)" "\<not> ps_video (pe_state pa)"
    "pe_wire pv = []" "pe_wire pa = []" "in_session plen vid aid pv pa (st_frames_dropped (sn_stats s)) [] [] ds s"
proof -
  let ?fs = "map (\<lambda>d. control_frame (md_timestamp d) (md_xml d)) ds"
  obtain pv pa where p: "ready_peer ds s vid pv" "ps_video (pe_state pv)" "\<not> ps_audio (pe_state pv)"
    "ready_peer ds s aid pa" "ps_audio (pe_state pa)" "\<not> ps_video (pe_state pa)" and docs: "\<forall>d \<in> set ds. fits_document (md_xml d)"
    using assms by (auto simp: session_ready_def)
  note w = documents_written [OF docs refl]
  have none: "filter plays_video ?fs = []" "filter carries_metadata ?fs = ?fs" "filter plays_audio ?fs = []" "filter (\<lambda>f. \<not> plays_audio f) ?fs = ?fs"
    using w(2) by (auto simp: filter_empty_conv filter_id_conv)
  obtain qv qa where q: "sn_outbound_video s = Some qv" "wq_items qv = []" "wq_connected qv" "au_outbound (sn_audio s) = Some qa" "wq_items qa = []" "wq_connected qa"
    using assms by (auto simp: session_ready_def empty_queue_def split: option.splits)
  have s: "sender_inv s" "ps_video (sn_subscribed s)" "au_enabled (sn_audio s)" "distinct (map fst (sn_peers s))"
    using assms by (auto simp: session_ready_def sender_inv_def ids_ok_def)
  have wires: "map_of (sn_peers s) vid = Some pv" "pe_wire pv = concat (map assembled_to_bytes ?fs)"
    "map_of (sn_peers s) aid = Some pa" "pe_wire pa = concat (map assembled_to_bytes ?fs)"
    using p(1,4) w(3) by (simp_all add: ready_peer_def)
  have "served plen vid (pv\<lparr>pe_wire := []\<rparr>) (st_frames_dropped (sn_stats s)) [] ds s [] ?fs []"
    unfolding served_def none by (intro conjI exI [of _ qv] exI [of _ pv]) (use q s wires w in auto)
  moreover have "audio_served aid (pa\<lparr>pe_wire := []\<rparr>) [] ds s ?fs []"
    unfolding audio_served_def none by (intro conjI exI [of _ qa] exI [of _ pa]) (use q s wires w in auto)
  ultimately have "in_session plen vid aid (pv\<lparr>pe_wire := []\<rparr>) (pa\<lparr>pe_wire := []\<rparr>) (st_frames_dropped (sn_stats s)) [] [] ds s"
    using s(1) unfolding in_session_def by blast
  with that [of "pv\<lparr>pe_wire := []\<rparr>" "pa\<lparr>pe_wire := []\<rparr>"] p show ?thesis by (simp add: ready_peer_def)
qed

lemma in_session_keeps:
  assumes "in_session plen vid aid pv pa n0 ms as ds s" "sender_inv s'" "sn_outbound_video s' = sn_outbound_video s"
    "au_outbound (sn_audio s') = au_outbound (sn_audio s)" "sn_stats s' = sn_stats s" "ps_video (sn_subscribed s')" "au_enabled (sn_audio s')"
    "map_of (sn_peers s') vid = map_of (sn_peers s) vid" "map_of (sn_peers s') aid = map_of (sn_peers s) aid"
  shows "in_session plen vid aid pv pa n0 ms as ds s'"
proof -
  have "distinct (map fst (sn_peers s'))" using assms(2) by (simp add: sender_inv_def ids_ok_def)
  with assms served_keeps audio_served_keeps show ?thesis unfolding in_session_def by metis
qed

lemma in_session_peers:
  assumes "in_session plen vid aid pv pa n0 ms as ds s"
  obtains p p' where "map_of (sn_peers s) vid = Some p" "pe_state p = pe_state pv" "map_of (sn_peers s) aid = Some p'" "pe_state p' = pe_state pa"
    "distinct (map fst (sn_peers s))" "ps_video (sn_subscribed s)" "au_enabled (sn_audio s)" "sender_inv s"
  using assms unfolding in_session_def served_def audio_served_def by blast

lemma in_session_video:
  assumes "in_session plen vid aid pv pa n0 ms as ds s" "compressed V m s = Some m'" "fits_wire m'"
    "send_video V plen ws t nows elapsed cap m s = Some (Inr (), s')"
  shows "in_session plen vid aid pv pa n0 (ms @ [m']) as ds s'"
proof -
  obtain ms' fs pending gs pending' where served: "served plen vid pv n0 ms ds s ms' fs pending" "audio_served aid pa as ds s gs pending'"
    and inv: "sender_inv s" using assms(1) by (auto simp: in_session_def)
  obtain q where q: "sn_outbound_video s = Some q" "wq_connected q" "ps_video (sn_subscribed s)" using served(1) by (auto simp: served_def)
  obtain ms'' pending'' where v: "served plen vid pv n0 (ms @ [m']) ds s' ms'' fs pending''"
    using served_video [OF served(1) assms(2,3,4)] by blast
  have "sn_peers s' = sn_peers s" by (rule send_video_queued [OF assms(4) q(3) assms(2,3) q(1,2)]) simp
  moreover have "sn_audio s' = sn_audio s" by (rule send_video_audio [OF assms(4,2,3) q(1)])
  ultimately have "audio_served aid pa as ds s' gs pending'"
    using served(2) by (intro audio_served_keeps [OF served(2)]) (auto simp: audio_served_def)
  with v send_video_inv [OF inv assms(4)] show ?thesis unfolding in_session_def by blast
qed

lemma in_session_audio:
  assumes "in_session plen vid aid pv pa n0 ms as ds s" "pcm_frame m" "send_audio ws nows m s = Some (Inr (), s')"
  shows "in_session plen vid aid pv pa n0 ms (if audio_room s then as @ [m] else as) ds s'"
proof -
  obtain ms' fs pending gs pending' where served: "served plen vid pv n0 ms ds s ms' fs pending" "audio_served aid pa as ds s gs pending'"
    and inv: "sender_inv s" using assms(1) by (auto simp: in_session_def)
  note a = audio_served_audio [OF served(2) assms(2,3)]
  have "served plen vid pv n0 ms ds s' ms' fs pending"
    by (rule served_keeps [OF served(1) a(2)]) (use a(3-5) served(1) in \<open>auto simp: served_def\<close>)
  moreover have "sender_inv s'" using ingress_inv [OF inv] assms(3) by (simp add: send_audio_def)
  ultimately show ?thesis using a(1) unfolding in_session_def by blast
qed

lemma in_session_document:
  assumes "in_session plen vid aid pv pa n0 ms as ds s" "fits_document (md_xml d)"
    "\<forall>pid \<in> {vid, aid}. delivers (assembled_to_bytes (control_frame (md_timestamp d) (md_xml d))) (ws pid)"
    "broadcast (\<lambda>_. None) ws (control_frame (md_timestamp d) (md_xml d)) s = (r, s')"
  shows "in_session plen vid aid pv pa n0 ms as (ds @ [d]) s'"
proof -
  obtain ms' fs pending gs pending' where served: "served plen vid pv n0 ms ds s ms' fs pending" "audio_served aid pa as ds s gs pending'"
    and inv: "sender_inv s" using assms(1) by (auto simp: in_session_def)
  from served_document [OF served(1) assms(2) _ assms(4)] audio_served_document [OF served(2) assms(2) _ assms(4)] assms(3)
    broadcast_inv [OF inv assms(4)]
  show ?thesis unfolding in_session_def by blast
qed

lemma in_session_video_writer:
  assumes "in_session plen vid aid pv pa n0 ms as ds s" "ps_video (pe_state pv)" "\<not> ps_preview (pe_state pv)" "\<not> ps_video (pe_state pa)"
    "\<forall>q w rest. sn_outbound_video s = Some q \<longrightarrow> wq_items q = w # rest \<longrightarrow> delivers (wb_full w) (ws vid)"
  shows "in_session plen vid aid pv pa n0 ms as ds (video_writer_turn ws s)"
proof -
  obtain ms' fs pending gs pending' where served: "served plen vid pv n0 ms ds s ms' fs pending" "audio_served aid pa as ds s gs pending'"
    and inv: "sender_inv s" using assms(1) by (auto simp: in_session_def)
  obtain fs' later where v: "served plen vid pv n0 ms ds (video_writer_turn ws s) ms' fs' later"
    using served_writer [where ws = ws, OF served(1) assms(2,3,5)] by blast
  obtain p where p: "map_of (sn_peers s) aid = Some p" "pe_state p = pe_state pa" "distinct (map fst (sn_peers s))"
    using served(2) by (auto simp: audio_served_def)
  obtain q where q: "sn_outbound_video s = Some q" "wq_items q = map (broadcast_wire plen) pending" using served(1) by (auto simp: served_def)
  have video: "fh_frame_type (af_header f) = FT_VIDEO" if "f \<in> set pending" for f
  proof -
    have "\<exists>m. frame_of m f" using served(1) that by (auto simp: served_def dest!: list_all2_source [where y = f])
    then show ?thesis by (auto simp: frame_of_def video_wire_frame_def Let_def)
  qed
  have "map_of (sn_peers (video_writer_turn ws s)) aid = Some p"
  proof (cases pending)
    case (Cons f rest)
    have "\<not> peer_wants (pe_state p) (wb_ft (broadcast_wire plen f))"
      using video [of f] Cons p(2) assms(4) by (simp add: broadcast_wire_def peer_wants_def kinds_apart Let_def)
    from peer_untouched [OF p(3,1) this] show ?thesis using q Cons by (simp add: video_writer_turn_def writer_turn_def)
  qed (use q p in \<open>simp add: video_writer_turn_def writer_turn_def\<close>)
  moreover have "sender_inv (video_writer_turn ws s)" using inv by (rule writer_turns_inv)
  moreover have "sn_audio (video_writer_turn ws s) = sn_audio s" by (simp add: video_writer_turn_def split: option.split prod.split)
  ultimately have "audio_served aid pa as ds (video_writer_turn ws s) gs pending'"
    using p(1) served(2) by (intro audio_served_keeps [OF served(2)]) (auto simp: sender_inv_def ids_ok_def audio_served_def)
  with v \<open>sender_inv (video_writer_turn ws s)\<close> show ?thesis unfolding in_session_def by blast
qed

lemma in_session_audio_writer:
  assumes "in_session plen vid aid pv pa n0 ms as ds s" "ps_audio (pe_state pa)" "\<not> ps_audio (pe_state pv)"
    "\<forall>q w rest. au_outbound (sn_audio s) = Some q \<longrightarrow> wq_items q = w # rest \<longrightarrow> delivers (wb_full w) (ws aid)"
  shows "in_session plen vid aid pv pa n0 ms as ds (audio_writer_turn ws s)"
proof -
  obtain ms' fs pending gs pending' where served: "served plen vid pv n0 ms ds s ms' fs pending" "audio_served aid pa as ds s gs pending'"
    and inv: "sender_inv s" using assms(1) by (auto simp: in_session_def)
  obtain gs' later where a: "audio_served aid pa as ds (audio_writer_turn ws s) gs' later"
    using audio_served_writer [where ws = ws, OF served(2) assms(2,4)] by blast
  obtain p where p: "map_of (sn_peers s) vid = Some p" "pe_state p = pe_state pv" "distinct (map fst (sn_peers s))" "ps_video (sn_subscribed s)"
    using served(1) by (auto simp: served_def)
  obtain q where q: "au_outbound (sn_audio s) = Some q" "wq_items q = map plain_wire pending'" using served(2) by (auto simp: audio_served_def)
  have audio: "fh_frame_type (af_header f) = FT_AUDIO" if "f \<in> set pending'" for f
  proof -
    have "\<exists>m. audio_frame_of m f" using served(2) that by (auto simp: audio_served_def dest!: list_all2_source [where y = f])
    then show ?thesis using audio_frame_of_travels(3) by blast
  qed
  have "map_of (sn_peers (audio_writer_turn ws s)) vid = Some p"
  proof (cases pending')
    case (Cons f rest)
    have "\<not> peer_wants (pe_state p) (wb_ft (plain_wire f))"
      using audio [of f] Cons p(2) assms(3) by (simp add: plain_wire_def peer_wants_def kinds_apart)
    from peer_untouched [OF p(3,1) this] show ?thesis using q Cons by (simp add: audio_writer_turn_def writer_turn_def)
  qed (use q p in \<open>simp add: audio_writer_turn_def writer_turn_def\<close>)
  moreover have "sender_inv (audio_writer_turn ws s)" using inv by (rule writer_turns_inv)
  moreover have "sn_outbound_video (audio_writer_turn ws s) = sn_outbound_video s" "sn_subscribed (audio_writer_turn ws s) = sn_subscribed s"
    "sn_stats (audio_writer_turn ws s) = sn_stats s"
    by (simp_all add: audio_writer_turn_def split: option.split prod.split)
  ultimately have "served plen vid pv n0 ms ds (audio_writer_turn ws s) ms' fs pending"
    using p by (intro served_keeps [OF served(1)]) (auto simp: sender_inv_def ids_ok_def)
  with a \<open>sender_inv (audio_writer_turn ws s)\<close> show ?thesis unfolding in_session_def by blast
qed

lemma in_session_accept:
  assumes "in_session plen vid aid pv pa n0 ms as ds s" "appends_peers s s'" "sender_inv s'"
  shows "in_session plen vid aid pv pa n0 ms as ds s'"
proof (rule in_session_peers [OF assms(1)])
  fix p p'
  assume p: "map_of (sn_peers s) vid = Some p" "map_of (sn_peers s) aid = Some p'" "ps_video (sn_subscribed s)" "au_enabled (sn_audio s)"
  obtain new n where s': "s' = s\<lparr>sn_next_peer_id := n, sn_peers := sn_peers s @ new\<rparr>" using assms(2) by (auto simp: appends_peers_def)
  have "distinct (map fst (sn_peers s @ new))" using assms(3) by (simp add: s' sender_inv_def ids_ok_def)
  then have "map_of (sn_peers s @ new) vid = Some p" "map_of (sn_peers s @ new) aid = Some p'"
    using p(1,2) by (auto simp: map_of_eq_Some_iff dest!: map_of_SomeD)
  with p show ?thesis by (intro in_session_keeps [OF assms(1,3)]) (simp_all add: s')
qed

lemma in_session_poll:
  assumes "in_session plen vid aid pv pa n0 ms as ds s" "quiet_read (reads vid)" "quiet_read (reads aid)"
    "ps_video (pe_state pv)" "ps_audio (pe_state pa)"
  shows "in_session plen vid aid pv pa n0 ms as ds (recompute_subscriptions (s\<lparr>sn_peers := poll_peers rox reads (sn_peers s)\<rparr>))"
proof (rule in_session_peers [OF assms(1)])
  fix p p'
  assume p: "map_of (sn_peers s) vid = Some p" "pe_state p = pe_state pv" "map_of (sn_peers s) aid = Some p'" "pe_state p' = pe_state pa"
    "distinct (map fst (sn_peers s))" and inv: "sender_inv s"
  have left: "map_of (poll_peers rox reads (sn_peers s)) vid = Some p" "map_of (poll_peers rox reads (sn_peers s)) aid = Some p'"
    using peer_unread [where reads = reads, OF p(5,1) assms(2)] peer_unread [where reads = reads, OF p(5,3) assms(3)] by simp_all
  have "sender_inv (recompute_subscriptions (s\<lparr>sn_peers := poll_peers rox reads (sn_peers s)\<rparr>))"
    using inv by (intro recompute_inv) (simp add: sender_inv_def poll_peers_ids)
  then show ?thesis
    using combined_flags [OF left(1)] combined_flags [OF left(2)] left p assms(4,5)
    by (intro in_session_keeps [OF assms(1)]) (simp_all add: recompute_subscriptions_def Let_def)
qed

lemma exchange_in_session:
  assumes "exchange V plen vid aid s0 ms as ds s" "in_session plen vid aid pv pa n0 [] [] ds0 s0"
    "ps_video (pe_state pv)" "\<not> ps_audio (pe_state pv)" "\<not> ps_preview (pe_state pv)" "ps_audio (pe_state pa)" "\<not> ps_video (pe_state pa)"
  shows "in_session plen vid aid pv pa n0 ms as (ds0 @ ds) s"
  using assms(1)
proof induction
  case (exchange_document ms as ds s xml t ts ws r s')
  from in_session_document [where ws = ws, OF exchange_document.IH, of "\<lparr>md_timestamp = word_of_int (resolve_timestamp t ts), md_xml = xml\<rparr>" r s']
    exchange_document.hyps show ?case by (simp add: send_metadata_def)
next
  case (exchange_audio ms as ds s m ws nows s')
  then show ?case by (intro in_session_audio)
next
  case (exchange_accept ms as ds s nb backlog)
  have "sender_inv s" using exchange_accept.IH by (simp add: in_session_def)
  then show ?case
    using in_session_accept [OF exchange_accept.IH] poll_accept_appends poll_accept_inv by (metis prod.collapse)
next
  case (exchange_quality ms as ds s q)
  show ?case
    by (rule in_session_peers [OF exchange_quality.IH], rule in_session_keeps [OF exchange_quality.IH])
      (simp_all add: set_quality_def sender_inv_def)
qed (use assms in \<open>auto simp: poll_peer_metadata_def intro: in_session_video in_session_audio in_session_video_writer in_session_audio_writer
    in_session_poll\<close>)

section \<open>From the sender to the application\<close>

lemma decoded_samples:
  assumes "list_all2 audio_frame_of as gs"
  obtains ds where "list_all2 decodes_to gs ds" "list_all2 same_samples as ds"
proof -
  have "\<exists>ds. list_all2 decodes_to gs ds \<and> list_all2 same_samples as ds"
    using assms
  proof (induction rule: list_all2_induct)
    case (Cons m ms f fs)
    then obtain ds where ds: "list_all2 decodes_to fs ds" "list_all2 same_samples ms ds" by blast
    moreover obtain d where "decodes_to f d" "same_samples m d" using audio_frame_of_travels(4) [OF Cons.hyps(1)] by blast
    ultimately show ?case by (intro exI [of _ "d # ds"]) simp
  qed simp
  with that show ?thesis by blast
qed

lemma sent_audio:
  assumes "audio_served pid p0 as ds s gs []"
  shows "list_all2 audio_frame_of as (filter plays_audio gs)" "length (filter (\<lambda>f. \<not> plays_audio f) gs) = length ds"
    "\<forall>f \<in> set gs. travels f" "length gs = length as + length ds"
proof -
  show a: "list_all2 audio_frame_of as (filter plays_audio gs)" "\<forall>f \<in> set gs. travels f" using assms by (auto simp: audio_served_def)
  show d: "length (filter (\<lambda>f. \<not> plays_audio f) gs) = length ds" using assms by (auto simp: audio_served_def dest: list_all2_lengthD)
  have "length gs = length (filter plays_audio gs) + length (filter (\<lambda>f. \<not> plays_audio f) gs)" by (intro length_split_filter) auto
  with list_all2_lengthD [OF a(1)] d show "length gs = length as + length ds" by simp
qed


definition session_sender :: "bytes sender" where
  "session_sender = recompute_subscriptions (offline_sender\<lparr>sn_next_peer_id := 3, sn_peers :=
     [(1, \<lparr>pe_state = peer_state_default\<lparr>ps_video := True\<rparr>, pe_inbound = [], pe_wire = []\<rparr>),
      (2, \<lparr>pe_state = peer_state_default\<lparr>ps_audio := True\<rparr>, pe_inbound = [], pe_wire = []\<rparr>)]\<rparr>)"

lemmas session_sender_defs = session_sender_def recompute_subscriptions_def combined_subscription_def combine_peer_def offline_sender_def
  new_sender_def new_audio_share_def sender_config_default_def spawn_typed_writer_def NETWORK_ASYNC_COUNT_def peer_state_default_def tally_new_def

lemma session_sender_ready: "session_ready 1 2 [] session_sender"
  by (simp add: session_ready_def ready_peer_def empty_queue_def session_sender_defs sender_inv_def ids_ok_def queue_ok_def document_bytes_def Let_def)

lemma session_sender_queues:
  obtains qv qa where "sn_outbound_video session_sender = Some qv" "wq_items qv = []" "wq_connected qv"
    "au_outbound (sn_audio session_sender) = Some qa" "wq_items qa = []" "wq_connected qa" "0 < wq_depth qa"
    "au_enabled (sn_audio session_sender)" "au_clock (sn_audio session_sender) = timestamp_clock_new 0 True" "ps_video (sn_subscribed session_sender)"
  by (simp add: session_sender_defs Let_def)

lemma sample_audio_facts:
  "channels_of sample_audio = 2" "samples_of sample_audio = 1" "mf_active_channels sample_audio = 0" "mf_data sample_audio = [1, 2, 3, 4, 0, 0, 0, 0]"
  "metadata_bytes sample_audio = []" "pcm_frame sample_audio"
proof -
  show m: "channels_of sample_audio = 2" "samples_of sample_audio = 1" "mf_active_channels sample_audio = 0" "mf_data sample_audio = [1, 2, 3, 4, 0, 0, 0, 0]"
    "metadata_bytes sample_audio = []"
    by (simp_all add: sample_audio_def channels_of_def samples_of_def nonneg_def media_frame_default_def metadata_bytes_def)
  then show "pcm_frame sample_audio" by (simp add: pcm_frame_def AUDIO_MAX_SIZE_def AUDIO_EXT_HEADER_SIZE_def)
qed

lemma sample_audio_assembles:
  obtains f c nows where "assemble_audio sample_audio (timestamp_clock_new 0 True) [5] = Some (Inr f, c, nows)" "length (assembled_to_bytes f) \<le> 1000"
proof -
  note m = sample_audio_facts
  obtain c nows where "clock_resolve (sint (mf_timestamp sample_audio)) (sint (mf_frame_rate_n sample_audio)) (sint (mf_frame_rate_d sample_audio))
      (sint (mf_sample_rate sample_audio)) (sint (mf_samples_per_channel sample_audio)) (timestamp_clock_new 0 True) [5] = Some (7, c, nows)"
    by (simp add: sample_audio_def clock_resolve_def needs_reset_def timestamp_clock_new_def clock_reset_def media_frame_default_def
        AUTO_TIMESTAMP_def)
  moreover obtain p where "audio_payload sample_audio = Some p"
    using m pcm_planes_Some [of 2 1 "mf_data sample_audio"] by (simp add: audio_payload_def channels_of_def samples_of_def Let_def)
  ultimately obtain r where a: "assemble_audio sample_audio (timestamp_clock_new 0 True) [5] = Some (r, c, nows)"
    by (cases p) (auto simp: assemble_audio_def Let_def)
  obtain f where f: "r = Inr f" "af_metadata f = metadata_bytes sample_audio" "length (af_data f) \<le> channels_of sample_audio * samples_of sample_audio * 4"
    by (rule assemble_audio_samples [of sample_audio "channels_of sample_audio" "samples_of sample_audio" "timestamp_clock_new 0 True" "[5]" r c nows])
      (use m a in \<open>simp_all add: channels_of_def samples_of_def\<close>)
  have "length (ext_bytes f) \<le> 24"
    using a f(1) by (auto simp: assemble_audio_def ext_bytes_def Let_def AUDIO_EXT_HEADER_SIZE_def split: option.splits sum.splits)
  then have "length (assembled_to_bytes f) \<le> 1000" using f(2,3) m by (simp add: HEADER_SIZE_def)
  with that a f(1) show ?thesis by blast
qed

text \<open>A video frame and an audio frame are queued, a document overtakes both, the writer threads write the frames.\<close>

lemma sample_session:
  obtains s where "exchange plain_vmx (\<lambda>_. None) 1 2 session_sender [sample_video] [sample_audio] [\<lparr>md_timestamp = 3, md_xml = ''<a />''\<rparr>] s"
    "empty_queue (sn_outbound_video s)" "empty_queue (au_outbound (sn_audio s))"
proof -
  let ?s0 = session_sender and ?d = "\<lparr>md_timestamp = 3, md_xml = ''<a />''\<rparr> :: metadata_frame" and ?ws = "\<lambda>_. [Wrote 1000]"
  obtain qv qa where q: "sn_outbound_video ?s0 = Some qv" "wq_items qv = []" "wq_connected qv"
    "au_outbound (sn_audio ?s0) = Some qa" "wq_items qa = []" "wq_connected qa" "0 < wq_depth qa"
    "au_enabled (sn_audio ?s0)" "au_clock (sn_audio ?s0) = timestamp_clock_new 0 True" "ps_video (sn_subscribed ?s0)"
    by (rule session_sender_queues)
  note fit = sample_fits(1,2) sample_fits(3) [of ?s0]
  obtain s1 where s1: "send_video plain_vmx (\<lambda>_. None) ?ws 0 [5] 0 0 sample_video ?s0 = Some (Inr (), s1)"
    by (simp add: send_video_def broadcast_def broadcast_wire_def try_send_def build_frame_def video_wire_frame_def sample_video_def
      session_sender_defs clock_resolve_def needs_reset_def timestamp_clock_new_def clock_reset_def media_frame_default_def
      AUTO_TIMESTAMP_def record_sent_def statistics_default_def ft_contains_def ft_defs codec_from_i32_def Let_def)
  obtain f q1 accepted where f: "frame_of sample_video f" and q1: "sn_outbound_video s1 = Some q1" "wq_connected q1"
    "wq_items q1 = wq_items qv @ (if accepted then [broadcast_wire (\<lambda>_. None) f] else [])"
    by (rule send_video_queued [OF s1 q(10) fit(3,1) q(1,3)])
  have a1: "sn_audio s1 = sn_audio ?s0" by (rule send_video_audio [OF s1 fit(3,1) q(1)])
  obtain g c nows where g: "assemble_audio sample_audio (timestamp_clock_new 0 True) [5] = Some (Inr g, c, nows)" "length (assembled_to_bytes g) \<le> 1000"
    by (rule sample_audio_assembles)
  let ?qa = "qa\<lparr>wq_items := [plain_wire g]\<rparr>"
  let ?s2 = "s1\<lparr>sn_audio := (sn_audio s1)\<lparr>au_clock := c, au_outbound := Some ?qa\<rparr>\<rparr>"
  have s2: "send_audio ?ws [5] sample_audio s1 = Some (Inr (), ?s2)"
    using q g(1) by (simp add: send_audio_def ingress_send_def enqueue_wire_def try_send_def a1)
  have room: "audio_room s1" using q by (simp add: audio_room_def a1)
  obtain r s3 where s3: "send_metadata ?ws 0 3 ''<a />'' ?s2 = (r, s3)" by fastforce
  have keep: "sn_outbound_video s3 = Some q1" "sn_audio s3 = sn_audio ?s2"
    using s3 q1(1) by (auto simp: send_metadata_def broadcast_def control_frame_def ft_contains_def ft_defs Let_def)
  have resolved: "word_of_int (resolve_timestamp 0 3) = (3 :: i64)" by (simp add: resolve_timestamp_def AUTO_TIMESTAMP_def)
  have doc: "delivers (assembled_to_bytes (control_frame (word_of_int (resolve_timestamp 0 3)) ''<a />'')) [Wrote 1000]"
    by (intro delivers_whole) (simp_all add: HEADER_SIZE_def del: length_assembled)
  obtain ts where "f = video_wire_frame ts sample_video" using f by (auto simp: frame_of_def)
  then have "length (assembled_to_bytes f) \<le> 1000"
    by (simp add: HEADER_SIZE_def ext_bytes_def video_wire_frame_def metadata_bytes_def sample_video_def VIDEO_EXT_HEADER_SIZE_def Let_def)
  then have video: "delivers (wb_full (broadcast_wire (\<lambda>_. None) f)) [Wrote 1000]"
    unfolding broadcast_wire_def assembled_to_bytes_def by (intro delivers_whole) (simp_all add: Let_def)
  have audio: "delivers (wb_full (plain_wire g)) [Wrote 1000]"
    using g(2) by (simp add: plain_wire_def delivers_whole del: length_assembled)
  let ?s4 = "video_writer_turn ?ws s3"
  have run: "exchange plain_vmx (\<lambda>_. None) 1 2 ?s0 [sample_video] [sample_audio] [?d] s3"
    using exchange_document [where ws = ?ws, OF exchange_audio [OF exchange_video [OF exchange_start fit(3,1) s1] sample_audio_facts(6) s2] fit(2) _ s3] doc room
    by (simp add: resolved)
  have "exchange plain_vmx (\<lambda>_. None) 1 2 ?s0 [sample_video] [sample_audio] [?d] ?s4"
    by (rule exchange_video_writer [OF run]) (use q1(3) q(2) keep video in \<open>simp split: if_splits\<close>)
  then have "exchange plain_vmx (\<lambda>_. None) 1 2 ?s0 [sample_video] [sample_audio] [?d] (audio_writer_turn ?ws ?s4)"
    by (rule exchange_audio_writer) (use keep audio in \<open>simp add: video_writer_turn_def split: option.splits prod.splits\<close>)
  moreover have "empty_queue (sn_outbound_video (audio_writer_turn ?ws ?s4))"
    using q1 q(2) keep(1) by (cases accepted) (auto simp: audio_writer_turn_def video_writer_turn_def writer_turn_def empty_queue_def split: option.split list.split)
  moreover have "empty_queue (au_outbound (sn_audio (audio_writer_turn ?ws ?s4)))"
    using q(6) keep by (auto simp: audio_writer_turn_def video_writer_turn_def writer_turn_def empty_queue_def split: option.split prod.split)
  ultimately show ?thesis using that by blast
qed

lemma alternating:
  "length (filter isl (concat (replicate n [Inl a, Inr b]))) = n" "length (filter (\<lambda>x. \<not> isl x) (concat (replicate n [Inl a, Inr b]))) = n"
  by (induction n) simp_all


end
