(* ===== verification/Spec2Isabelle.thy ===== *)
theory Spec2Isabelle
  imports Pool Color Storage Examples Socket_Options Redirect Playback Session_Path
begin

text \<open>
  A verification development of the Rust crate \<open>openmediatransport\<close> (Open Media Transport): senders and
  receivers that exchange video, audio and metadata frames over TCP, and the discovery service by which they
  find each other.

  \<^bold>\<open>The program and its parts.\<close> A frame is a 16-byte header, an extended header for video or audio, the payload
  and a tail of frame metadata (\<open>protocol/frame.rs\<close>). A socket delivers bytes in pieces of any size; a channel
  puts frames together again (\<open>transport/channel.rs\<close>) with buffers from pools (\<open>transport/pool.rs\<close>). Video is
  compressed by the VMX codec, a crate of its own, behind \<open>send_video.rs\<close>; audio by the planar float codec of
  \<open>codec/fpa1.rs\<close>; \<open>color.rs\<close> converts pixels, \<open>clock.rs\<close> makes timestamps and paces a sender. Control
  documents (subscriptions, tally, quality, preview) are XML in metadata frames (\<open>protocol/xml.rs\<close>,
  \<open>protocol/metadata.rs\<close>). A sender (\<open>send.rs\<close>) accepts peers, reads their control documents, combines what they
  ask for and writes frames to the peers that subscribed, directly or through bounded queues. A receiver
  (\<open>receive.rs\<close>) resolves and dials endpoints, subscribes, and runs a supervisor and a reader thread per socket and
  a decoder thread; frames reach the application through bounded queues. Discovery (\<open>discovery/\<close>) registers
  addresses with a server that relays them to its clients, or with DNS-SD. \<open>settings.rs\<close> keeps the
  configuration in \<open>settings.xml\<close>, \<open>logging.rs\<close> writes the log. With the feature \<open>wgpu\<close> the sender encodes textures and
  the receiver decodes to textures (\<open>gpu.rs\<close>); \<open>async_api.rs\<close> wraps both for an asynchronous runtime.

  \<^bold>\<open>Conventions.\<close> A Rust \<open>String\<close> is the list of its UTF-8 bytes, so lengths and indices are Rust's; integers
  are words of their width, \<open>usize\<close> is \<open>nat\<close> with the 64-bit limit written out where the code meets it, an \<open>f32\<close>
  is its 32 bits. \<open>Result\<close> is a sum with the error type of \<open>error.rs\<close> on the left. A panic is \<open>None\<close>. What the
  code asks of the outside world comes in as an argument: the outcomes of the reads and writes of a socket are
  lists (a write may be partial, time out or fail), instants are a list of readings, name resolution, the XML
  reader \<open>roxmltree\<close>, the DNS-SD daemon and the VMX codec are functions. Where a theorem needs something of such a
  function, it is a named hypothesis (\<open>reads_xml\<close>, \<open>keeps_length\<close>, and so on) with an instance in its witness.
  A mutex is a critical section, that is one definition; threads interleave as step relations, or as
  functions the caller gives for what the others did in between.

  \<^bold>\<open>Theories.\<close>
  \<^item> \<open>Prelude\<close>, \<open>Rust_Str\<close>: words, little-endian bytes, slices, the \<open>str\<close> methods of the standard library.
  \<^item> \<open>Omt_Types\<close>: \<open>types.rs\<close> and \<open>error.rs\<close>, flags, codecs, qualities, frames, statistics.
  \<^item> \<open>Frame\<close>: \<open>protocol/frame.rs\<close>; \<open>assembled_to_bytes\<close> and \<open>assembled_from_bytes\<close> are inverse to each other on
    well-formed frames, and the parser's rejections are described completely.
  \<^item> \<open>Channel\<close>: \<open>transport/channel.rs\<close>; a stream of frames comes out in order however it was cut, the buffer is
    bounded, and every outcome of \<open>try_pop_frame\<close>.
  \<^item> \<open>Pool\<close>, \<open>Fpa1\<close>, \<open>Clock\<close>, \<open>Color\<close>, \<open>Video_Encoder\<close>: \<open>transport/pool.rs\<close>, \<open>codec/fpa1.rs\<close>, \<open>clock.rs\<close>, \<open>color.rs\<close>,
    \<open>send_video.rs\<close>; capacity kept, no panic on any input and round trip, timestamps and pacing, equivalence of the
    vectorised and the scalar code, termination of the growing save buffer. \<open>Ieee754\<close> is the arithmetic of \<open>f32\<close> and
    \<open>f64\<close> as rounding of rational numbers, with the error of each operation.
  \<^item> \<open>Xml\<close>, \<open>Metadata\<close>, \<open>Address\<close>, \<open>Settings\<close>: \<open>protocol/xml.rs\<close>, \<open>protocol/metadata.rs\<close>, \<open>discovery/address.rs\<close>,
    \<open>settings.rs\<close>; documents, addresses and settings read back as they were written.
  \<^item> \<open>Registry\<close>, \<open>Discovery_Server\<close>, \<open>Discovery_Client\<close>, \<open>Discovery\<close>: \<open>discovery/server.rs\<close>, \<open>discovery/client.rs\<close>,
    \<open>discovery/mod.rs\<close> with \<open>discovery/mdns.rs\<close>; the server's registry refines a map with ownership, every client holds
    the server's entries when handlers are not interleaved, and the interleaving in which it does not.
  \<^item> \<open>Bounded_Queue\<close>, \<open>State_Machine\<close>: the two interfaces of the running system, below.
  \<^item> \<open>Sender_Peers\<close>, \<open>Sender\<close>: \<open>send.rs\<close> (\<open>ingest_peer_bytes\<close>, \<open>combined_subscription\<close>, \<open>PeerWriteQueue\<close>,
    \<open>write_peers\<close>; then construction, \<open>poll_accept\<close>, \<open>poll_peer_metadata\<close>, \<open>send_video\<close>, \<open>send_audio\<close>,
    \<open>send_metadata\<close>, closing).
  \<^item> \<open>Endpoints\<close>, \<open>Receiver_Queues\<close>, \<open>Receiver_Threads\<close>, \<open>Receiver\<close>: \<open>receive.rs\<close> (\<open>resolve_endpoints\<close>;
    \<open>DecodedQueue\<close>, \<open>EncodedCapture\<close> and the statistics; \<open>video_reader_loop\<close>, \<open>audio_reader_loop\<close>,
    \<open>video_decode_loop\<close>; \<open>socket_supervisor\<close>, \<open>ReceiverSession\<close> and its operations).
  \<^item> \<open>Texture_Sender\<close>, \<open>Texture_Receiver\<close>: the texture paths of \<open>send.rs\<close>, \<open>send_video.rs\<close> and \<open>receive.rs\<close>; pipelined
    encoding sends what synchronous encoding sends, the texture decoder does what the pixel decoder does.
  \<^item> \<open>Async_Api\<close>: \<open>async_api.rs\<close>; polling returns by its deadline and misses no frame.
  \<^item> \<open>Storage\<close>: the files of \<open>settings.rs\<close> and \<open>logging.rs\<close>; settings persist across processes, the log only grows.
  \<^item> \<open>Socket_Options\<close>: \<open>transport/socket.rs\<close>; the options a socket has for certain. \<open>Redirect\<close>: the stub \<open>redirect.rs\<close>.
  \<^item> \<open>Colorbar\<close>, \<open>Colorbar_Sender\<close>, \<open>Examples\<close>: the programs under \<open>examples/\<close>; the test picture is legal UYVY that the encoder
    accepts and an odd width panics, the loops of the colour-bar sender keep making legal pictures and a continuous tone, a frame
    rate of zero panics, and the asynchronous sender withdraws its announcement at once.
  \<^item> \<open>Media_Path\<close>: from \<open>send_video\<close> and \<open>send_metadata\<close> through queue, writer thread and network to the queues of the
    receiver; every frame arrives in order and complete or is counted as dropped.
  \<^item> \<open>Receiver_Pair\<close>: the two reader threads of a session under any schedule. \<open>Session_Path\<close>: a whole session, from a
    sender that is given video, audio and documents while it serves other peers too, through both its queues and
    writer threads and both sockets, to the three queues of the receiver. \<open>Playback\<close>: from there on, reader, decoder thread
    and application; every video frame is shown, waits, or is counted as dropped.
  \<^item> This theory: how a session comes about. A receiver that connects is subscribed on the sender exactly as its configuration
    says, on both sockets, which makes the sender ready for the session of \<open>Session_Path\<close>; a reconnect restores the preview and
    the quality that were set meanwhile; the samples given to \<open>send_audio\<close> are those the receiving application gets.

  \<^bold>\<open>Interfaces.\<close> Each locale states what a client relies on and proves the client's lemmas once; all are
  interpreted on the model.
  \<^item> \<open>fixed_codec\<close> (\<open>Frame\<close>): a header of fixed width. Interpreted on the three headers (\<open>hdr\<close>, \<open>vid\<close>, \<open>aud\<close>).
  \<^item> \<open>framing\<close> (\<open>Channel\<close>): popping frames off a byte buffer. On the channel (\<open>chan\<close>) and on the sender's inbound
    control bytes (\<open>ctrl\<close>).
  \<^item> \<open>keyed_registry\<close> (\<open>Registry\<close>): on the server's entries (\<open>srv\<close>), a client's sources (\<open>cli\<close>) and the services
    found by DNS-SD (\<open>mdns\<close>).
  \<^item> \<open>bounded_queue\<close>: on the sender's write queues (\<open>wq\<close>), the decoded frames (\<open>dq\<close>) and the channels between the
    receiver's threads (\<open>sc\<close>).
  \<^item> \<open>state_machine\<close>: on the discovery server (\<open>srv_machine\<close>), the sender (\<open>snd_machine\<close>), the receiver
    (\<open>rcv_machine\<close>) and the wire-queue gauge (\<open>gauge\<close>).
  \<^item> \<open>frame_reader\<close> (\<open>Receiver_Threads\<close>): a reader thread. On the video (\<open>vr\<close>) and the audio socket (\<open>ar\<close>).
  \<^item> \<open>promising_reader\<close> (\<open>Receiver_Pair\<close>): what a reader still has to deliver, which its own turns fulfil and those of the
    other thread do not disturb. On the same two (\<open>pv\<close>, \<open>pa\<close>).

  \<^bold>\<open>Bounds and loops.\<close> Loops over data are functions with a termination proof (the remaining input, the room left
  in a buffer). A loop that waits for the world runs over the list of its turns, one element per iteration with
  the outcomes of its system calls; theorems quantify over all such lists, and those that promise a result
  (\<open>video_reader_delivers\<close>, \<open>reconnect_backoff\<close>, \<open>save_bitstream_returns\<close>) state how many turns give it.
  The numeric counter of \<open>try_recv_metadata\<close> is the number of turns before its deadline, the
  reads of every theorem about it being fewer. The constants (queue lengths, size limits, ports, back-off) are
  those of the sources.

  \<^bold>\<open>Not modelled.\<close> The GPU itself (a texture has a size and is encoded by the codec crate) and the lock of the GPU
  context, which guards none of the modelled state. \<open>protocol/binary.rs\<close> names methods of the \<open>bytes\<close> crate and is not
  called. Of \<open>settings.rs\<close> and \<open>logging.rs\<close> the paths of Windows. The sine of the tone is a parameter, as the standard library does not
  fix its bits. Of the example programs what they print and the directory of saved pictures; of
  \<open>receive_to_jpeg_tokio.rs\<close>, which repeats \<open>receive_to_jpeg.rs\<close>, only the loop. The remaining lines are imports, module
  declarations and tests.
\<close>

section \<open>Subscriptions from receiver to sender\<close>

text \<open>The documents a receiver writes are ASCII without a zero byte, so the sender reads back the same text.\<close>

definition control_documents :: "string set" where
  "control_documents = {SUBSCRIBE_VIDEO, SUBSCRIBE_AUDIO, SUBSCRIBE_METADATA, PREVIEW_ON, PREVIEW_OFF} \<union> range suggested_quality_xml"

lemma range_quality: "range (f :: quality \<Rightarrow> 'a) = {f QDefault, f Low, f Medium, f High}"
proof -
  have "f q \<in> {f QDefault, f Low, f Medium, f High}" for q by (cases q) simp_all
  then have "range f \<subseteq> {f QDefault, f Low, f Medium, f High}" by blast
  then show ?thesis by (intro equalityI) simp_all
qed

lemma control_document_text:
  assumes "xml \<in> control_documents"
  shows "decode_metadata_xml (encode_metadata_xml xml) = Inr xml" "length xml < 100"
proof -
  have "\<forall>xml \<in> {SUBSCRIBE_VIDEO, SUBSCRIBE_AUDIO, SUBSCRIBE_METADATA, PREVIEW_ON, PREVIEW_OFF, suggested_quality_xml QDefault,
      suggested_quality_xml Low, suggested_quality_xml Medium, suggested_quality_xml High}.
      decode_metadata_xml (encode_metadata_xml xml) = Inr xml \<and> length xml < 100"
    by (intro ballI, elim insertE; (simp only:, code_simp)?) simp
  then show "decode_metadata_xml (encode_metadata_xml xml) = Inr xml" "length xml < 100"
    using assms unfolding control_documents_def range_quality by blast+
qed

lemma control_effect:
  "xml \<in> control_documents \<Longrightarrow> frame_effect rox (control_frame 0 xml) state = apply_metadata rox xml state"
  by (simp add: frame_effect_def control_frame_def Let_def control_document_text)

lemma av_documents_control: "xml \<in> set (av_documents ft q p i) \<Longrightarrow> xml \<in> control_documents"
  by (auto simp: av_documents_def control_documents_def split: if_splits)

lemma meta_documents_control: "xml \<in> set (meta_documents ft) \<Longrightarrow> xml \<in> control_documents"
  by (auto simp: meta_documents_def control_documents_def split: if_splits)

text \<open>However the network cuts them into chunks, the documents act on the sender's peer as their texts do in order.\<close>

lemma documents_ingested:
  assumes "set docs \<subseteq> control_documents" "concat chunks = concat (map (\<lambda>xml. assembled_to_bytes (control_frame 0 xml)) docs)"
    "\<forall>c \<in> set chunks. length c \<le> 32768"
  shows "fold (ingest_chunk rox) chunks (state, []) = (fold (apply_metadata rox) docs state, [])"
proof -
  let ?fs = "map (control_frame 0) docs"
  have small: "length xml < 100" if "xml \<in> set docs" for xml using control_document_text(2) assms(1) that by blast
  have wf: "\<forall>f \<in> set ?fs. wf_frame f" 
  proof
    fix f assume "f \<in> set ?fs"
    then obtain xml where "xml \<in> set docs" "f = control_frame 0 xml" by auto
    with small [of xml] show "wf_frame f" by (simp add: control_frame_wf)
  qed
  have cap: "\<forall>c \<in> set chunks. \<forall>f \<in> set ?fs. length c + length (assembled_to_bytes f) \<le> PEER_INBOUND_CAP"
  proof (intro ballI)
    fix c f assume "c \<in> set chunks" "f \<in> set ?fs"
    then obtain xml where "xml \<in> set docs" "f = control_frame 0 xml" by auto
    then have "length (assembled_to_bytes f) < 116" using small by (simp add: HEADER_SIZE_def del: length_assembled)
    moreover have "length c \<le> 32768" using assms(3) \<open>c \<in> set chunks\<close> by blast
    ultimately show "length c + length (assembled_to_bytes f) \<le> PEER_INBOUND_CAP" by (simp add: PEER_INBOUND_CAP_def del: length_assembled)
  qed
  have start: "?fs = [] \<and> [] = ([] :: bytes) \<or> ?fs \<noteq> [] \<and> length ([] :: bytes) < length (assembled_to_bytes (hd ?fs))"
    by (auto simp: HEADER_SIZE_def)
  have "[] @ concat chunks = ctrl.stream ?fs" using assms(2) by (simp add: comp_def)
  from ingest_chunks [OF wf this start cap] have
    "fold (ingest_chunk rox) chunks (state, []) = (fold (frame_effect rox) ?fs state, [])" .
  moreover have "fold (frame_effect rox) ?fs state = fold (apply_metadata rox) docs state"
    using assms(1) by (induction docs arbitrary: state) (auto simp: control_effect)
  ultimately show ?thesis by simp
qed

lemma av_documents_effect:
  assumes "reads_xml rox"
  shows "fold (apply_metadata rox) (av_documents ft q p i) peer_state_default =
    peer_state_default\<lparr>ps_video := ft_contains ft FT_VIDEO, ps_audio := i \<and> ft_contains ft FT_AUDIO,
      ps_metadata := ft_contains ft FT_VIDEO \<or> ft_contains ft FT_METADATA, ps_preview := ft_contains ft FT_VIDEO \<and> p,
      ps_quality := (if ft_contains ft FT_VIDEO then q else QDefault)\<rparr>"
  by (simp add: av_documents_def apply_metadata_def parse_subscribe [OF assms] parse_settings [OF assms] peer_state_default_def)

lemma meta_documents_effect:
  assumes "reads_xml rox"
  shows "fold (apply_metadata rox) (meta_documents ft) peer_state_default = peer_state_default\<lparr>ps_audio := ft_contains ft FT_AUDIO\<rparr>"
  by (simp add: meta_documents_def apply_metadata_def parse_subscribe [OF assms] peer_state_default_def)

lemma send_subscriptions_out:
  "send_subscriptions (Some ws) None ft q p i = (Inr u, out, out') \<Longrightarrow>
     out = concat (map (\<lambda>xml. assembled_to_bytes (control_frame 0 xml)) (av_documents ft q p i))"
  "send_subscriptions None (Some ws) ft q p i = (Inr u, out, out') \<Longrightarrow>
     out' = concat (map (\<lambda>xml. assembled_to_bytes (control_frame 0 xml)) (meta_documents ft))"
  by (auto simp: send_subscriptions_def dest!: write_documents_out split: prod.splits sum.splits)

text \<open>The sender's view of a receiver: the peer state after the chunks read from its socket.\<close>

definition subscribed_peer :: "rox \<Rightarrow> bytes list \<Rightarrow> peer" where
  "subscribed_peer rox chunks =
     (case fold (ingest_chunk rox) chunks (peer_state_default, []) of
        (state, inbound) \<Rightarrow> \<lparr>pe_state = state, pe_inbound = inbound, pe_wire = []\<rparr>)"

lemma connected_documents:
  assumes "connect_with_addresses env address extra config = Some (Inr (s, out_video, out_audio))"
  shows "out_video = (if want_video (rc_frame_types config) then concat (map (\<lambda>xml. assembled_to_bytes (control_frame 0 xml))
      (av_documents (rc_frame_types config) (rc_quality config) (rc_preview config) False)) else []) \<and>
    out_audio = (if want_audio (rc_frame_types config) then concat (map (\<lambda>xml. assembled_to_bytes (control_frame 0 xml))
      (meta_documents (rc_frame_types config))) else [])"
  using assms
  by (auto simp: connect_with_addresses_def open_video_def open_audio_def dest!: send_subscriptions_out
      split: if_splits option.splits sum.splits prod.splits)

text \<open>C7: Connecting subscribes. When a receiver session connects, the bytes it writes to its two sockets, read by a
  sender in chunks of any size, leave the sender with exactly the subscription the configuration asks for:
  video, audio and metadata for the requested frame types, the requested preview mode and the suggested quality.
  Nothing is left unparsed.\<close>

theorem connect_subscribes:
  assumes "reads_xml rox" "connect_with_addresses env address extra config = Some (Inr (s, out_video, out_audio))"
    "concat video_chunks = out_video" "concat audio_chunks = out_audio"
    "\<forall>c \<in> set video_chunks. length c \<le> 32768" "\<forall>c \<in> set audio_chunks. length c \<le> 32768"
    "ft = rc_frame_types config"
  shows "pe_inbound (subscribed_peer rox video_chunks) = [] \<and> pe_inbound (subscribed_peer rox audio_chunks) = [] \<and>
    combined_subscription QDefault [(1, subscribed_peer rox video_chunks), (2, subscribed_peer rox audio_chunks)] =
      \<lparr>ps_video = ft_contains ft FT_VIDEO, ps_audio = ft_contains ft FT_AUDIO,
       ps_metadata = (ft_contains ft FT_VIDEO \<or> ft_contains ft FT_METADATA),
       ps_preview = (ft_contains ft FT_VIDEO \<and> rc_preview config),
       ps_quality = (if ft_contains ft FT_VIDEO then rc_quality config else QDefault), ps_tally = tally_new 0 0\<rparr>"
proof -
  let ?v = "if want_video ft then av_documents ft (rc_quality config) (rc_preview config) False else []"
  let ?a = "if want_audio ft then meta_documents ft else []"
  have v: "fold (ingest_chunk rox) video_chunks (peer_state_default, []) = (fold (apply_metadata rox) ?v peer_state_default, [])"
    using connected_documents [OF assms(2)] assms(3,7)
    by (intro documents_ingested [OF _ _ assms(5)]) (use av_documents_control in \<open>auto split: if_splits\<close>)
  have a: "fold (ingest_chunk rox) audio_chunks (peer_state_default, []) = (fold (apply_metadata rox) ?a peer_state_default, [])"
    using connected_documents [OF assms(2)] assms(4,7)
    by (intro documents_ingested [OF _ _ assms(6)]) (use meta_documents_control in \<open>auto split: if_splits\<close>)
  have "\<not> want_video ft \<Longrightarrow> \<not> ft_contains ft FT_VIDEO \<and> \<not> ft_contains ft FT_METADATA" by (simp add: want_video_def)
  then have v': "fold (apply_metadata rox) ?v peer_state_default =
      peer_state_default\<lparr>ps_video := ft_contains ft FT_VIDEO, ps_audio := False,
        ps_metadata := ft_contains ft FT_VIDEO \<or> ft_contains ft FT_METADATA, ps_preview := ft_contains ft FT_VIDEO \<and> rc_preview config,
        ps_quality := (if ft_contains ft FT_VIDEO then rc_quality config else QDefault)\<rparr>"
    using av_documents_effect [OF assms(1), of ft "rc_quality config" "rc_preview config" False]
    by (cases "want_video ft") (auto simp: peer_state_default_def)
  have a': "fold (apply_metadata rox) ?a peer_state_default = peer_state_default\<lparr>ps_audio := ft_contains ft FT_AUDIO\<rparr>"
    using meta_documents_effect [OF assms(1), of ft] by (simp add: want_audio_def peer_state_default_def)
  show ?thesis
    unfolding subscribed_peer_def v a v' a'
    by (cases "rc_quality config")
       (simp_all add: combined_subscription_def combine_peer_def peer_state_default_def tally_new_def Let_def)
qed

text \<open>The state of the two peers, in the terms in which the session theorem needs it.\<close>

lemma connected_peers:
  assumes "reads_xml rox" "connect_with_addresses env address extra config = Some (Inr (s, out_video, out_audio))"
    "ft_contains (rc_frame_types config) FT_VIDEO" "ft_contains (rc_frame_types config) FT_AUDIO"
  shows "concat chunks = out_video \<Longrightarrow> \<forall>c \<in> set chunks. length c \<le> 32768 \<Longrightarrow>
      \<exists>state. fold (ingest_chunk rox) chunks (peer_state_default, []) = (state, []) \<and> ps_video state \<and> \<not> ps_audio state \<and>
        ps_preview state = rc_preview config"
    and "concat chunks = out_audio \<Longrightarrow> \<forall>c \<in> set chunks. length c \<le> 32768 \<Longrightarrow>
      \<exists>state. fold (ingest_chunk rox) chunks (peer_state_default, []) = (state, []) \<and> ps_audio state \<and> \<not> ps_video state \<and> \<not> ps_preview state"
    and "out_video \<noteq> []"
proof -
  let ?ft = "rc_frame_types config"
  let ?v = "av_documents ?ft (rc_quality config) (rc_preview config) False" and ?a = "meta_documents ?ft"
  let ?bytes = "\<lambda>docs. concat (map (\<lambda>xml. assembled_to_bytes (control_frame 0 xml)) docs)"
  have out: "out_video = ?bytes ?v" "out_audio = ?bytes ?a"
    using connected_documents [OF assms(2)] assms(3,4) by (simp_all add: want_video_def want_audio_def)
  have docs: "set ?v \<subseteq> control_documents" "set ?a \<subseteq> control_documents" using av_documents_control meta_documents_control by blast+
  show "\<exists>state. fold (ingest_chunk rox) chunks (peer_state_default, []) = (state, []) \<and> ps_video state \<and> \<not> ps_audio state \<and> ps_preview state = rc_preview config"
    if "concat chunks = out_video" "\<forall>c \<in> set chunks. length c \<le> 32768"
    using documents_ingested [OF docs(1) _ that(2), of rox peer_state_default] that(1) out assms(3)
    unfolding av_documents_effect [OF assms(1)] by (simp add: peer_state_default_def)
  show "\<exists>state. fold (ingest_chunk rox) chunks (peer_state_default, []) = (state, []) \<and> ps_audio state \<and> \<not> ps_video state \<and> \<not> ps_preview state"
    if "concat chunks = out_audio" "\<forall>c \<in> set chunks. length c \<le> 32768"
    using documents_ingested [OF docs(2) _ that(2), of rox peer_state_default] that(1) out assms(4)
    unfolding meta_documents_effect [OF assms(1)] by (simp add: peer_state_default_def)
  show "out_video \<noteq> []" using assms(3) by (simp add: out av_documents_def assembled_to_bytes_eq frame_header_to_bytes_def)
qed

section \<open>How a session comes about\<close>

text \<open>A read that leaves the peer alive: some bytes, at most a buffer of them, or nothing yet.\<close>

definition live_read :: "read_result \<Rightarrow> bool" where
  "live_read r = (case r of ReadOk bs \<Rightarrow> bs \<noteq> [] \<and> length bs \<le> 32768 | ReadErr k m \<Rightarrow> k = WouldBlock \<or> k = TimedOut)"

definition chunks_read :: "nat \<Rightarrow> (nat \<Rightarrow> read_result) list \<Rightarrow> bytes list" where
  "chunks_read pid polls = concat (map (\<lambda>reads. case reads pid of ReadOk bs \<Rightarrow> [bs] | ReadErr _ _ \<Rightarrow> []) polls)"

definition poll_all :: "rox \<Rightarrow> (nat \<Rightarrow> read_result) list \<Rightarrow> 'c sender \<Rightarrow> 'c sender" where
  "poll_all rox polls s = fold (\<lambda>reads s. snd (poll_peer_metadata rox reads s)) polls s"

lemma chunks_read_small: "\<forall>reads \<in> set polls. live_read (reads pid) \<Longrightarrow> \<forall>c \<in> set (chunks_read pid polls). length c \<le> 32768"
  by (auto simp: chunks_read_def live_read_def split: read_result.splits)

lemma polled_peer:
  assumes "map_of (sn_peers s) pid = Some p" "live_read (reads pid)" "sender_inv s"
    "fold (ingest_chunk rox) (chunks_read pid [reads]) (pe_state p, pe_inbound p) = (state, inbound)"
  shows "map_of (sn_peers (snd (poll_peer_metadata rox reads s))) pid = Some (p\<lparr>pe_state := state, pe_inbound := inbound\<rparr>)"
proof -
  have "distinct (map fst (sn_peers s))" using assms(3) by (simp add: sender_inv_def ids_ok_def)
  moreover have "poll_peer rox (reads pid) p = Some (p\<lparr>pe_state := state, pe_inbound := inbound\<rparr>)"
    using assms(2,4) by (cases "reads pid"; cases p) (auto simp: poll_peer_def live_read_def chunks_read_def ingest_chunk_def)
  ultimately show ?thesis using assms(1) by (simp add: poll_peer_metadata_def recompute_subscriptions_def map_of_poll_peers Let_def)
qed

lemma poll_metadata_inv: "sender_inv s \<Longrightarrow> sender_inv (snd (poll_peer_metadata rox reads s))"
  by (simp add: poll_peer_metadata_def) (intro recompute_inv, simp add: sender_inv_def poll_peers_ids)

lemma polled_keeps:
  "sn_outbound_video (snd (poll_peer_metadata rox reads s)) = sn_outbound_video s"
  "au_outbound (sn_audio (snd (poll_peer_metadata rox reads s))) = au_outbound (sn_audio s)"
  "sn_subscribed (snd (poll_peer_metadata rox reads s)) = combined_subscription (sn_quality s) (sn_peers (snd (poll_peer_metadata rox reads s)))"
  by (simp_all add: poll_peer_metadata_def recompute_subscriptions_def Let_def)

lemma poll_all_peer:
  assumes "map_of (sn_peers s) pid = Some p" "\<forall>reads \<in> set polls. live_read (reads pid)" "sender_inv s"
    "fold (ingest_chunk rox) (chunks_read pid polls) (pe_state p, pe_inbound p) = (state, inbound)"
  shows "map_of (sn_peers (poll_all rox polls s)) pid = Some (p\<lparr>pe_state := state, pe_inbound := inbound\<rparr>)"
  using assms
proof (induction polls arbitrary: s p)
  case (Cons reads polls)
  obtain state1 inbound1 where one: "fold (ingest_chunk rox) (chunks_read pid [reads]) (pe_state p, pe_inbound p) = (state1, inbound1)"
    by fastforce
  have split: "chunks_read pid (reads # polls) = chunks_read pid [reads] @ chunks_read pid polls" by (simp add: chunks_read_def)
  have "map_of (sn_peers (snd (poll_peer_metadata rox reads s))) pid = Some (p\<lparr>pe_state := state1, pe_inbound := inbound1\<rparr>)"
    by (rule polled_peer [where reads = reads, OF Cons.prems(1) _ Cons.prems(3) one]) (use Cons.prems(2) in simp)
  moreover have "fold (ingest_chunk rox) (chunks_read pid polls) (state1, inbound1) = (state, inbound)"
    using Cons.prems(4) one unfolding split by simp
  ultimately show ?case
    using Cons.IH [of "snd (poll_peer_metadata rox reads s)" "p\<lparr>pe_state := state1, pe_inbound := inbound1\<rparr>"] Cons.prems(2) poll_metadata_inv [OF Cons.prems(3)]
    by (simp add: poll_all_def)
qed (simp add: poll_all_def chunks_read_def)

lemma poll_all_keeps:
  assumes "sender_inv s" "s' = poll_all rox polls s"
  shows "sender_inv s'" "sn_outbound_video s' = sn_outbound_video s" "au_outbound (sn_audio s') = au_outbound (sn_audio s)"
    "polls \<noteq> [] \<Longrightarrow> \<exists>policy. sn_subscribed s' = combined_subscription policy (sn_peers s')"
proof -
  show "sender_inv s'" "sn_outbound_video s' = sn_outbound_video s" "au_outbound (sn_audio s') = au_outbound (sn_audio s)"
    using assms unfolding assms(2) poll_all_def by (induction polls arbitrary: s) (simp_all add: poll_metadata_inv polled_keeps)
  show "\<exists>policy. sn_subscribed s' = combined_subscription policy (sn_peers s')" if "polls \<noteq> []"
    using that unfolding assms(2) poll_all_def by (cases polls rule: rev_cases) (auto simp: polled_keeps)
qed

text \<open>What a peer is sent when it is accepted: the description of the sender, if it has one.\<close>

definition greeting :: "sender_info \<Rightarrow> metadata_frame list" where
  "greeting info = (if si_product_name info \<noteq> [] \<or> si_manufacturer info \<noteq> [] \<or> si_version info \<noteq> []
     then [\<lparr>md_timestamp = 0, md_xml = sender_info_to_xml info\<rparr>] else [])"

definition good_connection :: "sender_info \<Rightarrow> connection \<Rightarrow> bool" where
  "good_connection info c \<longleftrightarrow> cn_configure c = Inr () \<and> cn_nonblocking c = Inr () \<and> delivers (document_bytes (greeting info)) (cn_writes c)"

lemma delivers_out: "delivers bs ws \<Longrightarrow> fst (snd (write_all bs ws)) = bs"
proof -
  assume "delivers bs ws"
  then obtain out ws' where w: "write_all bs ws = (Inr (), out, ws')" by (auto simp: delivers_def prod_eq_iff)
  then show "fst (snd (write_all bs ws)) = bs" using write_all_prefix [OF w] by auto
qed

lemma add_good_peer:
  assumes "good_connection (sn_info s) c"
  shows "add_peer c s = (Inr (), s\<lparr>sn_next_peer_id := sn_next_peer_id s + 1, sn_peers := sn_peers s @ [(sn_next_peer_id s,
    \<lparr>pe_state = peer_state_default, pe_inbound = [], pe_wire = document_bytes (greeting (sn_info s))\<rparr>)]\<rparr>)"
  using assms delivers_out by (auto simp: add_peer_def good_connection_def greeting_def document_bytes_def Let_def)

lemma accepted_pair:
  assumes "sn_listening s" "good_connection (sn_info s) cv" "good_connection (sn_info s) ca"
    "p = \<lparr>pe_state = peer_state_default, pe_inbound = [], pe_wire = document_bytes (greeting (sn_info s))\<rparr>"
  shows "poll_accept (Inr ()) [Connection cv, Connection ca, AcceptError WouldBlock m] s =
    (Inr True, s\<lparr>sn_next_peer_id := sn_next_peer_id s + 2,
       sn_peers := sn_peers s @ [(sn_next_peer_id s, p), (sn_next_peer_id s + 1, p)]\<rparr>)"
  using assms by (simp add: poll_accept_def add_good_peer)


lemma write_documents_whole:
  assumes "\<forall>xml \<in> set docs. xml \<in> control_documents" "length docs \<le> n"
  shows "\<exists>out. write_documents docs (replicate n (Wrote 1000)) = (Inr (), out, replicate (n - length docs) (Wrote 1000))"
  using assms
proof (induction docs arbitrary: n)
  case (Cons xml docs)
  then obtain m where m: "n = Suc m" by (cases n) auto
  let ?b = "assembled_to_bytes (control_frame 0 xml)"
  have "length ?b \<le> 1000" using control_document_text(2) [of xml] Cons.prems(1) by (simp add: HEADER_SIZE_def del: length_assembled)
  then have "write_all ?b (Wrote 1000 # ws) = (Inr (), ?b, ws)" for ws
    using length_control_frame [of 0 xml] by (cases ?b) (simp_all add: HEADER_SIZE_def del: length_assembled length_control_frame)
  moreover obtain out where "write_documents docs (replicate m (Wrote 1000)) = (Inr (), out, replicate (m - length docs) (Wrote 1000))"
    using Cons.IH [of m] Cons.prems m by auto
  ultimately show ?case by (simp add: m write_metadata_frame_def)
qed simp

text \<open>An environment in which everything succeeds.\<close>

definition open_network :: connect_env where
  "open_network = \<lparr>ce_lookup = (\<lambda>_ _. Inr []), ce_dial_video = (\<lambda>_. Inr ()), ce_writes_video = replicate 9 (Wrote 1000),
     ce_dial_audio = (\<lambda>_. Inr ()), ce_writes_audio = replicate 9 (Wrote 1000), ce_spawn = (\<lambda>_. Inr ())\<rparr>"

lemma open_network_connects:
  "\<exists>s ov oa. connect_with_addresses open_network ''omt://127.0.0.1:6400/Cam'' [] receiver_config_default = Some (Inr (s, ov, oa))"
proof -
  let ?e = "\<lparr>ep_ip = V4 127 0 0 1, ep_port = 6400\<rparr>"
  let ?ft = "rc_frame_types receiver_config_default"
  obtain parsed where url: "from_url ''omt://127.0.0.1:6400/Cam'' = Some (Inr parsed)" "oa_port parsed = 6400" "oa_addresses parsed = [''127.0.0.1'']"
  proof
    have "digit_char 6 = CHR ''6''" "digit_char 4 = CHR ''4''" "digit_char 0 = CHR ''0''" by code_simp+
    then have "show_nat 6400 = ''6400''" by (simp add: show_nat.simps)
    then have port: "parse_u16 ''6400'' = Some 6400" using parse_u16_show [of 6400] by simp
    have split: "split_once CHR ''/'' ''127.0.0.1:6400/Cam'' = Some (''127.0.0.1:6400'', ''Cam'')" "rsplit_once CHR '':'' ''127.0.0.1:6400'' = Some (''127.0.0.1'', ''6400'')"
      "sanitize_name ''Cam'' = ''Cam''" by code_simp+
    show "from_url ''omt://127.0.0.1:6400/Cam'' = Some (Inr \<lparr>oa_name = ''Cam'', oa_machine_name = [], oa_port = 6400,
        oa_addresses = [''127.0.0.1''], oa_removed = False\<rparr>)"
      by (simp add: from_url_def URL_PREFIX_def split url_host_port_def port limit_name_length_def instance_name_def MAX_INSTANCE_NAME_LENGTH_def)
  qed simp_all
  have "show_ipv4 127 0 0 1 = ''127.0.0.1''" by code_simp
  then have ip: "parse_ip ''127.0.0.1'' = Some (V4 127 0 0 1)" using parse_show_ipv4 [of 127 0 0 1] by simp
  have "candidate_hosts [] [''127.0.0.1''] = [''127.0.0.1'']" by code_simp
  then have es: "resolve_endpoints (ce_lookup open_network) parsed [] = Inr [?e]"
    by (simp add: resolve_endpoints_def url host_endpoints_def ip push_new_def)
  have first: "connect_first (\<lambda>_. Inr ()) [?e] = Inr ?e" by (simp add: connect_first_def)
  let ?av = "av_documents ?ft (rc_quality receiver_config_default) (rc_preview receiver_config_default) False"
  have len: "length ?av \<le> 9" "length (meta_documents ?ft) \<le> 9" by (simp_all add: av_documents_def meta_documents_def)
  obtain ov where ov: "write_documents ?av (replicate 9 (Wrote 1000)) = (Inr (), ov, replicate (9 - length ?av) (Wrote 1000))"
    using write_documents_whole [OF _ len(1)] av_documents_control by blast
  obtain oa where oa: "write_documents (meta_documents ?ft) (replicate 9 (Wrote 1000)) =
      (Inr (), oa, replicate (9 - length (meta_documents ?ft)) (Wrote 1000))"
    using write_documents_whole [OF _ len(2)] meta_documents_control by blast
  have "open_video open_network [?e] receiver_config_default = Inr ov"
    unfolding open_video_def open_network_def send_subscriptions_def using first ov by simp
  moreover have "open_audio open_network [?e] receiver_config_default = Inr oa"
    unfolding open_audio_def open_network_def send_subscriptions_def using first oa by simp
  moreover have "want_video ?ft" "want_audio ?ft"
    by (simp_all add: want_video_def want_audio_def receiver_config_default_def ft_contains_def ft_bitor_def ft_defs)
  moreover have "spawn_all (ce_spawn open_network) (session_threads receiver_config_default) = Inr ()"
    by (simp add: session_threads_def open_network_def)
  ultimately show ?thesis using url es by (auto simp: connect_with_addresses_def)
qed

theorem connect_subscribes_witness:
  "\<exists>s ov oa. connect_with_addresses open_network ''omt://127.0.0.1:6400/Cam'' [] receiver_config_default = Some (Inr (s, ov, oa)) \<and>
     ps_video (combined_subscription QDefault [(1, subscribed_peer ref_xml (map (\<lambda>b. [b]) ov)), (2, subscribed_peer ref_xml (map (\<lambda>b. [b]) oa))])"
proof -
  from open_network_connects obtain s ov oa
    where c: "connect_with_addresses open_network ''omt://127.0.0.1:6400/Cam'' [] receiver_config_default = Some (Inr (s, ov, oa))" by blast
  have "concat (map (\<lambda>b. [b]) bs) = bs" for bs :: bytes by (induction bs) simp_all
  from connect_subscribes [OF ref_xml_reads c this this _ _ refl] c show ?thesis
    by (auto simp: receiver_config_default_def ft_contains_def ft_bitor_def ft_defs)
qed

definition listening_sender :: "bytes sender" where
  "listening_sender = set_sender_info (sender_info_new ''Cam'' [] []) (new_sender (True, True) (0, 0) ''Cam'' FT_VIDEO sender_config_default True 6400)"

definition byte_polls :: "nat \<Rightarrow> bytes \<Rightarrow> (nat \<Rightarrow> read_result) list" where
  "byte_polls pid bs = map (\<lambda>b i. if i = pid then ReadOk [b] else ReadErr WouldBlock []) bs"

lemma byte_polls_read:
  "chunks_read pid (byte_polls pid bs) = map (\<lambda>b. [b]) bs" "pid' \<noteq> pid \<Longrightarrow> chunks_read pid' (byte_polls pid bs) = []"
  "reads \<in> set (byte_polls pid bs) \<Longrightarrow> live_read (reads pid')"
  by (induction bs) (auto simp: byte_polls_def chunks_read_def live_read_def)

lemma chunks_read_append: "chunks_read pid (xs @ ys) = chunks_read pid xs @ chunks_read pid ys"
  by (simp add: chunks_read_def)


lemma obtain_stream_keeps:
  "obtain_stream vd endpoints config a su r = (p, su', r') \<Longrightarrow> rs_preview r' = rs_preview r \<and> rs_quality r' = rs_quality r"
  by (auto simp: obtain_stream_def set_state_def bump_reconnect_def Let_def split: if_splits sum.splits)

text \<open>C15: A reconnect restores what the application last asked for, not what the session was connected with: after the
  preview mode and the quality were changed, the documents written on a new connection, in chunks of any size,
  put the sender's peer into the state with the new preview mode and the new quality.\<close>

theorem reconnect_restores_subscription:
  assumes "reads_xml rox" "s' = snd (set_suggested_quality q (snd (set_preview p s)))"
    "obtain_stream vd endpoints config a su (se_rx s') = (Stream, su', r)"
    "subscribe_socket clone ws config (RoleVideo decode_audio) r = (Inr (), out)"
    "concat chunks = out" "\<forall>c \<in> set chunks. length c \<le> 32768" "ft_contains (rc_frame_types config) FT_VIDEO"
  shows "subscribed_peer rox chunks =
    \<lparr>pe_state = \<lparr>ps_video = True, ps_audio = (decode_audio \<and> ft_contains (rc_frame_types config) FT_AUDIO), ps_metadata = True,
       ps_preview = p, ps_quality = q, ps_tally = tally_new 0 0\<rparr>, pe_inbound = [], pe_wire = []\<rparr>"
proof -
  let ?docs = "av_documents (rc_frame_types config) q p decode_audio"
  have "rs_preview (se_rx s') = p" "rs_quality (se_rx s') = quality_i32 q"
    unfolding assms(2) by (simp_all add: set_suggested_quality_def set_preview_def receiver_send_metadata_def)
  with obtain_stream_keeps [OF assms(3)] have "rs_preview r = p" "rs_quality r = quality_i32 q" by simp_all
  with assms(4) have "out = concat (map (\<lambda>xml. assembled_to_bytes (control_frame 0 xml)) ?docs)"
    by (auto simp: subscribe_socket_def dest!: send_subscriptions_out split: sum.splits prod.splits)
  with assms(5) have "fold (ingest_chunk rox) chunks (peer_state_default, []) = (fold (apply_metadata rox) ?docs peer_state_default, [])"
    by (intro documents_ingested [OF _ _ assms(6)]) (use av_documents_control in \<open>auto split: if_splits\<close>)
  then have "subscribed_peer rox chunks = \<lparr>pe_state = fold (apply_metadata rox) ?docs peer_state_default, pe_inbound = [], pe_wire = []\<rparr>"
    by (simp add: subscribed_peer_def)
  then show ?thesis unfolding av_documents_effect [OF assms(1)] using assms(7) by (simp add: peer_state_default_def)
qed

definition idle_session :: session where
  "idle_session = \<lparr>se_address = ''omt://127.0.0.1:6400/Cam'', se_config = receiver_config_default,
     se_rx = receiver_new receiver_config_default, se_can_send_metadata = True\<rparr>"

definition accepted_attempt :: attempt where
  "accepted_attempt = refused_attempt\<lparr>at_dial := (\<lambda>_. Inr ())\<rparr>"

theorem reconnect_restores_subscription_witness:
  "\<exists>out. subscribe_socket (Inr ()) (replicate 9 (Wrote 1000)) receiver_config_default (RoleVideo False)
       (snd (snd (obtain_stream (\<lambda>_. []) [\<lparr>ep_ip = V4 10 0 0 7, ep_port = 6400\<rparr>] receiver_config_default accepted_attempt
          \<lparr>su_backoff = 250, su_use_primed = False, su_primed = False\<rparr> (se_rx (snd (set_suggested_quality High (snd (set_preview True idle_session)))))))) =
       (Inr (), out) \<and>
     ps_preview (pe_state (subscribed_peer ref_xml (map (\<lambda>b. [b]) out))) \<and> ps_quality (pe_state (subscribed_peer ref_xml (map (\<lambda>b. [b]) out))) = High"
proof -
  let ?s = "snd (set_suggested_quality High (snd (set_preview True idle_session)))"
  let ?es = "[\<lparr>ep_ip = V4 10 0 0 7, ep_port = 6400\<rparr>]" and ?su = "\<lparr>su_backoff = 250, su_use_primed = False, su_primed = False\<rparr>"
  obtain su' r where o: "obtain_stream (\<lambda>_. []) ?es receiver_config_default accepted_attempt ?su (se_rx ?s) = (Stream, su', r)"
    by (simp add: obtain_stream_def accepted_attempt_def refused_attempt_def connect_first_def Let_def)
  have v: "ft_contains (rc_frame_types receiver_config_default) FT_VIDEO"
    by (simp add: receiver_config_default_def ft_contains_def ft_bitor_def ft_defs)
  let ?docs = "av_documents (rc_frame_types receiver_config_default) (quality_from_i32 (rs_quality r)) (rs_preview r) False"
  have "length ?docs \<le> 9" by (simp add: av_documents_def)
  then obtain out where "write_documents ?docs (replicate 9 (Wrote 1000)) = (Inr (), out, replicate (9 - length ?docs) (Wrote 1000))"
    using write_documents_whole [of ?docs 9] av_documents_control by blast
  then have sub: "subscribe_socket (Inr ()) (replicate 9 (Wrote 1000)) receiver_config_default (RoleVideo False) r = (Inr (), out)"
    by (simp add: subscribe_socket_def send_subscriptions_def)
  have "concat (map (\<lambda>b. [b]) out) = out" by (induction out) simp_all
  from reconnect_restores_subscription [OF ref_xml_reads refl o sub this _ v] sub o show ?thesis by simp
qed

section \<open>Audio from samples to samples\<close>

text \<open>C5: Audio travels from the sender's samples to the receiver's samples. Whatever planar frames a sender assembles
  (within the limits of the protocol), if their bytes reach the receiver cut into arbitrary chunks and its audio
  queue has room, the audio reader queues exactly one decoded frame per frame sent, in order, with the geometry
  and bit for bit the samples the sender was given, silent channels included, and drops none.\<close>

theorem audio_end_to_end:
  assumes "\<forall>m \<in> set ms. pcm_frame m" "list_all2 built_from ms fs" "concat chunks = concat (map assembled_to_bytes fs)"
    "\<forall>c \<in> set chunks. c \<noteq> [] \<and> length c \<le> NETWORK_RECEIVE_MAX_TRANSFER"
    "length fs + length chunks \<le> length turns" "\<forall>t \<in> set turns. tn_others t = (\<lambda>r. r)" "\<not> rs_stop r" "room (rx_audio r) (length ms)"
  shows "\<exists>l r' ds. audio_reader_loop grow vd turns (audio_loop_new grow (map ReadOk chunks)) r = Some (True, l, r') \<and>
    sy_items (rx_audio r') = sy_items (rx_audio r) @ ds \<and> list_all2 same_samples ms ds \<and>
    ss_frames_dropped_audio (rs_stats r') = ss_frames_dropped_audio (rs_stats r)"
proof -
  have frames: "list_all2 audio_frame_of ms fs"
    using assms(2,1) by (induction rule: list_all2_induct) (simp_all add: audio_frame_of_def)
  have ok: "\<forall>f \<in> set fs. travels f" using list_all2_source [OF frames] audio_frame_of_travels(1) by blast
  obtain ds where ds: "list_all2 decodes_to fs ds" "list_all2 same_samples ms ds" by (rule decoded_samples [OF frames])
  have "room (rx_audio r) (length fs)" using assms(8) list_all2_lengthD [OF assms(2)] by simp
  from audio_reader_stream [OF ok assms(4,3,5-7) this ds(1), of grow vd] ds(2) show ?thesis by metis
qed

theorem audio_end_to_end_witness:
  "\<exists>f l r' d. built_from sample_audio f \<and>
     audio_reader_loop (\<lambda>n. n) (\<lambda>_. []) (replicate (Suc (length (assembled_to_bytes f))) quiet_turn)
       (audio_loop_new (\<lambda>n. n) (map ReadOk (map (\<lambda>b. [b]) (assembled_to_bytes f))))
       (receiver_new receiver_config_default) = Some (True, l, r') \<and>
     sy_items (rx_audio r') = [d] \<and> da_pcm_planar_f32 d = [1, 2, 3, 4, 0, 0, 0, 0]"
proof -
  note m = sample_audio_facts
  obtain f where b: "built_from sample_audio f" using sample_audio_assembles unfolding built_from_def by metis
  let ?b = "assembled_to_bytes f" and ?r = "receiver_new receiver_config_default"
  have "concat (map (\<lambda>b. [b]) bs) = bs" for bs :: bytes by (induction bs) simp_all
  then have "concat (map (\<lambda>b. [b]) ?b) = concat (map assembled_to_bytes [f])" by simp
  moreover have "\<forall>c \<in> set (map (\<lambda>b. [b]) ?b). c \<noteq> [] \<and> length c \<le> NETWORK_RECEIVE_MAX_TRANSFER"
    by (simp add: NETWORK_RECEIVE_MAX_TRANSFER_def)
  moreover have "\<not> rs_stop ?r" "room (rx_audio ?r) (length [sample_audio])" "sy_items (rx_audio ?r) = []"
    by (simp_all add: receiver_new_def room_def sync_channel_new_def AUDIO_Q_def)
  moreover have "\<forall>t \<in> set (replicate (Suc (length ?b)) quiet_turn). tn_others t = (\<lambda>r. r)"
    by (simp add: quiet_turn_def del: length_assembled)
  moreover have "length [f] + length (map (\<lambda>b. [b]) ?b) \<le> length (replicate (Suc (length ?b)) quiet_turn)"
    by (simp del: length_assembled)
  ultimately obtain l r' ds where "audio_reader_loop (\<lambda>n. n) (\<lambda>_. []) (replicate (Suc (length ?b)) quiet_turn)
      (audio_loop_new (\<lambda>n. n) (map ReadOk (map (\<lambda>b. [b]) ?b))) ?r = Some (True, l, r')" "sy_items (rx_audio r') = ds" "list_all2 same_samples [sample_audio] ds"
    using audio_end_to_end [of "[sample_audio]" "[f]" "map (\<lambda>b. [b]) ?b" "replicate (Suc (length ?b)) quiet_turn" ?r "\<lambda>n. n" "\<lambda>_. []"] m(6) b
    by (auto simp del: length_assembled map_map)
  moreover from this(3) obtain d where "ds = [d]" "da_pcm_planar_f32 d = [1, 2, 3, 4, 0, 0, 0, 0]"
    by (auto simp: list_all2_Cons1 same_samples_def m)
  ultimately show ?thesis using b by (simp del: length_assembled map_map) blast
qed

end
